(* ===== verification/Tin_Prelude.thy ===== *)
theory Tin_Prelude
  imports Main "HOL-Library.Word" "HOL-Library.Monad_Syntax"
begin

text \<open>
  Shared vocabulary of the development: the machine integer types of the compiler's sources
  (\<^verbatim>\<open>u8\<close>, \<^verbatim>\<open>i32\<close>, \<^verbatim>\<open>i64\<close> of include/pch.h), the collections of rewrite rules that the
  component theories fill, and the facts about lists, words and the option monad that more
  than one component uses.

  Conventions used everywhere.  A function of the source that may have undefined behaviour
  (a dereferenced null pointer, an access outside an array) or that may not return is a
  function into \<open>option\<close>; \<open>None\<close> is that failure, and the theorems say where it cannot
  happen.  The \<open>do\<close> notation is the library's for \<open>option\<close>: the state is passed and
  returned explicitly.  Errors the source handles itself (a null result, a report to the
  user) are ordinary values.  A C++ \<^verbatim>\<open>int\<close> that only counts or adds sizes is an \<open>int\<close>
  (signed overflow is undefined in C++); a value stored in the bytecode or in a register of
  the virtual machine is a word of its width.
\<close>

unbundle bit_operations_syntax

type_synonym u8 = "8 word"
type_synonym i32 = "32 word"
type_synonym i64 = "64 word"
type_synonym f32 = "32 word" \<comment> \<open>the bit pattern of a C++ \<open>float\<close>\<close>

named_theorems piece_simps \<open>how an emission changes the fields of a piece\<close>
named_theorems stack_simps \<open>how an operation moves the virtual stack pointer\<close>
named_theorems frame_simps \<open>fields that an operation leaves alone\<close>

section \<open>Lists\<close>

text \<open>\<open>std::vector::resize\<close>: cut, or fill with default values.\<close>

definition vec_resize :: "nat \<Rightarrow> 'a \<Rightarrow> 'a list \<Rightarrow> 'a list" where
  "vec_resize n d xs = take n xs @ replicate (n - length xs) d"

lemma length_vec_resize [simp]: "length (vec_resize n d xs) = n"
  by (simp add: vec_resize_def)

lemma nth_vec_resize: "i < n \<Longrightarrow> i < length xs \<Longrightarrow> vec_resize n d xs ! i = xs ! i"
  by (simp add: vec_resize_def nth_append)

text \<open>An element read through a signed index, as the sources do; out of range is \<open>None\<close>.\<close>

definition nth_opt :: "'a list \<Rightarrow> nat \<Rightarrow> 'a option" where
  "nth_opt xs i = (if i < length xs then Some (xs ! i) else None)"

lemma nth_opt_Some [simp]: "nth_opt xs i = Some x \<longleftrightarrow> i < length xs \<and> x = xs ! i"
  by (auto simp: nth_opt_def)

lemma nth_opt_None [simp]: "nth_opt xs i = None \<longleftrightarrow> length xs \<le> i"
  by (auto simp: nth_opt_def)

lemma nth_opt_less [simp]: "i < length xs \<Longrightarrow> nth_opt xs i = Some (xs ! i)"
  by (simp add: nth_opt_def)

lemma nth_append_left [simp]: "i < length xs \<Longrightarrow> (xs @ ys) ! i = xs ! i"
  by (simp add: nth_append)

lemma last_index_lt: "xs \<noteq> [] \<Longrightarrow> length xs - 1 < length xs"
  by (cases xs) auto

section \<open>Words\<close>

text \<open>A 32-bit value read as a C++ \<open>int\<close>, and widened to a 64-bit register.\<close>

definition int_of_i32 :: "i32 \<Rightarrow> int" where
  "int_of_i32 w = sint w"

definition i64_of_i32 :: "i32 \<Rightarrow> i64" where
  "i64_of_i32 w = scast w"

definition fits_i32 :: "int \<Rightarrow> bool" where
  "fits_i32 i \<longleftrightarrow> - (2 ^ 31) \<le> i \<and> i < 2 ^ 31"

lemma sint_word_of_int_32:
  "- (2 ^ 31) \<le> i \<Longrightarrow> i < 2 ^ 31 \<Longrightarrow> sint (word_of_int i :: i32) = i"
  by (simp add: sint_sbintrunc' signed_take_bit_int_eq_self)

lemma int_of_i32_word_of_int: "fits_i32 i \<Longrightarrow> int_of_i32 (word_of_int i) = i"
  by (simp add: fits_i32_def int_of_i32_def sint_word_of_int_32)

lemma i64_of_i32_word_of_int: "fits_i32 i \<Longrightarrow> i64_of_i32 (word_of_int i) = word_of_int i"
  by (simp add: fits_i32_def i64_of_i32_def scast_eq sint_word_of_int_32)

text \<open>Rounding a size up to a multiple of a power of two, as \<open>(x + (a-1)) & ~(a-1)\<close> does.\<close>

definition align_up :: "int \<Rightarrow> int \<Rightarrow> int" where
  "align_up a x = (x + (a - 1)) AND NOT (a - 1)"

lemma align_up_eq: "align_up (2 ^ k) x = (x + 2 ^ k - 1) div 2 ^ k * 2 ^ k"
proof -
  have m: "(2 ^ k - 1 :: int) = mask k"
    by (simp add: mask_eq_exp_minus_1)
  have "align_up (2 ^ k) x = (x + mask k) AND NOT (mask k)"
    by (simp add: align_up_def m)
  also have "\<dots> = push_bit k (drop_bit k (x + mask k))"
    by (rule bit_eqI) (auto simp: bit_simps)
  also have "\<dots> = (x + 2 ^ k - 1) div 2 ^ k * 2 ^ k"
    by (simp add: push_bit_eq_mult drop_bit_eq_div mask_eq_exp_minus_1 algebra_simps)
  finally show ?thesis .
qed

end
