(* ===== verification/Bytecode.thy ===== *)
theory Bytecode
  imports Tin_Prelude
begin

text \<open>
  include/Bytecode.h and src/Bytecode.cpp: the instruction set, the encoding of an instruction
  as four bytes, the emission functions of \<^verbatim>\<open>BytecodePiece\<close> (with the removal of a redundant
  push/pop pair), the patching of jumps and relocations, and the global data of \<^verbatim>\<open>Bytecode\<close>.
  The debug lines are part of a piece, as they are in the default build.  A pointer to an
  \<^verbatim>\<open>ASTFunction\<close> is the index of the function in the table of the AST.
\<close>

section \<open>Opcodes and registers\<close>

datatype Opcode =
    INST_HALT | INST_NOP
  | INST_CAST | INST_MOV_RR | INST_MOV_MR | INST_MOV_RM
  | INST_PUSH | INST_POP | INST_INCR
  | INST_ADD | INST_SUB | INST_MUL | INST_DIV | INST_AND | INST_OR | INST_NOT
  | INST_EQUAL | INST_NOT_EQUAL | INST_LESS | INST_GREATER | INST_LESS_EQUAL | INST_GREATER_EQUAL
  | INST_RET | INST_MEMZERO
  | INST_LI | INST_JMP | INST_JZ | INST_CALL
  | INST_MOV_MR_DISP | INST_MOV_RM_DISP | INST_DATAPTR

definition all_opcodes :: "Opcode list" where
  "all_opcodes =
    [INST_HALT, INST_NOP, INST_CAST, INST_MOV_RR, INST_MOV_MR, INST_MOV_RM,
     INST_PUSH, INST_POP, INST_INCR,
     INST_ADD, INST_SUB, INST_MUL, INST_DIV, INST_AND, INST_OR, INST_NOT,
     INST_EQUAL, INST_NOT_EQUAL, INST_LESS, INST_GREATER, INST_LESS_EQUAL, INST_GREATER_EQUAL,
     INST_RET, INST_MEMZERO,
     INST_LI, INST_JMP, INST_JZ, INST_CALL, INST_MOV_MR_DISP, INST_MOV_RM_DISP, INST_DATAPTR]"

primrec opcode_num :: "Opcode \<Rightarrow> nat" where
  "opcode_num INST_HALT = 0" | "opcode_num INST_NOP = 1" | "opcode_num INST_CAST = 2"
| "opcode_num INST_MOV_RR = 3" | "opcode_num INST_MOV_MR = 4" | "opcode_num INST_MOV_RM = 5"
| "opcode_num INST_PUSH = 6" | "opcode_num INST_POP = 7" | "opcode_num INST_INCR = 8"
| "opcode_num INST_ADD = 9" | "opcode_num INST_SUB = 10" | "opcode_num INST_MUL = 11"
| "opcode_num INST_DIV = 12" | "opcode_num INST_AND = 13" | "opcode_num INST_OR = 14"
| "opcode_num INST_NOT = 15" | "opcode_num INST_EQUAL = 16" | "opcode_num INST_NOT_EQUAL = 17"
| "opcode_num INST_LESS = 18" | "opcode_num INST_GREATER = 19"
| "opcode_num INST_LESS_EQUAL = 20" | "opcode_num INST_GREATER_EQUAL = 21"
| "opcode_num INST_RET = 22" | "opcode_num INST_MEMZERO = 23" | "opcode_num INST_LI = 24"
| "opcode_num INST_JMP = 25" | "opcode_num INST_JZ = 26" | "opcode_num INST_CALL = 27"
| "opcode_num INST_MOV_MR_DISP = 28" | "opcode_num INST_MOV_RM_DISP = 29"
| "opcode_num INST_DATAPTR = 30"

definition opcode_byte :: "Opcode \<Rightarrow> u8" where
  "opcode_byte c = of_nat (opcode_num c)"

text \<open>An opcode byte that is none of the enumerators is \<open>None\<close>.\<close>

definition opcode_of_byte :: "u8 \<Rightarrow> Opcode option" where
  "opcode_of_byte b = nth_opt all_opcodes (unat b)"

lemma all_opcodes_nth: "all_opcodes ! opcode_num c = c"
  by (cases c) (simp_all add: all_opcodes_def)

lemma opcode_num_inject [simp]: "opcode_num a = opcode_num b \<longleftrightarrow> a = b"
  by (metis all_opcodes_nth)

text \<open>\<^verbatim>\<open>inst.opcode >= INST_IMMEDIATES\<close> compares enumerators: the order of their numbers.\<close>

instantiation Opcode :: linorder
begin

definition less_eq_Opcode :: "Opcode \<Rightarrow> Opcode \<Rightarrow> bool" where
  "less_eq_Opcode a b \<longleftrightarrow> opcode_num a \<le> opcode_num b"

definition less_Opcode :: "Opcode \<Rightarrow> Opcode \<Rightarrow> bool" where
  "less_Opcode a b \<longleftrightarrow> opcode_num a < opcode_num b"

instance
  by standard (auto simp: less_eq_Opcode_def less_Opcode_def)

end

lemma opcode_of_byte_byte [simp]: "opcode_of_byte (opcode_byte c) = Some c"
  by (cases c) (simp_all add: opcode_of_byte_def opcode_byte_def all_opcodes_def)

lemma opcode_byte_inject [simp]: "opcode_byte a = opcode_byte b \<longleftrightarrow> a = b"
  by (metis opcode_of_byte_byte option.inject)

datatype Register =
    REG_INVALID | REG_A | REG_B | REG_C | REG_D | REG_E | REG_F
  | REG_SP | REG_BP | REG_PC | REG_T0 | REG_T1

primrec reg_num :: "Register \<Rightarrow> nat" where
  "reg_num REG_INVALID = 0" | "reg_num REG_A = 1" | "reg_num REG_B = 2" | "reg_num REG_C = 3"
| "reg_num REG_D = 4" | "reg_num REG_E = 5" | "reg_num REG_F = 6" | "reg_num REG_SP = 7"
| "reg_num REG_BP = 8" | "reg_num REG_PC = 9" | "reg_num REG_T0 = 10" | "reg_num REG_T1 = 11"

definition all_registers :: "Register list" where
  "all_registers =
    [REG_INVALID, REG_A, REG_B, REG_C, REG_D, REG_E, REG_F, REG_SP, REG_BP, REG_PC, REG_T0, REG_T1]"

lemma all_registers_nth: "all_registers ! reg_num r = r"
  by (cases r) (simp_all add: all_registers_def)

definition REG_COUNT :: nat where
  "REG_COUNT = 12"

definition reg_byte :: "Register \<Rightarrow> u8" where
  "reg_byte r = of_nat (reg_num r)"

lemma reg_num_less: "reg_num r < REG_COUNT"
  by (cases r) (simp_all add: REG_COUNT_def)

lemma unat_reg_byte [simp]: "unat (reg_byte r) = reg_num r"
  by (cases r) (simp_all add: reg_byte_def)

lemma reg_byte_inject [simp]: "reg_byte a = reg_byte b \<longleftrightarrow> a = b"
proof
  assume "reg_byte a = reg_byte b"
  then have "reg_num a = reg_num b"
    by (metis unat_reg_byte)
  then show "a = b"
    by (metis all_registers_nth)
qed simp

definition CONTROL_NONE :: u8 where "CONTROL_NONE = 0"
definition CONTROL_1B :: u8 where "CONTROL_1B = 1"
definition CONTROL_FLOAT :: u8 where "CONTROL_FLOAT = 16"

datatype CastType = CAST_FLOAT_INT | CAST_INT_FLOAT

primrec cast_byte :: "CastType \<Rightarrow> u8" where
  "cast_byte CAST_FLOAT_INT = 0" | "cast_byte CAST_INT_FLOAT = 1"

datatype NativeCalls =
    NATIVE_printi | NATIVE_printf | NATIVE_printc | NATIVE_prints | NATIVE_malloc | NATIVE_mfree
  | NATIVE_memcpy | NATIVE_pow | NATIVE_sqrt | NATIVE_read_file | NATIVE_write_file

definition all_natives :: "NativeCalls list" where
  "all_natives =
    [NATIVE_printi, NATIVE_printf, NATIVE_printc, NATIVE_prints, NATIVE_malloc, NATIVE_mfree,
     NATIVE_memcpy, NATIVE_pow, NATIVE_sqrt, NATIVE_read_file, NATIVE_write_file]"

definition NATIVE_MAX :: int where
  "NATIVE_MAX = 11"

primrec native_num :: "NativeCalls \<Rightarrow> int" where
  "native_num NATIVE_printi = 0" | "native_num NATIVE_printf = 1" | "native_num NATIVE_printc = 2"
| "native_num NATIVE_prints = 3" | "native_num NATIVE_malloc = 4" | "native_num NATIVE_mfree = 5"
| "native_num NATIVE_memcpy = 6" | "native_num NATIVE_pow = 7" | "native_num NATIVE_sqrt = 8"
| "native_num NATIVE_read_file = 9" | "native_num NATIVE_write_file = 10"

primrec native_names :: "NativeCalls \<Rightarrow> string" where
  "native_names NATIVE_printi = ''printi''" | "native_names NATIVE_printf = ''printf''"
| "native_names NATIVE_printc = ''printc''" | "native_names NATIVE_prints = ''prints''"
| "native_names NATIVE_malloc = ''malloc''" | "native_names NATIVE_mfree = ''mfree''"
| "native_names NATIVE_memcpy = ''memcpy''" | "native_names NATIVE_pow = ''pow''"
| "native_names NATIVE_sqrt = ''sqrt''" | "native_names NATIVE_read_file = ''read_file''"
| "native_names NATIVE_write_file = ''write_file''"

section \<open>An instruction and its four bytes\<close>

record Instruction =
  opcode :: u8
  op0 :: u8
  op1 :: u8
  op2 :: u8

definition inst :: "Opcode \<Rightarrow> u8 \<Rightarrow> u8 \<Rightarrow> u8 \<Rightarrow> Instruction" where
  "inst c a b d = \<lparr>opcode = opcode_byte c, op0 = a, op1 = b, op2 = d\<rparr>"

lemma inst_sel [simp]:
  "opcode (inst c a b d) = opcode_byte c" "op0 (inst c a b d) = a"
  "op1 (inst c a b d) = b" "op2 (inst c a b d) = d"
  by (simp_all add: inst_def)

text \<open>\<^verbatim>\<open>*(Instruction*)&imm\<close> and \<^verbatim>\<open>*(int*)&instructions[i]\<close> on a little-endian machine.\<close>

definition inst_of_cell :: "i32 \<Rightarrow> Instruction" where
  "inst_of_cell w =
    \<lparr>opcode = ucast w, op0 = ucast (drop_bit 8 w), op1 = ucast (drop_bit 16 w),
     op2 = ucast (drop_bit 24 w)\<rparr>"

definition cell_of_inst :: "Instruction \<Rightarrow> i32" where
  "cell_of_inst i =
    ucast (opcode i) OR push_bit 8 (ucast (op0 i)) OR push_bit 16 (ucast (op1 i))
      OR push_bit 24 (ucast (op2 i))"

lemma cell_of_inst_of_cell [simp]: "cell_of_inst (inst_of_cell w) = w"
proof (rule bit_word_eqI)
  fix n
  assume "n < LENGTH(32)"
  then have "n < 8 \<or> (8 \<le> n \<and> n < 16) \<or> (16 \<le> n \<and> n < 24) \<or> (24 \<le> n \<and> n < 32)"
    by auto
  then show "bit (cell_of_inst (inst_of_cell w)) n = bit w n"
    by (auto simp: cell_of_inst_def inst_of_cell_def bit_simps)
qed

text \<open>Whether the instruction is followed by an immediate: \<^verbatim>\<open>inst.opcode >= INST_IMMEDIATES\<close>.\<close>

definition has_immediate :: "Instruction \<Rightarrow> bool" where
  "has_immediate i \<longleftrightarrow> opcode_num INST_LI \<le> unat (opcode i)"

lemma has_immediate_inst [simp]: "has_immediate (inst c a b d) \<longleftrightarrow> INST_LI \<le> c"
  by (cases c) (simp_all add: has_immediate_def less_eq_Opcode_def opcode_byte_def)

section \<open>A piece of bytecode and its emission functions\<close>

record Relocation =
  rel_function :: "nat option"
  index_of_immediate :: nat

record BytecodePiece =
  piece_index :: int
  piece_name :: string
  instructions :: "Instruction list"
  line_of_instruction :: "int list"
  lines :: "(int \<times> string) list"
  virtual_sp :: int
  relocations :: "Relocation list"
  index_of_non_immediates :: "nat list"

definition new_piece :: BytecodePiece where
  "new_piece =
    \<lparr>piece_index = 0, piece_name = [], instructions = [], line_of_instruction = [], lines = [],
     virtual_sp = 0, relocations = [], index_of_non_immediates = []\<rparr>"

definition push_line :: "int \<Rightarrow> string \<Rightarrow> BytecodePiece \<Rightarrow> BytecodePiece" where
  "push_line line txt p = p\<lparr>lines := lines p @ [(line, txt)]\<rparr>"

definition get_pc :: "BytecodePiece \<Rightarrow> nat" where
  "get_pc p = length (instructions p)"

text \<open>\<^verbatim>\<open>lines.size()-1\<close> of an empty vector is stored in an \<open>int\<close> as \<open>-1\<close>.\<close>

definition emit :: "Instruction \<Rightarrow> BytecodePiece \<Rightarrow> BytecodePiece" where
  "emit i p =
    (let n = length (instructions p) in
     p\<lparr>index_of_non_immediates := index_of_non_immediates p @ [n],
       instructions := instructions p @ [i],
       line_of_instruction :=
         (vec_resize (Suc n) 0 (line_of_instruction p))[n := int (length (lines p)) - 1]\<rparr>)"

definition emit_imm :: "int \<Rightarrow> BytecodePiece \<Rightarrow> BytecodePiece" where
  "emit_imm imm p = p\<lparr>instructions := instructions p @ [inst_of_cell (word_of_int imm)]\<rparr>"

definition pop_last_inst :: "BytecodePiece \<Rightarrow> BytecodePiece" where
  "pop_last_inst p =
    (if index_of_non_immediates p = [] then p
     else p\<lparr>index_of_non_immediates := butlast (index_of_non_immediates p),
            instructions := take (last (index_of_non_immediates p)) (instructions p)\<rparr>)"

definition emit_li :: "Register \<Rightarrow> int \<Rightarrow> BytecodePiece \<Rightarrow> BytecodePiece" where
  "emit_li reg imm p = emit_imm imm (emit (inst INST_LI (reg_byte reg) 0 0) p)"

definition emit_push :: "Register \<Rightarrow> BytecodePiece \<Rightarrow> BytecodePiece" where
  "emit_push r0 p =
    (let q = emit (inst INST_PUSH (reg_byte r0) 0 0) p in q\<lparr>virtual_sp := virtual_sp q - 8\<rparr>)"

text \<open>A pop right after a push of the same register removes the push instead.\<close>

definition emit_pop :: "Register \<Rightarrow> BytecodePiece \<Rightarrow> BytecodePiece" where
  "emit_pop r0 p =
    (let q = p\<lparr>virtual_sp := virtual_sp p + 8\<rparr> in
     if index_of_non_immediates q \<noteq> []
        \<and> opcode (instructions q ! last (index_of_non_immediates q)) = opcode_byte INST_PUSH
        \<and> op0 (instructions q ! last (index_of_non_immediates q)) = reg_byte r0
     then pop_last_inst q
     else emit (inst INST_POP (reg_byte r0) 0 0) q)"

text \<open>
  The immediate of \<^verbatim>\<open>INST_INCR\<close> is kept in two bytes: the low byte in \<^verbatim>\<open>op1\<close> and the byte
  above it, cut to eight bits by the cast to \<^verbatim>\<open>Register\<close>, in \<^verbatim>\<open>op2\<close>.
\<close>

definition incr_low :: "int \<Rightarrow> u8" where
  "incr_low imm = word_of_int (imm AND 0xFF)"

definition incr_high :: "int \<Rightarrow> u8" where
  "incr_high imm = word_of_int (drop_bit 8 imm)"

definition emit_incr :: "Register \<Rightarrow> int \<Rightarrow> BytecodePiece \<Rightarrow> BytecodePiece" where
  "emit_incr reg imm p =
    (let q = emit (inst INST_INCR (reg_byte reg) (incr_low imm) (incr_high imm)) p in
     if reg = REG_SP then q\<lparr>virtual_sp := virtual_sp q + imm\<rparr> else q)"

definition emit_cast :: "Register \<Rightarrow> CastType \<Rightarrow> BytecodePiece \<Rightarrow> BytecodePiece" where
  "emit_cast reg castType p = emit (inst INST_CAST (reg_byte reg) (cast_byte castType) 0) p"

definition emit_mov_rr :: "Register \<Rightarrow> Register \<Rightarrow> BytecodePiece \<Rightarrow> BytecodePiece" where
  "emit_mov_rr r0 r1 p = emit (inst INST_MOV_RR (reg_byte r0) (reg_byte r1) 0) p"

definition emit_mov_mr :: "Register \<Rightarrow> Register \<Rightarrow> u8 \<Rightarrow> BytecodePiece \<Rightarrow> BytecodePiece" where
  "emit_mov_mr r0 r1 sz p = emit (inst INST_MOV_MR (reg_byte r0) (reg_byte r1) sz) p"

definition emit_mov_rm :: "Register \<Rightarrow> Register \<Rightarrow> u8 \<Rightarrow> BytecodePiece \<Rightarrow> BytecodePiece" where
  "emit_mov_rm r0 r1 sz p = emit (inst INST_MOV_RM (reg_byte r0) (reg_byte r1) sz) p"

definition emit_mov_mr_disp ::
  "Register \<Rightarrow> Register \<Rightarrow> u8 \<Rightarrow> int \<Rightarrow> BytecodePiece \<Rightarrow> BytecodePiece" where
  "emit_mov_mr_disp to_reg from_reg sz offset p =
    (if offset = 0 then emit_mov_mr to_reg from_reg sz p
     else emit_imm offset
            (emit (inst INST_MOV_MR_DISP (reg_byte to_reg) (reg_byte from_reg) sz) p))"

definition emit_mov_rm_disp ::
  "Register \<Rightarrow> Register \<Rightarrow> u8 \<Rightarrow> int \<Rightarrow> BytecodePiece \<Rightarrow> BytecodePiece" where
  "emit_mov_rm_disp to_reg from_reg sz offset p =
    (if offset = 0 then emit_mov_rm to_reg from_reg sz p
     else emit_imm offset
            (emit (inst INST_MOV_RM_DISP (reg_byte to_reg) (reg_byte from_reg) sz) p))"

text \<open>The three macros: an operation on two registers, with or without flags in \<^verbatim>\<open>op2\<close>.\<close>

definition emit2 :: "Opcode \<Rightarrow> Register \<Rightarrow> Register \<Rightarrow> BytecodePiece \<Rightarrow> BytecodePiece" where
  "emit2 c r0 r1 p = emit (inst c (reg_byte r0) (reg_byte r1) 0) p"

definition emit2f :: "Opcode \<Rightarrow> Register \<Rightarrow> Register \<Rightarrow> bool \<Rightarrow> BytecodePiece \<Rightarrow> BytecodePiece" where
  "emit2f c r0 r1 is_float p =
    emit (inst c (reg_byte r0) (reg_byte r1) (if is_float then CONTROL_FLOAT else CONTROL_NONE)) p"

definition emit2c ::
  "Opcode \<Rightarrow> Register \<Rightarrow> Register \<Rightarrow> int \<Rightarrow> bool \<Rightarrow> BytecodePiece \<Rightarrow> BytecodePiece" where
  "emit2c c r0 r1 sz is_float p =
    emit (inst c (reg_byte r0) (reg_byte r1)
      (word_of_int sz OR (if is_float then CONTROL_FLOAT else CONTROL_NONE))) p"

definition emit_add :: "Register \<Rightarrow> Register \<Rightarrow> bool \<Rightarrow> BytecodePiece \<Rightarrow> BytecodePiece" where
  "emit_add = emit2f INST_ADD"

definition emit_mul :: "Register \<Rightarrow> Register \<Rightarrow> bool \<Rightarrow> BytecodePiece \<Rightarrow> BytecodePiece" where
  "emit_mul = emit2f INST_MUL"

definition emit_not :: "Register \<Rightarrow> Register \<Rightarrow> BytecodePiece \<Rightarrow> BytecodePiece" where
  "emit_not = emit2 INST_NOT"

text \<open>A jump to a known position holds its distance from the immediate cell.\<close>

definition emit_jmp :: "int \<Rightarrow> BytecodePiece \<Rightarrow> BytecodePiece" where
  "emit_jmp pc p =
    (let q = emit (inst INST_JMP 0 0 0) p in emit_imm (pc - int (get_pc q)) q)"

definition emit_jmp_out :: "BytecodePiece \<Rightarrow> nat \<times> BytecodePiece" where
  "emit_jmp_out p =
    (let q = emit (inst INST_JMP 0 0 0) p in (get_pc q, emit_imm 0 q))"

definition emit_jz :: "Register \<Rightarrow> int \<Rightarrow> BytecodePiece \<Rightarrow> BytecodePiece" where
  "emit_jz reg pc p =
    (let q = emit (inst INST_JZ (reg_byte reg) 0 0) p in emit_imm (pc - int (get_pc q)) q)"

definition emit_jz_out :: "Register \<Rightarrow> BytecodePiece \<Rightarrow> nat \<times> BytecodePiece" where
  "emit_jz_out reg p =
    (let q = emit (inst INST_JZ (reg_byte reg) 0 0) p in (get_pc q, emit_imm 0 q))"

definition emit_dataptr :: "Register \<Rightarrow> int \<Rightarrow> BytecodePiece \<Rightarrow> BytecodePiece" where
  "emit_dataptr reg offset p = emit_imm offset (emit (inst INST_DATAPTR (reg_byte reg) 0 0) p)"

definition emit_call :: "BytecodePiece \<Rightarrow> nat \<times> BytecodePiece" where
  "emit_call p = (let q = emit (inst INST_CALL 0 0 0) p in (get_pc q, emit_imm 0 q))"

definition emit_ret :: "BytecodePiece \<Rightarrow> BytecodePiece" where
  "emit_ret p = emit (inst INST_RET 0 0 0) p"

definition emit_memzero :: "Register \<Rightarrow> Register \<Rightarrow> BytecodePiece \<Rightarrow> BytecodePiece" where
  "emit_memzero reg reg_size p = emit (inst INST_MEMZERO (reg_byte reg) (reg_byte reg_size) 0) p"

definition addRelocation :: "nat \<Rightarrow> nat \<Rightarrow> BytecodePiece \<Rightarrow> BytecodePiece" where
  "addRelocation f imm_index p =
    p\<lparr>relocations := relocations p @ [\<lparr>rel_function = Some f, index_of_immediate = imm_index\<rparr>]\<rparr>"

text \<open>A write through \<^verbatim>\<open>*(int*)&instructions[i]\<close>; outside the vector it is undefined.\<close>

definition set_cell :: "nat \<Rightarrow> int \<Rightarrow> Instruction list \<Rightarrow> Instruction list option" where
  "set_cell i v code =
    (if i < length code then Some (code[i := inst_of_cell (word_of_int v)]) else None)"

definition fix_jump_here :: "nat \<Rightarrow> BytecodePiece \<Rightarrow> BytecodePiece option" where
  "fix_jump_here imm_index p =
    do {
      code \<leftarrow> set_cell imm_index (int (get_pc p) - int imm_index) (instructions p);
      Some (p\<lparr>instructions := code\<rparr>)
    }"

section \<open>The bytecode: pieces and global data\<close>

text \<open>
  The buffer \<^verbatim>\<open>global_data\<close> is modelled by the bytes in use (\<^verbatim>\<open>global_data_size\<close> is their
  number) and its capacity \<^verbatim>\<open>global_data_max\<close>; the bytes between the two are never read.
\<close>

record Bytecode =
  global_data :: "u8 list"
  global_data_max :: nat
  string_map :: "string \<rightharpoonup> nat"
  pieces :: "BytecodePiece list"

definition new_bytecode :: Bytecode where
  "new_bytecode =
    \<lparr>global_data = [], global_data_max = 0, string_map = Map.empty, pieces = []\<rparr>"

definition createPiece :: "Bytecode \<Rightarrow> BytecodePiece \<times> Bytecode" where
  "createPiece b =
    (let p = new_piece\<lparr>piece_index := int (length (pieces b))\<rparr> in
     (p, b\<lparr>pieces := pieces b @ [p]\<rparr>))"

text \<open>The index is compared after its conversion to \<^verbatim>\<open>size_t\<close>: a negative one is too large.\<close>

definition getPiece :: "int \<Rightarrow> Bytecode \<Rightarrow> BytecodePiece option" where
  "getPiece index b = (if index < 0 then None else nth_opt (pieces b) (nat index))"

definition appendData :: "nat \<Rightarrow> u8 list option \<Rightarrow> Bytecode \<Rightarrow> nat \<times> Bytecode" where
  "appendData sz data b =
    (let off = length (global_data b);
         b1 = (if sz + off > global_data_max b
               then b\<lparr>global_data_max := global_data_max b * 2 + sz * 2\<rparr> else b);
         bytes = (case data of Some d \<Rightarrow> take sz d | None \<Rightarrow> replicate sz (of_char CHR ''_''))
     in (off, b1\<lparr>global_data := global_data b1 @ bytes\<rparr>))"

definition c_str :: "string \<Rightarrow> u8 list" where
  "c_str str = map of_char str @ [0]"

definition appendString :: "string \<Rightarrow> Bytecode \<Rightarrow> nat \<times> Bytecode" where
  "appendString str b =
    (case string_map b str of
       Some ptr \<Rightarrow> (ptr, b)
     | None \<Rightarrow>
         (let (off, b1) = appendData (length str + 1) (Some (c_str str)) b in
          (off, b1\<lparr>string_map := (string_map b1)(str \<mapsto> off)\<rparr>)))"

text \<open>The size and a copy of the data in use; the owner of the original does not change.\<close>

definition copyGlobalData :: "Bytecode \<Rightarrow> nat \<times> u8 list" where
  "copyGlobalData b = (length (global_data b), global_data b)"

text \<open>The table of strings is not emptied.\<close>

definition cleanup :: "Bytecode \<Rightarrow> Bytecode" where
  "cleanup b = b\<lparr>global_data := [], global_data_max := 0, pieces := []\<rparr>"

text \<open>
  The immediate of a call: the piece index plus one, or the negative number of a native
  function.  The argument is \<^verbatim>\<open>piece_code_index\<close> of each function.
\<close>

definition call_immediate :: "int \<Rightarrow> int" where
  "call_immediate code_index = (if code_index < 0 then code_index else code_index + 1)"

fun relocate ::
  "(nat \<Rightarrow> int) \<Rightarrow> Relocation list \<Rightarrow> Instruction list \<Rightarrow> Instruction list option" where
  "relocate pci [] code = Some code"
| "relocate pci (r # rs) code =
     (case rel_function r of
        None \<Rightarrow> relocate pci rs code
      | Some f \<Rightarrow>
          do {
            code' \<leftarrow> set_cell (index_of_immediate r) (call_immediate (pci f)) code;
            relocate pci rs code'
          })"

fun relocate_pieces :: "(nat \<Rightarrow> int) \<Rightarrow> BytecodePiece list \<Rightarrow> BytecodePiece list option" where
  "relocate_pieces pci [] = Some []"
| "relocate_pieces pci (p # ps) =
     do {
       code \<leftarrow> relocate pci (relocations p) (instructions p);
       qs \<leftarrow> relocate_pieces pci ps;
       Some (p\<lparr>instructions := code\<rparr> # qs)
     }"

definition apply_relocations :: "(nat \<Rightarrow> int) \<Rightarrow> Bytecode \<Rightarrow> Bytecode option" where
  "apply_relocations pci b =
    do {
      ps \<leftarrow> relocate_pieces pci (pieces b);
      Some (b\<lparr>pieces := ps\<rparr>)
    }"

section \<open>Instruction boundaries\<close>

text \<open>
  \<open>inst_layout i code l\<close>: reading \<open>code\<close> from position \<open>i\<close> the way the virtual machine does
  (an opcode with an immediate takes two cells) ends exactly at its end, and \<open>l\<close> lists the
  positions where the instructions start.
\<close>

inductive inst_layout :: "nat \<Rightarrow> Instruction list \<Rightarrow> nat list \<Rightarrow> bool" where
  layout_nil: "inst_layout i [] []"
| layout_plain: "\<not> has_immediate x \<Longrightarrow> inst_layout (Suc i) xs l \<Longrightarrow> inst_layout i (x # xs) (i # l)"
| layout_imm:
    "has_immediate x \<Longrightarrow> inst_layout (Suc (Suc i)) xs l \<Longrightarrow> inst_layout i (x # c # xs) (i # l)"

inductive_simps inst_layout_Nil [simp]: "inst_layout i [] l"
inductive_simps inst_layout_Cons: "inst_layout i (x # xs) l"
inductive_cases inst_layout_imm_cell: "inst_layout i (x # xs) (k # l)"

definition wf_piece :: "BytecodePiece \<Rightarrow> bool" where
  "wf_piece p \<longleftrightarrow> inst_layout 0 (instructions p) (index_of_non_immediates p)"

text \<open>Cell \<open>i\<close> is the immediate of the instruction before it.\<close>

definition imm_cell :: "nat \<Rightarrow> BytecodePiece \<Rightarrow> bool" where
  "imm_cell i p \<longleftrightarrow>
    0 < i \<and> i < length (instructions p) \<and> i - 1 \<in> set (index_of_non_immediates p)
    \<and> has_immediate (instructions p ! (i - 1))"

lemma inst_layout_append:
  "inst_layout i xs l \<Longrightarrow> inst_layout (i + length xs) ys m \<Longrightarrow> inst_layout i (xs @ ys) (l @ m)"
  by (induction rule: inst_layout.induct) (auto intro: inst_layout.intros)

lemma inst_layout_range: "inst_layout i xs l \<Longrightarrow> k \<in> set l \<Longrightarrow> i \<le> k \<and> k < i + length xs"
  by (induction rule: inst_layout.induct) auto

lemma inst_layout_sorted: "inst_layout i xs l \<Longrightarrow> sorted_wrt (<) l"
  by (induction rule: inst_layout.induct) (auto dest: inst_layout_range)

lemma inst_layout_butlast:
  "inst_layout i xs l \<Longrightarrow> l \<noteq> [] \<Longrightarrow> inst_layout i (take (last l - i) xs) (butlast l)"
proof (induction rule: inst_layout.induct)
  case (layout_plain x i xs l)
  show ?case
  proof (cases "l = []")
    case False
    with layout_plain have "Suc i \<le> last l"
      using inst_layout_range last_in_set by blast
    then obtain d where d: "last l = Suc i + d"
      using le_Suc_ex by blast
    with layout_plain False show ?thesis
      by (auto intro: inst_layout.layout_plain)
  qed simp
next
  case (layout_imm x i xs l c)
  show ?case
  proof (cases "l = []")
    case False
    with layout_imm have "Suc (Suc i) \<le> last l"
      using inst_layout_range last_in_set by blast
    then obtain d where d: "last l = Suc (Suc i) + d"
      using le_Suc_ex by blast
    with layout_imm False show ?thesis
      by (auto intro: inst_layout.layout_imm simp: Suc_diff_le)
  qed simp
qed simp

lemma inst_layout_update_imm:
  "inst_layout i xs l \<Longrightarrow> i + j \<in> set l \<Longrightarrow> has_immediate (xs ! j) \<Longrightarrow>
   inst_layout i (xs[Suc j := c]) l"
proof (induction arbitrary: j rule: inst_layout.induct)
  case (layout_plain x i xs l)
  then obtain j' where j: "j = Suc j'"
    by (cases j) auto
  with layout_plain have "Suc i + j' \<in> set l" by auto
  with layout_plain j show ?case
    by (auto intro: inst_layout.layout_plain)
next
  case (layout_imm x i xs l d)
  show ?case
  proof (cases "j = 0")
    case True
    with layout_imm show ?thesis
      by (auto intro: inst_layout.layout_imm)
  next
    case False
    with layout_imm have "i + j \<in> set l" by auto
    then have "Suc (Suc i) \<le> i + j"
      using layout_imm.hyps(2) inst_layout_range by blast
    then have "2 \<le> j" by simp
    then obtain j' where j: "j = Suc (Suc j')"
      by (metis add_2_eq_Suc le_Suc_ex)
    with layout_imm \<open>i + j \<in> set l\<close> show ?thesis
      by (auto intro: inst_layout.layout_imm)
  qed
qed simp

text \<open>An emission of one instruction, with its immediate when it has one, keeps the layout.\<close>

lemma emit_sel [piece_simps]:
  "instructions (emit x p) = instructions p @ [x]"
  "index_of_non_immediates (emit x p) = index_of_non_immediates p @ [length (instructions p)]"
  "virtual_sp (emit x p) = virtual_sp p"
  "relocations (emit x p) = relocations p"
  "piece_index (emit x p) = piece_index p"
  "lines (emit x p) = lines p"
  by (simp_all add: emit_def Let_def)

lemma emit_imm_sel [piece_simps]:
  "instructions (emit_imm v p) = instructions p @ [inst_of_cell (word_of_int v)]"
  "index_of_non_immediates (emit_imm v p) = index_of_non_immediates p"
  "virtual_sp (emit_imm v p) = virtual_sp p"
  "relocations (emit_imm v p) = relocations p"
  "piece_index (emit_imm v p) = piece_index p"
  "lines (emit_imm v p) = lines p"
  by (simp_all add: emit_imm_def)

lemma get_pc_emit [piece_simps]:
  "get_pc (emit x p) = Suc (get_pc p)" "get_pc (emit_imm v p) = Suc (get_pc p)"
  by (simp_all add: get_pc_def piece_simps)

lemma wf_piece_new: "wf_piece new_piece"
  by (simp add: wf_piece_def new_piece_def)

lemma wf_piece_cong:
  "instructions q = instructions p \<Longrightarrow> index_of_non_immediates q = index_of_non_immediates p \<Longrightarrow>
   wf_piece q = wf_piece p"
  by (simp add: wf_piece_def)

lemma wf_piece_emit: "wf_piece p \<Longrightarrow> \<not> has_immediate x \<Longrightarrow> wf_piece (emit x p)"
  unfolding wf_piece_def piece_simps
  by (rule inst_layout_append) (auto intro: inst_layout.intros)

lemma wf_piece_emit_imm:
  "wf_piece p \<Longrightarrow> has_immediate x \<Longrightarrow> wf_piece (emit_imm v (emit x p))"
  unfolding wf_piece_def piece_simps append_assoc
  by (rule inst_layout_append) (auto intro: inst_layout.intros)

lemma wf_piece_pop_last: "wf_piece p \<Longrightarrow> wf_piece (pop_last_inst p)"
  using inst_layout_butlast [of 0 "instructions p" "index_of_non_immediates p"]
  by (cases "index_of_non_immediates p = []") (simp_all add: wf_piece_def pop_last_inst_def)

lemma wf_piece_set_cell:
  assumes "wf_piece p" and "imm_cell i p" and "set_cell i v (instructions p) = Some code"
  shows "wf_piece (p\<lparr>instructions := code\<rparr>)"
proof -
  from assms(2) obtain j where j: "i = Suc j"
    by (cases i) (auto simp: imm_cell_def)
  with assms have "inst_layout 0 ((instructions p)[Suc j := inst_of_cell (word_of_int v)])
      (index_of_non_immediates p)"
    by (intro inst_layout_update_imm) (auto simp: wf_piece_def imm_cell_def)
  with assms j show ?thesis
    by (auto simp: wf_piece_def set_cell_def split: if_splits)
qed

section \<open>Every emission keeps the instruction boundaries\<close>

text \<open>One rule per public operation of a piece.\<close>

inductive emission :: "BytecodePiece \<Rightarrow> BytecodePiece \<Rightarrow> bool" where
  em_line: "emission p (push_line ln txt p)"
| em_li: "emission p (emit_li r v p)"
| em_push: "emission p (emit_push r p)"
| em_pop: "emission p (emit_pop r p)"
| em_incr: "emission p (emit_incr r v p)"
| em_cast: "emission p (emit_cast r ct p)"
| em_mov_rr: "emission p (emit_mov_rr r r' p)"
| em_mov_mr: "emission p (emit_mov_mr r r' sz p)"
| em_mov_rm: "emission p (emit_mov_rm r r' sz p)"
| em_mov_mr_disp: "emission p (emit_mov_mr_disp r r' sz v p)"
| em_mov_rm_disp: "emission p (emit_mov_rm_disp r r' sz v p)"
| em_op2: "c < INST_LI \<Longrightarrow> emission p (emit2 c r r' p)"
| em_op2f: "c < INST_LI \<Longrightarrow> emission p (emit2f c r r' fl p)"
| em_op2c: "c < INST_LI \<Longrightarrow> emission p (emit2c c r r' v fl p)"
| em_jmp: "emission p (emit_jmp v p)"
| em_jmp_out: "emission p (snd (emit_jmp_out p))"
| em_jz: "emission p (emit_jz r v p)"
| em_jz_out: "emission p (snd (emit_jz_out r p))"
| em_dataptr: "emission p (emit_dataptr r v p)"
| em_call: "emission p (snd (emit_call p))"
| em_ret: "emission p (emit_ret p)"
| em_memzero: "emission p (emit_memzero r r' p)"
| em_reloc: "emission p (addRelocation f i p)"
| em_fix: "imm_cell i p \<Longrightarrow> fix_jump_here i p = Some q \<Longrightarrow> emission p q"

text \<open>The pieces that can be built from an empty one.\<close>

inductive built :: "BytecodePiece \<Rightarrow> bool" where
  built_new: "built (new_piece\<lparr>piece_index := n, piece_name := nm\<rparr>)"
| built_step: "built p \<Longrightarrow> emission p q \<Longrightarrow> built q"

lemmas emit_ops_defs =
  emit_li_def emit_push_def emit_pop_def emit_incr_def emit_cast_def emit_mov_rr_def
  emit_mov_mr_def emit_mov_rm_def emit_mov_mr_disp_def emit_mov_rm_disp_def emit2_def emit2f_def
  emit2c_def emit_jmp_def emit_jmp_out_def emit_jz_def emit_jz_out_def emit_dataptr_def
  emit_call_def emit_ret_def emit_memzero_def addRelocation_def push_line_def

lemma opcode_less_LI [simp]:
  "\<not> INST_LI \<le> INST_PUSH" "\<not> INST_LI \<le> INST_POP" "\<not> INST_LI \<le> INST_INCR"
  "\<not> INST_LI \<le> INST_CAST" "\<not> INST_LI \<le> INST_MOV_RR" "\<not> INST_LI \<le> INST_MOV_MR"
  "\<not> INST_LI \<le> INST_MOV_RM" "\<not> INST_LI \<le> INST_RET" "\<not> INST_LI \<le> INST_MEMZERO"
  "INST_LI \<le> INST_JMP" "INST_LI \<le> INST_JZ" "INST_LI \<le> INST_CALL"
  "INST_LI \<le> INST_MOV_MR_DISP" "INST_LI \<le> INST_MOV_RM_DISP" "INST_LI \<le> INST_DATAPTR"
  by (simp_all add: less_eq_Opcode_def)

lemma wf_piece_vsp [simp]: "wf_piece (p\<lparr>virtual_sp := v\<rparr>) = wf_piece p"
  by (simp add: wf_piece_def)

lemma wf_piece_pop: "wf_piece p \<Longrightarrow> wf_piece (emit_pop r p)"
  by (auto simp: emit_pop_def Let_def intro!: wf_piece_emit wf_piece_pop_last)

lemma wf_piece_fix:
  "wf_piece p \<Longrightarrow> imm_cell i p \<Longrightarrow> fix_jump_here i p = Some q \<Longrightarrow> wf_piece q"
  by (auto simp: fix_jump_here_def bind_eq_Some_conv intro: wf_piece_set_cell)

lemma emission_wf: "emission p q \<Longrightarrow> wf_piece p \<Longrightarrow> wf_piece q"
proof (induction rule: emission.induct)
  case (em_pop p r)
  then show ?case by (rule wf_piece_pop)
next
  case (em_fix i p q)
  then show ?case by (blast intro: wf_piece_fix)
next
  case (em_reloc p f i)
  then show ?case by (simp add: addRelocation_def wf_piece_def)
next
  case (em_line p ln t)
  then show ?case by (simp add: push_line_def wf_piece_def)
qed (auto simp: emit_ops_defs Let_def less_le_not_le intro!: wf_piece_emit wf_piece_emit_imm)

lemma built_wf: "built p \<Longrightarrow> wf_piece p"
proof (induction rule: built.induct)
  case (built_new n nm)
  then show ?case by (simp add: wf_piece_def new_piece_def)
next
  case (built_step p q)
  then show ?case by (blast intro: emission_wf)
qed

text \<open>How each operation moves the virtual stack pointer.\<close>

lemma virtual_sp_ops [stack_simps]:
  "virtual_sp (emit_li r v p) = virtual_sp p"
  "virtual_sp (emit_push r p) = virtual_sp p - 8"
  "virtual_sp (emit_pop r p) = virtual_sp p + 8"
  "virtual_sp (emit_incr r v p) = (if r = REG_SP then virtual_sp p + v else virtual_sp p)"
  "virtual_sp (emit_cast r ct p) = virtual_sp p"
  "virtual_sp (emit_mov_rr r r' p) = virtual_sp p"
  "virtual_sp (emit_mov_mr r r' sz p) = virtual_sp p"
  "virtual_sp (emit_mov_rm r r' sz p) = virtual_sp p"
  "virtual_sp (emit_mov_mr_disp r r' sz v p) = virtual_sp p"
  "virtual_sp (emit_mov_rm_disp r r' sz v p) = virtual_sp p"
  "virtual_sp (emit2 c r r' p) = virtual_sp p"
  "virtual_sp (emit2f c r r' fl p) = virtual_sp p"
  "virtual_sp (emit2c c r r' v fl p) = virtual_sp p"
  "virtual_sp (emit_jmp v p) = virtual_sp p"
  "virtual_sp (snd (emit_jmp_out p)) = virtual_sp p"
  "virtual_sp (snd (emit_jz_out r p)) = virtual_sp p"
  "virtual_sp (emit_dataptr r v p) = virtual_sp p"
  "virtual_sp (snd (emit_call p)) = virtual_sp p"
  "virtual_sp (emit_ret p) = virtual_sp p"
  "virtual_sp (emit_memzero r r' p) = virtual_sp p"
  "virtual_sp (addRelocation f i p) = virtual_sp p"
  "virtual_sp (push_line ln txt p) = virtual_sp p"
  by (simp_all add: emit_ops_defs piece_simps Let_def pop_last_inst_def)

lemma virtual_sp_fix [stack_simps]: "fix_jump_here i p = Some q \<Longrightarrow> virtual_sp q = virtual_sp p"
  by (auto simp: fix_jump_here_def bind_eq_Some_conv)

text \<open>A push followed by a pop of the same register leaves the code as it was.\<close>

lemma emit_pop_push:
  "instructions (emit_pop r (emit_push r p)) = instructions p"
  "index_of_non_immediates (emit_pop r (emit_push r p)) = index_of_non_immediates p"
  "virtual_sp (emit_pop r (emit_push r p)) = virtual_sp p"
  by (simp_all add: emit_pop_def emit_push_def Let_def piece_simps pop_last_inst_def)

lemma emit_pop_push_other:
  "r \<noteq> r' \<Longrightarrow> instructions (emit_pop r (emit_push r' p)) =
     instructions p @ [inst INST_PUSH (reg_byte r') 0 0, inst INST_POP (reg_byte r) 0 0]"
  by (simp add: emit_pop_def emit_push_def Let_def piece_simps)

section \<open>The immediate of an increment\<close>

text \<open>The value the machine reads back: \<^verbatim>\<open>((i8)inst.op1) | ((i8)inst.op2 << 8)\<close>.\<close>

definition incr_imm :: "u8 \<Rightarrow> u8 \<Rightarrow> int" where
  "incr_imm lo hi = sint lo OR push_bit 8 (sint hi)"

lemma bit_sint_u8: "bit (sint (w :: u8)) n \<longleftrightarrow> bit w (min n 7)"
proof (cases "n < 8")
  case True
  then have "n = 7 \<or> n < 7" by auto
  then show ?thesis by (auto simp: bit_sint_iff min_def)
next
  case False
  then show ?thesis
    using bit_imp_le_length [of w n] by (auto simp: bit_sint_iff min_def)
qed

lemma bit_incr_low: "bit (incr_low v) n \<longleftrightarrow> n < 8 \<and> bit v n"
proof -
  have "v AND 0xFF = take_bit 8 v"
    by (simp add: take_bit_eq_mask mask_eq_exp_minus_1)
  then show ?thesis
    by (auto simp: incr_low_def bit_simps)
qed

lemma bit_incr_high: "bit (incr_high v) n \<longleftrightarrow> n < 8 \<and> bit v (n + 8)"
  by (auto simp: incr_high_def bit_simps add.commute)

lemma incr_round_trip:
  assumes "- (2 ^ 15) \<le> v" and "v < 2 ^ 15"
  shows "incr_imm (incr_low v) (incr_high v) = (if bit v 7 then signed_take_bit 7 v else v)"
proof (rule bit_eqI)
  fix n
  have s: "v = signed_take_bit 15 v"
    using assms by (simp add: signed_take_bit_int_eq_self)
  have hi: "bit v n = bit v 15" if "15 \<le> n"
    using that by (subst (1 2) s) (simp add: bit_simps min_def)
  consider "n < 8" | "8 \<le> n" "n < 15" | "15 \<le> n" by linarith
  then show "bit (incr_imm (incr_low v) (incr_high v)) n =
      bit (if bit v 7 then signed_take_bit 7 v else v) n"
  proof cases
    case 1
    then have "n = 7 \<or> n < 7" by auto
    then show ?thesis
      by (auto simp: incr_imm_def bit_simps bit_sint_u8 bit_incr_low)
  next
    case 2
    then have "min n 7 = 7" "min (n - 8) 7 + 8 = n" by auto
    with 2 show ?thesis
      by (simp add: incr_imm_def bit_simps bit_sint_u8 bit_incr_low bit_incr_high)
  next
    case 3
    then have "min n 7 = 7" "min (n - 8) 7 = 7" by auto
    with 3 hi show ?thesis
      by (simp add: incr_imm_def bit_simps bit_sint_u8 bit_incr_low bit_incr_high)
  qed
qed

lemma incr_exact_iff:
  assumes "- (2 ^ 15) \<le> v" and "v < 2 ^ 15"
  shows "incr_imm (incr_low v) (incr_high v) = v \<longleftrightarrow> \<not> bit v 7 \<or> (- 128 \<le> v \<and> v < 128)"
  using incr_round_trip [OF assms] signed_take_bit_int_eq_self_iff [of 7 v] by auto

section \<open>The data section\<close>

text \<open>
  The contract of the global data as the generator uses it: \<open>intern\<close> gives the offset of a
  string literal, \<open>reserve\<close> the offset of a fresh region for a global variable.
\<close>

locale data_section =
  fixes intern :: "string \<Rightarrow> 'b \<Rightarrow> nat \<times> 'b"
    and reserve :: "nat \<Rightarrow> 'b \<Rightarrow> nat \<times> 'b"
    and bytes :: "'b \<Rightarrow> u8 list"
    and ok :: "'b \<Rightarrow> bool"
  assumes intern_ok: "ok b \<Longrightarrow> ok (snd (intern s b))"
    and reserve_ok: "ok b \<Longrightarrow> ok (snd (reserve n b))"
    and intern_prefix: "take (length (bytes b)) (bytes (snd (intern s b))) = bytes b"
    and reserve_prefix: "take (length (bytes b)) (bytes (snd (reserve n b))) = bytes b"
    and reserve_fresh: "fst (reserve n b) = length (bytes b)"
    and reserve_room: "length (bytes (snd (reserve n b))) = length (bytes b) + n"
    and intern_reads:
      "ok b \<Longrightarrow>
       take (length s + 1) (drop (fst (intern s b)) (bytes (snd (intern s b)))) = c_str s"
begin

definition request :: "string + nat \<Rightarrow> 'b \<Rightarrow> 'b" where
  "request r b = (case r of Inl s \<Rightarrow> snd (intern s b) | Inr n \<Rightarrow> snd (reserve n b))"

lemma request_ok: "ok b \<Longrightarrow> ok (request r b)"
  by (cases r) (simp_all add: request_def intern_ok reserve_ok)

lemma request_prefix: "take (length (bytes b)) (bytes (request r b)) = bytes b"
  by (cases r) (simp_all add: request_def intern_prefix reserve_prefix)

lemma requests_prefix: "take (length (bytes b)) (bytes (fold request rs b)) = bytes b"
proof (induction rs arbitrary: b)
  case Nil
  show ?case by simp
next
  case (Cons r rs)
  have len: "length (bytes b) \<le> length (bytes (request r b))"
    using request_prefix [of b r] by (metis length_take min.cobounded2 min_def nat_le_linear)
  have "take (length (bytes b)) (bytes (fold request rs (request r b)))
      = take (length (bytes b)) (take (length (bytes (request r b))) (bytes (fold request rs (request r b))))"
    using len by (simp add: min_def)
  also have "\<dots> = bytes b"
    using Cons.IH [of "request r b"] request_prefix by simp
  finally show ?case by simp
qed

lemma take_of_prefix:
  assumes "take (length xs) ys = xs" and "i + n \<le> length xs"
  shows "take n (drop i ys) = take n (drop i xs)"
proof -
  have "ys = xs @ drop (length xs) ys"
    using assms(1) by (metis append_take_drop_id)
  then obtain zs where "ys = xs @ zs" ..
  then show ?thesis using assms(2) by simp
qed

lemma interned_stable:
  assumes "ok b"
  shows "take (length s + 1) (drop (fst (intern s b)) (bytes (fold request rs (snd (intern s b)))))
    = c_str s"
proof -
  let ?b = "snd (intern s b)"
  have c: "take (length s + 1) (drop (fst (intern s b)) (bytes ?b)) = c_str s"
    using assms by (rule intern_reads)
  then have "length (take (length s + 1) (drop (fst (intern s b)) (bytes ?b))) = length s + 1"
    by (simp add: c_str_def)
  then have "fst (intern s b) + (length s + 1) \<le> length (bytes ?b)"
    by auto
  with c show ?thesis
    using take_of_prefix [OF requests_prefix [of ?b rs]] by metis
qed

end

definition wf_data :: "Bytecode \<Rightarrow> bool" where
  "wf_data b \<longleftrightarrow>
    length (global_data b) \<le> global_data_max b
    \<and> (\<forall>s off. string_map b s = Some off \<longrightarrow>
         take (length s + 1) (drop off (global_data b)) = c_str s)"

lemma length_c_str [simp]: "length (c_str s) = length s + 1"
  by (simp add: c_str_def)

lemma appendData_Some:
  "length d = n \<Longrightarrow> global_data (snd (appendData n (Some d) b)) = global_data b @ d"
  by (simp add: appendData_def Let_def)

lemma appendData_None:
  "global_data (snd (appendData n None b)) = global_data b @ replicate n (of_char CHR ''_'')"
  by (simp add: appendData_def Let_def)

lemma appendData_frame [simp]:
  "fst (appendData n d b) = length (global_data b)"
  "string_map (snd (appendData n d b)) = string_map b"
  "pieces (snd (appendData n d b)) = pieces b"
  by (simp_all add: appendData_def Let_def)

lemma appendData_room:
  "length (global_data b) \<le> global_data_max b \<Longrightarrow>
   length (global_data (snd (appendData n d b))) \<le> global_data_max (snd (appendData n d b))"
  by (auto simp: appendData_def Let_def split: option.splits)

lemma read_append:
  "take n (drop i xs) = ys \<Longrightarrow> length ys = n \<Longrightarrow> take n (drop i (xs @ zs)) = ys"
  by auto

lemma wf_data_appendData: "wf_data b \<Longrightarrow> (d = None \<or> d = Some bs \<and> length bs = n) \<Longrightarrow>
   wf_data (snd (appendData n d b))"
  unfolding wf_data_def
  by (auto simp: appendData_room appendData_Some appendData_None simp del: drop_append take_append
      intro!: read_append)

lemma appendString_known: "string_map b s = Some off \<Longrightarrow> appendString s b = (off, b)"
  by (simp add: appendString_def)

lemma appendString_new:
  "string_map b s = None \<Longrightarrow> appendString s b =
     (length (global_data b),
      (snd (appendData (length s + 1) (Some (c_str s)) b))
        \<lparr>string_map := (string_map b)(s \<mapsto> length (global_data b))\<rparr>)"
  by (simp add: appendString_def split_beta)

lemma wf_data_appendString: "wf_data b \<Longrightarrow> wf_data (snd (appendString s b))"
proof (cases "string_map b s")
  case None
  assume wf: "wf_data b"
  let ?b = "snd (appendData (length s + 1) (Some (c_str s)) b)"
  have "wf_data ?b"
    using wf by (intro wf_data_appendData [where bs = "c_str s"]) simp_all
  moreover have "global_data ?b = global_data b @ c_str s"
    by (simp add: appendData_Some)
  ultimately show ?thesis
    using None by (simp add: wf_data_def appendString_new)
qed (simp add: appendString_known)

text \<open>After a clean-up a string that was interned before is answered with an offset into nothing.\<close>

lemma cleanup_keeps_strings:
  assumes "string_map b s = Some off"
  shows "appendString s (cleanup b) = (off, cleanup b) \<and> \<not> wf_data (cleanup b)"
  using assms by (auto simp: cleanup_def appendString_def wf_data_def c_str_def)

interpretation tin_data: data_section appendString "\<lambda>n. appendData n None" global_data wf_data
proof
  fix b s n
  show "wf_data b \<Longrightarrow> wf_data (snd (appendString s b))" by (rule wf_data_appendString)
  show "wf_data b \<Longrightarrow> wf_data (snd (appendData n None b))" by (simp add: wf_data_appendData)
  show "take (length (global_data b)) (global_data (snd (appendString s b))) = global_data b"
    by (cases "string_map b s") (simp_all add: appendString_known appendString_new appendData_Some)
  show "take (length (global_data b)) (global_data (snd (appendData n None b))) = global_data b"
    by (simp add: appendData_None)
  show "fst (appendData n None b) = length (global_data b)" by simp
  show "length (global_data (snd (appendData n None b))) = length (global_data b) + n"
    by (simp add: appendData_None)
  show "take (length s + 1) (drop (fst (appendString s b)) (global_data (snd (appendString s b))))
      = c_str s" if "wf_data b"
    using that
    by (cases "string_map b s") (simp_all add: wf_data_def appendString_known appendString_new appendData_Some)
qed

section \<open>Jumps and relocations\<close>

text \<open>What a jump immediate means to the machine: its cell plus the value read from it.\<close>

definition cell_value :: "nat \<Rightarrow> BytecodePiece \<Rightarrow> int" where
  "cell_value i p = int_of_i32 (cell_of_inst (instructions p ! i))"

lemma set_cell_value:
  assumes "set_cell i v code = Some code'" and "fits_i32 v"
  shows "int_of_i32 (cell_of_inst (code' ! i)) = v \<and> length code' = length code
    \<and> (\<forall>j. j \<noteq> i \<longrightarrow> code' ! j = code ! j)"
  using assms by (auto simp: set_cell_def int_of_i32_word_of_int split: if_splits)

lemma fix_jump_here_value:
  assumes "fix_jump_here i p = Some q" and "length (instructions p) < 2 ^ 31"
  shows "int i + cell_value i q = int (get_pc p) \<and> get_pc q = get_pc p
    \<and> (\<forall>j. j \<noteq> i \<longrightarrow> instructions q ! j = instructions p ! j)"
proof -
  obtain code where c: "set_cell i (int (get_pc p) - int i) (instructions p) = Some code"
    "q = p\<lparr>instructions := code\<rparr>" "i < length (instructions p)"
    using assms(1) by (auto simp: fix_jump_here_def bind_eq_Some_conv set_cell_def split: if_splits)
  have "fits_i32 (int (get_pc p) - int i)"
    using c(3) assms(2) by (simp add: fits_i32_def get_pc_def)
  from set_cell_value [OF c(1) this] c show ?thesis
    by (simp add: cell_value_def get_pc_def)
qed

text \<open>A relocation list that names each cell once.\<close>

definition relocated :: "(nat \<Rightarrow> int) \<Rightarrow> Relocation list \<Rightarrow> nat \<Rightarrow> int option" where
  "relocated pci rs i = map_option (\<lambda>r. call_immediate (pci (the (rel_function r))))
     (find (\<lambda>r. index_of_immediate r = i \<and> rel_function r \<noteq> None) rs)"

lemma relocate_cells:
  assumes "relocate pci rs code = Some code'"
    and "distinct (map index_of_immediate rs)"
    and "\<forall>r\<in>set rs. \<forall>f. rel_function r = Some f \<longrightarrow> fits_i32 (call_immediate (pci f))"
  shows "length code' = length code \<and> (\<forall>i < length code.
    case relocated pci rs i of
      None \<Rightarrow> code' ! i = code ! i
    | Some v \<Rightarrow> int_of_i32 (cell_of_inst (code' ! i)) = v)"
  using assms
proof (induction rs arbitrary: code)
  case Nil
  then show ?case by (simp add: relocated_def)
next
  case (Cons r rs)
  show ?case
  proof (cases "rel_function r")
    case None
    with Cons show ?thesis by (auto simp: relocated_def)
  next
    case (Some f)
    with Cons.prems obtain code1 where c1: "set_cell (index_of_immediate r) (call_immediate (pci f)) code = Some code1"
      "relocate pci rs code1 = Some code'"
      by (auto simp: bind_eq_Some_conv)
    have v: "int_of_i32 (cell_of_inst (code1 ! index_of_immediate r)) = call_immediate (pci f)"
      "length code1 = length code" "\<forall>j. j \<noteq> index_of_immediate r \<longrightarrow> code1 ! j = code ! j"
      using set_cell_value [OF c1(1)] Some Cons.prems by auto
    have "relocated pci rs (index_of_immediate r) = None"
      unfolding relocated_def find_None_iff option.map_disc_iff
      using Cons.prems(2) by (metis distinct.simps(2) image_eqI list.set_map list.simps(9))
    with Cons.IH [OF c1(2)] Cons.prems v Some show ?thesis
      by (auto simp: relocated_def split: option.splits)
  qed
qed

lemma relocate_total:
  assumes "\<forall>r\<in>set rs. index_of_immediate r < length code"
  shows "\<exists>code'. relocate pci rs code = Some code' \<and> length code' = length code"
  using assms
proof (induction rs arbitrary: code)
  case (Cons r rs)
  show ?case
  proof (cases "rel_function r")
    case (Some f)
    let ?code = "code[index_of_immediate r := inst_of_cell (word_of_int (call_immediate (pci f)))]"
    have "set_cell (index_of_immediate r) (call_immediate (pci f)) code = Some ?code"
      using Cons.prems by (simp add: set_cell_def)
    with Some Cons.IH [of ?code] Cons.prems show ?thesis by simp
  qed (use Cons in auto)
qed simp

text \<open>Every call that a piece was told to relocate lies at an immediate cell of its code.\<close>

definition wf_relocations :: "BytecodePiece \<Rightarrow> bool" where
  "wf_relocations p \<longleftrightarrow>
    distinct (map index_of_immediate (relocations p))
    \<and> (\<forall>r\<in>set (relocations p). index_of_immediate r < length (instructions p))"

section \<open>Properties\<close>

text \<open>
  C18. Every piece that the emission functions can build, in any order and with any removal of
  push/pop pairs, has well placed instructions: reading it from the start the way the machine
  does meets exactly the recorded instruction positions and ends at its end.
\<close>

theorem built_layout:
  assumes "built p"
  shows "inst_layout 0 (instructions p) (index_of_non_immediates p)"
  using built_wf [OF assms] by (simp add: wf_piece_def)

theorem built_layout_witness:
  "inst_layout 0 (instructions (emit_pop REG_A (emit_li REG_A 7 (emit_push REG_A new_piece))))
     (index_of_non_immediates (emit_pop REG_A (emit_li REG_A 7 (emit_push REG_A new_piece))))"
proof (rule built_layout)
  have "built (new_piece\<lparr>piece_index := piece_index new_piece, piece_name := piece_name new_piece\<rparr>)"
    by (rule built_new)
  then have "built new_piece" by simp
  then show "built (emit_pop REG_A (emit_li REG_A 7 (emit_push REG_A new_piece)))"
    by (blast intro: built_step em_pop em_li em_push)
qed

text \<open>
  C27. \<^verbatim>\<open>INST_INCR\<close> gives back the increment it was emitted with exactly when bit 7 of the amount
  is clear or the amount fits eight signed bits; a stack adjustment of 128 bytes, for one,
  comes back as -128.
\<close>

theorem incr_decodes_iff:
  assumes "- (2 ^ 15) \<le> v" and "v < 2 ^ 15"
  shows "incr_imm (op1 (last (instructions (emit_incr r v p)))) (op2 (last (instructions (emit_incr r v p)))) = v
    \<longleftrightarrow> \<not> bit v 7 \<or> (- 128 \<le> v \<and> v < 128)"
  using incr_exact_iff [OF assms] by (simp add: emit_incr_def Let_def piece_simps)

theorem incr_decodes_iff_witness:
  "incr_imm (op1 (last (instructions (emit_incr REG_SP 128 new_piece))))
     (op2 (last (instructions (emit_incr REG_SP 128 new_piece)))) \<noteq> 128"
  using incr_decodes_iff [of 128 REG_SP new_piece] by (simp add: bit_numeral_rec)

text \<open>
  A patched jump leads to the place where it was patched: after \<^verbatim>\<open>fix_jump_here\<close> the position
  of the immediate plus its value is the length the code had at that moment, and no other cell
  of the code changed.
\<close>

theorem fix_jump_here_target:
  assumes "i < length (instructions p)" and "length (instructions p) < 2 ^ 31"
  shows "\<exists>q. fix_jump_here i p = Some q \<and> int i + cell_value i q = int (get_pc p)
    \<and> get_pc q = get_pc p \<and> (\<forall>j. j \<noteq> i \<longrightarrow> instructions q ! j = instructions p ! j)"
proof -
  obtain q where "fix_jump_here i p = Some q"
    using assms(1) by (simp add: fix_jump_here_def set_cell_def)
  with fix_jump_here_value [OF this assms(2)] show ?thesis by blast
qed

theorem fix_jump_here_target_witness:
  "\<exists>q. fix_jump_here 1 (emit_push REG_A (snd (emit_jmp_out new_piece))) = Some q
    \<and> int 1 + cell_value 1 q = 3 \<and> get_pc q = 3
    \<and> (\<forall>j. j \<noteq> 1 \<longrightarrow> instructions q ! j =
         instructions (emit_push REG_A (snd (emit_jmp_out new_piece))) ! j)"
  using fix_jump_here_target [of 1 "emit_push REG_A (snd (emit_jmp_out new_piece))"]
  by (simp add: emit_push_def emit_jmp_out_def Let_def piece_simps get_pc_def new_piece_def numeral_3_eq_3)

text \<open>
  C14. Relocation writes every call target and nothing else: when the recorded cells lie in the
  code, each once, \<^verbatim>\<open>apply_relocations\<close> succeeds on the piece, each recorded cell holds the index
  of its function's piece plus one (or the negative native number), and every other cell is
  unchanged.
\<close>

theorem relocate_exact:
  assumes "wf_relocations p"
    and "\<forall>r\<in>set (relocations p). \<forall>f. rel_function r = Some f \<longrightarrow> fits_i32 (call_immediate (pci f))"
  shows "\<exists>code. relocate pci (relocations p) (instructions p) = Some code
    \<and> length code = length (instructions p)
    \<and> (\<forall>i < length code.
         case relocated pci (relocations p) i of
           None \<Rightarrow> code ! i = instructions p ! i
         | Some v \<Rightarrow> int_of_i32 (cell_of_inst (code ! i)) = v)"
proof -
  obtain code where "relocate pci (relocations p) (instructions p) = Some code"
    using relocate_total [of "relocations p" "instructions p" pci] assms(1)
    by (auto simp: wf_relocations_def)
  with relocate_cells [OF this _ assms(2)] assms(1) show ?thesis
    by (auto simp: wf_relocations_def)
qed

theorem relocate_exact_witness:
  "\<exists>code. relocate (\<lambda>f. 4) [\<lparr>rel_function = Some 2, index_of_immediate = 1\<rparr>]
      (instructions (snd (emit_call new_piece))) = Some code
    \<and> length code = 2 \<and> int_of_i32 (cell_of_inst (code ! 1)) = 5 \<and> code ! 0 = inst INST_CALL 0 0 0"
proof -
  let ?p = "addRelocation 2 1 (snd (emit_call new_piece))"
  have "relocations ?p = [\<lparr>rel_function = Some 2, index_of_immediate = 1\<rparr>]"
    "instructions ?p = instructions (snd (emit_call new_piece))"
    "instructions (snd (emit_call new_piece)) = [inst INST_CALL 0 0 0, inst_of_cell 0]"
    by (simp_all add: addRelocation_def emit_call_def Let_def piece_simps new_piece_def)
  then show ?thesis
    using relocate_exact [of ?p "\<lambda>f. 4"]
    by (simp add: wf_relocations_def call_immediate_def fits_i32_def relocated_def less_Suc_eq
        all_conj_distrib) force
qed

text \<open>
  C25. A string literal keeps its place: the offset that \<^verbatim>\<open>appendString\<close> returns holds the bytes of
  the string with its terminating zero, and still does after any later sequence of string
  literals and global variables.
\<close>

theorem string_stays:
  assumes "wf_data b"
  shows "take (length s + 1) (drop (fst (appendString s b))
      (global_data (fold tin_data.request rs (snd (appendString s b))))) = c_str s"
  using assms by (rule tin_data.interned_stable)

theorem string_stays_witness:
  "take 3 (drop (fst (appendString ''hi'' new_bytecode))
      (global_data (fold tin_data.request [Inr 4, Inl ''a''] (snd (appendString ''hi'' new_bytecode)))))
    = c_str ''hi''"
  using string_stays [of new_bytecode "''hi''" "[Inr 4, Inl ''a'']"]
  by (simp add: wf_data_def new_bytecode_def numeral_3_eq_3)

end
