(* ===== verification/Lexer.thy ===== *)
theory Lexer
  imports Tin_Prelude
begin

text \<open>
  include/Lexer.h and src/Lexer.cpp: tokens, the token stream with its side tables for strings,
  integers and floats, the character loop of \<^verbatim>\<open>lex_file\<close> stage by stage, and the printing of
  tokens back to text (\<^verbatim>\<open>feed\<close>, \<^verbatim>\<open>getline\<close>).  The text is a list of bytes (\<open>char\<close>).  What
  the C library does that the sources only call is an argument: \<^verbatim>\<open>atof\<close>, \<^verbatim>\<open>atoi\<close> on a number
  that does not fit an \<^verbatim>\<open>int\<close>, and \<^verbatim>\<open>std::to_string\<close> of a float.
\<close>

section \<open>Tokens\<close>

text \<open>The values below 256 of the enumeration are the characters themselves.\<close>

datatype TokenKind =
    TOKEN_CHR char
  | TOKEN_EOF | TOKEN_ID | TOKEN_LITERAL_INTEGER | TOKEN_LITERAL_DECIMAL | TOKEN_LITERAL_STRING
  | TOKEN_LITERAL_CHAR | TOKEN_STRUCT | TOKEN_FUNCTION | TOKEN_WHILE | TOKEN_CONTINUE
  | TOKEN_BREAK | TOKEN_RETURN | TOKEN_IF | TOKEN_ELSE | TOKEN_GLOBAL | TOKEN_CONST
  | TOKEN_IMPORT | TOKEN_CAST | TOKEN_SIZEOF | TOKEN_TRUE | TOKEN_FALSE | TOKEN_NULL

text \<open>\<^verbatim>\<open>NAME_OF_TOKEN\<close>; a character token prints as itself where the sources print one.\<close>

primrec token_names :: "TokenKind \<Rightarrow> string" where
  "token_names (TOKEN_CHR c) = [c]"
| "token_names TOKEN_EOF = ''EOF''"
| "token_names TOKEN_ID = ''id''"
| "token_names TOKEN_LITERAL_INTEGER = ''lit_int''"
| "token_names TOKEN_LITERAL_DECIMAL = ''lit_dec''"
| "token_names TOKEN_LITERAL_STRING = ''lit_str''"
| "token_names TOKEN_LITERAL_CHAR = ''lit_char''"
| "token_names TOKEN_STRUCT = ''struct''"
| "token_names TOKEN_FUNCTION = ''fun''"
| "token_names TOKEN_WHILE = ''while''"
| "token_names TOKEN_CONTINUE = ''continue''"
| "token_names TOKEN_BREAK = ''break''"
| "token_names TOKEN_RETURN = ''return''"
| "token_names TOKEN_IF = ''if''"
| "token_names TOKEN_ELSE = ''else''"
| "token_names TOKEN_GLOBAL = ''global''"
| "token_names TOKEN_CONST = ''const''"
| "token_names TOKEN_IMPORT = ''import''"
| "token_names TOKEN_CAST = ''cast''"
| "token_names TOKEN_SIZEOF = ''sizeof''"
| "token_names TOKEN_TRUE = ''true''"
| "token_names TOKEN_FALSE = ''false''"
| "token_names TOKEN_NULL = ''null''"

definition TOKEN_FLAG_SUFFIX_SPACE :: int where "TOKEN_FLAG_SUFFIX_SPACE = 1"
definition TOKEN_FLAG_SUFFIX_NEWLINE :: int where "TOKEN_FLAG_SUFFIX_NEWLINE = 2"
definition TOKEN_FLAG_SUFFIX_ANY :: int where
  "TOKEN_FLAG_SUFFIX_ANY = TOKEN_FLAG_SUFFIX_SPACE OR TOKEN_FLAG_SUFFIX_NEWLINE"

record Token =
  tok_type :: TokenKind
  data_index :: nat
  tok_flags :: int
  tok_line :: int
  tok_column :: int

record TokenStream =
  path :: string
  total_lines :: int
  non_blank_lines :: int
  processed_bytes :: int
  tokens :: "Token list"
  strings :: "string list"
  integers :: "i32 list"
  floats :: "f32 list"

definition new_stream :: "string \<Rightarrow> int \<Rightarrow> TokenStream" where
  "new_stream p n =
    \<lparr>path = p, total_lines = 0, non_blank_lines = 0, processed_bytes = n, tokens = [],
     strings = [], integers = [], floats = []\<rparr>"

definition eof_token :: Token where
  "eof_token = \<lparr>tok_type = TOKEN_EOF, data_index = 0, tok_flags = 0, tok_line = 0, tok_column = 0\<rparr>"

text \<open>
  \<^verbatim>\<open>getToken\<close>: the token, the end of file past the last one; and the three values that it
  stores through its pointer arguments when the token has one (\<open>None\<close>: left as it was).
\<close>

definition get_token :: "TokenStream \<Rightarrow> nat \<Rightarrow> Token" where
  "get_token ts i = (if length (tokens ts) \<le> i then eof_token else tokens ts ! i)"

definition get_str :: "TokenStream \<Rightarrow> nat \<Rightarrow> string option" where
  "get_str ts i =
    (if tok_type (get_token ts i) \<in> {TOKEN_ID, TOKEN_LITERAL_STRING, TOKEN_LITERAL_CHAR}
     then nth_opt (strings ts) (data_index (get_token ts i)) else None)"

definition get_num :: "TokenStream \<Rightarrow> nat \<Rightarrow> i32 option" where
  "get_num ts i =
    (if tok_type (get_token ts i) = TOKEN_LITERAL_INTEGER
     then nth_opt (integers ts) (data_index (get_token ts i)) else None)"

definition get_dec :: "TokenStream \<Rightarrow> nat \<Rightarrow> f32 option" where
  "get_dec ts i =
    (if tok_type (get_token ts i) = TOKEN_LITERAL_DECIMAL
     then nth_opt (floats ts) (data_index (get_token ts i)) else None)"

definition push_token :: "TokenKind \<Rightarrow> nat \<Rightarrow> int \<Rightarrow> int \<Rightarrow> TokenStream \<Rightarrow> TokenStream" where
  "push_token t index ln col ts =
    ts\<lparr>tokens := tokens ts @
         [\<lparr>tok_type = t, data_index = index, tok_flags = 0, tok_line = ln, tok_column = col\<rparr>]\<rparr>"

definition add :: "TokenKind \<Rightarrow> int \<Rightarrow> int \<Rightarrow> TokenStream \<Rightarrow> TokenStream" where
  "add t ln col ts = push_token t 0 ln col ts"

definition add_id :: "string \<Rightarrow> int \<Rightarrow> int \<Rightarrow> TokenStream \<Rightarrow> TokenStream" where
  "add_id s ln col ts =
    push_token TOKEN_ID (length (strings ts)) ln col (ts\<lparr>strings := strings ts @ [s]\<rparr>)"

definition add_int :: "i32 \<Rightarrow> int \<Rightarrow> int \<Rightarrow> TokenStream \<Rightarrow> TokenStream" where
  "add_int n ln col ts =
    push_token TOKEN_LITERAL_INTEGER (length (integers ts)) ln col
      (ts\<lparr>integers := integers ts @ [n]\<rparr>)"

definition add_float :: "f32 \<Rightarrow> int \<Rightarrow> int \<Rightarrow> TokenStream \<Rightarrow> TokenStream" where
  "add_float x ln col ts =
    push_token TOKEN_LITERAL_DECIMAL (length (floats ts)) ln col (ts\<lparr>floats := floats ts @ [x]\<rparr>)"

definition add_string :: "string \<Rightarrow> int \<Rightarrow> int \<Rightarrow> TokenStream \<Rightarrow> TokenStream" where
  "add_string s ln col ts =
    push_token TOKEN_LITERAL_STRING (length (strings ts)) ln col (ts\<lparr>strings := strings ts @ [s]\<rparr>)"

definition add_char :: "char \<Rightarrow> int \<Rightarrow> int \<Rightarrow> TokenStream \<Rightarrow> TokenStream" where
  "add_char c ln col ts =
    push_token TOKEN_LITERAL_CHAR (length (strings ts)) ln col (ts\<lparr>strings := strings ts @ [[c]]\<rparr>)"

section \<open>The character loop\<close>

record lex_env =
  env_atof :: "string \<Rightarrow> f32"
  env_atoi_range :: "string \<Rightarrow> i32"
  env_to_string :: "f32 \<Rightarrow> string"

definition chr_tab :: char where "chr_tab = CHR 0x09"
definition chr_nl :: char where "chr_nl = CHR 0x0A"
definition chr_cr :: char where "chr_cr = CHR 0x0D"
definition chr_quote :: char where "chr_quote = CHR 0x27"
definition chr_dquote :: char where "chr_dquote = CHR 0x22"
definition chr_backslash :: char where "chr_backslash = CHR 0x5C"
definition chr_nul :: char where "chr_nul = CHR 0x00"

lemmas chr_defs = chr_tab_def chr_nl_def chr_cr_def chr_quote_def chr_dquote_def
  chr_backslash_def chr_nul_def

definition is_digit :: "char \<Rightarrow> bool" where
  "is_digit c \<longleftrightarrow> 48 \<le> (of_char c :: nat) \<and> (of_char c :: nat) \<le> 57"

definition is_letter :: "char \<Rightarrow> bool" where
  "is_letter c \<longleftrightarrow>
    (65 \<le> (of_char c :: nat) \<and> (of_char c :: nat) \<le> 90)
    \<or> (97 \<le> (of_char c :: nat) \<and> (of_char c :: nat) \<le> 122) \<or> c = CHR ''_''"

definition is_delim :: "char \<Rightarrow> bool" where
  "is_delim c \<longleftrightarrow> c = CHR '' '' \<or> c = chr_nl \<or> c = chr_cr \<or> c = chr_tab"

text \<open>\<^verbatim>\<open>atoi\<close> of a text that starts with a digit: the leading digits.\<close>

definition digits_value :: "string \<Rightarrow> nat" where
  "digits_value s = foldl (\<lambda>v c. 10 * v + (of_char c - 48)) 0 (takeWhile is_digit s)"

definition atoi :: "lex_env \<Rightarrow> string \<Rightarrow> i32" where
  "atoi env s = (if digits_value s < 2 ^ 31 then of_nat (digits_value s) else env_atoi_range env s)"

record LexState =
  stream :: TokenStream
  is_id :: bool
  is_num :: bool
  is_decimal :: bool
  is_str :: bool
  is_char :: bool
  is_comment :: bool
  is_multicomment :: bool
  start_ln :: int
  start_col :: int
  line :: int
  column :: int
  data_start :: nat
  string_content :: string
  only_whitespace :: bool
  index :: nat

definition lex_init :: "string \<Rightarrow> nat \<Rightarrow> LexState" where
  "lex_init p filesize =
    \<lparr>stream = new_stream p (int filesize), is_id = False, is_num = False, is_decimal = False,
     is_str = False, is_char = False, is_comment = False, is_multicomment = False, start_ln = 0,
     start_col = 0, line = 1, column = 1, data_start = 0, string_content = [],
     only_whitespace = True, index = 0\<rparr>"

text \<open>The values that one iteration computes first and only reads afterwards.\<close>

record LexChar =
  chr :: char
  nextChr :: char
  col :: int
  ln :: int
  ending :: bool

text \<open>
  A stage of the iteration either goes on with the next stage (\<open>Fall\<close>), ends the iteration
  (\<open>Next\<close>, the sources' \<^verbatim>\<open>continue\<close>), or reports an error and ends the function (\<open>Fail\<close>).
\<close>

datatype lexflow = Fall LexState | Next LexState | Fail

fun andThen :: "lexflow \<Rightarrow> (LexState \<Rightarrow> lexflow) \<Rightarrow> lexflow" where
  "andThen (Fall st) f = f st"
| "andThen (Next st) f = Next st"
| "andThen Fail f = Fail"

definition read_char :: "string \<Rightarrow> LexState \<Rightarrow> LexChar" where
  "read_char src st =
    \<lparr>chr = src ! index st,
     nextChr = (if index st + 1 < length src then src ! (index st + 1) else chr_nul),
     col = column st, ln = line st, ending = (index st + 1 = length src)\<rparr>"

definition mark_suffix :: "char \<Rightarrow> TokenStream \<Rightarrow> TokenStream" where
  "mark_suffix c ts =
    (if tokens ts = [] then ts
     else
       (let t = last (tokens ts);
            f1 = (if c = chr_nl
                  then (tok_flags t OR TOKEN_FLAG_SUFFIX_NEWLINE) AND NOT TOKEN_FLAG_SUFFIX_SPACE
                  else tok_flags t);
            f2 = (if c = CHR '' '' \<and> f1 AND TOKEN_FLAG_SUFFIX_NEWLINE = 0
                  then f1 OR TOKEN_FLAG_SUFFIX_SPACE else f1)
        in ts\<lparr>tokens := butlast (tokens ts) @ [t\<lparr>tok_flags := f2\<rparr>]\<rparr>))"

definition lex_position :: "LexChar \<Rightarrow> LexState \<Rightarrow> LexState" where
  "lex_position c st =
    (let st1 = st\<lparr>index := index st + 1,
                  column := (if chr c = chr_nl then 1
                             else if chr c = chr_tab then column st + 4 else column st + 1),
                  line := (if chr c = chr_nl then line st + 1 else line st)\<rparr>;
         blank = \<not> is_delim (chr c) \<and> only_whitespace st1;
         st2 = (if blank
                then st1\<lparr>only_whitespace := False,
                         stream := (stream st1)\<lparr>non_blank_lines := non_blank_lines (stream st1) + 1\<rparr>\<rparr>
                else st1);
         st3 = (if chr c = chr_nl then st2\<lparr>only_whitespace := True\<rparr> else st2)
     in st3\<lparr>stream := mark_suffix (chr c) (stream st3)\<rparr>)"

definition lex_comment :: "LexChar \<Rightarrow> LexState \<Rightarrow> lexflow" where
  "lex_comment c st =
    (if is_comment st then
       Next (if chr c = chr_nl then st\<lparr>is_comment := False\<rparr> else st)
     else if is_multicomment st then
       Next (if chr c = CHR ''*'' \<and> nextChr c = CHR ''/''
             then st\<lparr>index := index st + 1, is_multicomment := False\<rparr> else st)
     else if chr c = CHR ''/'' \<and> nextChr c = CHR ''/'' then
       Next (st\<lparr>index := index st + 1, is_comment := True\<rparr>)
     else if chr c = CHR ''/'' \<and> nextChr c = CHR ''*'' then
       Next (st\<lparr>index := index st + 1, is_multicomment := True\<rparr>)
     else Fall st)"

text \<open>\<^verbatim>\<open>string_content[0]\<close> of an empty string is the terminating zero.\<close>

definition lex_quotes :: "LexChar \<Rightarrow> LexState \<Rightarrow> lexflow" where
  "lex_quotes c st =
    (if chr c = chr_dquote then
       (if \<not> is_str st
        then Next (st\<lparr>is_str := True, data_start := index st, start_col := col c, start_ln := ln c\<rparr>)
        else Next (st\<lparr>stream := add_string (string_content st) (start_ln st) (start_col st) (stream st),
                      string_content := [], is_str := False\<rparr>))
     else if chr c = chr_quote then
       (if \<not> is_char st
        then Next (st\<lparr>is_char := True, data_start := index st, start_col := col c, start_ln := ln c\<rparr>)
        else Next (st\<lparr>stream := add_char (case string_content st of [] \<Rightarrow> chr_nul | x # _ \<Rightarrow> x)
                                  (start_ln st) (start_col st) (stream st),
                      string_content := [], is_char := False\<rparr>))
     else if is_str st \<or> is_char st then
       (if chr c = chr_backslash \<and> nextChr c = chr_backslash then
          Next (st\<lparr>index := index st + 1, string_content := string_content st @ [chr_backslash]\<rparr>)
        else if chr c = chr_backslash \<and> nextChr c = CHR ''n'' then
          Next (st\<lparr>index := index st + 1, string_content := string_content st @ [chr_nl]\<rparr>)
        else Next (st\<lparr>string_content := string_content st @ [chr c]\<rparr>))
     else Fall st)"

definition lex_letter :: "LexChar \<Rightarrow> LexState \<Rightarrow> lexflow" where
  "lex_letter c st =
    (if is_letter (chr c) then
       (let st1 = (if \<not> is_id st
                   then st\<lparr>is_id := True, data_start := index st - 1, start_col := col c,
                           start_ln := ln c\<rparr>
                   else st)
        in if is_num st \<or> is_decimal st then Fail
           else if \<not> ending c then Next st1 else Fall st1)
     else Fall st)"

definition lex_digit :: "LexChar \<Rightarrow> LexState \<Rightarrow> lexflow" where
  "lex_digit c st =
    (if is_digit (chr c) then
       (let st1 = (if \<not> is_id st \<and> \<not> is_num st \<and> \<not> is_decimal st
                   then st\<lparr>data_start := index st - 1, is_num := True, start_col := col c,
                           start_ln := ln c\<rparr>
                   else st)
        in if \<not> ending c then Next st1 else Fall st1)
     else Fall st)"

definition lex_dot :: "LexChar \<Rightarrow> LexState \<Rightarrow> lexflow" where
  "lex_dot c st =
    (if chr c = CHR ''.'' \<and> (is_num st \<or> is_digit (nextChr c)) then
       (if \<not> is_decimal st then
          (let st1 = (if \<not> is_num st
                      then st\<lparr>data_start := index st - 1, start_col := col c, start_ln := ln c\<rparr>
                      else st);
               st2 = st1\<lparr>is_decimal := True, is_num := False\<rparr>
           in if \<not> ending c then Next st2 else Fall st2)
        else Fail)
     else Fall st)"

text \<open>The characters since \<^verbatim>\<open>data_start\<close>, with the current one when it is the last of the file.\<close>

definition pending_text :: "string \<Rightarrow> LexChar \<Rightarrow> LexState \<Rightarrow> string" where
  "pending_text src c st =
    (let data_end = index st - 1 - data_start st;
         data_end' = (if ending c then data_end + 1 else data_end)
     in take data_end' (drop (data_start st) src))"

definition lex_decimal :: "lex_env \<Rightarrow> string \<Rightarrow> LexChar \<Rightarrow> LexState \<Rightarrow> lexflow" where
  "lex_decimal env src c st =
    (if is_decimal st then
       (let num = env_atof env (pending_text src c st);
            st1 = st\<lparr>stream := add_float num (start_ln st) (start_col st) (stream st),
                     is_decimal := False\<rparr>
        in if ending c then Next st1 else Fall st1)
     else Fall st)"

definition lex_number :: "lex_env \<Rightarrow> string \<Rightarrow> LexChar \<Rightarrow> LexState \<Rightarrow> lexflow" where
  "lex_number env src c st =
    (if is_num st then
       (let num = atoi env (pending_text src c st);
            st1 = st\<lparr>stream := add_int num (start_ln st) (start_col st) (stream st),
                     is_num := False\<rparr>
        in if ending c then Next st1 else Fall st1)
     else Fall st)"

definition keyword_kinds :: "TokenKind list" where
  "keyword_kinds =
    [TOKEN_STRUCT, TOKEN_FUNCTION, TOKEN_WHILE, TOKEN_CONTINUE, TOKEN_BREAK, TOKEN_RETURN,
     TOKEN_IF, TOKEN_ELSE, TOKEN_GLOBAL, TOKEN_CONST, TOKEN_IMPORT, TOKEN_CAST, TOKEN_SIZEOF,
     TOKEN_TRUE, TOKEN_FALSE, TOKEN_NULL]"

definition keyword_of :: "string \<Rightarrow> TokenKind option" where
  "keyword_of s = find (\<lambda>k. s = token_names k) keyword_kinds"

definition lex_ident :: "string \<Rightarrow> LexChar \<Rightarrow> LexState \<Rightarrow> lexflow" where
  "lex_ident src c st =
    (if is_id st then
       (let str = pending_text src c st;
            ts = (case keyword_of str of
                    Some k \<Rightarrow> add k (start_ln st) (start_col st) (stream st)
                  | None \<Rightarrow> add_id str (start_ln st) (start_col st) (stream st));
            st1 = st\<lparr>stream := ts, is_id := False\<rparr>
        in if ending c then Next st1 else Fall st1)
     else Fall st)"

definition lex_other :: "LexChar \<Rightarrow> LexState \<Rightarrow> lexflow" where
  "lex_other c st =
    (if is_delim (chr c) then Next (st\<lparr>stream := mark_suffix (chr c) (stream st)\<rparr>)
     else Next (st\<lparr>start_col := col c, start_ln := ln c,
                   stream := add (TOKEN_CHR (chr c)) (ln c) (col c) (stream st)\<rparr>))"

definition lex_step :: "lex_env \<Rightarrow> string \<Rightarrow> LexState \<Rightarrow> lexflow" where
  "lex_step env src st =
    (let c = read_char src st in
     andThen (andThen (andThen (andThen (andThen (andThen (andThen (andThen
       (lex_comment c (lex_position c st))
       (lex_quotes c)) (lex_letter c)) (lex_digit c)) (lex_dot c))
       (lex_decimal env src c)) (lex_number env src c)) (lex_ident src c)) (lex_other c))"

text \<open>Every stage leaves \<^verbatim>\<open>index\<close> at least where the iteration put it.\<close>

definition flow_ge :: "nat \<Rightarrow> lexflow \<Rightarrow> bool" where
  "flow_ge n f \<longleftrightarrow> (case f of Fall st \<Rightarrow> n \<le> index st | Next st \<Rightarrow> n \<le> index st | Fail \<Rightarrow> True)"

lemma flow_ge_andThen:
  "flow_ge n f \<Longrightarrow> (\<And>st. n \<le> index st \<Longrightarrow> flow_ge n (g st)) \<Longrightarrow> flow_ge n (andThen f g)"
  by (cases f) (auto simp: flow_ge_def)

lemmas lex_stage_defs =
  lex_comment_def lex_quotes_def lex_letter_def lex_digit_def lex_dot_def lex_decimal_def
  lex_number_def lex_ident_def lex_other_def

lemma lex_position_index [simp]: "index (lex_position c st) = Suc (index st)"
  by (simp add: lex_position_def Let_def)

lemma lex_step_flow_ge: "flow_ge (Suc (index st)) (lex_step env src st)"
  unfolding lex_step_def Let_def
  by (intro flow_ge_andThen; simp add: flow_ge_def lex_stage_defs Let_def)

function lex_loop :: "lex_env \<Rightarrow> string \<Rightarrow> LexState \<Rightarrow> LexState option" where
  "lex_loop env src st =
    (if index st < length src then
       (case lex_step env src st of
          Next st' \<Rightarrow> lex_loop env src st'
        | Fall st' \<Rightarrow> lex_loop env src st'
        | Fail \<Rightarrow> None)
     else Some st)"
  by pat_completeness auto
termination
proof (relation "measure (\<lambda>(env, src, st). length src - index st)", goal_cases)
  case 1
  then show ?case by simp
next
  case (2 env src st st')
  then show ?case
    using lex_step_flow_ge [of st env src] by (auto simp: flow_ge_def)
next
  case (3 env src st st')
  then show ?case
    using lex_step_flow_ge [of st env src] by (auto simp: flow_ge_def)
qed

declare lex_loop.simps [simp del]

text \<open>
  \<^verbatim>\<open>lex_file\<close>: the file's contents are an argument, \<open>None\<close> when it cannot be read.  The result
  is the stream, or \<open>None\<close> (a null pointer) after one reported error.
\<close>

definition lex_file :: "lex_env \<Rightarrow> string \<Rightarrow> string option \<Rightarrow> TokenStream option" where
  "lex_file env p contents =
    (case contents of
       None \<Rightarrow> None
     | Some src \<Rightarrow>
         (case lex_loop env src (lex_init p (length src)) of
            None \<Rightarrow> None
          | Some st \<Rightarrow> Some ((stream st)\<lparr>total_lines := line st\<rparr>)))"

section \<open>From tokens back to text\<close>

fun nat_digits :: "nat \<Rightarrow> string" where
  "nat_digits n =
    (if n < 10 then [char_of (n + 48)] else nat_digits (n div 10) @ [char_of (n mod 10 + 48)])"

declare nat_digits.simps [simp del]

definition int_to_string :: "int \<Rightarrow> string" where
  "int_to_string i = (if i < 0 then CHR ''-'' # nat_digits (nat (- i)) else nat_digits (nat i))"

text \<open>The only escape that \<^verbatim>\<open>feed\<close> writes is the one of a newline.\<close>

definition escape_newlines :: "string \<Rightarrow> string" where
  "escape_newlines s = concat (map (\<lambda>c. if c = chr_nl then [chr_backslash, CHR ''n''] else [c]) s)"

definition token_text :: "lex_env \<Rightarrow> TokenStream \<Rightarrow> Token \<Rightarrow> string option" where
  "token_text env ts t =
    (case tok_type t of
       TOKEN_CHR c \<Rightarrow> Some [c]
     | TOKEN_ID \<Rightarrow> nth_opt (strings ts) (data_index t)
     | TOKEN_LITERAL_STRING \<Rightarrow>
         do { s \<leftarrow> nth_opt (strings ts) (data_index t);
              Some (chr_dquote # escape_newlines s @ [chr_dquote]) }
     | TOKEN_LITERAL_CHAR \<Rightarrow>
         do { s \<leftarrow> nth_opt (strings ts) (data_index t);
              Some (chr_quote # escape_newlines s @ [chr_quote]) }
     | TOKEN_LITERAL_INTEGER \<Rightarrow>
         do { n \<leftarrow> nth_opt (integers ts) (data_index t); Some (int_to_string (sint n)) }
     | TOKEN_LITERAL_DECIMAL \<Rightarrow>
         do { x \<leftarrow> nth_opt (floats ts) (data_index t); Some (env_to_string env x) }
     | k \<Rightarrow> Some (token_names k))"

definition gap :: "Token \<Rightarrow> Token \<Rightarrow> nat \<Rightarrow> string" where
  "gap t next_tok len =
    replicate (nat (tok_line next_tok - tok_line t)) chr_nl
    @ (if tok_line next_tok = tok_line t
       then replicate (nat (tok_column next_tok - tok_column t - int len)) CHR '' '' else [])"

text \<open>\<^verbatim>\<open>feed(start, end)\<close> with \<open>n\<close> tokens left; a token index outside the vector is undefined.\<close>

fun feed_from :: "lex_env \<Rightarrow> TokenStream \<Rightarrow> nat \<Rightarrow> nat \<Rightarrow> string option" where
  "feed_from env ts i 0 = Some []"
| "feed_from env ts i (Suc n) =
     do {
       t \<leftarrow> nth_opt (tokens ts) i;
       s \<leftarrow> token_text env ts t;
       g \<leftarrow> (if 0 < n
             then do { u \<leftarrow> nth_opt (tokens ts) (i + 1); Some (gap t u (length s)) }
             else Some []);
       rest \<leftarrow> feed_from env ts (i + 1) n;
       Some (s @ g @ rest)
     }"

definition feed :: "lex_env \<Rightarrow> TokenStream \<Rightarrow> nat \<Rightarrow> nat \<Rightarrow> string option" where
  "feed env ts start end' = feed_from env ts start (end' - start)"

fun line_start :: "TokenStream \<Rightarrow> int \<Rightarrow> nat \<Rightarrow> nat" where
  "line_start ts l 0 = 0"
| "line_start ts l (Suc i) = (if tok_line (get_token ts i) = l then line_start ts l i else Suc i)"

function line_end :: "TokenStream \<Rightarrow> int \<Rightarrow> nat \<Rightarrow> nat" where
  "line_end ts l i =
    (if i + 1 < length (tokens ts) \<and> tok_line (get_token ts (i + 1)) = l
     then line_end ts l (i + 1) else i)"
  by pat_completeness auto
termination
  by (relation "measure (\<lambda>(ts, l, i). length (tokens ts) - i)") auto

declare line_end.simps [simp del]

definition getline :: "lex_env \<Rightarrow> TokenStream \<Rightarrow> nat \<Rightarrow> string option" where
  "getline env ts i =
    (let l = tok_line (get_token ts i)
     in feed env ts (line_start ts l i) (line_end ts l i + 1))"

section \<open>Invariants of the character loop\<close>

definition flow_all :: "(LexState \<Rightarrow> bool) \<Rightarrow> lexflow \<Rightarrow> bool" where
  "flow_all P f \<longleftrightarrow> (case f of Fall st \<Rightarrow> P st | Next st \<Rightarrow> P st | Fail \<Rightarrow> True)"

lemma flow_all_simps [simp]:
  "flow_all P (Fall st) = P st" "flow_all P (Next st) = P st" "flow_all P Fail"
  by (simp_all add: flow_all_def)

lemma flow_all_if:
  "(b \<Longrightarrow> flow_all P x) \<Longrightarrow> (\<not> b \<Longrightarrow> flow_all P y) \<Longrightarrow> flow_all P (if b then x else y)"
  by simp

lemma flow_all_next: "P st \<Longrightarrow> flow_all P (Next st)" "P st \<Longrightarrow> flow_all P (Fall st)"
  by simp_all

lemma flow_all_andThen:
  "flow_all P f \<Longrightarrow> (\<And>st. P st \<Longrightarrow> flow_all P (g st)) \<Longrightarrow> flow_all P (andThen f g)"
  by (cases f) auto

text \<open>A property that one iteration keeps holds at the end of the loop.\<close>

lemma lex_loop_invariant:
  assumes step: "\<And>st. P st \<Longrightarrow> index st < length src \<Longrightarrow> flow_all P (lex_step env src st)"
  shows "P st \<Longrightarrow> lex_loop env src st = Some st' \<Longrightarrow> P st' \<and> length src \<le> index st'"
  using step
proof (induction env src st rule: lex_loop.induct)
  case (1 env src st)
  show ?case
  proof (cases "index st < length src")
    case True
    with 1 show ?thesis
      using 1(5) [unfolded flow_all_def, of st]
      by (auto simp: lex_loop.simps [of env src st] split: lexflow.splits)
  next
    case False
    with 1 show ?thesis
      by (simp add: lex_loop.simps [of env src st])
  qed
qed


text \<open>The indices into the three side tables, in the order of the tokens.\<close>

definition indices_of :: "TokenKind set \<Rightarrow> TokenStream \<Rightarrow> nat list" where
  "indices_of K ts = map data_index (filter (\<lambda>t. tok_type t \<in> K) (tokens ts))"

definition str_kinds :: "TokenKind set" where
  "str_kinds = {TOKEN_ID, TOKEN_LITERAL_STRING, TOKEN_LITERAL_CHAR}"

definition wf_stream :: "TokenStream \<Rightarrow> bool" where
  "wf_stream ts \<longleftrightarrow>
    indices_of str_kinds ts = [0..<length (strings ts)]
    \<and> indices_of {TOKEN_LITERAL_INTEGER} ts = [0..<length (integers ts)]
    \<and> indices_of {TOKEN_LITERAL_DECIMAL} ts = [0..<length (floats ts)]"

text \<open>Positions: lines never go back, and a token lies on a line that was reached.\<close>

definition positions_ok :: "int \<Rightarrow> TokenStream \<Rightarrow> bool" where
  "positions_ok l ts \<longleftrightarrow>
    sorted (map tok_line (tokens ts))
    \<and> (\<forall>t\<in>set (tokens ts). 1 \<le> tok_line t \<and> tok_line t \<le> l \<and> 1 \<le> tok_column t)"

lemma push_token_sel [simp]:
  "tokens (push_token k i l c ts) = tokens ts @
     [\<lparr>tok_type = k, data_index = i, tok_flags = 0, tok_line = l, tok_column = c\<rparr>]"
  "strings (push_token k i l c ts) = strings ts"
  "integers (push_token k i l c ts) = integers ts"
  "floats (push_token k i l c ts) = floats ts"
  "non_blank_lines (push_token k i l c ts) = non_blank_lines ts"
  by (simp_all add: push_token_def)

lemma mark_suffix_sel [simp]:
  "strings (mark_suffix c ts) = strings ts" "integers (mark_suffix c ts) = integers ts"
  "floats (mark_suffix c ts) = floats ts" "non_blank_lines (mark_suffix c ts) = non_blank_lines ts"
  by (simp_all add: mark_suffix_def Let_def)

lemma mark_suffix_map:
  assumes "\<And>t x. f (t\<lparr>tok_flags := x\<rparr>) = f t"
  shows "map f (tokens (mark_suffix c ts)) = map f (tokens ts)"
proof (cases "tokens ts" rule: rev_cases)
  case (snoc xs t)
  then show ?thesis
    using assms by (simp add: mark_suffix_def Let_def)
qed (simp add: mark_suffix_def)

lemma mark_suffix_set:
  assumes "\<And>t x. f (t\<lparr>tok_flags := x\<rparr>) = f t"
  shows "(\<forall>t\<in>set (tokens (mark_suffix c ts)). P (f t)) = (\<forall>t\<in>set (tokens ts). P (f t))"
  using arg_cong [OF mark_suffix_map [of f c ts], of "\<lambda>xs. \<forall>x\<in>set xs. P x"] assms by simp

lemma indices_of_mark_suffix [simp]: "indices_of K (mark_suffix c ts) = indices_of K ts"
proof (cases "tokens ts" rule: rev_cases)
  case (snoc xs t)
  then show ?thesis
    by (simp add: mark_suffix_def Let_def indices_of_def)
qed (simp add: mark_suffix_def)

lemma wf_stream_mark_suffix [simp]: "wf_stream (mark_suffix c ts) = wf_stream ts"
  by (simp add: wf_stream_def)

lemma positions_ok_mark_suffix [simp]: "positions_ok l (mark_suffix c ts) = positions_ok l ts"
  unfolding positions_ok_def
  using mark_suffix_map [of tok_line c ts]
    mark_suffix_set [of "\<lambda>t. (tok_line t, tok_column t)" c ts
      "\<lambda>(a, b). 1 \<le> a \<and> a \<le> l \<and> 1 \<le> b"]
  by simp

lemma indices_of_push_token:
  "indices_of K (push_token k i l c ts) = indices_of K ts @ (if k \<in> K then [i] else [])"
  by (simp add: indices_of_def)

lemma indices_of_tables [simp]:
  "indices_of K (ts\<lparr>strings := x\<rparr>) = indices_of K ts"
  "indices_of K (ts\<lparr>integers := y\<rparr>) = indices_of K ts"
  "indices_of K (ts\<lparr>floats := z\<rparr>) = indices_of K ts"
  "indices_of K (ts\<lparr>non_blank_lines := n\<rparr>) = indices_of K ts"
  "indices_of K (ts\<lparr>total_lines := n\<rparr>) = indices_of K ts"
  by (simp_all add: indices_of_def)

lemmas add_defs = add_def add_id_def add_int_def add_float_def add_string_def add_char_def

lemma wf_stream_add:
  "wf_stream ts \<Longrightarrow> wf_stream (add_id s l c ts)"
  "wf_stream ts \<Longrightarrow> wf_stream (add_int n l c ts)"
  "wf_stream ts \<Longrightarrow> wf_stream (add_float x l c ts)"
  "wf_stream ts \<Longrightarrow> wf_stream (add_string s l c ts)"
  "wf_stream ts \<Longrightarrow> wf_stream (add_char ch l c ts)"
  by (simp_all add: wf_stream_def add_defs indices_of_push_token str_kinds_def)

lemma wf_stream_add_plain:
  "wf_stream ts \<Longrightarrow> k \<notin> str_kinds \<Longrightarrow> k \<noteq> TOKEN_LITERAL_INTEGER \<Longrightarrow> k \<noteq> TOKEN_LITERAL_DECIMAL \<Longrightarrow>
   wf_stream (add k l c ts)"
  by (simp add: wf_stream_def add_def indices_of_push_token)

lemma keyword_of_kind: "keyword_of s = Some k \<Longrightarrow> k \<in> set keyword_kinds \<and> s = token_names k"
  unfolding keyword_of_def by (auto simp: find_Some_iff)

lemma keyword_plain:
  "k \<in> set keyword_kinds \<Longrightarrow> k \<notin> str_kinds \<and> k \<noteq> TOKEN_LITERAL_INTEGER \<and> k \<noteq> TOKEN_LITERAL_DECIMAL"
  by (auto simp: keyword_kinds_def str_kinds_def)

lemma wf_stream_misc [simp]:
  "wf_stream (ts\<lparr>non_blank_lines := n\<rparr>) = wf_stream ts"
  "wf_stream (ts\<lparr>total_lines := n\<rparr>) = wf_stream ts"
  by (simp_all add: wf_stream_def)

lemma positions_ok_add:
  "positions_ok l ts \<Longrightarrow> 1 \<le> l' \<Longrightarrow> l \<le> l' \<Longrightarrow> 1 \<le> c \<Longrightarrow> positions_ok l' (add_id s l' c ts)"
  "positions_ok l ts \<Longrightarrow> 1 \<le> l' \<Longrightarrow> l \<le> l' \<Longrightarrow> 1 \<le> c \<Longrightarrow> positions_ok l' (add_int n l' c ts)"
  "positions_ok l ts \<Longrightarrow> 1 \<le> l' \<Longrightarrow> l \<le> l' \<Longrightarrow> 1 \<le> c \<Longrightarrow> positions_ok l' (add_float x l' c ts)"
  "positions_ok l ts \<Longrightarrow> 1 \<le> l' \<Longrightarrow> l \<le> l' \<Longrightarrow> 1 \<le> c \<Longrightarrow> positions_ok l' (add_string s l' c ts)"
  "positions_ok l ts \<Longrightarrow> 1 \<le> l' \<Longrightarrow> l \<le> l' \<Longrightarrow> 1 \<le> c \<Longrightarrow> positions_ok l' (add_char ch l' c ts)"
  "positions_ok l ts \<Longrightarrow> 1 \<le> l' \<Longrightarrow> l \<le> l' \<Longrightarrow> 1 \<le> c \<Longrightarrow> positions_ok l' (add k l' c ts)"
  by (force simp: positions_ok_def add_defs sorted_append)+

lemmas positions_ok_add_here = positions_ok_add [OF _ _ order_refl]

lemma positions_ok_misc [simp]:
  "positions_ok l (ts\<lparr>non_blank_lines := n\<rparr>) = positions_ok l ts"
  "positions_ok l (ts\<lparr>total_lines := n\<rparr>) = positions_ok l ts"
  by (simp_all add: positions_ok_def)

lemma positions_ok_mono: "positions_ok l ts \<Longrightarrow> l \<le> l' \<Longrightarrow> positions_ok l' ts"
  by (force simp: positions_ok_def)


text \<open>What holds between the stages of an iteration whose character lies on line \<open>l\<close>.\<close>

definition lex_pending :: "LexState \<Rightarrow> bool" where
  "lex_pending st \<longleftrightarrow> is_id st \<or> is_num st \<or> is_decimal st \<or> is_str st \<or> is_char st"

definition token_inv :: "int \<Rightarrow> LexState \<Rightarrow> bool" where
  "token_inv l st \<longleftrightarrow>
    wf_stream (stream st) \<and> positions_ok (start_ln st) (stream st) \<and> start_ln st \<le> l
    \<and> (lex_pending st \<longrightarrow> 1 \<le> start_ln st \<and> 1 \<le> start_col st)
    \<and> l \<le> line st \<and> 1 \<le> l \<and> 1 \<le> column st"

text \<open>An iteration only moves the start of a token to its own position, and adds tokens there.\<close>

lemma token_inv_same:
  "token_inv l st \<Longrightarrow> stream st' = stream st \<Longrightarrow> start_ln st' = start_ln st \<Longrightarrow>
   start_col st' = start_col st \<Longrightarrow> lex_pending st' \<longrightarrow> lex_pending st \<Longrightarrow> line st' = line st \<Longrightarrow>
   column st' = column st \<Longrightarrow> token_inv l st'"
  by (simp add: token_inv_def)

lemma token_inv_start:
  "token_inv l st \<Longrightarrow> stream st' = stream st \<Longrightarrow> start_ln st' = l \<Longrightarrow> 1 \<le> start_col st' \<Longrightarrow>
   line st' = line st \<Longrightarrow> column st' = column st \<Longrightarrow> token_inv l st'"
  using positions_ok_mono [of "start_ln st" "stream st" l] by (simp add: token_inv_def)

lemma token_inv_add:
  "token_inv l st \<Longrightarrow> wf_stream (stream st') \<Longrightarrow> positions_ok (start_ln st) (stream st') \<Longrightarrow>
   start_ln st' = start_ln st \<Longrightarrow> start_col st' = start_col st \<Longrightarrow> lex_pending st \<Longrightarrow>
   line st' = line st \<Longrightarrow> column st' = column st \<Longrightarrow> token_inv l st'"
  by (simp add: token_inv_def)

lemma token_inv_pending:
  "token_inv l st \<Longrightarrow> lex_pending st \<Longrightarrow>
   wf_stream (stream st) \<and> positions_ok (start_ln st) (stream st) \<and> 1 \<le> start_ln st \<and> 1 \<le> start_col st"
  by (simp add: token_inv_def)

lemma pendingI:
  "is_id st \<Longrightarrow> lex_pending st" "is_num st \<Longrightarrow> lex_pending st" "is_decimal st \<Longrightarrow> lex_pending st"
  "is_str st \<Longrightarrow> lex_pending st" "is_char st \<Longrightarrow> lex_pending st"
  by (simp_all add: lex_pending_def)

lemma token_inv_comment:
  assumes "token_inv (ln c) st"
  shows "flow_all (token_inv (ln c)) (lex_comment c st)"
  unfolding lex_comment_def
  by (intro flow_all_if flow_all_next token_inv_same [OF assms]) (simp_all add: lex_pending_def)

lemma token_inv_quotes:
  assumes "token_inv (ln c) st" and "1 \<le> col c"
  shows "flow_all (token_inv (ln c)) (lex_quotes c st)"
proof -
  have str: "token_inv (ln c) (st\<lparr>stream := add_string x (start_ln st) (start_col st) (stream st),
      string_content := [], is_str := False\<rparr>)" if "is_str st" for x
    using token_inv_pending [OF assms(1) pendingI(4) [OF that]] pendingI(4) [OF that]
    by (intro token_inv_add [OF assms(1)] ; simp add: wf_stream_add positions_ok_add_here)
  have chr: "token_inv (ln c) (st\<lparr>stream := add_char x (start_ln st) (start_col st) (stream st),
      string_content := [], is_char := False\<rparr>)" if "is_char st" for x
    using token_inv_pending [OF assms(1) pendingI(5) [OF that]] pendingI(5) [OF that]
    by (intro token_inv_add [OF assms(1)] ; simp add: wf_stream_add positions_ok_add_here)
  show ?thesis
    using assms str chr unfolding lex_quotes_def
    by (auto intro: token_inv_start [OF assms(1)] token_inv_same [OF assms(1)] simp: lex_pending_def)
qed

lemma token_inv_letter:
  "token_inv (ln c) st \<Longrightarrow> 1 \<le> col c \<Longrightarrow> flow_all (token_inv (ln c)) (lex_letter c st)"
  by (auto simp: lex_letter_def Let_def intro: token_inv_start)

lemma token_inv_digit:
  "token_inv (ln c) st \<Longrightarrow> 1 \<le> col c \<Longrightarrow> flow_all (token_inv (ln c)) (lex_digit c st)"
  by (auto simp: lex_digit_def Let_def intro: token_inv_start)

lemma token_inv_dot:
  "token_inv (ln c) st \<Longrightarrow> 1 \<le> col c \<Longrightarrow> flow_all (token_inv (ln c)) (lex_dot c st)"
  by (auto simp: lex_dot_def Let_def lex_pending_def intro: token_inv_start token_inv_same)

lemma token_inv_decimal:
  assumes "token_inv (ln c) st"
  shows "flow_all (token_inv (ln c)) (lex_decimal env src c st)"
proof (cases "is_decimal st")
  case True
  then show ?thesis
    using assms token_inv_pending [OF assms pendingI(3)] pendingI(3) [OF True]
    by (auto simp: lex_decimal_def Let_def wf_stream_add positions_ok_add_here intro!: token_inv_add [OF assms])
qed (simp add: lex_decimal_def assms)

lemma token_inv_number:
  assumes "token_inv (ln c) st"
  shows "flow_all (token_inv (ln c)) (lex_number env src c st)"
proof (cases "is_num st")
  case True
  then show ?thesis
    using assms token_inv_pending [OF assms pendingI(2)] pendingI(2) [OF True]
    by (auto simp: lex_number_def Let_def wf_stream_add positions_ok_add_here intro!: token_inv_add [OF assms])
qed (simp add: lex_number_def assms)

lemma token_inv_ident:
  assumes "token_inv (ln c) st"
  shows "flow_all (token_inv (ln c)) (lex_ident src c st)"
proof (cases "is_id st")
  case True
  note p = token_inv_pending [OF assms pendingI(1) [OF True]]
  have "wf_stream (add k (start_ln st) (start_col st) (stream st))" if "keyword_of x = Some k" for k x
    using p keyword_of_kind [OF that] by (intro wf_stream_add_plain) (auto dest: keyword_plain)
  with True p show ?thesis
    using assms pendingI(1) [OF True]
    by (auto simp: lex_ident_def Let_def wf_stream_add positions_ok_add_here split: option.splits
        intro!: token_inv_add [OF assms])
qed (simp add: lex_ident_def assms)

lemma token_inv_other:
  assumes "token_inv (ln c) st" and "1 \<le> col c"
  shows "flow_all (token_inv (ln c)) (lex_other c st)"
proof -
  have "positions_ok (ln c) (stream st)" "wf_stream (stream st)" "1 \<le> ln c"
    using assms(1) positions_ok_mono [of "start_ln st" "stream st" "ln c"] by (auto simp: token_inv_def)
  with assms show ?thesis
    by (auto simp: lex_other_def token_inv_def lex_pending_def str_kinds_def
        intro!: positions_ok_add_here wf_stream_add_plain)
qed

lemmas token_inv_stages = token_inv_comment token_inv_quotes token_inv_letter token_inv_digit
  token_inv_dot token_inv_decimal token_inv_number token_inv_ident token_inv_other

lemma token_inv_position:
  assumes "token_inv (line st) st"
  shows "token_inv (ln (read_char src st)) (lex_position (read_char src st) st)"
  using assms
  by (auto simp: lex_position_def token_inv_def lex_pending_def Let_def read_char_def)

lemma token_inv_step:
  assumes "token_inv (line st) st"
  shows "flow_all (\<lambda>st. token_inv (line st) st) (lex_step env src st)"
proof -
  let ?c = "read_char src st"
  have col: "1 \<le> col ?c"
    using assms by (simp add: read_char_def token_inv_def)
  have "flow_all (token_inv (ln ?c)) (lex_step env src st)"
    unfolding lex_step_def Let_def
    by (intro flow_all_andThen token_inv_stages token_inv_position [OF assms] col)
  then show ?thesis
    by (auto simp: flow_all_def token_inv_def split: lexflow.splits)
qed

section \<open>Lines\<close>

text \<open>The lines of a text, and the lines that are not blank.\<close>

fun lines_of :: "string \<Rightarrow> string list" where
  "lines_of [] = [[]]"
| "lines_of (c # cs) =
     (case lines_of cs of
        [] \<Rightarrow> []
      | l # ls \<Rightarrow> if c = chr_nl then [] # l # ls else (c # l) # ls)"

definition non_blank :: "string \<Rightarrow> bool" where
  "non_blank l \<longleftrightarrow> (\<exists>c\<in>set l. \<not> is_delim c)"

lemma lines_of_ne [simp]: "lines_of s \<noteq> []"
  by (induction s) (auto split: list.splits)

lemma lines_of_snoc:
  "lines_of (s @ [c]) =
    (if c = chr_nl then lines_of s @ [[]]
     else butlast (lines_of s) @ [last (lines_of s) @ [c]])"
proof (induction s)
  case (Cons a s)
  then show ?case
    by (cases "lines_of s") (auto simp: butlast_append split: list.splits)
qed simp

lemma non_blank_snoc: "non_blank (l @ [c]) = (non_blank l \<or> \<not> is_delim c)"
  by (auto simp: non_blank_def)

definition line_inv :: "string \<Rightarrow> LexState \<Rightarrow> bool" where
  "line_inv src st \<longleftrightarrow>
    index st \<le> length src
    \<and> line st = int (length (lines_of (take (index st) src)))
    \<and> only_whitespace st = (\<not> non_blank (last (lines_of (take (index st) src))))
    \<and> non_blank_lines (stream st) =
        int (length (filter non_blank (lines_of (take (index st) src))))"

lemma filter_butlast_last:
  "xs \<noteq> [] \<Longrightarrow> length (filter P xs) = length (filter P (butlast xs)) + (if P (last xs) then 1 else 0)"
  by (cases xs rule: rev_cases) auto

lemma line_inv_position:
  assumes "line_inv src st" and "index st < length src"
  shows "line_inv src (lex_position (read_char src st) st)"
    and "\<not> is_delim (src ! index st) \<Longrightarrow> \<not> only_whitespace (lex_position (read_char src st) st)"
proof -
  have t: "take (Suc (index st)) src = take (index st) src @ [src ! index st]"
    using assms(2) by (rule take_Suc_conv_app_nth)
  have nl: "is_delim chr_nl" by (simp add: is_delim_def)
  note ll = filter_butlast_last [of "lines_of (take (index st) src)" non_blank]
  show "line_inv src (lex_position (read_char src st) st)"
    using assms nl ll
    by (cases "src ! index st = chr_nl")
      (auto simp: line_inv_def lex_position_def Let_def read_char_def t lines_of_snoc
        non_blank_snoc, auto simp: non_blank_def)
  show "\<not> is_delim (src ! index st) \<Longrightarrow> \<not> only_whitespace (lex_position (read_char src st) st)"
    using nl by (auto simp: lex_position_def Let_def read_char_def)
qed

text \<open>A second character that an iteration skips is never a blank.\<close>

lemma line_inv_skip:
  assumes "line_inv src st" and "index st < length src" and "\<not> is_delim (src ! index st)"
    and "\<not> only_whitespace st"
  shows "line_inv src (st\<lparr>index := Suc (index st)\<rparr>)"
proof -
  have t: "take (Suc (index st)) src = take (index st) src @ [src ! index st]"
    using assms(2) by (rule take_Suc_conv_app_nth)
  have nl: "src ! index st \<noteq> chr_nl"
    using assms(3) by (auto simp: is_delim_def)
  show ?thesis
    using assms nl filter_butlast_last [of "lines_of (take (index st) src)" non_blank]
    by (simp add: line_inv_def t lines_of_snoc non_blank_snoc)
qed

lemma line_inv_other [simp]:
  "line_inv src (st\<lparr>is_id := b\<rparr>) = line_inv src st"
  "line_inv src (st\<lparr>is_num := b\<rparr>) = line_inv src st"
  "line_inv src (st\<lparr>is_decimal := b\<rparr>) = line_inv src st"
  "line_inv src (st\<lparr>is_str := b\<rparr>) = line_inv src st"
  "line_inv src (st\<lparr>is_char := b\<rparr>) = line_inv src st"
  "line_inv src (st\<lparr>is_comment := b\<rparr>) = line_inv src st"
  "line_inv src (st\<lparr>is_multicomment := b\<rparr>) = line_inv src st"
  "line_inv src (st\<lparr>start_ln := n\<rparr>) = line_inv src st"
  "line_inv src (st\<lparr>start_col := n\<rparr>) = line_inv src st"
  "line_inv src (st\<lparr>data_start := k\<rparr>) = line_inv src st"
  "line_inv src (st\<lparr>string_content := x\<rparr>) = line_inv src st"
  by (simp_all add: line_inv_def)

lemma line_inv_stream:
  "line_inv src st \<Longrightarrow> non_blank_lines ts = non_blank_lines (stream st) \<Longrightarrow>
   line_inv src (st\<lparr>stream := ts\<rparr>)"
  by (simp add: line_inv_def)

lemma line_inv_cong:
  "line_inv src st \<Longrightarrow> index st' = index st \<Longrightarrow> line st' = line st \<Longrightarrow>
   only_whitespace st' = only_whitespace st \<Longrightarrow>
   non_blank_lines (stream st') = non_blank_lines (stream st) \<Longrightarrow> line_inv src st'"
  by (simp add: line_inv_def)

lemma nextChr_read:
  "nextChr (read_char src st) \<noteq> chr_nul \<Longrightarrow>
   Suc (index st) < length src \<and> src ! Suc (index st) = nextChr (read_char src st)"
  by (auto simp: read_char_def split: if_splits)

lemma skipped_chars:
  "CHR ''/'' \<noteq> chr_nul" "CHR ''*'' \<noteq> chr_nul" "CHR ''n'' \<noteq> chr_nul" "chr_backslash \<noteq> chr_nul"
  "\<not> is_delim CHR ''/''" "\<not> is_delim CHR ''*''" "\<not> is_delim CHR ''n''" "\<not> is_delim chr_backslash"
  by (simp_all add: is_delim_def chr_defs)

lemma line_inv_stages:
  assumes "line_inv src st"
  shows "flow_all (line_inv src) (lex_letter c st)" "flow_all (line_inv src) (lex_digit c st)"
    "flow_all (line_inv src) (lex_dot c st)" "flow_all (line_inv src) (lex_decimal env src' c st)"
    "flow_all (line_inv src) (lex_number env src' c st)" "flow_all (line_inv src) (lex_ident src' c st)"
    "flow_all (line_inv src) (lex_other c st)"
  using assms
  by (simp_all add: lex_letter_def lex_digit_def lex_dot_def lex_decimal_def lex_number_def
      lex_ident_def lex_other_def Let_def add_defs line_inv_stream split: option.split)

text \<open>The state after the position update, before a second character may be skipped.\<close>

definition at_char :: "string \<Rightarrow> LexChar \<Rightarrow> LexState \<Rightarrow> bool" where
  "at_char src c st \<longleftrightarrow>
    line_inv src st \<and> (is_delim (chr c) \<or> \<not> only_whitespace st)
    \<and> (nextChr c \<noteq> chr_nul \<longrightarrow> index st < length src \<and> src ! index st = nextChr c)"

lemma at_char_skip:
  assumes "at_char src c st" and "\<not> is_delim (chr c)" "nextChr c \<noteq> chr_nul" "\<not> is_delim (nextChr c)"
  shows "line_inv src (st\<lparr>index := Suc (index st)\<rparr>)"
  using assms by (intro line_inv_skip) (auto simp: at_char_def)

lemma lex_comment_Fall: "lex_comment c st = Fall st' \<Longrightarrow> st' = st"
  unfolding lex_comment_def
  by (cases "is_comment st"; cases "is_multicomment st"; simp only: if_True if_False simp_thms lexflow.distinct)
    (simp only: if_distrib [of "\<lambda>x. x = Fall st'"] lexflow.distinct lexflow.inject split: if_split_asm)

lemma line_inv_comment:
  assumes "at_char src c st"
  shows "flow_all (line_inv src) (lex_comment c st)"
    and "lex_comment c st = Fall st' \<Longrightarrow> at_char src c st'"
proof -
  have slash: "line_inv src (st\<lparr>index := Suc (index st)\<rparr>)"
    if c: "chr c \<in> {CHR ''*'', CHR ''/''}" and n: "nextChr c \<in> {CHR ''/'', CHR ''*''}"
  proof (rule at_char_skip [OF assms])
    show "\<not> is_delim (chr c)" using c skipped_chars(5,6) by (elim insertE emptyE) simp_all
    show "\<not> is_delim (nextChr c)" using n skipped_chars(5,6) by (elim insertE emptyE) simp_all
    show "nextChr c \<noteq> chr_nul" using n skipped_chars(1,2) by (elim insertE emptyE) simp_all
  qed
  have keep: "line_inv src st" using assms by (simp add: at_char_def)
  have skip: "line_inv src (st\<lparr>index := index st + 1, is_comment := b\<rparr>)"
    "line_inv src (st\<lparr>index := index st + 1, is_multicomment := b\<rparr>)"
    if "chr c \<in> {CHR ''*'', CHR ''/''}" and "nextChr c \<in> {CHR ''/'', CHR ''*''}" for b
    by (rule line_inv_cong [OF slash [OF that]]; simp)+
  show "flow_all (line_inv src) (lex_comment c st)"
    unfolding lex_comment_def
  proof (intro flow_all_if flow_all_next)
    show "line_inv src (if chr c = chr_nl then st\<lparr>is_comment := False\<rparr> else st)"
      using keep by simp
    show "line_inv src (if chr c = CHR ''*'' \<and> nextChr c = CHR ''/''
        then st\<lparr>index := index st + 1, is_multicomment := False\<rparr> else st)"
      using keep skip(2) [of False] by (auto split: if_split)
  qed (use keep skip in simp_all)
  show "lex_comment c st = Fall st' \<Longrightarrow> at_char src c st'"
    using assms lex_comment_Fall [of c st st'] by simp
qed

lemma line_inv_quotes:
  assumes "at_char src c st"
  shows "flow_all (line_inv src) (lex_quotes c st)"
proof -
  have esc: "line_inv src (st\<lparr>index := Suc (index st)\<rparr>)"
    if "chr c = chr_backslash" "nextChr c = chr_backslash \<or> nextChr c = CHR ''n''"
    using that skipped_chars by (intro at_char_skip [OF assms]) auto
  have keep: "line_inv src st" using assms by (simp add: at_char_def)
  show ?thesis
    unfolding lex_quotes_def
    by (intro flow_all_if flow_all_next; use keep in \<open>simp add: add_defs line_inv_stream\<close>; use esc in simp)
qed

lemma line_inv_step:
  assumes inv: "line_inv src st" and less: "index st < length src"
  shows "flow_all (line_inv src) (lex_step env src st)"
proof -
  let ?c = "read_char src st" and ?st = "lex_position (read_char src st) st"
  have "at_char src ?c ?st"
    unfolding at_char_def lex_position_index
  proof (intro conjI impI)
    show "line_inv src ?st" by (rule line_inv_position(1) [OF inv less])
    have "chr ?c = src ! index st" by (simp add: read_char_def)
    then show "is_delim (chr ?c) \<or> \<not> only_whitespace ?st"
      using line_inv_position(2) [OF inv less] by metis
  qed (use nextChr_read in blast)+
  then have q: "flow_all (line_inv src) (andThen (lex_comment ?c ?st) (lex_quotes ?c))"
    using line_inv_comment [of src ?c ?st] line_inv_quotes
    by (cases "lex_comment ?c ?st") auto
  show ?thesis
    unfolding lex_step_def Let_def
    by ((rule q | (rule line_inv_stages, assumption) | rule flow_all_andThen)+)
qed


lemma lex_file_Some:
  "lex_file env p contents = Some ts \<Longrightarrow>
   \<exists>src st. contents = Some src \<and> lex_loop env src (lex_init p (length src)) = Some st
     \<and> ts = (stream st)\<lparr>total_lines := line st\<rparr>"
  by (auto simp: lex_file_def split: option.splits)

lemma token_inv_init: "token_inv (line (lex_init p n)) (lex_init p n)"
  by (simp add: token_inv_def lex_init_def new_stream_def wf_stream_def indices_of_def
      positions_ok_def lex_pending_def)

lemma line_inv_init: "line_inv src (lex_init p n)"
  by (simp add: line_inv_def lex_init_def new_stream_def non_blank_def)

lemma indices_of_range:
  "indices_of K ts = [0..<n] \<Longrightarrow> t \<in> set (tokens ts) \<Longrightarrow> tok_type t \<in> K \<Longrightarrow> data_index t < n"
proof -
  assume r: "indices_of K ts = [0..<n]" and t: "t \<in> set (tokens ts)" "tok_type t \<in> K"
  from t have "data_index t \<in> set (indices_of K ts)"
    by (auto simp: indices_of_def)
  with r show ?thesis by simp
qed

section \<open>Properties\<close>

text \<open>
  C19. The tokens and the side tables of a stream that the lexer returns fit exactly: the strings,
  the integers and the floats are each referred to once and in order, so no token reads
  outside its table.
\<close>

theorem lex_file_tables:
  assumes "lex_file env p contents = Some ts"
  shows "wf_stream ts \<and> (\<forall>t\<in>set (tokens ts).
      (tok_type t \<in> str_kinds \<longrightarrow> data_index t < length (strings ts))
      \<and> (tok_type t = TOKEN_LITERAL_INTEGER \<longrightarrow> data_index t < length (integers ts))
      \<and> (tok_type t = TOKEN_LITERAL_DECIMAL \<longrightarrow> data_index t < length (floats ts)))"
proof -
  obtain src st where st: "lex_loop env src (lex_init p (length src)) = Some st"
    "ts = (stream st)\<lparr>total_lines := line st\<rparr>"
    using lex_file_Some [OF assms] by blast
  have wf: "wf_stream ts"
    using lex_loop_invariant [of "\<lambda>st. token_inv (line st) st", OF token_inv_step token_inv_init st(1)] st(2)
    by (simp add: token_inv_def)
  then show ?thesis
    using indices_of_range [of str_kinds ts] indices_of_range [of "{TOKEN_LITERAL_INTEGER}" ts]
      indices_of_range [of "{TOKEN_LITERAL_DECIMAL}" ts]
    by (auto simp: wf_stream_def)
qed


section \<open>Separated lexemes\<close>

datatype Lexeme = LWord string | LNum string | LSym char | LStr string

fun lexeme_text :: "Lexeme \<Rightarrow> string" where
  "lexeme_text (LWord w) = w"
| "lexeme_text (LNum ds) = ds"
| "lexeme_text (LSym c) = [c]"
| "lexeme_text (LStr s) = chr_dquote # s @ [chr_dquote]"

definition plain_char :: "char \<Rightarrow> bool" where
  "plain_char c \<longleftrightarrow> c \<noteq> chr_dquote \<and> c \<noteq> chr_quote \<and> c \<noteq> chr_backslash \<and> c \<noteq> CHR ''/''"

fun lexeme_ok :: "Lexeme \<Rightarrow> bool" where
  "lexeme_ok (LWord w) \<longleftrightarrow> w \<noteq> [] \<and> is_letter (hd w) \<and> (\<forall>c\<in>set w. is_letter c \<or> is_digit c)"
| "lexeme_ok (LNum ds) \<longleftrightarrow> ds \<noteq> [] \<and> (\<forall>c\<in>set ds. is_digit c)"
| "lexeme_ok (LSym c) \<longleftrightarrow>
     \<not> is_letter c \<and> \<not> is_digit c \<and> \<not> is_delim c \<and> c \<noteq> chr_dquote \<and> c \<noteq> chr_quote"
| "lexeme_ok (LStr s) \<longleftrightarrow> (\<forall>c\<in>set s. plain_char c)"

fun lexeme_kind :: "Lexeme \<Rightarrow> TokenKind" where
  "lexeme_kind (LWord w) = (case keyword_of w of Some k \<Rightarrow> k | None \<Rightarrow> TOKEN_ID)"
| "lexeme_kind (LNum ds) = TOKEN_LITERAL_INTEGER"
| "lexeme_kind (LSym c) = TOKEN_CHR c"
| "lexeme_kind (LStr s) = TOKEN_LITERAL_STRING"

fun lexeme_strings :: "Lexeme \<Rightarrow> string list" where
  "lexeme_strings (LWord w) = (case keyword_of w of Some k \<Rightarrow> [] | None \<Rightarrow> [w])"
| "lexeme_strings (LStr s) = [s]"
| "lexeme_strings _ = []"

fun lexeme_integers :: "lex_env \<Rightarrow> Lexeme \<Rightarrow> i32 list" where
  "lexeme_integers env (LNum ds) = [atoi env ds]"
| "lexeme_integers env _ = []"

text \<open>
  What matters of a state between two characters: which literal is pending, since where, and
  the tokens so far.
\<close>

datatype Mode = Idle | InWord nat | InNum nat | InStr string

definition mode :: "Mode \<Rightarrow> nat \<Rightarrow> TokenKind list \<Rightarrow> string list \<Rightarrow> i32 list \<Rightarrow> LexState \<Rightarrow> bool" where
  "mode m j K S N st \<longleftrightarrow>
    index st = j \<and> \<not> is_comment st \<and> \<not> is_multicomment st \<and> \<not> is_decimal st \<and> \<not> is_char st
    \<and> map tok_type (tokens (stream st)) = K \<and> strings (stream st) = S \<and> integers (stream st) = N
    \<and> is_id st = (\<exists>i. m = InWord i) \<and> is_num st = (\<exists>i. m = InNum i) \<and> is_str st = (\<exists>s. m = InStr s)
    \<and> (case m of Idle \<Rightarrow> string_content st = []
       | InWord i \<Rightarrow> data_start st = i \<and> string_content st = []
       | InNum i \<Rightarrow> data_start st = i \<and> string_content st = []
       | InStr s \<Rightarrow> string_content st = s)"

lemma lex_position_sel [simp]:
  "is_id (lex_position c st) = is_id st" "is_num (lex_position c st) = is_num st"
  "is_decimal (lex_position c st) = is_decimal st" "is_str (lex_position c st) = is_str st"
  "is_char (lex_position c st) = is_char st" "is_comment (lex_position c st) = is_comment st"
  "is_multicomment (lex_position c st) = is_multicomment st"
  "data_start (lex_position c st) = data_start st"
  "string_content (lex_position c st) = string_content st"
  "map tok_type (tokens (stream (lex_position c st))) = map tok_type (tokens (stream st))"
  "strings (stream (lex_position c st)) = strings (stream st)"
  "integers (stream (lex_position c st)) = integers (stream st)"
  by (simp_all add: lex_position_def Let_def mark_suffix_map)

lemma mode_position:
  "mode m j K S N st \<Longrightarrow> mode m (Suc j) K S N (lex_position c st)"
  by (cases m) (simp_all add: mode_def)

lemma char_facts:
  "is_letter c \<Longrightarrow> c \<noteq> CHR ''/'' \<and> c \<noteq> chr_dquote \<and> c \<noteq> chr_quote \<and> c \<noteq> CHR ''.'' \<and> \<not> is_delim c"
  "is_digit c \<Longrightarrow> c \<noteq> CHR ''/'' \<and> c \<noteq> chr_dquote \<and> c \<noteq> chr_quote \<and> c \<noteq> CHR ''.'' \<and> \<not> is_delim c"
  "is_digit c \<Longrightarrow> \<not> is_letter c"
  by (auto simp: is_letter_def is_digit_def is_delim_def chr_defs)

lemma read_char_inner:
  "Suc (index st) < length src \<Longrightarrow> read_char src st =
    \<lparr>chr = src ! index st, nextChr = src ! Suc (index st), col = column st, ln = line st, ending = False\<rparr>"
  by (simp add: read_char_def)

lemma lex_letter_step:
  assumes "mode m j K S N st" and "m = Idle \<and> i = j \<or> m = InWord i"
    and "Suc j < length src" and "is_letter (src ! j)"
  shows "\<exists>st'. lex_step env src st = Next st' \<and> mode (InWord i) (Suc j) K S N st'"
proof -
  let ?c = "read_char src st" and ?st = "lex_position (read_char src st) st"
  have c: "chr ?c = src ! j" "\<not> ending ?c"
    using assms by (auto simp: read_char_def mode_def)
  have pos: "mode m (Suc j) K S N ?st"
    using assms(1) by (rule mode_position)
  have "lex_comment ?c ?st = Fall ?st"
    using pos c char_facts(1) [OF assms(4)] by (simp add: lex_comment_def mode_def)
  moreover have "lex_quotes ?c ?st = Fall ?st"
    using pos c char_facts(1) [OF assms(4)] assms(2) by (auto simp: lex_quotes_def mode_def)
  moreover obtain st' where "lex_letter ?c ?st = Next st'" "mode (InWord i) (Suc j) K S N st'"
    using pos c assms(2,4) by (auto simp: lex_letter_def mode_def Let_def)
  ultimately show ?thesis
    by (simp add: lex_step_def Let_def)
qed


lemma lex_digit_step:
  assumes "mode m j K S N st" and "(m = Idle \<and> m' = InNum j) \<or> (\<exists>i. m = InNum i \<or> m = InWord i) \<and> m' = m"
    and "Suc j < length src" and "is_digit (src ! j)"
  shows "\<exists>st'. lex_step env src st = Next st' \<and> mode m' (Suc j) K S N st'"
proof -
  let ?c = "read_char src st" and ?st = "lex_position (read_char src st) st"
  have c: "chr ?c = src ! j" "\<not> ending ?c"
    using assms by (auto simp: read_char_def mode_def)
  have pos: "mode m (Suc j) K S N ?st"
    using assms(1) by (rule mode_position)
  have "lex_comment ?c ?st = Fall ?st"
    using pos c char_facts(2) [OF assms(4)] by (simp add: lex_comment_def mode_def)
  moreover have "lex_quotes ?c ?st = Fall ?st"
    using pos c char_facts(2) [OF assms(4)] assms(2) by (auto simp: lex_quotes_def mode_def)
  moreover have "lex_letter ?c ?st = Fall ?st"
    using c char_facts(3) [OF assms(4)] by (simp add: lex_letter_def)
  moreover obtain st' where "lex_digit ?c ?st = Next st'" "mode m' (Suc j) K S N st'"
    using pos c assms(2,4) by (auto simp: lex_digit_def mode_def Let_def)
  ultimately show ?thesis
    by (simp add: lex_step_def Let_def)
qed


lemma blank_facts: "is_delim c \<Longrightarrow> c \<noteq> CHR ''/'' \<and> c \<noteq> chr_dquote \<and> c \<noteq> chr_quote \<and> c \<noteq> CHR ''.''
    \<and> \<not> is_letter c \<and> \<not> is_digit c"
  by (auto simp: is_letter_def is_digit_def is_delim_def chr_defs)

lemma lex_blank_step:
  assumes "mode m j K S N st" and "j < length src" and "is_delim (src ! j)"
    and "m = Idle \<and> KS = ([], [], []) \<or>
      Suc j < length src \<and>
      ((\<exists>i. m = InWord i \<and> w = take (j - i) (drop i src)
        \<and> KS = ([lexeme_kind (LWord w)], lexeme_strings (LWord w), []))
      \<or> (\<exists>i. m = InNum i \<and> KS = ([TOKEN_LITERAL_INTEGER], [], [atoi env (take (j - i) (drop i src))])))"
  shows "\<exists>st'. lex_step env src st = Next st'
    \<and> mode Idle (Suc j) (K @ fst KS) (S @ fst (snd KS)) (N @ snd (snd KS)) st'"
proof -
  let ?c = "read_char src st" and ?st = "lex_position (read_char src st) st"
  have c: "chr ?c = src ! j" "m \<noteq> Idle \<Longrightarrow> \<not> ending ?c"
    using assms by (auto simp: read_char_def mode_def)
  have pos: "mode m (Suc j) K S N ?st"
    using assms(1) by (rule mode_position)
  note facts = blank_facts [OF assms(3)]
  have "lex_comment ?c ?st = Fall ?st"
    using pos c facts by (simp add: lex_comment_def mode_def)
  moreover have "lex_quotes ?c ?st = Fall ?st"
    using pos c facts assms(4) by (auto simp: lex_quotes_def mode_def)
  moreover have "lex_letter ?c ?st = Fall ?st" "lex_digit ?c ?st = Fall ?st" "lex_dot ?c ?st = Fall ?st"
    using c facts by (simp_all add: lex_letter_def lex_digit_def lex_dot_def)
  moreover have "lex_decimal env src ?c ?st = Fall ?st"
    using pos by (simp add: lex_decimal_def mode_def)
  moreover obtain st1 where "lex_number env src ?c ?st = Fall st1"
    and st1: "case m of InNum i \<Rightarrow> mode Idle (Suc j) (K @ fst KS) (S @ fst (snd KS)) (N @ snd (snd KS)) st1
     | _ \<Rightarrow> st1 = ?st"
    using pos c assms(4)
    by (cases m) (auto simp: lex_number_def mode_def Let_def add_int_def pending_text_def)
  moreover obtain st2 where "lex_ident src ?c st1 = Fall st2"
    and st2: "mode Idle (Suc j) (K @ fst KS) (S @ fst (snd KS)) (N @ snd (snd KS)) st2"
  proof (cases m)
    case (InWord i)
    have "index st1 = Suc j" "data_start st1 = i" "is_id st1" "st1 = ?st"
      using InWord st1 pos by (auto simp: mode_def)
    then show ?thesis
      using that pos c InWord assms(4)
      by (cases "keyword_of (take (j - i) (drop i src))")
        (auto simp: lex_ident_def mode_def Let_def add_id_def add_def pending_text_def)
  next
    case Idle
    then show ?thesis
      using that pos st1 assms(4) by (auto simp: lex_ident_def mode_def)
  next
    case (InNum i)
    then show ?thesis
      using that st1 by (auto simp: lex_ident_def mode_def)
  next
    case (InStr s)
    then show ?thesis using assms(4) by auto
  qed
  moreover obtain st' where "lex_other ?c st2 = Next st'"
    "mode Idle (Suc j) (K @ fst KS) (S @ fst (snd KS)) (N @ snd (snd KS)) st'"
    using st2 c assms(3) by (auto simp: lex_other_def mode_def mark_suffix_map)
  ultimately show ?thesis
    by (auto simp: lex_step_def Let_def)
qed

lemma lex_symbol_step:
  assumes "mode Idle j K S N st" and "Suc j < length src" and "lexeme_ok (LSym (src ! j))"
    and "is_delim (src ! Suc j)"
  shows "\<exists>st'. lex_step env src st = Next st' \<and> mode Idle (Suc j) (K @ [TOKEN_CHR (src ! j)]) S N st'"
proof -
  let ?c = "read_char src st" and ?st = "lex_position (read_char src st) st"
  have c: "chr ?c = src ! j" "nextChr ?c = src ! Suc j" "\<not> ending ?c"
    using assms by (auto simp: read_char_def mode_def)
  have pos: "mode Idle (Suc j) K S N ?st"
    using assms(1) by (rule mode_position)
  have next_chr: "nextChr ?c \<noteq> CHR ''/''" "nextChr ?c \<noteq> CHR ''*''" "\<not> is_digit (nextChr ?c)"
    using blank_facts [OF assms(4)] assms(4) c by (auto simp: is_delim_def chr_defs)
  have "lex_comment ?c ?st = Fall ?st"
    using pos c next_chr by (simp add: lex_comment_def mode_def)
  moreover have "lex_quotes ?c ?st = Fall ?st"
    using pos c assms(3) by (auto simp: lex_quotes_def mode_def)
  moreover have "lex_letter ?c ?st = Fall ?st" "lex_digit ?c ?st = Fall ?st" "lex_dot ?c ?st = Fall ?st"
    using c next_chr pos assms(3) by (auto simp: lex_letter_def lex_digit_def lex_dot_def mode_def)
  moreover have "lex_decimal env src ?c ?st = Fall ?st" "lex_number env src ?c ?st = Fall ?st"
    "lex_ident src ?c ?st = Fall ?st"
    using pos by (simp_all add: lex_decimal_def lex_number_def lex_ident_def mode_def)
  moreover obtain st' where "lex_other ?c ?st = Next st'" "mode Idle (Suc j) (K @ [TOKEN_CHR (src ! j)]) S N st'"
    using pos c assms(3) by (auto simp: lex_other_def mode_def add_def)
  ultimately show ?thesis
    by (auto simp: lex_step_def Let_def)
qed

lemma lex_quote_step:
  assumes "mode m j K S N st" and "j < length src" and "src ! j = chr_dquote"
    and "m = Idle \<and> R = (InStr [], [], []) \<or> (\<exists>s. m = InStr s \<and> R = (Idle, [TOKEN_LITERAL_STRING], [s]))"
  shows "\<exists>st'. lex_step env src st = Next st' \<and> mode (fst R) (Suc j) (K @ fst (snd R)) (S @ snd (snd R)) N st'"
proof -
  let ?c = "read_char src st" and ?st = "lex_position (read_char src st) st"
  have c: "chr ?c = chr_dquote"
    using assms by (auto simp: read_char_def mode_def)
  have pos: "mode m (Suc j) K S N ?st"
    using assms(1) by (rule mode_position)
  have "lex_comment ?c ?st = Fall ?st"
    using pos c by (simp add: lex_comment_def mode_def chr_defs)
  moreover obtain st' where "lex_quotes ?c ?st = Next st'"
    "mode (fst R) (Suc j) (K @ fst (snd R)) (S @ snd (snd R)) N st'"
    using pos c assms(4) by (auto simp: lex_quotes_def mode_def add_string_def)
  ultimately show ?thesis
    by (auto simp: lex_step_def Let_def)
qed

lemma lex_string_step:
  assumes "mode (InStr s) j K S N st" and "j < length src" and "plain_char (src ! j)"
  shows "\<exists>st'. lex_step env src st = Next st' \<and> mode (InStr (s @ [src ! j])) (Suc j) K S N st'"
proof -
  let ?c = "read_char src st" and ?st = "lex_position (read_char src st) st"
  have c: "chr ?c = src ! j"
    using assms by (auto simp: read_char_def mode_def)
  have pos: "mode (InStr s) (Suc j) K S N ?st"
    using assms(1) by (rule mode_position)
  have "lex_comment ?c ?st = Fall ?st"
    using pos c assms(3) by (simp add: lex_comment_def mode_def plain_char_def)
  moreover obtain st' where "lex_quotes ?c ?st = Next st'" "mode (InStr (s @ [src ! j])) (Suc j) K S N st'"
    using pos c assms(3) by (auto simp: lex_quotes_def mode_def plain_char_def)
  ultimately show ?thesis
    by (auto simp: lex_step_def Let_def)
qed


lemma lex_loop_next:
  "lex_step env src st = Next st' \<Longrightarrow> index st < length src \<Longrightarrow> lex_loop env src st = lex_loop env src st'"
  by (simp add: lex_loop.simps [of env src st])

lemma drop_Cons_facts:
  "drop j src = c # cs \<Longrightarrow> j < length src \<and> src ! j = c \<and> drop (Suc j) src = cs"
  by (metis Cons_nth_drop_Suc drop_eq_Nil linorder_not_less list.distinct(1) list.inject)

lemma lex_run:
  assumes step: "\<And>k c st. mode (m k) (j + k) K S N st \<Longrightarrow> k < length cs \<Longrightarrow> j + k < length src \<Longrightarrow>
      src ! (j + k) = cs ! k \<Longrightarrow> Suc (j + k) < length src \<Longrightarrow>
      \<exists>st'. lex_step env src st = Next st' \<and> mode (m (Suc k)) (Suc (j + k)) K S N st'"
    and start: "mode (m 0) j K S N st" and src: "drop j src = cs @ d # r"
  shows "\<exists>st'. lex_loop env src st = lex_loop env src st' \<and> mode (m (length cs)) (j + length cs) K S N st'"
proof -
  have len: "length src = j + length cs + Suc (length r)"
    using arg_cong [OF src, of length] by simp
  have "k \<le> length cs \<Longrightarrow> \<exists>st'. lex_loop env src st = lex_loop env src st' \<and> mode (m k) (j + k) K S N st'" for k
  proof (induction k)
    case 0
    then show ?case using start by auto
  next
    case (Suc k)
    then obtain st1 where st1: "lex_loop env src st = lex_loop env src st1" "mode (m k) (j + k) K S N st1"
      by auto
    have "src ! (j + k) = drop j src ! k"
      using len by simp
    then have "src ! (j + k) = cs ! k"
      using Suc.prems src by simp
    with step [OF st1(2)] Suc.prems len obtain st2 where
      "lex_step env src st1 = Next st2" "mode (m (Suc k)) (Suc (j + k)) K S N st2"
      by auto
    moreover have "index st1 < length src"
      using st1(2) Suc.prems len by (simp add: mode_def)
    ultimately show ?case
      using st1(1) lex_loop_next [of env src st1 st2] by auto
  qed
  then show ?thesis by blast
qed

lemma drop_append_facts:
  "drop j src = cs @ d # r \<Longrightarrow> j + length cs < length src \<and> src ! (j + length cs) = d
    \<and> drop (Suc (j + length cs)) src = r \<and> take (length cs) (drop j src) = cs"
proof -
  assume a: "drop j src = cs @ d # r"
  then have "drop (j + length cs) src = d # r"
    by (metis add.commute append_eq_conv_conj drop_drop)
  with a drop_Cons_facts [of "j + length cs" src d r] show ?thesis by simp
qed

text \<open>The blank after a lexeme, once the lexeme itself has been read.\<close>

lemma lex_after:
  assumes "lex_loop env src st = lex_loop env src st1" and "mode m j K S N st1" and "j < length src"
    and "is_delim (src ! j)"
    and "m = Idle \<and> KS = ([], [], []) \<or>
      Suc j < length src \<and>
      ((\<exists>i. m = InWord i \<and> w = take (j - i) (drop i src)
        \<and> KS = ([lexeme_kind (LWord w)], lexeme_strings (LWord w), []))
      \<or> (\<exists>i. m = InNum i \<and> KS = ([TOKEN_LITERAL_INTEGER], [], [atoi env (take (j - i) (drop i src))])))"
  shows "\<exists>st'. lex_loop env src st = lex_loop env src st'
    \<and> mode Idle (Suc j) (K @ fst KS) (S @ fst (snd KS)) (N @ snd (snd KS)) st'"
proof -
  obtain st' where "lex_step env src st1 = Next st'"
    "mode Idle (Suc j) (K @ fst KS) (S @ fst (snd KS)) (N @ snd (snd KS)) st'"
    using lex_blank_step [OF assms(2-5)] by blast
  moreover have "index st1 < length src"
    using assms(2,3) by (simp add: mode_def)
  ultimately show ?thesis
    using assms(1) lex_loop_next [of env src st1 st'] by auto
qed

lemma space_delim: "is_delim CHR '' ''"
  by (simp add: is_delim_def)

lemma lex_word_run:
  assumes st: "mode Idle j K S N st" and ok: "lexeme_ok (LWord w)" and src: "drop j src = w @ d # r"
  shows "\<exists>st'. lex_loop env src st = lex_loop env src st' \<and> mode (InWord j) (j + length w) K S N st'"
proof -
  let ?m = "\<lambda>k. if k = 0 then Idle else InWord j"
  have "\<exists>st'. lex_step env src st = Next st' \<and> mode (?m (Suc k)) (Suc (j + k)) K S N st'"
    if "mode (?m k) (j + k) K S N st" "k < length w" "src ! (j + k) = w ! k" "Suc (j + k) < length src" for k st
  proof (cases "is_letter (w ! k)")
    case True
    then show ?thesis
      using lex_letter_step [OF that(1), of j src env] that by auto
  next
    case False
    then have "k \<noteq> 0" "is_digit (w ! k)"
      using ok that(2) False by (cases k, auto simp: hd_conv_nth)
    then show ?thesis
      using lex_digit_step [OF that(1), of "InWord j" src env] that by auto
  qed
  then show ?thesis
    using lex_run [of ?m j K S N w src env st d r] st src ok by auto
qed

lemma lex_word:
  assumes st: "mode Idle j K S N st" and ok: "lexeme_ok (LWord w)"
    and src: "drop j src = w @ CHR '' '' # d # r"
  shows "\<exists>st'. lex_loop env src st = lex_loop env src st'
    \<and> mode Idle (j + length w + 1) (K @ [lexeme_kind (LWord w)]) (S @ lexeme_strings (LWord w)) N st'"
proof -
  obtain st1 where st1: "lex_loop env src st = lex_loop env src st1"
    "mode (InWord j) (j + length w) K S N st1"
    using lex_word_run [OF st ok src] by blast
  show ?thesis
    using lex_after [OF st1, of "([lexeme_kind (LWord w)], lexeme_strings (LWord w), [])" w]
      drop_append_facts [OF src] drop_Cons_facts [of "Suc (j + length w)" src d r] space_delim
    by auto
qed

lemma lex_num:
  assumes st: "mode Idle j K S N st" and ok: "lexeme_ok (LNum ds)"
    and src: "drop j src = ds @ CHR '' '' # d # r"
  shows "\<exists>st'. lex_loop env src st = lex_loop env src st'
    \<and> mode Idle (j + length ds + 1) (K @ [TOKEN_LITERAL_INTEGER]) S (N @ [atoi env ds]) st'"
proof -
  let ?m = "\<lambda>k. if k = 0 then Idle else InNum j"
  have "\<exists>st'. lex_step env src st = Next st' \<and> mode (?m (Suc k)) (Suc (j + k)) K S N st'"
    if "mode (?m k) (j + k) K S N st" "k < length ds" "src ! (j + k) = ds ! k" "Suc (j + k) < length src" for k st
    using lex_digit_step [OF that(1), of "InNum j" src env] that ok by auto
  then obtain st1 where st1: "lex_loop env src st = lex_loop env src st1"
    "mode (?m (length ds)) (j + length ds) K S N st1"
    using lex_run [of ?m j K S N ds src env st "CHR '' ''" "d # r"] st src by auto
  have len: "ds \<noteq> []" using ok by simp
  show ?thesis
    using lex_after [OF st1, of "([TOKEN_LITERAL_INTEGER], [], [atoi env ds])" "[]"]
      drop_append_facts [OF src] drop_Cons_facts [of "Suc (j + length ds)" src d r] len space_delim
    by auto
qed

lemma lex_sym:
  assumes st: "mode Idle j K S N st" and ok: "lexeme_ok (LSym c)" and src: "drop j src = c # CHR '' '' # r"
  shows "\<exists>st'. lex_loop env src st = lex_loop env src st' \<and> mode Idle (j + 2) (K @ [TOKEN_CHR c]) S N st'"
proof -
  note f = drop_Cons_facts [OF src]
  note g = drop_Cons_facts [of "Suc j" src "CHR '' ''" r]
  obtain st1 where st1: "lex_step env src st = Next st1" "mode Idle (Suc j) (K @ [TOKEN_CHR c]) S N st1"
    using lex_symbol_step [OF st, of src env] ok f g space_delim by auto
  have "lex_loop env src st = lex_loop env src st1"
    using lex_loop_next [OF st1(1)] st f by (simp add: mode_def)
  then show ?thesis
    using lex_after [OF _ st1(2), of env src st "([], [], [])" "[]"] f g space_delim by auto
qed

lemma lex_str:
  assumes st: "mode Idle j K S N st" and ok: "lexeme_ok (LStr s)"
    and src: "drop j src = chr_dquote # s @ chr_dquote # CHR '' '' # r"
  shows "\<exists>st'. lex_loop env src st = lex_loop env src st'
    \<and> mode Idle (j + length s + 3) (K @ [TOKEN_LITERAL_STRING]) (S @ [s]) N st'"
proof -
  note f = drop_Cons_facts [OF src]
  obtain st1 where st1: "lex_step env src st = Next st1" "mode (InStr []) (Suc j) K S N st1"
    using lex_quote_step [OF st, of src "(InStr [], [], [])" env] f by auto
  then have l1: "lex_loop env src st = lex_loop env src st1"
    using lex_loop_next [OF st1(1)] st f by (simp add: mode_def)
  have "\<exists>st'. lex_step env src st = Next st' \<and> mode (InStr (take (Suc k) s)) (Suc (Suc j + k)) K S N st'"
    if "mode (InStr (take k s)) (Suc j + k) K S N st" "k < length s" "src ! (Suc j + k) = s ! k"
      "Suc j + k < length src" for k st
    using lex_string_step [OF that(1) that(4), of env] that ok by (auto simp: take_Suc_conv_app_nth)
  then obtain st2 where st2: "lex_loop env src st1 = lex_loop env src st2"
    "mode (InStr s) (Suc j + length s) K S N st2"
    using lex_run [of "\<lambda>k. InStr (take k s)" "Suc j" K S N s src env st1 chr_dquote "CHR '' '' # r"] st1 f
    by auto
  note g = drop_append_facts [of "Suc j" src s chr_dquote "CHR '' '' # r"]
  obtain st3 where st3: "lex_step env src st2 = Next st3"
    "mode Idle (Suc (Suc j + length s)) (K @ [TOKEN_LITERAL_STRING]) (S @ [s]) N st3"
    using lex_quote_step [OF st2(2), of src "(Idle, [TOKEN_LITERAL_STRING], [s])" env] f g by auto
  have "lex_loop env src st = lex_loop env src st3"
    using lex_loop_next [OF st3(1)] st2 l1 f g by (simp add: mode_def)
  moreover note h = drop_Cons_facts [of "Suc (Suc j + length s)" src "CHR '' ''" r]
  ultimately show ?thesis
    using lex_after [OF _ st3(2), of env src st "([], [], [])" "[]"] f g h space_delim
    by (auto simp: eval_nat_numeral)
qed

lemma lex_lexeme:
  assumes "mode Idle j K S N st" and "lexeme_ok x" and src: "drop j src = lexeme_text x @ CHR '' '' # d # r"
  shows "\<exists>st'. lex_loop env src st = lex_loop env src st'
    \<and> mode Idle (j + length (lexeme_text x) + 1) (K @ [lexeme_kind x]) (S @ lexeme_strings x)
        (N @ lexeme_integers env x) st'"
proof (cases x)
  case (LWord w)
  then show ?thesis using lex_word [OF assms(1), of w src d r env] assms by simp
next
  case (LNum ds)
  then show ?thesis using lex_num [OF assms(1), of ds src d r env] assms by simp
next
  case (LSym c)
  then show ?thesis using lex_sym [OF assms(1), of c src "d # r" env] assms by simp
next
  case (LStr s)
  then show ?thesis using lex_str [OF assms(1), of s src "d # r" env] assms by (simp add: eval_nat_numeral)
qed

definition lexemes_text :: "Lexeme list \<Rightarrow> string" where
  "lexemes_text xs = concat (map (\<lambda>x. lexeme_text x @ '' '') xs) @ [chr_nl]"

lemma lex_lexemes:
  "mode Idle j K S N st \<Longrightarrow> \<forall>x\<in>set xs. lexeme_ok x \<Longrightarrow> drop j src = lexemes_text xs \<Longrightarrow>
   \<exists>st'. lex_loop env src st = Some st'
     \<and> map tok_type (tokens (stream st')) = K @ map lexeme_kind xs
     \<and> strings (stream st') = S @ concat (map lexeme_strings xs)
     \<and> integers (stream st') = N @ concat (map (lexeme_integers env) xs)"
proof (induction xs arbitrary: j K S N st)
  case Nil
  then have "drop j src = [chr_nl]" by (simp add: lexemes_text_def)
  then have f: "j < length src" "src ! j = chr_nl" "Suc j = length src"
    using drop_Cons_facts [of j src chr_nl "[]"] by auto
  obtain st' where st': "lex_step env src st = Next st'" "mode Idle (Suc j) K S N st'"
    using lex_blank_step [OF Nil(1) f(1), where KS = "([], [], [])" and env = env] f
    by (auto simp: is_delim_def)
  then have "lex_loop env src st = Some st'"
    using lex_loop_next [OF st'(1)] Nil(1) f by (simp add: mode_def lex_loop.simps [of env src st'])
  with st'(2) show ?case by (simp add: mode_def)
next
  case (Cons x xs)
  obtain d r where d: "lexemes_text xs = d # r"
    by (cases "lexemes_text xs") (auto simp: lexemes_text_def)
  have t: "drop j src = lexeme_text x @ CHR '' '' # lexemes_text xs"
    using Cons.prems(3) by (simp add: lexemes_text_def)
  with d Cons.prems obtain st1 where st1: "lex_loop env src st = lex_loop env src st1"
    "mode Idle (j + length (lexeme_text x) + 1) (K @ [lexeme_kind x]) (S @ lexeme_strings x)
        (N @ lexeme_integers env x) st1"
    using lex_lexeme [of j K S N st x src d r env] by auto
  have "drop (j + length (lexeme_text x) + 1) src = lexemes_text xs"
    using drop_append_facts [OF t] by simp
  with Cons.IH [OF st1(2)] Cons.prems st1(1) show ?case by simp
qed

lemma lexemes_lexed:
  assumes "\<forall>x\<in>set xs. lexeme_ok x"
  shows "\<exists>ts. lex_file env p (Some (lexemes_text xs)) = Some ts
    \<and> map tok_type (tokens ts) = map lexeme_kind xs
    \<and> strings ts = concat (map lexeme_strings xs)
    \<and> integers ts = concat (map (lexeme_integers env) xs)"
proof -
  let ?src = "lexemes_text xs"
  have "mode Idle 0 [] [] [] (lex_init p (length ?src))"
    by (simp add: mode_def lex_init_def new_stream_def)
  from lex_lexemes [OF this assms, of ?src env] show ?thesis
    by (auto simp: lex_file_def)
qed

text \<open>
  C6. Lexing reads back what is written: a text of words (keywords included), digit sequences,
  symbols and plain string literals, each followed by a space, is lexed to exactly these
  tokens, with their texts and values in the side tables in the same order.
\<close>

theorem lex_separated:
  assumes "\<forall>x\<in>set xs. lexeme_ok x"
  shows "\<exists>ts. lex_file env p (Some (lexemes_text xs)) = Some ts
    \<and> map tok_type (tokens ts) = map lexeme_kind xs
    \<and> strings ts = concat (map lexeme_strings xs)
    \<and> integers ts = concat (map (lexeme_integers env) xs)"
  using assms by (rule lexemes_lexed)

definition plain_env :: lex_env where
  "plain_env = \<lparr>env_atof = (\<lambda>s. 0), env_atoi_range = (\<lambda>s. 0), env_to_string = (\<lambda>x. [])\<rparr>"

definition sample_lexemes :: "Lexeme list" where
  "sample_lexemes = [LWord ''fun'', LWord ''main'', LSym CHR ''('', LNum ''42'', LStr ''hi'']"

lemma sample_lexemes_ok: "\<forall>x\<in>set sample_lexemes. lexeme_ok x"
  by (simp add: sample_lexemes_def is_letter_def is_digit_def is_delim_def plain_char_def chr_defs)

theorem lex_separated_witness:
  "\<exists>ts. lex_file plain_env ''a.tin'' (Some (lexemes_text sample_lexemes)) = Some ts
    \<and> map tok_type (tokens ts) =
        [TOKEN_FUNCTION, TOKEN_ID, TOKEN_CHR CHR ''('', TOKEN_LITERAL_INTEGER, TOKEN_LITERAL_STRING]
    \<and> strings ts = [''main'', ''hi''] \<and> integers ts = [42]"
proof -
  have "\<forall>x\<in>set sample_lexemes. lexeme_ok x"
    by (rule sample_lexemes_ok)
  moreover have "map lexeme_kind sample_lexemes =
      [TOKEN_FUNCTION, TOKEN_ID, TOKEN_CHR CHR ''('', TOKEN_LITERAL_INTEGER, TOKEN_LITERAL_STRING]"
    by (simp add: sample_lexemes_def keyword_of_def keyword_kinds_def)
  moreover have "concat (map lexeme_strings sample_lexemes) = [''main'', ''hi'']"
    by (simp add: sample_lexemes_def keyword_of_def keyword_kinds_def)
  moreover have "concat (map (lexeme_integers plain_env) sample_lexemes) = [42]"
    by (simp add: sample_lexemes_def atoi_def digits_value_def is_digit_def)
  ultimately show ?thesis
    using lex_separated [of sample_lexemes plain_env "''a.tin''"] by simp
qed

text \<open>
  C32. Two slashes inside a string literal start a comment: the test for comments comes before
  the test for strings, so the rest of the line, with the closing quote, is skipped and the
  literal stays open.
\<close>

theorem lex_slashes_in_string:
  assumes "is_str st" and "\<not> is_comment st" and "\<not> is_multicomment st"
    and "Suc (index st) < length src" and "src ! index st = CHR ''/''" and "src ! Suc (index st) = CHR ''/''"
  shows "\<exists>st'. lex_step env src st = Next st' \<and> index st' = index st + 2 \<and> is_comment st' \<and> is_str st'
    \<and> string_content st' = string_content st"
proof -
  let ?c = "read_char src st"
  have "chr ?c = CHR ''/''" "nextChr ?c = CHR ''/''"
    using assms(4-6) by (simp_all add: read_char_def)
  then show ?thesis
    using assms(1-3) by (simp add: lex_step_def Let_def lex_comment_def)
qed

theorem lex_slashes_in_string_witness:
  "\<exists>st'. lex_step plain_env ''//x'' ((lex_init [] 3)\<lparr>is_str := True\<rparr>) = Next st' \<and> index st' = 2
    \<and> is_comment st' \<and> is_str st' \<and> string_content st' = []"
  using lex_slashes_in_string [of "(lex_init [] 3)\<lparr>is_str := True\<rparr>" "''//x''" plain_env]
  by (simp add: lex_init_def numeral_2_eq_2)



theorem lex_file_tables_witness:
  "\<exists>ts. lex_file plain_env ''a.tin'' (Some (lexemes_text sample_lexemes)) = Some ts \<and> wf_stream ts
    \<and> (\<forall>t\<in>set (tokens ts).
      (tok_type t \<in> str_kinds \<longrightarrow> data_index t < length (strings ts))
      \<and> (tok_type t = TOKEN_LITERAL_INTEGER \<longrightarrow> data_index t < length (integers ts))
      \<and> (tok_type t = TOKEN_LITERAL_DECIMAL \<longrightarrow> data_index t < length (floats ts)))"
  using lexemes_lexed [OF sample_lexemes_ok, of plain_env "''a.tin''"] lex_file_tables by blast


end
