(* ===== verification/AST.thy ===== *)
theory AST
  imports Lexer Bytecode
begin

text \<open>
  include/AST.h and src/AST.cpp: type identifiers, expressions, statements and bodies, the
  tables of types, scopes, functions and structures, the native functions of the constructor,
  and the look-up of names through a scope, its parents and the scopes of its imports.

  A pointer to a type, a scope, a function or a structure is an index into its table.  A scope's
  pointer to its body is only followed to the list of the body's functions, which the scope
  record therefore holds itself.
\<close>

section \<open>Types\<close>

datatype PrimitiveType = TYPE_VOID | TYPE_INT | TYPE_CHAR | TYPE_BOOL | TYPE_FLOAT

primrec primitive_num :: "PrimitiveType \<Rightarrow> nat" where
  "primitive_num TYPE_VOID = 0" | "primitive_num TYPE_INT = 1" | "primitive_num TYPE_CHAR = 2"
| "primitive_num TYPE_BOOL = 3" | "primitive_num TYPE_FLOAT = 4"

primrec primitive_names :: "PrimitiveType \<Rightarrow> string" where
  "primitive_names TYPE_VOID = ''void''" | "primitive_names TYPE_INT = ''int''"
| "primitive_names TYPE_CHAR = ''char''" | "primitive_names TYPE_BOOL = ''bool''"
| "primitive_names TYPE_FLOAT = ''float''"

text \<open>The two bit fields of \<^verbatim>\<open>TypeId\<close>: 24 bits of index, 8 bits of pointer level.\<close>

record TypeId =
  type_index :: "24 word"
  pointer_level :: "8 word"

definition make_type :: "nat \<Rightarrow> nat \<Rightarrow> TypeId" where
  "make_type i level = \<lparr>type_index = of_nat i, pointer_level = of_nat level\<rparr>"

definition prim :: "PrimitiveType \<Rightarrow> TypeId" where
  "prim t = make_type (primitive_num t) 0"

definition void_type :: TypeId where
  "void_type = \<lparr>type_index = 0, pointer_level = 0\<rparr>"

definition valid_type :: "TypeId \<Rightarrow> bool" where
  "valid_type t \<longleftrightarrow> type_index t \<noteq> 0 \<or> pointer_level t \<noteq> 0"

text \<open>The argument is cut to eight bits: level \<open>-1\<close> becomes 255.\<close>

definition set_pointer_level :: "int \<Rightarrow> TypeId \<Rightarrow> TypeId" where
  "set_pointer_level level t = t\<lparr>pointer_level := word_of_int level\<rparr>"

definition base_type :: "TypeId \<Rightarrow> TypeId" where
  "base_type t = t\<lparr>pointer_level := 0\<rparr>"

record TypeInfo =
  typeId :: TypeId
  type_name :: string
  type_size :: int
  ast_struct :: "nat option"

definition default_type_info :: TypeInfo where
  "default_type_info = \<lparr>typeId = void_type, type_name = [], type_size = 0, ast_struct = None\<rparr>"

section \<open>Expressions, statements, bodies\<close>

datatype ExprKind =
    INVALID | IDENTIFIER | FUNCTION_CALL | ADD | SUB | DIV | MUL | AND' | OR' | NOT'
  | EQUAL | NOT_EQUAL | LESS | GREATER | LESS_EQUAL | GREATER_EQUAL
  | REFER | DEREF | INDEX | MEMBER | CAST | ASSIGN
  | PRE_INCREMENT | POST_INCREMENT | PRE_DECREMENT | POST_DECREMENT
  | SIZEOF | LITERAL_INT | LITERAL_FLOAT | LITERAL_STR | LITERAL_CHAR | LITERAL_NULL
  | LITERAL_TRUE | LITERAL_FALSE

text \<open>
  One constructor per use of \<^verbatim>\<open>ASTExpression\<close>'s fields.  The first argument is the location
  (a token index).  The right operand of an index expression may be null: the parser does not
  check it.
\<close>

datatype ASTExpression =
    EIdentifier nat string
  | ECall nat string "ASTExpression list"
  | EBinary ExprKind nat ASTExpression ASTExpression
  | EUnary ExprKind nat ASTExpression
  | EIndex nat ASTExpression "ASTExpression option"
  | EMember nat ASTExpression string
  | ECast nat ASTExpression string
  | ESizeof nat string
  | ELitInt nat i32
  | ELitFloat nat f32
  | ELitStr nat string
  | ELitChar nat string
  | ELitNull nat
  | ELitTrue nat
  | ELitFalse nat

primrec expr_kind :: "ASTExpression \<Rightarrow> ExprKind" where
  "expr_kind (EIdentifier l n) = IDENTIFIER"
| "expr_kind (ECall l n args) = FUNCTION_CALL"
| "expr_kind (EBinary k l a b) = k"
| "expr_kind (EUnary k l a) = k"
| "expr_kind (EIndex l a b) = INDEX"
| "expr_kind (EMember l a n) = MEMBER"
| "expr_kind (ECast l a n) = CAST"
| "expr_kind (ESizeof l n) = SIZEOF"
| "expr_kind (ELitInt l v) = LITERAL_INT"
| "expr_kind (ELitFloat l v) = LITERAL_FLOAT"
| "expr_kind (ELitStr l v) = LITERAL_STR"
| "expr_kind (ELitChar l v) = LITERAL_CHAR"
| "expr_kind (ELitNull l) = LITERAL_NULL"
| "expr_kind (ELitTrue l) = LITERAL_TRUE"
| "expr_kind (ELitFalse l) = LITERAL_FALSE"

text \<open>\<^verbatim>\<open>isConst\<close>: the kinds from \<^verbatim>\<open>CONST_EXPR\<close> on.\<close>

definition is_const_kind :: "ExprKind \<Rightarrow> bool" where
  "is_const_kind k \<longleftrightarrow>
    k \<in> {SIZEOF, LITERAL_INT, LITERAL_FLOAT, LITERAL_STR, LITERAL_CHAR, LITERAL_NULL,
         LITERAL_TRUE, LITERAL_FALSE}"

text \<open>Statements carry their location, declarations their name and the text of their type.\<close>

datatype ASTStatement =
    SVarDecl nat string string "ASTExpression option"
  | SGlobalDecl nat string string
  | SConstDecl nat string string "ASTExpression option"
  | SExpression nat ASTExpression
  | SIf nat ASTExpression ASTBody "ASTBody option"
  | SWhile nat ASTExpression ASTBody
  | SBreak nat
  | SContinue nat
  | SReturn nat "ASTExpression option"
and ASTBody = ASTBody nat "ASTStatement list"

primrec body_scope :: "ASTBody \<Rightarrow> nat" where
  "body_scope (ASTBody s stmts) = s"

primrec body_statements :: "ASTBody \<Rightarrow> ASTStatement list" where
  "body_statements (ASTBody s stmts) = stmts"

record Parameter =
  param_name :: string
  param_typeString :: string
  param_typeId :: TypeId
  param_offset :: int

record ASTFunction =
  fn_name :: string
  fn_location :: nat
  fn_parameters :: "Parameter list"
  parameters_size :: int
  return_typeString :: string
  return_type :: TypeId
  return_offset :: int
  piece_code_index :: int
  fn_body :: "ASTBody option"
  is_native :: bool

definition new_function :: ASTFunction where
  "new_function =
    \<lparr>fn_name = [], fn_location = 0, fn_parameters = [], parameters_size = 0,
     return_typeString = [], return_type = void_type, return_offset = 0, piece_code_index = - 1,
     fn_body = None, is_native = False\<rparr>"

record Member =
  mem_name :: string
  mem_typeString :: string
  mem_typeId :: TypeId
  mem_offset :: int
  mem_location :: nat

record ASTStructure =
  st_name :: string
  st_location :: nat
  members :: "Member list"
  complete :: bool
  created_type :: bool
  typeInfo :: "nat option"

definition new_structure :: ASTStructure where
  "new_structure =
    \<lparr>st_name = [], st_location = 0, members = [], complete = False, created_type = False,
     typeInfo = None\<rparr>"

definition findMember :: "string \<Rightarrow> ASTStructure \<Rightarrow> Member option" where
  "findMember name s = find (\<lambda>m. mem_name m = name) (members s)"

section \<open>The tables\<close>

datatype IdentifierKind = LOCAL_ID | GLOBAL_ID | CONST_ID

text \<open>The statement of a constant is the expression of its declaration, set after creation.\<close>

record Identifier =
  id_kind :: IdentifierKind
  id_type :: TypeId
  id_offset :: int
  id_statement :: "ASTStatement option"

record ScopeInfo =
  scopeId :: nat
  parent :: nat
  identifiers :: "string \<rightharpoonup> Identifier"
  type_map :: "string \<rightharpoonup> nat"
  shared_scopes :: "nat list"
  scope_functions :: "nat list"

record AST =
  typeInfos :: "TypeInfo list"
  scopes :: "ScopeInfo list"
  ast_functions :: "ASTFunction list"
  ast_structures :: "ASTStructure list"

definition types_max :: nat where "types_max = 65536"
definition scopes_max :: nat where "scopes_max = 65536 * 4096"

definition empty_ast :: AST where
  "empty_ast = \<lparr>typeInfos = [], scopes = [], ast_functions = [], ast_structures = []\<rparr>"

definition getScope :: "AST \<Rightarrow> nat \<Rightarrow> ScopeInfo option" where
  "getScope a s = nth_opt (scopes a) s"

definition upd_scope :: "nat \<Rightarrow> (ScopeInfo \<Rightarrow> ScopeInfo) \<Rightarrow> AST \<Rightarrow> AST" where
  "upd_scope s f a = a\<lparr>scopes := (scopes a)[s := f (scopes a ! s)]\<rparr>"

text \<open>A new scope has the next number; past the limit the caller dereferences a null pointer.\<close>

definition createScope :: "nat \<Rightarrow> AST \<Rightarrow> (nat \<times> AST) option" where
  "createScope par a =
    (let n = length (scopes a) in
     if n \<ge> scopes_max then None
     else Some (n, a\<lparr>scopes := scopes a @
            [\<lparr>scopeId = n, parent = par, identifiers = Map.empty, type_map = Map.empty,
              shared_scopes = [], scope_functions = []\<rparr>]\<rparr>))"

text \<open>
  \<^verbatim>\<open>getType\<close> reads the preallocated array: entries never created are default ones.  The
  assertion that the pointer level is zero is off in the default build.
\<close>

definition getType :: "AST \<Rightarrow> TypeId \<Rightarrow> TypeInfo option" where
  "getType a t =
    (let i = unat (type_index t) in
     if i < length (typeInfos a) then Some (typeInfos a ! i)
     else if i < types_max then Some default_type_info else None)"

definition createType :: "string \<Rightarrow> nat \<Rightarrow> AST \<Rightarrow> (nat \<times> AST) option" where
  "createType str s a =
    (let n = length (typeInfos a) in
     if n \<ge> types_max \<or> s \<ge> length (scopes a) then None
     else Some (n, upd_scope s (\<lambda>sc. sc\<lparr>type_map := (type_map sc)(str \<mapsto> n)\<rparr>)
            (a\<lparr>typeInfos := typeInfos a @
               [default_type_info\<lparr>type_name := str, typeId := make_type n 0\<rparr>]\<rparr>)))"

definition sizeOfType :: "AST \<Rightarrow> TypeId \<Rightarrow> int option" where
  "sizeOfType a t =
    (if pointer_level t \<noteq> 0 then Some 8
     else do { info \<leftarrow> getType a t; Some (type_size info) })"

definition nameOfType :: "AST \<Rightarrow> TypeId \<Rightarrow> string option" where
  "nameOfType a t =
    do {
      info \<leftarrow> getType a (base_type t);
      Some (type_name info @ replicate (unat (pointer_level t)) CHR ''*'')
    }"

definition set_type_size :: "nat \<Rightarrow> int \<Rightarrow> AST \<Rightarrow> AST" where
  "set_type_size i n a = a\<lparr>typeInfos := (typeInfos a)[i := (typeInfos a ! i)\<lparr>type_size := n\<rparr>]\<rparr>"

section \<open>Searching the scopes\<close>

record ScopeIterator =
  searchScopes :: "nat list"
  search_index :: nat

definition createScopeIterator :: "nat \<Rightarrow> ScopeIterator" where
  "createScopeIterator s = \<lparr>searchScopes = [s], search_index = 0\<rparr>"

text \<open>Only the scopes already returned are checked for duplicates, not the waiting ones.\<close>

definition iterator_add :: "nat \<Rightarrow> ScopeIterator \<Rightarrow> ScopeIterator" where
  "iterator_add s it =
    (if s \<in> set (take (search_index it) (searchScopes it)) then it
     else it\<lparr>searchScopes := searchScopes it @ [s]\<rparr>)"

definition iterate :: "AST \<Rightarrow> ScopeIterator \<Rightarrow> (nat option \<times> ScopeIterator) option" where
  "iterate a it =
    (if search_index it < length (searchScopes it) then
       do {
         info \<leftarrow> getScope a (searchScopes it ! search_index it);
         let it1 = it\<lparr>search_index := search_index it + 1\<rparr>;
         let it2 = fold iterator_add (shared_scopes info) it1;
         let it3 = (if scopeId info \<noteq> parent info then iterator_add (parent info) it2 else it2);
         Some (Some (searchScopes it ! search_index it), it3)
       }
     else Some (None, it))"

text \<open>
  The loop \<^verbatim>\<open>while((scope = iterate(iterator)))\<close> that every look-up runs: the first scope that
  satisfies the test.  The outer \<open>None\<close> is a search that does not return (or reads outside the
  scope table).
\<close>

partial_function (option) search_scopes ::
  "AST \<Rightarrow> (ScopeInfo \<Rightarrow> bool) \<Rightarrow> ScopeIterator \<Rightarrow> nat option option" where
  "search_scopes a p it =
    (case iterate a it of
       None \<Rightarrow> None
     | Some (found, it') \<Rightarrow>
         (case found of
            None \<Rightarrow> Some None
          | Some s \<Rightarrow> if p (scopes a ! s) then Some (Some s) else search_scopes a p it'))"

definition find_scope :: "AST \<Rightarrow> (ScopeInfo \<Rightarrow> bool) \<Rightarrow> nat \<Rightarrow> nat option option" where
  "find_scope a p s =
    (if s < length (scopes a) then search_scopes a p (createScopeIterator s) else None)"

definition findVariable :: "AST \<Rightarrow> string \<Rightarrow> nat \<Rightarrow> Identifier option option" where
  "findVariable a name s =
    do {
      r \<leftarrow> find_scope a (\<lambda>sc. identifiers sc name \<noteq> None) s;
      Some (case r of None \<Rightarrow> None | Some k \<Rightarrow> identifiers (scopes a ! k) name)
    }"

definition findType :: "AST \<Rightarrow> string \<Rightarrow> nat \<Rightarrow> nat option option" where
  "findType a str s =
    do {
      r \<leftarrow> find_scope a (\<lambda>sc. type_map sc str \<noteq> None) s;
      Some (case r of None \<Rightarrow> None | Some k \<Rightarrow> type_map (scopes a ! k) str)
    }"

definition scope_function :: "AST \<Rightarrow> string \<Rightarrow> ScopeInfo \<Rightarrow> nat option" where
  "scope_function a name sc = find (\<lambda>f. fn_name (ast_functions a ! f) = name) (scope_functions sc)"

definition findFunction :: "AST \<Rightarrow> string \<Rightarrow> nat \<Rightarrow> nat option option" where
  "findFunction a name s =
    do {
      r \<leftarrow> find_scope a (\<lambda>sc. scope_function a name sc \<noteq> None) s;
      Some (case r of None \<Rightarrow> None | Some k \<Rightarrow> scope_function a name (scopes a ! k))
    }"

text \<open>
  \<^verbatim>\<open>convertFullType\<close>: the trailing stars are the pointer level; a text of stars only is looked
  up as it is.  An unknown name gives the void type.
\<close>

definition split_stars :: "string \<Rightarrow> string \<times> nat" where
  "split_stars str =
    (let stars = takeWhile (\<lambda>c. c = CHR ''*'') (rev str);
         base = rev (dropWhile (\<lambda>c. c = CHR ''*'') (rev str))
     in if base = [] then (str, 0) else (base, length stars))"

definition convertFullType :: "AST \<Rightarrow> string \<Rightarrow> nat \<Rightarrow> TypeId option" where
  "convertFullType a str s =
    (let (base, level) = split_stars str in
     do {
       r \<leftarrow> findType a base s;
       case r of
         None \<Rightarrow> Some void_type
       | Some i \<Rightarrow> Some (set_pointer_level (int level) (typeId (typeInfos a ! i)))
     })"

text \<open>\<^verbatim>\<open>addVariable\<close>: \<open>None\<close> inside is the null result for a name the scope already has.\<close>

definition addVariable ::
  "IdentifierKind \<Rightarrow> string \<Rightarrow> nat \<Rightarrow> TypeId \<Rightarrow> int \<Rightarrow> AST \<Rightarrow> (Identifier option \<times> AST) option"
where
  "addVariable kind name s ty frame_offset a =
    do {
      sc \<leftarrow> getScope a s;
      case identifiers sc name of
        Some _ \<Rightarrow> Some (None, a)
      | None \<Rightarrow>
          let ident = \<lparr>id_kind = kind, id_type = ty,
                       id_offset = (if kind = CONST_ID then 0 else frame_offset),
                       id_statement = None\<rparr>
          in Some (Some ident,
                   upd_scope s (\<lambda>sc. sc\<lparr>identifiers := (identifiers sc)(name \<mapsto> ident)\<rparr>) a)
    }"

text \<open>\<^verbatim>\<open>variable->statement = stmt\<close>, right after a constant was added to scope \<open>s\<close>.\<close>

definition set_statement :: "string \<Rightarrow> nat \<Rightarrow> ASTStatement \<Rightarrow> AST \<Rightarrow> AST" where
  "set_statement name s stmt a =
    upd_scope s (\<lambda>sc. sc\<lparr>identifiers := (identifiers sc)
      (name := map_option (\<lambda>i. i\<lparr>id_statement := Some stmt\<rparr>) (identifiers sc name))\<rparr>) a"

section \<open>The constructor\<close>

text \<open>\<^verbatim>\<open>createFunction\<close> and \<^verbatim>\<open>body->add(f)\<close> for the body of scope \<open>s\<close>.\<close>

definition add_function :: "ASTFunction \<Rightarrow> nat \<Rightarrow> AST \<Rightarrow> AST" where
  "add_function f s a =
    upd_scope s (\<lambda>sc. sc\<lparr>scope_functions := scope_functions sc @ [length (ast_functions a)]\<rparr>)
      (a\<lparr>ast_functions := ast_functions a @ [f]\<rparr>)"

definition add_structure :: "ASTStructure \<Rightarrow> AST \<Rightarrow> nat \<times> AST" where
  "add_structure st a =
    (length (ast_structures a), a\<lparr>ast_structures := ast_structures a @ [st]\<rparr>)"

definition native_param :: "string \<Rightarrow> string \<Rightarrow> Parameter" where
  "native_param name ty =
    \<lparr>param_name = name, param_typeString = ty, param_typeId = void_type, param_offset = 0\<rparr>"

definition native_function :: "NativeCalls \<Rightarrow> (string \<times> string) list \<Rightarrow> string \<Rightarrow> ASTFunction" where
  "native_function n params ret =
    new_function\<lparr>is_native := True, piece_code_index := native_num n - NATIVE_MAX,
      fn_name := native_names n, fn_parameters := map (\<lambda>(x, t). native_param x t) params,
      return_typeString := ret\<rparr>"

definition native_functions :: "ASTFunction list" where
  "native_functions =
    [native_function NATIVE_printi [(''v'', ''int'')] [],
     native_function NATIVE_printf [(''v'', ''float'')] [],
     native_function NATIVE_printc [(''v'', ''char'')] [],
     native_function NATIVE_prints [(''v'', ''char*'')] [],
     native_function NATIVE_malloc [(''size'', ''int'')] ''void*'',
     native_function NATIVE_mfree [(''ptr'', ''void*'')] [],
     native_function NATIVE_memcpy [(''dst'', ''void*''), (''src'', ''void*''), (''size'', ''int'')] [],
     native_function NATIVE_pow [(''x'', ''float''), (''y'', ''float'')] ''float'',
     native_function NATIVE_sqrt [(''x'', ''float'')] ''float'',
     native_function NATIVE_read_file
       [(''path'', ''char*''), (''out_data'', ''char**''), (''out_size'', ''int*'')] ''bool'',
     native_function NATIVE_write_file
       [(''path'', ''char*''), (''data'', ''char*''), (''size'', ''int'')] ''bool'']"

definition add_primitive :: "PrimitiveType \<Rightarrow> int \<Rightarrow> AST \<Rightarrow> AST option" where
  "add_primitive t n a =
    do {
      (i, a1) \<leftarrow> createType (primitive_names t) 0 a;
      Some (set_type_size i n a1)
    }"

definition ast_init :: "AST option" where
  "ast_init =
    do {
      (g, a0) \<leftarrow> createScope 0 empty_ast;
      a1 \<leftarrow> add_primitive TYPE_VOID 0 a0;
      a2 \<leftarrow> add_primitive TYPE_INT 4 a1;
      a3 \<leftarrow> add_primitive TYPE_CHAR 1 a2;
      a4 \<leftarrow> add_primitive TYPE_BOOL 1 a3;
      a5 \<leftarrow> add_primitive TYPE_FLOAT 4 a4;
      Some (fold (\<lambda>f. add_function f g) native_functions a5)
    }"

section \<open>The search as a worklist\<close>

text \<open>
  The contract of a search through a graph of scopes as the look-ups use it: \<open>search\<close> tests the
  scopes of the worklist in order, appends the neighbours of a tested scope that were not
  tested yet, and stops at the first scope that satisfies the test.  The waiting part of the
  worklist may hold a scope more than once.
\<close>

locale scope_search =
  fixes ok :: "'w \<Rightarrow> bool"
    and nodes :: "'w \<Rightarrow> nat set"
    and neighbours :: "'w \<Rightarrow> nat \<Rightarrow> nat list"
    and info :: "'w \<Rightarrow> nat \<Rightarrow> 's"
    and search :: "'w \<Rightarrow> ('s \<Rightarrow> bool) \<Rightarrow> nat list \<Rightarrow> nat list \<Rightarrow> nat option option"
  assumes nodes_finite: "ok w \<Longrightarrow> finite (nodes w)"
    and neighbours_closed: "ok w \<Longrightarrow> n \<in> nodes w \<Longrightarrow> set (neighbours w n) \<subseteq> nodes w"
    and search_Nil: "search w p V [] = Some None"
    and search_Cons:
      "ok w \<Longrightarrow> s \<in> nodes w \<Longrightarrow> search w p V (s # P) =
        (if p (info w s) then Some (Some s)
         else search w p (V @ [s]) (P @ [x\<leftarrow>neighbours w s. x \<notin> set (V @ [s])]))"
begin

definition reach :: "'w \<Rightarrow> (nat \<times> nat) set" where
  "reach w = {(x, y). y \<in> set (neighbours w x)}\<^sup>*"

definition search_inv :: "'w \<Rightarrow> ('s \<Rightarrow> bool) \<Rightarrow> nat \<Rightarrow> nat list \<Rightarrow> nat list \<Rightarrow> bool" where
  "search_inv w p s V P \<longleftrightarrow>
    set V \<subseteq> nodes w \<and> set P \<subseteq> nodes w
    \<and> (\<forall>v\<in>set V. \<not> p (info w v) \<and> set (neighbours w v) \<subseteq> set V \<union> set P)
    \<and> (\<forall>x\<in>set V \<union> set P. (s, x) \<in> reach w) \<and> s \<in> set V \<union> set P"

definition search_post :: "'w \<Rightarrow> ('s \<Rightarrow> bool) \<Rightarrow> nat \<Rightarrow> nat option \<Rightarrow> bool" where
  "search_post w p s r \<longleftrightarrow>
    (case r of Some k \<Rightarrow> p (info w k) \<and> (s, k) \<in> reach w
     | None \<Rightarrow> \<forall>k. (s, k) \<in> reach w \<longrightarrow> \<not> p (info w k))"

definition search_order :: "'w \<Rightarrow> ((nat list \<times> nat list) \<times> nat list \<times> nat list) set" where
  "search_order w = measures [\<lambda>(V, P). card (nodes w - set V),
     \<lambda>(V, P). length (takeWhile (\<lambda>x. x \<in> set V) P)]"

lemma takeWhile_visited:
  "takeWhile (\<lambda>x. x \<in> A) (P @ [x\<leftarrow>xs. x \<notin> A]) = takeWhile (\<lambda>x. x \<in> A) P"
proof (induction P)
  case Nil
  have "takeWhile (\<lambda>x. x \<in> A) [x\<leftarrow>xs. x \<notin> A] = []"
    by (induction xs) auto
  then show ?case by simp
qed simp

lemma search_step_less:
  assumes "ok w" and "k \<in> nodes w"
  shows "((V @ [k], Q @ [x\<leftarrow>neighbours w k. x \<notin> set (V @ [k])]), (V, k # Q)) \<in> search_order w"
proof (cases "k \<in> set V")
  case True
  then have "set (V @ [k]) = set V" by auto
  then show ?thesis
    unfolding search_order_def using True takeWhile_visited [of "set V" Q "neighbours w k"] by simp
next
  case False
  have "card (nodes w - set (V @ [k])) < card (nodes w - set V)"
    using False assms nodes_finite by (intro psubset_card_mono) auto
  then show ?thesis by (simp add: search_order_def)
qed

lemma search_step_inv:
  assumes "ok w" and "search_inv w p s V (k # Q)" and "\<not> p (info w k)"
  shows "search_inv w p s (V @ [k]) (Q @ [x\<leftarrow>neighbours w k. x \<notin> set (V @ [k])])"
proof -
  have k: "k \<in> nodes w" "(s, k) \<in> reach w"
    using assms(2) by (simp_all add: search_inv_def)
  have nb: "set (neighbours w k) \<subseteq> nodes w"
    using assms(1) k(1) by (rule neighbours_closed)
  have "(s, x) \<in> reach w" if "x \<in> set (neighbours w k)" for x
    using k(2) that unfolding reach_def by (auto intro: rtrancl_into_rtrancl)
  then show ?thesis
    using assms(2,3) nb unfolding search_inv_def by auto
qed

lemma search_end: "search_inv w p s V [] \<Longrightarrow> search_post w p s None"
proof -
  assume inv: "search_inv w p s V []"
  have "k \<in> set V" if "(s, k) \<in> reach w" for k
    using that unfolding reach_def
    by (induction rule: rtrancl_induct) (use inv in \<open>auto simp: search_inv_def\<close>)
  with inv show ?thesis
    by (auto simp: search_post_def search_inv_def)
qed

lemma search_result:
  assumes "ok w"
  shows "search_inv w p s (fst x) (snd x) \<Longrightarrow>
    \<exists>r. search w p (fst x) (snd x) = Some r \<and> search_post w p s r"
proof (induction x rule: wf_induct_rule [OF wf_measures, of "[\<lambda>(V, P). card (nodes w - set V),
     \<lambda>(V, P). length (takeWhile (\<lambda>x. x \<in> set V) P)]"])
  case (1 x)
  obtain V P where x: "x = (V, P)" by (cases x)
  show ?case
  proof (cases P)
    case Nil
    then show ?thesis
      using 1(2) x search_end by (auto simp: search_Nil)
  next
    case (Cons k Q)
    then have inv: "search_inv w p s V (k # Q)"
      using 1(2) x by simp
    then have k: "k \<in> nodes w" "(s, k) \<in> reach w"
      by (simp_all add: search_inv_def)
    show ?thesis
    proof (cases "p (info w k)")
      case True
      then show ?thesis
        using Cons x k assms by (simp add: search_Cons search_post_def)
    next
      case False
      from 1(1) [OF search_step_less [OF assms k(1), unfolded search_order_def, of V Q,
          folded Cons, folded x]] search_step_inv [OF assms inv False]
      show ?thesis
        using Cons x k False assms by (simp add: search_Cons)
    qed
  qed
qed

lemma search_decides:
  assumes "ok w" and "s \<in> nodes w"
  shows "\<exists>r. search w p [] [s] = Some r \<and> search_post w p s r"
  using search_result [of w p s "([], [s])"] assms by (simp add: search_inv_def reach_def)

lemma search_first: "ok w \<Longrightarrow> s \<in> nodes w \<Longrightarrow> p (info w s) \<Longrightarrow> search w p [] [s] = Some (Some s)"
  by (simp add: search_Cons)

end

text \<open>The scope table: every scope has its own number and only refers to scopes of the table.\<close>

definition wf_scopes :: "AST \<Rightarrow> bool" where
  "wf_scopes a \<longleftrightarrow>
    (\<forall>i<length (scopes a).
       scopeId (scopes a ! i) = i \<and> parent (scopes a ! i) < length (scopes a)
       \<and> set (shared_scopes (scopes a ! i)) \<subseteq> {..<length (scopes a)})"

definition scope_neighbours :: "AST \<Rightarrow> nat \<Rightarrow> nat list" where
  "scope_neighbours a s =
    shared_scopes (scopes a ! s)
    @ (if scopeId (scopes a ! s) \<noteq> parent (scopes a ! s) then [parent (scopes a ! s)] else [])"

lemma fold_iterator_add:
  "search_index it \<le> length (searchScopes it) \<Longrightarrow>
   fold iterator_add xs it =
     it\<lparr>searchScopes := searchScopes it @ [x\<leftarrow>xs. x \<notin> set (take (search_index it) (searchScopes it))]\<rparr>"
  by (induction xs arbitrary: it) (auto simp: iterator_add_def)

lemma search_scopes_Nil:
  "search_scopes a p \<lparr>searchScopes = V, search_index = length V\<rparr> = Some None"
  by (subst search_scopes.simps) (simp add: iterate_def)

lemma search_scopes_Cons:
  assumes "s < length (scopes a)"
  shows "search_scopes a p \<lparr>searchScopes = V @ s # P, search_index = length V\<rparr> =
    (if p (scopes a ! s) then Some (Some s)
     else search_scopes a p
       \<lparr>searchScopes = (V @ [s]) @ P @ [x\<leftarrow>scope_neighbours a s. x \<notin> set (V @ [s])],
        search_index = length (V @ [s])\<rparr>)"
proof -
  let ?it = "\<lparr>searchScopes = V @ s # P, search_index = length V\<rparr>"
  have "iterate a ?it = Some (Some s,
      fold iterator_add (scope_neighbours a s) (?it\<lparr>search_index := Suc (length V)\<rparr>))"
    using assms by (simp add: iterate_def getScope_def scope_neighbours_def Let_def)
  also have "fold iterator_add (scope_neighbours a s) (?it\<lparr>search_index := Suc (length V)\<rparr>) =
      \<lparr>searchScopes = (V @ [s]) @ P @ [x\<leftarrow>scope_neighbours a s. x \<notin> set (V @ [s])],
        search_index = length (V @ [s])\<rparr>"
    by (simp add: fold_iterator_add)
  finally show ?thesis
    by (subst search_scopes.simps) simp
qed

interpretation tin_scopes: scope_search wf_scopes "\<lambda>a. {..<length (scopes a)}" scope_neighbours
  "\<lambda>a s. scopes a ! s"
  "\<lambda>a p V P. search_scopes a p \<lparr>searchScopes = V @ P, search_index = length V\<rparr>"
proof
  fix a :: AST and n s :: nat and p V P
  show "finite {..<length (scopes a)}" by simp
  show "set (scope_neighbours a n) \<subseteq> {..<length (scopes a)}"
    if "wf_scopes a" "n \<in> {..<length (scopes a)}"
    using that by (auto simp: wf_scopes_def scope_neighbours_def)
  show "search_scopes a p \<lparr>searchScopes = V @ [], search_index = length V\<rparr> = Some None"
    by (simp add: search_scopes_Nil)
  show "search_scopes a p \<lparr>searchScopes = V @ s # P, search_index = length V\<rparr> =
    (if p (scopes a ! s) then Some (Some s)
     else search_scopes a p
       \<lparr>searchScopes = (V @ [s]) @ P @ [x\<leftarrow>scope_neighbours a s. x \<notin> set (V @ [s])],
        search_index = length (V @ [s])\<rparr>)"
    if "wf_scopes a" "s \<in> {..<length (scopes a)}"
    using that by (intro search_scopes_Cons) simp
qed

text \<open>\<open>visible a s k\<close>: scope \<open>k\<close> can be seen from scope \<open>s\<close>, through parents and imports.\<close>

definition visible :: "AST \<Rightarrow> nat \<Rightarrow> nat \<Rightarrow> bool" where
  "visible a s k \<longleftrightarrow> (s, k) \<in> tin_scopes.reach a"

lemma find_scope_eq: "s < length (scopes a) \<Longrightarrow>
   find_scope a p s = search_scopes a p \<lparr>searchScopes = [] @ [s], search_index = length ([] :: nat list)\<rparr>"
  by (simp add: find_scope_def createScopeIterator_def)

lemma find_scope_cases:
  assumes "wf_scopes a" and "s < length (scopes a)"
  obtains (found) k where "find_scope a p s = Some (Some k)" "p (scopes a ! k)" "visible a s k"
    | (missing) "find_scope a p s = Some None" "\<And>k. visible a s k \<Longrightarrow> \<not> p (scopes a ! k)"
proof -
  obtain r where r: "find_scope a p s = Some r" "tin_scopes.search_post a p s r"
    using tin_scopes.search_decides [of a s p] assms by (auto simp: find_scope_eq)
  then show thesis
    by (cases r) (auto simp: tin_scopes.search_post_def visible_def intro: found missing)
qed

lemma find_scope_here:
  assumes "wf_scopes a" and "s < length (scopes a)" and "p (scopes a ! s)"
  shows "find_scope a p s = Some (Some s)"
  using tin_scopes.search_first [of a s p] assms by (simp add: find_scope_eq)

lemma visible_range: "wf_scopes a \<Longrightarrow> s < length (scopes a) \<Longrightarrow> visible a s k \<Longrightarrow> k < length (scopes a)"
  unfolding visible_def tin_scopes.reach_def
  by (erule rtrancl_induct) (use tin_scopes.neighbours_closed in auto)

section \<open>What the tables keep\<close>

text \<open>\<^verbatim>\<open>shared_scopes.push_back\<close>: the names of scope \<open>t\<close> become visible from scope \<open>s\<close>.\<close>

definition share_scope :: "nat \<Rightarrow> nat \<Rightarrow> AST \<Rightarrow> AST" where
  "share_scope s t a = upd_scope s (\<lambda>sc. sc\<lparr>shared_scopes := shared_scopes sc @ [t]\<rparr>) a"

text \<open>Every name of a type map belongs to the type of that name and number.\<close>

definition wf_types :: "AST \<Rightarrow> bool" where
  "wf_types a \<longleftrightarrow>
    length (typeInfos a) \<le> types_max
    \<and> (\<forall>k < length (scopes a). \<forall>nm i. type_map (scopes a ! k) nm = Some i \<longrightarrow>
         i < length (typeInfos a) \<and> type_name (typeInfos a ! i) = nm
         \<and> typeId (typeInfos a ! i) = make_type i 0)"

lemma upd_scope_sel [simp]:
  "length (scopes (upd_scope s f a)) = length (scopes a)"
  "typeInfos (upd_scope s f a) = typeInfos a"
  "ast_functions (upd_scope s f a) = ast_functions a"
  "ast_structures (upd_scope s f a) = ast_structures a"
  by (simp_all add: upd_scope_def)

lemma upd_scope_nth:
  "k < length (scopes a) \<Longrightarrow>
   scopes (upd_scope s f a) ! k = (if k = s then f (scopes a ! k) else scopes a ! k)"
  by (simp add: upd_scope_def nth_list_update)

lemma wf_scopes_upd:
  assumes "wf_scopes a"
    and "\<And>sc. scopeId (f sc) = scopeId sc" "\<And>sc. parent (f sc) = parent sc"
    and "\<And>sc. set (shared_scopes (f sc)) \<subseteq> set (shared_scopes sc) \<union> {..<length (scopes a)}"
  shows "wf_scopes (upd_scope s f a)"
  using assms unfolding wf_scopes_def by (simp add: upd_scope_nth) blast

lemma wf_scopes_share: "wf_scopes a \<Longrightarrow> t < length (scopes a) \<Longrightarrow> wf_scopes (share_scope s t a)"
  unfolding share_scope_def by (rule wf_scopes_upd) auto

lemma wf_scopes_cong: "wf_scopes (a\<lparr>typeInfos := x\<rparr>) = wf_scopes a"
  "wf_scopes (a\<lparr>ast_functions := y\<rparr>) = wf_scopes a"
  "wf_scopes (a\<lparr>ast_structures := z\<rparr>) = wf_scopes a"
  by (simp_all add: wf_scopes_def)

lemma wf_scopes_createScope:
  assumes "wf_scopes a" and "p < length (scopes a) \<or> (p = 0 \<and> scopes a = [])"
    and "createScope p a = Some (n, b)"
  shows "wf_scopes b \<and> n = length (scopes a) \<and> length (scopes b) = Suc n"
  using assms
  by (auto simp: createScope_def wf_scopes_def Let_def nth_append less_Suc_eq subset_iff
      split: if_splits)

lemma wf_scopes_createType: "wf_scopes a \<Longrightarrow> createType nm s a = Some (i, b) \<Longrightarrow> wf_scopes b"
  by (auto simp: createType_def Let_def wf_scopes_cong split: if_splits intro!: wf_scopes_upd)

lemma wf_scopes_addVariable:
  "wf_scopes a \<Longrightarrow> addVariable k nm s ty off a = Some (r, b) \<Longrightarrow> wf_scopes b"
  by (auto simp: addVariable_def Let_def bind_eq_Some_conv split: option.splits
      intro!: wf_scopes_upd)

lemma wf_scopes_set_statement: "wf_scopes a \<Longrightarrow> wf_scopes (set_statement nm s st a)"
  by (auto simp: set_statement_def intro!: wf_scopes_upd)

lemma wf_scopes_add_function: "wf_scopes a \<Longrightarrow> wf_scopes (add_function f s a)"
  by (auto simp: add_function_def wf_scopes_cong intro!: wf_scopes_upd)

lemma wf_scopes_set_type_size: "wf_scopes (set_type_size i n a) = wf_scopes a"
  by (simp add: set_type_size_def wf_scopes_cong)

lemma wf_types_createType:
  assumes wf: "wf_types a" and new: "createType nm s a = Some (i, b)"
  shows "wf_types b \<and> i = length (typeInfos a) \<and> i < types_max"
proof -
  from new have b: "b = upd_scope s (\<lambda>sc. sc\<lparr>type_map := (type_map sc)(nm \<mapsto> i)\<rparr>)
      (a\<lparr>typeInfos := typeInfos a @ [default_type_info\<lparr>type_name := nm, typeId := make_type i 0\<rparr>]\<rparr>)"
    and i: "i = length (typeInfos a)" "i < types_max"
    by (auto simp: createType_def Let_def split: if_splits)
  with wf show ?thesis
    by (auto simp: wf_types_def upd_scope_nth nth_append split: if_splits intro: less_SucI)
qed

text \<open>Names with stars, and back.\<close>

lemma split_stars_append:
  assumes "base \<noteq> []" and "last base \<noteq> CHR ''*''"
  shows "split_stars (base @ replicate n CHR ''*'') = (base, n)"
proof -
  obtain b c where bc: "base = b @ [c]" "c \<noteq> CHR ''*''"
    using assms by (cases base rule: rev_cases) auto
  have "takeWhile (\<lambda>c. c = CHR ''*'') (replicate n CHR ''*'' @ c # rev b) = replicate n CHR ''*''"
    "dropWhile (\<lambda>c. c = CHR ''*'') (replicate n CHR ''*'' @ c # rev b) = c # rev b"
    using bc(2) by (induction n) auto
  with bc show ?thesis
    by (simp add: split_stars_def)
qed

lemma findType_cases:
  assumes "wf_scopes a" and "s < length (scopes a)"
  obtains (found) k i where "findType a nm s = Some (Some i)" "visible a s k"
      "type_map (scopes a ! k) nm = Some i"
    | (missing) "findType a nm s = Some None" "\<And>k. visible a s k \<Longrightarrow> type_map (scopes a ! k) nm = None"
  by (rule find_scope_cases [of a s "\<lambda>sc. type_map sc nm \<noteq> None"])
    (use assms in \<open>auto simp: findType_def\<close>)

lemma findVariable_cases:
  assumes "wf_scopes a" and "s < length (scopes a)"
  obtains (found) k i where "findVariable a nm s = Some (Some i)" "visible a s k"
      "identifiers (scopes a ! k) nm = Some i"
    | (missing) "findVariable a nm s = Some None"
      "\<And>k. visible a s k \<Longrightarrow> identifiers (scopes a ! k) nm = None"
  by (rule find_scope_cases [of a s "\<lambda>sc. identifiers sc nm \<noteq> None"])
    (use assms in \<open>auto simp: findVariable_def\<close>)

lemma findFunction_cases:
  assumes "wf_scopes a" and "s < length (scopes a)"
  obtains (found) k f where "findFunction a nm s = Some (Some f)" "visible a s k"
      "scope_function a nm (scopes a ! k) = Some f"
    | (missing) "findFunction a nm s = Some None"
      "\<And>k. visible a s k \<Longrightarrow> scope_function a nm (scopes a ! k) = None"
  by (rule find_scope_cases [of a s "\<lambda>sc. scope_function a nm sc \<noteq> None"])
    (use assms in \<open>auto simp: findFunction_def\<close>)

lemma findVariable_here:
  "wf_scopes a \<Longrightarrow> s < length (scopes a) \<Longrightarrow> identifiers (scopes a ! s) nm = Some i \<Longrightarrow>
   findVariable a nm s = Some (Some i)"
  by (simp add: findVariable_def find_scope_here)

lemma findType_in_table:
  "wf_scopes a \<Longrightarrow> wf_types a \<Longrightarrow> s < length (scopes a) \<Longrightarrow> findType a nm s = Some (Some i) \<Longrightarrow>
   i < length (typeInfos a) \<and> type_name (typeInfos a ! i) = nm \<and> typeId (typeInfos a ! i) = make_type i 0"
  by (rule findType_cases [of a s nm]) (auto simp: wf_types_def dest: visible_range)

lemma add_functions:
  "g < length (scopes a) \<Longrightarrow> fold (\<lambda>f. add_function f g) fs a =
    upd_scope g (\<lambda>sc. sc\<lparr>scope_functions := scope_functions sc
        @ [length (ast_functions a) ..< length (ast_functions a) + length fs]\<rparr>)
      (a\<lparr>ast_functions := ast_functions a @ fs\<rparr>)"
proof (induction fs arbitrary: a)
  case Nil
  then show ?case
    by (simp add: upd_scope_def)
next
  case (Cons f fs)
  let ?n = "length (ast_functions a)"
  have "[?n ..< ?n + length (f # fs)] = ?n # [Suc ?n ..< Suc ?n + length fs]"
    by (simp add: upt_rec)
  with Cons show ?case
    by (simp add: add_function_def upd_scope_def del: upt_Suc)
qed

lemma length_native_functions: "length native_functions = 11"
  by (simp add: native_functions_def)

definition primitive_size :: "PrimitiveType \<Rightarrow> int" where
  "primitive_size t = (case t of TYPE_VOID \<Rightarrow> 0 | TYPE_INT \<Rightarrow> 4 | TYPE_CHAR \<Rightarrow> 1 | TYPE_BOOL \<Rightarrow> 1 | TYPE_FLOAT \<Rightarrow> 4)"

definition init_types :: "TypeInfo list" where
  "init_types = map (\<lambda>t. \<lparr>typeId = prim t, type_name = primitive_names t,
      type_size = primitive_size t, ast_struct = None\<rparr>)
    [TYPE_VOID, TYPE_INT, TYPE_CHAR, TYPE_BOOL, TYPE_FLOAT]"

definition init_scope :: ScopeInfo where
  "init_scope = \<lparr>scopeId = 0, parent = 0, identifiers = Map.empty,
     type_map = [''void'' \<mapsto> 0, ''int'' \<mapsto> 1, ''char'' \<mapsto> 2, ''bool'' \<mapsto> 3, ''float'' \<mapsto> 4],
     shared_scopes = [], scope_functions = [0..<11]\<rparr>"

definition initial_ast :: AST where
  "initial_ast =
    \<lparr>typeInfos = init_types, scopes = [init_scope],
     ast_functions = native_functions, ast_structures = []\<rparr>"

lemma ast_init_eq: "ast_init = Some initial_ast"
  by (simp add: initial_ast_def ast_init_def createScope_def empty_ast_def Let_def scopes_max_def add_primitive_def
      createType_def types_max_def upd_scope_def set_type_size_def add_functions
      length_native_functions init_types_def init_scope_def default_type_info_def prim_def
      primitive_size_def numeral_2_eq_2 [symmetric])


lemma initial_ast_wf: "wf_scopes initial_ast" "wf_types initial_ast"
  by (auto simp: initial_ast_def wf_scopes_def wf_types_def init_scope_def init_types_def
      types_max_def prim_def split: if_splits)

section \<open>Properties\<close>

text \<open>
  C15. A look-up of a variable always returns.  It finds nothing exactly when no scope that is
  visible from the start (through parents and imported scopes, cyclic imports included) has
  the name, otherwise it returns the identifier of a visible scope, and a name of the starting
  scope itself hides every other one.
\<close>

theorem findVariable_decides:
  assumes "wf_scopes a" and "s < length (scopes a)"
  shows "\<exists>r. findVariable a nm s = Some r
    \<and> (r = None \<longleftrightarrow> (\<forall>k. visible a s k \<longrightarrow> identifiers (scopes a ! k) nm = None))
    \<and> (\<forall>i. r = Some i \<longrightarrow> (\<exists>k. visible a s k \<and> identifiers (scopes a ! k) nm = Some i))
    \<and> (\<forall>i. identifiers (scopes a ! s) nm = Some i \<longrightarrow> r = Some i)"
  by (rule findVariable_cases [OF assms, of nm]) (use findVariable_here [OF assms, of nm] in force)+

theorem findVariable_decides_witness:
  "\<exists>r. findVariable initial_ast ''x'' 0 = Some r
    \<and> (r = None \<longleftrightarrow> (\<forall>k. visible initial_ast 0 k \<longrightarrow> identifiers (scopes initial_ast ! k) ''x'' = None))
    \<and> (\<forall>i. r = Some i \<longrightarrow>
         (\<exists>k. visible initial_ast 0 k \<and> identifiers (scopes initial_ast ! k) ''x'' = Some i))
    \<and> (\<forall>i. identifiers (scopes initial_ast ! 0) ''x'' = Some i \<longrightarrow> r = Some i)"
  by (rule findVariable_decides) (simp_all add: initial_ast_wf, simp add: initial_ast_def)

text \<open>
  A variable added to a scope that does not have its name is the one a look-up from that
  scope returns; a second declaration of the name in the scope gives a null pointer and changes
  nothing; no other name of any scope changes, and the scope table stays well formed.
\<close>

theorem addVariable_unique:
  assumes "wf_scopes a" and "s < length (scopes a)" and "identifiers (scopes a ! s) nm = None"
  shows "\<exists>i b. addVariable kind nm s ty off a = Some (Some i, b) \<and> id_type i = ty
    \<and> wf_scopes b \<and> findVariable b nm s = Some (Some i)
    \<and> addVariable kind' nm s ty' off' b = Some (None, b)
    \<and> (\<forall>k nm'. (k, nm') \<noteq> (s, nm) \<longrightarrow> k < length (scopes a) \<longrightarrow>
         identifiers (scopes b ! k) nm' = identifiers (scopes a ! k) nm')"
proof -
  obtain i b where ib: "addVariable kind nm s ty off a = Some (Some i, b)" "id_type i = ty"
    and b: "b = upd_scope s (\<lambda>sc. sc\<lparr>identifiers := (identifiers sc)(nm \<mapsto> i)\<rparr>) a"
    using assms by (simp add: addVariable_def getScope_def Let_def)
  have wf: "wf_scopes b"
    using wf_scopes_addVariable [OF assms(1) ib(1)] .
  have here: "identifiers (scopes b ! s) nm = Some i" "s < length (scopes b)"
    using assms b by (simp_all add: upd_scope_nth)
  then have "addVariable kind' nm s ty' off' b = Some (None, b)"
    by (simp add: addVariable_def getScope_def)
  moreover have "identifiers (scopes b ! k) nm' = identifiers (scopes a ! k) nm'"
    if "(k, nm') \<noteq> (s, nm)" "k < length (scopes a)" for k nm'
    using that b by (auto simp: upd_scope_nth)
  ultimately show ?thesis
    using ib wf here findVariable_here by blast
qed

theorem addVariable_unique_witness:
  "\<exists>i b. addVariable LOCAL_ID ''x'' 0 (prim TYPE_INT) (- 8) initial_ast = Some (Some i, b)
    \<and> id_type i = prim TYPE_INT \<and> wf_scopes b \<and> findVariable b ''x'' 0 = Some (Some i)
    \<and> addVariable GLOBAL_ID ''x'' 0 (prim TYPE_CHAR) 0 b = Some (None, b)
    \<and> (\<forall>k nm'. (k, nm') \<noteq> (0, ''x'') \<longrightarrow> k < length (scopes initial_ast) \<longrightarrow>
         identifiers (scopes b ! k) nm' = identifiers (scopes initial_ast ! k) nm')"
  by (rule addVariable_unique)
    (simp_all add: initial_ast_wf, simp_all add: initial_ast_def init_scope_def)

text \<open>
  C26. The text of a type is a round trip: for a type that is found by its name, printing it with
  \<open>level < 256\<close> stars and converting that text gives the type with that pointer level back.
\<close>

theorem type_name_round_trip:
  assumes "wf_scopes a" and "wf_types a" and "s < length (scopes a)"
    and "findType a nm s = Some (Some i)" and "nm \<noteq> []" and "last nm \<noteq> CHR ''*''"
    and "level < 256"
  shows "nameOfType a (make_type i level) = Some (nm @ replicate level CHR ''*'')
    \<and> convertFullType a (nm @ replicate level CHR ''*'') s = Some (make_type i level)"
proof -
  have i: "i < length (typeInfos a)" "type_name (typeInfos a ! i) = nm"
    "typeId (typeInfos a ! i) = make_type i 0"
    using findType_in_table [OF assms(1-4)] by auto
  then have "i < 2 ^ 24"
    using assms(2) by (simp add: wf_types_def types_max_def)
  then have u: "unat (of_nat i :: 24 word) = i"
    by (simp add: unat_of_nat)
  have l: "unat (of_nat level :: 8 word) = level"
    using assms(7) by (simp add: unat_of_nat)
  show ?thesis
    using i assms u l split_stars_append [of nm level]
    by (simp add: nameOfType_def getType_def base_type_def make_type_def Let_def convertFullType_def
        set_pointer_level_def)
qed

theorem type_name_round_trip_witness:
  "nameOfType initial_ast (make_type 2 3) = Some ''char***''
    \<and> convertFullType initial_ast ''char***'' 0 = Some (make_type 2 3)"
proof -
  have "findType initial_ast ''char'' 0 = Some (Some 2)"
    using initial_ast_wf(1) by (simp add: findType_def find_scope_here initial_ast_def init_scope_def)
  then show ?thesis
    using type_name_round_trip [of initial_ast 0 "''char''" 2 3] initial_ast_wf
    by (simp add: initial_ast_def numeral_3_eq_3)
qed

lemma initial_ast_sel [simp]:
  "typeInfos initial_ast = init_types" "scopes initial_ast = [init_scope]"
  "ast_functions initial_ast = native_functions" "ast_structures initial_ast = []"
  by (simp_all add: initial_ast_def)

lemma init_scope_types: "type_map init_scope (primitive_names t) = Some (primitive_num t)"
  by (cases t) (simp_all add: init_scope_def)

lemma init_scope_functions: "scope_function initial_ast (native_names n) init_scope = Some (nat (native_num n))"
  by (cases n; simp add: scope_function_def init_scope_def native_functions_def
      native_function_def new_function_def upt_rec)

lemma native_functions_nth:
  "native_functions ! nat (native_num n) =
    (native_functions ! nat (native_num n))\<lparr>is_native := True, piece_code_index := native_num n - NATIVE_MAX\<rparr>"
  by (cases n; simp add: native_functions_def native_function_def)

lemma initial_findType: "findType initial_ast (primitive_names t) 0 = Some (Some (primitive_num t))"
  using initial_ast_wf(1) by (simp add: findType_def find_scope_here init_scope_types)

lemma initial_findFunction:
  "findFunction initial_ast (native_names n) 0 = Some (Some (nat (native_num n)))"
  using initial_ast_wf(1) by (simp add: findFunction_def find_scope_here init_scope_functions)

lemma initial_sizeOfType: "sizeOfType initial_ast (prim t) = Some (primitive_size t)"
  by (cases t) (simp_all add: sizeOfType_def getType_def Let_def prim_def make_type_def init_types_def)

lemma native_num_less: "native_num n < NATIVE_MAX"
  by (cases n) (simp_all add: NATIVE_MAX_def)

text \<open>
  The constructor gives a well formed table with one scope, in which every primitive type is
  found by its name, has the number of its enumerator and its size, and every native function
  is found by its name with a negative piece index from which the number of the native call is
  recovered by adding \<^verbatim>\<open>NATIVE_MAX\<close>.
\<close>

theorem ast_init_tables:
  "\<exists>a. ast_init = Some a \<and> wf_scopes a \<and> wf_types a
    \<and> (\<forall>t. findType a (primitive_names t) 0 = Some (Some (primitive_num t))
         \<and> sizeOfType a (prim t) = Some (primitive_size t))
    \<and> (\<forall>n. \<exists>f. findFunction a (native_names n) 0 = Some (Some f)
         \<and> is_native (ast_functions a ! f)
         \<and> piece_code_index (ast_functions a ! f) + NATIVE_MAX = native_num n
         \<and> piece_code_index (ast_functions a ! f) < 0)"
proof (intro exI [of _ initial_ast] conjI allI)
  fix n
  have "is_native (native_functions ! nat (native_num n))"
    "piece_code_index (native_functions ! nat (native_num n)) = native_num n - NATIVE_MAX"
    by (subst native_functions_nth, simp)+
  then show "\<exists>f. findFunction initial_ast (native_names n) 0 = Some (Some f)
      \<and> is_native (ast_functions initial_ast ! f)
      \<and> piece_code_index (ast_functions initial_ast ! f) + NATIVE_MAX = native_num n
      \<and> piece_code_index (ast_functions initial_ast ! f) < 0"
    by (simp add: initial_findFunction native_num_less)
qed (simp_all only: ast_init_eq initial_ast_wf initial_findType initial_sizeOfType)

end
