(* ===== verification/Parser.thy ===== *)
theory Parser
  imports AST
begin

text \<open>
  include/Parser.h and src/Parser.cpp: the parser from a token stream to the tables of the AST.
  The operator loop of \<^verbatim>\<open>parseExpression\<close> keeps its four stacks; a stack is a list whose head is
  the top (\<^verbatim>\<open>back()\<close>).

  A parsing function returns \<open>None\<close> when the code has no defined result: an operand taken from
  an empty stack, a token that refers outside its table, a scope past the limit, or a fuel that
  does not suffice.  Otherwise it returns its result, \<open>None\<close> inside for a null pointer after a
  report, and the context with the new position and the number of errors.  The theorems of
  ParserTotal show that \<open>length (tokens ts) + 4\<close> is enough fuel and that the other cases do not occur.
\<close>

section \<open>Context\<close>

record ParseContext =
  head :: nat
  ast :: AST
  errors :: nat
  current_scopeId :: nat

definition gettok :: "TokenStream \<Rightarrow> ParseContext \<Rightarrow> nat \<Rightarrow> Token" where
  "gettok ts ctx off = get_token ts (head ctx + off)"

abbreviation kind_at :: "TokenStream \<Rightarrow> ParseContext \<Rightarrow> nat \<Rightarrow> TokenKind" where
  "kind_at ts ctx off \<equiv> tok_type (gettok ts ctx off)"

definition advance :: "nat \<Rightarrow> ParseContext \<Rightarrow> ParseContext" where
  "advance n ctx = ctx\<lparr>head := head ctx + n\<rparr>"

text \<open>A report to the user: the message is printed, the counter is what the rest sees.\<close>

definition report :: "ParseContext \<Rightarrow> ParseContext" where
  "report ctx = ctx\<lparr>errors := errors ctx + 1\<rparr>"

text \<open>The string that \<^verbatim>\<open>gettok(&str)\<close> leaves in a variable that held \<open>old\<close>.\<close>

definition token_str :: "TokenStream \<Rightarrow> nat \<Rightarrow> string \<Rightarrow> string option" where
  "token_str ts i old =
    (if tok_type (get_token ts i) \<in> {TOKEN_ID, TOKEN_LITERAL_STRING, TOKEN_LITERAL_CHAR}
     then get_str ts i else Some old)"

definition token_num :: "TokenStream \<Rightarrow> nat \<Rightarrow> i32 \<Rightarrow> i32 option" where
  "token_num ts i old =
    (if tok_type (get_token ts i) = TOKEN_LITERAL_INTEGER then get_num ts i else Some old)"

definition token_dec :: "TokenStream \<Rightarrow> nat \<Rightarrow> f32 \<Rightarrow> f32 option" where
  "token_dec ts i old =
    (if tok_type (get_token ts i) = TOKEN_LITERAL_DECIMAL then get_dec ts i else Some old)"

definition compact :: "Token \<Rightarrow> bool" where
  "compact t \<longleftrightarrow> tok_flags t AND TOKEN_FLAG_SUFFIX_ANY = 0"

lemma get_token_less: "tok_type (get_token ts h) \<noteq> TOKEN_EOF \<Longrightarrow> h < length (tokens ts)"
  by (auto simp: get_token_def eof_token_def split: if_splits)

section \<open>Types\<close>

text \<open>The stars after a type name, as long as no blank separates them.\<close>

function star_loop :: "TokenStream \<Rightarrow> Token \<Rightarrow> string \<Rightarrow> nat \<Rightarrow> string \<times> nat" where
  "star_loop ts prev out h =
    (if tok_type (get_token ts h) \<noteq> TOKEN_CHR CHR ''*'' \<or> \<not> compact prev then (out, h)
     else star_loop ts (get_token ts h) (out @ ''*'') (h + 1))"
  by pat_completeness auto
termination
  by (relation "measure (\<lambda>(ts, prev, out, h). length (tokens ts) - h)")
    (auto intro!: diff_less_mono2 get_token_less)

declare star_loop.simps [simp del]

definition parseType :: "TokenStream \<Rightarrow> ParseContext \<Rightarrow> (string \<times> ParseContext) option" where
  "parseType ts ctx =
    (if kind_at ts ctx 0 \<noteq> TOKEN_ID then Some ([], ctx)
     else do {
       out \<leftarrow> get_str ts (head ctx);
       let (out', h) = star_loop ts (gettok ts ctx 0) out (head ctx + 1);
       Some (out', ctx\<lparr>head := h\<rparr>)
     })"

section \<open>Operators\<close>

text \<open>The default of the switch: the assertion is off and zero is returned.\<close>

definition GetPrecedence :: "ExprKind \<Rightarrow> int" where
  "GetPrecedence k =
    (if k = MEMBER \<or> k = INDEX then 15
     else if k = MUL \<or> k = DIV then 10
     else if k = ADD \<or> k = SUB then 5
     else if k \<in> {EQUAL, NOT_EQUAL, LESS, LESS_EQUAL, GREATER, GREATER_EQUAL} then - 4
     else if k = AND' \<or> k = OR' then - 5
     else if k = ASSIGN then - 10
     else 0)"

definition CharToExprType :: "TokenKind \<Rightarrow> ExprKind" where
  "CharToExprType t =
    (if t = TOKEN_CHR CHR ''+'' then ADD
     else if t = TOKEN_CHR CHR ''-'' then SUB
     else if t = TOKEN_CHR CHR ''*'' then MUL
     else if t = TOKEN_CHR CHR ''/'' then DIV
     else INVALID)"

text \<open>
  The branches of the operator position that only push an operation: the operation and the
  number of tokens to skip.
\<close>

definition infix_operator :: "TokenKind \<Rightarrow> TokenKind \<Rightarrow> bool \<Rightarrow> (ExprKind \<times> nat) option" where
  "infix_operator t t2 cmp =
    (if t = TOKEN_CHR CHR ''+'' \<and> t2 = TOKEN_CHR CHR ''+'' \<and> cmp then Some (POST_INCREMENT, 2)
     else if t = TOKEN_CHR CHR ''-'' \<and> t2 = TOKEN_CHR CHR ''-'' \<and> cmp then Some (POST_DECREMENT, 2)
     else if CharToExprType t \<noteq> INVALID then Some (CharToExprType t, 1)
     else if t = TOKEN_CHR CHR ''&'' \<and> t2 = TOKEN_CHR CHR ''&'' \<and> cmp then Some (AND', 2)
     else if t = TOKEN_CHR CHR ''|'' \<and> t2 = TOKEN_CHR CHR ''|'' \<and> cmp then Some (OR', 2)
     else if t = TOKEN_CHR CHR ''='' \<and> t2 = TOKEN_CHR CHR ''='' \<and> cmp then Some (EQUAL, 2)
     else if t = TOKEN_CHR CHR ''!'' \<and> t2 = TOKEN_CHR CHR ''='' \<and> cmp then Some (NOT_EQUAL, 2)
     else if t = TOKEN_CHR CHR ''<'' \<and> t2 = TOKEN_CHR CHR ''='' \<and> cmp then Some (LESS_EQUAL, 2)
     else if t = TOKEN_CHR CHR ''>'' \<and> t2 = TOKEN_CHR CHR ''='' \<and> cmp then Some (GREATER_EQUAL, 2)
     else if t = TOKEN_CHR CHR ''<'' then Some (LESS, 1)
     else if t = TOKEN_CHR CHR ''>'' then Some (GREATER, 1)
     else if t = TOKEN_CHR CHR ''='' then Some (ASSIGN, 1)
     else None)"

text \<open>The prefix operators, but for \<^verbatim>\<open>cast\<close>.\<close>

definition prefix_operator :: "TokenKind \<Rightarrow> TokenKind \<Rightarrow> bool \<Rightarrow> (ExprKind \<times> nat) option" where
  "prefix_operator t t2 cmp =
    (if t = TOKEN_CHR CHR ''!'' then Some (NOT', 1)
     else if t = TOKEN_CHR CHR ''&'' then Some (REFER, 1)
     else if t = TOKEN_CHR CHR ''*'' then Some (DEREF, 1)
     else if t = TOKEN_CHR CHR ''+'' \<and> t2 = TOKEN_CHR CHR ''+'' \<and> cmp then Some (PRE_INCREMENT, 2)
     else if t = TOKEN_CHR CHR ''-'' \<and> t2 = TOKEN_CHR CHR ''-'' \<and> cmp then Some (PRE_DECREMENT, 2)
     else None)"

section \<open>The stacks of an expression\<close>

text \<open>The variables of \<^verbatim>\<open>parseExpression\<close> that live across the iterations of its loop.\<close>

record ExprState =
  expressions :: "ASTExpression list"
  operations :: "ExprKind list"
  cast_strings :: "string list"
  saved_locations :: "nat list"
  is_operator :: bool
  px_name :: string
  px_number :: i32
  px_decimal :: f32

text \<open>\<^verbatim>\<open>decimal\<close> is not initialised: its first value \<open>junk\<close> is arbitrary.\<close>

definition expr_init :: "f32 \<Rightarrow> ExprState" where
  "expr_init junk =
    \<lparr>expressions = [], operations = [], cast_strings = [], saved_locations = [],
     is_operator = False, px_name = [], px_number = 0, px_decimal = junk\<rparr>"

definition unary_kinds :: "ExprKind set" where
  "unary_kinds =
    {NOT', REFER, DEREF, CAST, PRE_INCREMENT, PRE_DECREMENT, POST_INCREMENT, POST_DECREMENT}"

text \<open>One turn of the loop that applies the pending unary operators.\<close>

definition resolve_one :: "ExprKind \<Rightarrow> ExprState \<Rightarrow> ExprState option" where
  "resolve_one op st =
    (case (expressions st, saved_locations st) of
       (e # es, l # ls) \<Rightarrow>
         (if op = CAST then
            (case cast_strings st of
               [] \<Rightarrow> None
             | c # cs \<Rightarrow> Some (st\<lparr>operations := tl (operations st), expressions := ECast l e c # es,
                                 saved_locations := ls, cast_strings := cs\<rparr>))
          else Some (st\<lparr>operations := tl (operations st), expressions := EUnary op l e # es,
                        saved_locations := ls\<rparr>))
     | _ \<Rightarrow> None)"

function resolve_unary :: "ExprState \<Rightarrow> ExprState option" where
  "resolve_unary st =
    (case operations st of
       [] \<Rightarrow> Some st
     | op # ops \<Rightarrow>
         (if op \<notin> unary_kinds then Some st
          else case resolve_one op st of None \<Rightarrow> None | Some st' \<Rightarrow> resolve_unary st'))"
  by pat_completeness auto
termination
  by (relation "measure (\<lambda>st. length (operations st))")
    (auto simp: resolve_one_def split: list.splits if_splits)

declare resolve_unary.simps [simp del]

text \<open>
  An operation applied to the two top expressions.  Its location is the top of the saved
  locations, whichever operation is applied.
\<close>

definition apply_binary :: "ExprKind \<Rightarrow> ExprKind list \<Rightarrow> ExprState \<Rightarrow> ExprState option" where
  "apply_binary op ops st =
    (case (expressions st, saved_locations st) of
       (r # l # es, loc # ls) \<Rightarrow>
         Some (st\<lparr>operations := ops, expressions := EBinary op loc l r # es, saved_locations := ls\<rparr>)
     | _ \<Rightarrow> None)"

text \<open>While the operation below the top binds at least as tightly, it is applied.\<close>

function reduce_while :: "ExprState \<Rightarrow> ExprState option" where
  "reduce_while st =
    (case operations st of
       right_op # left_op # ops \<Rightarrow>
         (if GetPrecedence left_op \<ge> GetPrecedence right_op
          then case apply_binary left_op (right_op # ops) st of
                 None \<Rightarrow> None | Some st' \<Rightarrow> reduce_while st'
          else Some st)
     | _ \<Rightarrow> Some st)"
  by pat_completeness auto
termination
  by (relation "measure (\<lambda>st. length (operations st))")
    (auto simp: apply_binary_def split: list.splits)

declare reduce_while.simps [simp del]

function reduce_all :: "ExprState \<Rightarrow> ExprState option" where
  "reduce_all st =
    (case operations st of
       [] \<Rightarrow> Some st
     | op # ops \<Rightarrow>
         (case apply_binary op ops st of None \<Rightarrow> None | Some st' \<Rightarrow> reduce_all st'))"
  by pat_completeness auto
termination
  by (relation "measure (\<lambda>st. length (operations st))")
    (auto simp: apply_binary_def split: list.splits)

declare reduce_all.simps [simp del]

definition push_op :: "ExprKind \<Rightarrow> nat \<Rightarrow> ExprState \<Rightarrow> ExprState" where
  "push_op op loc st =
    st\<lparr>operations := op # operations st, saved_locations := loc # saved_locations st\<rparr>"

definition push_expr :: "ASTExpression \<Rightarrow> ExprState \<Rightarrow> ExprState" where
  "push_expr e st = st\<lparr>expressions := e # expressions st\<rparr>"

text \<open>The end of an iteration after a value, a postfix operator or an infix operator.\<close>

definition after_value :: "ExprState \<Rightarrow> ExprState option" where
  "after_value st = do { st' \<leftarrow> resolve_unary st; Some (st'\<lparr>is_operator := True\<rparr>) }"

definition after_operator :: "ExprState \<Rightarrow> ExprState option" where
  "after_operator st = do { st' \<leftarrow> reduce_while st; Some (st'\<lparr>is_operator := False\<rparr>) }"

definition read_values :: "TokenStream \<Rightarrow> nat \<Rightarrow> ExprState \<Rightarrow> ExprState option" where
  "read_values ts h st =
    do {
      s \<leftarrow> token_str ts h (px_name st);
      n \<leftarrow> token_num ts h (px_number st);
      x \<leftarrow> token_dec ts h (px_decimal st);
      Some (st\<lparr>px_name := s, px_number := n, px_decimal := x\<rparr>)
    }"

text \<open>
  The literals: the expression and the number of tokens.  A minus before a number negates the
  variable that the number token would have set, which still has its value from before.
\<close>

definition float_neg :: "f32 \<Rightarrow> f32" where
  "float_neg x = x XOR push_bit 31 1"

definition literal_value ::
  "TokenKind \<Rightarrow> TokenKind \<Rightarrow> nat \<Rightarrow> ExprState \<Rightarrow> (ASTExpression \<times> nat) option" where
  "literal_value t t2 loc st =
    (if t = TOKEN_TRUE then Some (ELitTrue loc, 1)
     else if t = TOKEN_FALSE then Some (ELitFalse loc, 1)
     else if t = TOKEN_NULL then Some (ELitNull loc, 1)
     else if t = TOKEN_LITERAL_INTEGER then Some (ELitInt loc (px_number st), 1)
     else if t = TOKEN_CHR CHR ''-'' \<and> t2 = TOKEN_LITERAL_INTEGER
       then Some (ELitInt loc (- px_number st), 2)
     else if t = TOKEN_LITERAL_DECIMAL then Some (ELitFloat loc (px_decimal st), 1)
     else if t = TOKEN_CHR CHR ''-'' \<and> t2 = TOKEN_LITERAL_DECIMAL
       then Some (ELitFloat loc (float_neg (px_decimal st)), 2)
     else if t = TOKEN_LITERAL_STRING then Some (ELitStr loc (px_name st), 1)
     else if t = TOKEN_LITERAL_CHAR then Some (ELitChar loc (px_name st), 1)
     else None)"

section \<open>Expressions\<close>

text \<open>
  \<open>expr_loop\<close> is the loop of \<^verbatim>\<open>parseExpression\<close>: one unit of fuel per iteration and one per call
  inside it.  \<open>args_loop\<close> is the loop over the arguments of a call.
\<close>

fun expr_loop ::
    "nat \<Rightarrow> f32 \<Rightarrow> TokenStream \<Rightarrow> ExprState \<Rightarrow> ParseContext \<Rightarrow> (ASTExpression option \<times> ParseContext) option"
and args_loop ::
    "nat \<Rightarrow> f32 \<Rightarrow> TokenStream \<Rightarrow> ASTExpression list \<Rightarrow> ParseContext \<Rightarrow>
     (ASTExpression list option \<times> ParseContext) option" where
  "expr_loop 0 junk ts st0 ctx = None"
| "expr_loop (Suc n) junk ts st0 ctx =
     do {
       st \<leftarrow> read_values ts (head ctx) st0;
       let t = kind_at ts ctx 0;
       let t2 = kind_at ts ctx 1;
       let cmp = compact (gettok ts ctx 0);
       let loc = head ctx;
       if is_operator st then
         (case infix_operator t t2 cmp of
            Some (op, k) \<Rightarrow>
              do {
                st' \<leftarrow> (if op = POST_INCREMENT \<or> op = POST_DECREMENT
                        then after_value (push_op op loc st) else after_operator (push_op op loc st));
                expr_loop n junk ts st' (advance k ctx)
              }
          | None \<Rightarrow>
              if t = TOKEN_CHR CHR ''.'' then
                (if kind_at ts ctx 1 \<noteq> TOKEN_ID then Some (None, report (advance 1 ctx))
                 else do {
                   name \<leftarrow> get_str ts (head ctx + 1);
                   (case expressions st of
                      [] \<Rightarrow> None
                    | e # es \<Rightarrow>
                        do {
                          st' \<leftarrow> after_value (st\<lparr>expressions := EMember loc e name # es\<rparr>);
                          expr_loop n junk ts st' (advance 2 ctx)
                        })
                 })
              else if t = TOKEN_CHR CHR ''['' then
                (case expressions st of
                   [] \<Rightarrow> None
                 | e # es \<Rightarrow>
                     do {
                       (right, ctx1) \<leftarrow> expr_loop n junk ts (expr_init junk) (advance 1 ctx);
                       if kind_at ts ctx1 0 \<noteq> TOKEN_CHR CHR '']'' then Some (None, report ctx1)
                       else do {
                         st' \<leftarrow> after_value (st\<lparr>expressions := EIndex loc e right # es\<rparr>);
                         expr_loop n junk ts st' (advance 1 ctx1)
                       }
                     })
              else
                do {
                  st' \<leftarrow> reduce_all st;
                  (case expressions st' of [] \<Rightarrow> None | e # es \<Rightarrow> Some (Some e, ctx))
                })
       else
         (case prefix_operator t t2 cmp of
            Some (op, k) \<Rightarrow> expr_loop n junk ts (push_op op loc st) (advance k ctx)
          | None \<Rightarrow>
              if t = TOKEN_CAST then
                do {
                  (ty, ctx1) \<leftarrow> parseType ts (advance 1 ctx);
                  expr_loop n junk ts
                    ((push_op CAST loc st)\<lparr>cast_strings := ty # cast_strings st\<rparr>) ctx1
                }
              else if t = TOKEN_ID then
                (if kind_at ts ctx 1 = TOKEN_CHR CHR ''('' then
                   do {
                     (args, ctx1) \<leftarrow> args_loop n junk ts [] (advance 2 ctx);
                     (case args of
                        None \<Rightarrow> Some (None, ctx1)
                      | Some es \<Rightarrow>
                          do {
                            st' \<leftarrow> after_value (push_expr (ECall loc (px_name st) es) st);
                            expr_loop n junk ts st' ctx1
                          })
                   }
                 else
                   do {
                     st' \<leftarrow> after_value (push_expr (EIdentifier loc (px_name st)) st);
                     expr_loop n junk ts st' (advance 1 ctx)
                   })
              else
                (case literal_value t t2 loc st of
                   Some (e, k) \<Rightarrow>
                     do {
                       st' \<leftarrow> after_value (push_expr e st);
                       expr_loop n junk ts st' (advance k ctx)
                     }
                 | None \<Rightarrow>
                     if t = TOKEN_SIZEOF then
                       do {
                         (ty, ctx1) \<leftarrow> parseType ts (advance 1 ctx);
                         st' \<leftarrow> after_value (push_expr (ESizeof loc ty) st);
                         expr_loop n junk ts st' ctx1
                       }
                     else if t = TOKEN_CHR CHR ''('' then
                       do {
                         (inner, ctx1) \<leftarrow> expr_loop n junk ts (expr_init junk) (advance 1 ctx);
                         (case inner of
                            None \<Rightarrow> Some (None, ctx1)
                          | Some e \<Rightarrow>
                              if kind_at ts ctx1 0 \<noteq> TOKEN_CHR CHR '')'' then Some (None, report ctx1)
                              else do {
                                st' \<leftarrow> after_value (push_expr e st);
                                expr_loop n junk ts st' (advance 1 ctx1)
                              })
                       }
                     else Some (None, report ctx)))
     }"
| "args_loop 0 junk ts es ctx = None"
| "args_loop (Suc n) junk ts es ctx =
     (if kind_at ts ctx 0 = TOKEN_EOF then Some (None, report ctx)
      else if kind_at ts ctx 0 = TOKEN_CHR CHR '')'' then Some (Some es, advance 1 ctx)
      else do {
        (arg, ctx1) \<leftarrow> expr_loop n junk ts (expr_init junk) ctx;
        (case arg of
           None \<Rightarrow> Some (None, ctx1)
         | Some e \<Rightarrow>
             if kind_at ts ctx1 0 = TOKEN_CHR CHR '','' then args_loop n junk ts (es @ [e]) (advance 1 ctx1)
             else if kind_at ts ctx1 0 = TOKEN_CHR CHR '')'' then args_loop n junk ts (es @ [e]) ctx1
             else Some (None, report ctx1))
      })"

definition parseExpression ::
  "nat \<Rightarrow> f32 \<Rightarrow> TokenStream \<Rightarrow> ParseContext \<Rightarrow> (ASTExpression option \<times> ParseContext) option" where
  "parseExpression n junk ts ctx = expr_loop n junk ts (expr_init junk) ctx"

section \<open>Statements\<close>

text \<open>\<^verbatim>\<open>parsed_stmt->location = loc\<close>.\<close>

primrec set_location :: "nat \<Rightarrow> ASTStatement \<Rightarrow> ASTStatement" where
  "set_location l (SVarDecl l0 nm ty e) = SVarDecl l nm ty e"
| "set_location l (SGlobalDecl l0 nm ty) = SGlobalDecl l nm ty"
| "set_location l (SConstDecl l0 nm ty e) = SConstDecl l nm ty e"
| "set_location l (SExpression l0 e) = SExpression l e"
| "set_location l (SIf l0 e b b') = SIf l e b b'"
| "set_location l (SWhile l0 e b) = SWhile l e b"
| "set_location l (SBreak l0) = SBreak l"
| "set_location l (SContinue l0) = SContinue l"
| "set_location l (SReturn l0 e) = SReturn l e"

definition make_declaration ::
  "bool \<Rightarrow> bool \<Rightarrow> nat \<Rightarrow> string \<Rightarrow> string \<Rightarrow> ASTExpression option \<Rightarrow> ASTStatement" where
  "make_declaration is_global is_constant loc nm ty e =
    (if is_global then SGlobalDecl loc nm ty
     else if is_constant then SConstDecl loc nm ty e
     else SVarDecl loc nm ty e)"

text \<open>The assertion that a declaration starts with a name is off: any token is taken.\<close>

definition parseDeclaration ::
  "nat \<Rightarrow> f32 \<Rightarrow> TokenStream \<Rightarrow> bool \<Rightarrow> bool \<Rightarrow> ParseContext \<Rightarrow>
   (ASTStatement option \<times> ParseContext) option" where
  "parseDeclaration n junk ts is_global is_constant ctx =
    do {
      nm \<leftarrow> token_str ts (head ctx) [];
      let ctx1 = advance 1 ctx;
      if kind_at ts ctx1 0 \<noteq> TOKEN_CHR CHR '':'' then Some (None, report ctx1)
      else do {
        (ty, ctx2) \<leftarrow> parseType ts (advance 1 ctx1);
        if ty = [] then Some (None, report ctx2)
        else if kind_at ts ctx2 0 \<noteq> TOKEN_CHR CHR ''='' then
          (if kind_at ts ctx2 0 = TOKEN_CHR CHR '';''
           then Some (Some (make_declaration is_global is_constant (head ctx) nm ty None), ctx2)
           else Some (None, report ctx2))
        else if is_global then Some (None, report (advance 1 ctx2))
        else do {
          (e, ctx3) \<leftarrow> parseExpression n junk ts (advance 1 ctx2);
          (case e of
             None \<Rightarrow> Some (None, ctx3)
           | Some e' \<Rightarrow>
               Some (Some (make_declaration is_global is_constant (head ctx) nm ty (Some e')), ctx3))
        }
      }
    }"

text \<open>The semicolon that ends most statements.\<close>

definition semicolon ::
  "TokenStream \<Rightarrow> ASTStatement option \<times> ParseContext \<Rightarrow> (ASTStatement option \<times> ParseContext) option" where
  "semicolon ts r =
    (case r of
       (None, ctx) \<Rightarrow> Some (None, ctx)
     | (Some s, ctx) \<Rightarrow>
         if kind_at ts ctx 0 \<noteq> TOKEN_CHR CHR '';'' then Some (None, report ctx)
         else Some (Some s, advance 1 ctx))"

text \<open>The statements of a body that contain no body themselves.\<close>

definition parse_simple ::
  "nat \<Rightarrow> f32 \<Rightarrow> TokenStream \<Rightarrow> ParseContext \<Rightarrow> (ASTStatement option \<times> ParseContext) option" where
  "parse_simple n junk ts ctx =
    (let t = kind_at ts ctx 0 in
     if t = TOKEN_RETURN then
       (if kind_at ts ctx 1 \<noteq> TOKEN_CHR CHR '';'' then
          do {
            (e, ctx1) \<leftarrow> parseExpression n junk ts (advance 1 ctx);
            (case e of
               None \<Rightarrow> Some (None, ctx1)
             | Some e' \<Rightarrow> semicolon ts (Some (SReturn (head ctx) (Some e')), ctx1))
          }
        else semicolon ts (Some (SReturn (head ctx) None), advance 1 ctx))
     else if t = TOKEN_CONTINUE then semicolon ts (Some (SContinue (head ctx)), advance 1 ctx)
     else if t = TOKEN_BREAK then semicolon ts (Some (SBreak (head ctx)), advance 1 ctx)
     else if t = TOKEN_GLOBAL \<or> t = TOKEN_CONST then
       do {
         r \<leftarrow> parseDeclaration n junk ts (t = TOKEN_GLOBAL) (t = TOKEN_CONST) (advance 1 ctx);
         (s, ctx1) \<leftarrow> semicolon ts r;
         Some (map_option (set_location (head ctx + 1)) s, ctx1)
       }
     else if t = TOKEN_STRUCT \<or> t = TOKEN_FUNCTION then Some (None, report ctx)
     else if t = TOKEN_ID \<and> kind_at ts ctx 1 = TOKEN_CHR CHR '':'' then
       do {
         r \<leftarrow> parseDeclaration n junk ts False False ctx;
         (s, ctx1) \<leftarrow> semicolon ts r;
         Some (map_option (set_location (head ctx)) s, ctx1)
       }
     else
       do {
         (e, ctx1) \<leftarrow> parseExpression n junk ts ctx;
         (case e of
            None \<Rightarrow> Some (None, ctx1)
          | Some e' \<Rightarrow> semicolon ts (Some (SExpression (head ctx) e'), ctx1))
       })"

text \<open>
  \<^verbatim>\<open>parseBody\<close> with its loop, \<^verbatim>\<open>parseIf\<close> and \<^verbatim>\<open>parseWhile\<close>.  The scope of the context is
  restored however the body ends.  A statement gets its location from the body that holds it;
  an \<^verbatim>\<open>else if\<close> keeps location zero, and a failing \<^verbatim>\<open>else\<close> body leaves none.
\<close>

fun body_loop ::
    "nat \<Rightarrow> f32 \<Rightarrow> TokenStream \<Rightarrow> ASTStatement list \<Rightarrow> ParseContext \<Rightarrow>
     (ASTStatement list option \<times> ParseContext) option"
and parseBody ::
    "nat \<Rightarrow> f32 \<Rightarrow> TokenStream \<Rightarrow> ParseContext \<Rightarrow> (ASTBody option \<times> ParseContext) option"
and parseIf ::
    "nat \<Rightarrow> f32 \<Rightarrow> TokenStream \<Rightarrow> ParseContext \<Rightarrow> (ASTStatement option \<times> ParseContext) option"
and parseWhile ::
    "nat \<Rightarrow> f32 \<Rightarrow> TokenStream \<Rightarrow> ParseContext \<Rightarrow> (ASTStatement option \<times> ParseContext) option" where
  "body_loop 0 junk ts stmts ctx = None"
| "body_loop (Suc n) junk ts stmts ctx =
     (let t = kind_at ts ctx 0 in
      if t = TOKEN_EOF then Some (None, report ctx)
      else if t = TOKEN_CHR CHR ''}'' then Some (Some stmts, advance 1 ctx)
      else do {
        (s, ctx1) \<leftarrow>
          (if t = TOKEN_IF then parseIf n junk ts ctx
           else if t = TOKEN_WHILE then parseWhile n junk ts ctx
           else parse_simple n junk ts ctx);
        (case s of
           None \<Rightarrow> Some (None, ctx1)
         | Some s' \<Rightarrow>
             body_loop n junk ts
               (stmts @ [if t = TOKEN_IF \<or> t = TOKEN_WHILE then set_location (head ctx) s' else s'])
               ctx1)
      })"
| "parseBody 0 junk ts ctx = None"
| "parseBody (Suc n) junk ts ctx =
     do {
       (sid, a) \<leftarrow> createScope (current_scopeId ctx) (ast ctx);
       let ctx1 = ctx\<lparr>ast := a, current_scopeId := sid\<rparr>;
       (stmts, ctx2) \<leftarrow>
         (if kind_at ts ctx1 0 \<noteq> TOKEN_CHR CHR ''{'' then Some (None, report ctx1)
          else body_loop n junk ts [] (advance 1 ctx1));
       Some (map_option (ASTBody sid) stmts, ctx2\<lparr>current_scopeId := current_scopeId ctx\<rparr>)
     }"
| "parseIf 0 junk ts ctx = None"
| "parseIf (Suc n) junk ts ctx =
     do {
       (e, ctx1) \<leftarrow> parseExpression n junk ts (advance 1 ctx);
       (case e of
          None \<Rightarrow> Some (None, ctx1)
        | Some e' \<Rightarrow>
            do {
              (b, ctx2) \<leftarrow> parseBody n junk ts ctx1;
              (case b of
                 None \<Rightarrow> Some (None, ctx2)
               | Some b' \<Rightarrow>
                   if kind_at ts ctx2 0 \<noteq> TOKEN_ELSE then Some (Some (SIf 0 e' b' None), ctx2)
                   else if kind_at ts ctx2 1 = TOKEN_IF then
                     do {
                       (s, ctx3) \<leftarrow> parseIf n junk ts (advance 1 ctx2);
                       (case s of
                          None \<Rightarrow> Some (None, ctx3)
                        | Some s' \<Rightarrow>
                            Some (Some (SIf 0 e' b' (Some (ASTBody (current_scopeId ctx3) [s']))), ctx3))
                     }
                   else
                     do {
                       (b2, ctx3) \<leftarrow> parseBody n junk ts (advance 1 ctx2);
                       Some (Some (SIf 0 e' b' b2), ctx3)
                     })
            })
     }"
| "parseWhile 0 junk ts ctx = None"
| "parseWhile (Suc n) junk ts ctx =
     (if kind_at ts ctx 0 \<noteq> TOKEN_WHILE then Some (None, ctx)
      else do {
        (e, ctx1) \<leftarrow> parseExpression n junk ts (advance 1 ctx);
        (case e of
           None \<Rightarrow> Some (None, ctx1)
         | Some e' \<Rightarrow>
             do {
               (b, ctx2) \<leftarrow> parseBody n junk ts ctx1;
               Some (map_option (SWhile 0 e') b, ctx2)
             })
      })"

section \<open>Functions, structures, files\<close>

lemma star_loop_ge: "star_loop ts prev out h = (out', h') \<Longrightarrow> h \<le> h'"
  by (induction ts prev out h rule: star_loop.induct)
    (force simp: star_loop.simps split: if_splits)

lemma parseType_ge: "parseType ts ctx = Some (ty, ctx') \<Longrightarrow> head ctx \<le> head ctx'"
  by (cases "get_str ts (head ctx)";
      cases "star_loop ts (gettok ts ctx 0) (the (get_str ts (head ctx))) (Suc (head ctx))")
    (auto simp: parseType_def split: if_splits dest!: star_loop_ge)

text \<open>The end of the file in a parameter list is reported and only ends the loop.\<close>

function param_loop ::
  "TokenStream \<Rightarrow> Parameter list \<Rightarrow> ParseContext \<Rightarrow> (Parameter list option \<times> ParseContext) option" where
  "param_loop ts ps ctx =
    (if kind_at ts ctx 0 = TOKEN_EOF then Some (Some ps, report ctx)
     else if kind_at ts ctx 0 = TOKEN_CHR CHR '')'' then Some (Some ps, advance 1 ctx)
     else if kind_at ts ctx 0 \<noteq> TOKEN_ID then Some (None, report ctx)
     else if kind_at ts ctx 1 \<noteq> TOKEN_CHR CHR '':'' then Some (None, report (advance 1 ctx))
     else
       (case get_str ts (head ctx) of
          None \<Rightarrow> None
        | Some nm \<Rightarrow>
            (case parseType ts (advance 2 ctx) of
               None \<Rightarrow> None
             | Some (ty, ctx1) \<Rightarrow>
                 if ty = [] then Some (None, report ctx1)
                 else if kind_at ts ctx1 0 = TOKEN_CHR CHR '',''
                 then param_loop ts (ps @ [native_param nm ty]) (advance 1 ctx1)
                 else if kind_at ts ctx1 0 = TOKEN_CHR CHR '')''
                 then param_loop ts (ps @ [native_param nm ty]) ctx1
                 else Some (None, report ctx1))))"
  by pat_completeness auto
termination
  by (relation "measure (\<lambda>(ts, ps, ctx). length (tokens ts) - head ctx)")
    (auto simp: advance_def gettok_def intro!: diff_less_mono2 get_token_less dest!: parseType_ge)


declare param_loop.simps [simp del]

definition parseFunction ::
  "nat \<Rightarrow> f32 \<Rightarrow> TokenStream \<Rightarrow> ParseContext \<Rightarrow> (ASTFunction option \<times> ParseContext) option" where
  "parseFunction n junk ts ctx =
    (if kind_at ts ctx 0 \<noteq> TOKEN_FUNCTION then Some (None, ctx)
     else if kind_at ts ctx 1 \<noteq> TOKEN_ID then Some (None, report (advance 1 ctx))
     else if kind_at ts ctx 2 \<noteq> TOKEN_CHR CHR ''('' then Some (None, report (advance 2 ctx))
     else do {
       nm \<leftarrow> get_str ts (head ctx + 1);
       (ps, ctx1) \<leftarrow> param_loop ts [] (advance 3 ctx);
       (case ps of
          None \<Rightarrow> Some (None, ctx1)
        | Some params \<Rightarrow>
            do {
              (ret, ctx2) \<leftarrow>
                (if kind_at ts ctx1 0 = TOKEN_CHR CHR '':'' then
                   do {
                     (ty, c) \<leftarrow> parseType ts (advance 1 ctx1);
                     Some (if ty = [] then (None, report c) else (Some ty, c))
                   }
                 else Some (Some [], ctx1));
              (case ret of
                 None \<Rightarrow> Some (None, ctx2)
               | Some ty \<Rightarrow>
                   do {
                     (b, ctx3) \<leftarrow> parseBody n junk ts ctx2;
                     Some (map_option (\<lambda>body. new_function
                       \<lparr>fn_name := nm, fn_location := head ctx + 1, fn_parameters := params,
                        return_typeString := ty, fn_body := Some body\<rparr>) b, ctx3)
                   })
            })
     })"

function member_loop ::
  "TokenStream \<Rightarrow> Member list \<Rightarrow> ParseContext \<Rightarrow> (Member list option \<times> ParseContext) option" where
  "member_loop ts ms ctx =
    (if kind_at ts ctx 0 = TOKEN_EOF then Some (None, report ctx)
     else if kind_at ts ctx 0 = TOKEN_CHR CHR ''}'' then Some (Some ms, advance 1 ctx)
     else if kind_at ts ctx 0 \<noteq> TOKEN_ID then Some (None, report ctx)
     else if kind_at ts ctx 1 \<noteq> TOKEN_CHR CHR '':'' then Some (None, report (advance 1 ctx))
     else
       (case get_str ts (head ctx) of
          None \<Rightarrow> None
        | Some nm \<Rightarrow>
            (case parseType ts (advance 2 ctx) of
               None \<Rightarrow> None
             | Some (ty, ctx1) \<Rightarrow>
                 if ty = [] then Some (None, report ctx1)
                 else
                   (let ms' = ms @ [\<lparr>mem_name = nm, mem_typeString = ty, mem_typeId = void_type,
                                     mem_offset = 0, mem_location = head ctx\<rparr>] in
                    if kind_at ts ctx1 0 = TOKEN_CHR CHR '','' then member_loop ts ms' (advance 1 ctx1)
                    else if kind_at ts ctx1 0 = TOKEN_CHR CHR ''}'' then member_loop ts ms' ctx1
                    else Some (None, report ctx1)))))"
  by pat_completeness auto
termination
  by (relation "measure (\<lambda>(ts, ms, ctx). length (tokens ts) - head ctx)")
    (auto simp: advance_def gettok_def intro!: diff_less_mono2 get_token_less dest!: parseType_ge)

declare member_loop.simps [simp del]

definition parseStruct ::
  "TokenStream \<Rightarrow> ParseContext \<Rightarrow> (ASTStructure option \<times> ParseContext) option" where
  "parseStruct ts ctx =
    (if kind_at ts ctx 0 \<noteq> TOKEN_STRUCT then Some (None, ctx)
     else if kind_at ts ctx 1 \<noteq> TOKEN_ID then Some (None, report (advance 1 ctx))
     else if kind_at ts ctx 2 \<noteq> TOKEN_CHR CHR ''{'' then Some (None, report (advance 2 ctx))
     else do {
       nm \<leftarrow> get_str ts (head ctx + 1);
       (ms, ctx1) \<leftarrow> member_loop ts [] (advance 3 ctx);
       Some (map_option (\<lambda>mems. new_structure
         \<lparr>st_name := nm, st_location := head ctx + 1, members := mems\<rparr>) ms, ctx1)
     })"

text \<open>
  An import: its name, the scope of its body, the body's statements and structures (the
  functions of the body are those of its scope), the imports it depends on, and the
  bookkeeping of the scheduler: who waits for it, how many imports it waits for and how many
  of them are there.
\<close>

record Import =
  imp_name :: string
  imp_stream :: "TokenStream option"
  imp_body :: "nat option"
  imp_statements :: "ASTStatement list"
  imp_structures :: "nat list"
  dependencies :: "string list"
  fixups :: "nat list"
  deps_count :: int
  deps_now :: int

definition new_import :: "string \<Rightarrow> Import" where
  "new_import nm =
    \<lparr>imp_name = nm, imp_stream = None, imp_body = None, imp_statements = [], imp_structures = [],
     dependencies = [], fixups = [], deps_count = 0, deps_now = 0\<rparr>"

text \<open>
  The loop of \<^verbatim>\<open>ParseTokenStream\<close>.  The flag of the result is false for a null pointer; a
  structure or function that fails only stops the loop, and the import is returned.
\<close>

fun top_loop ::
  "nat \<Rightarrow> f32 \<Rightarrow> TokenStream \<Rightarrow> Import \<Rightarrow> ParseContext \<Rightarrow> (bool \<times> Import \<times> ParseContext) option" where
  "top_loop 0 junk ts imp ctx = None"
| "top_loop (Suc n) junk ts imp ctx =
     (let t = kind_at ts ctx 0 in
      if t = TOKEN_EOF then Some (True, imp, ctx)
      else if t = TOKEN_STRUCT then
        do {
          (s, ctx1) \<leftarrow> parseStruct ts ctx;
          (case s of
             None \<Rightarrow> Some (True, imp, ctx1)
           | Some st \<Rightarrow>
               let (i, a) = add_structure st (ast ctx1) in
               top_loop n junk ts (imp\<lparr>imp_structures := imp_structures imp @ [i]\<rparr>) (ctx1\<lparr>ast := a\<rparr>))
        }
      else if t = TOKEN_FUNCTION then
        do {
          (f, ctx1) \<leftarrow> parseFunction n junk ts ctx;
          (case f of
             None \<Rightarrow> Some (True, imp, ctx1)
           | Some fn \<Rightarrow>
               top_loop n junk ts imp
                 (ctx1\<lparr>ast := add_function fn (current_scopeId ctx1) (ast ctx1)\<rparr>))
        }
      else if t = TOKEN_GLOBAL \<or> t = TOKEN_CONST then
        do {
          r \<leftarrow> parseDeclaration n junk ts (t = TOKEN_GLOBAL) (t = TOKEN_CONST) (advance 1 ctx);
          (s, ctx1) \<leftarrow> semicolon ts r;
          (case s of
             None \<Rightarrow> Some (False, imp, ctx1)
           | Some st \<Rightarrow>
               top_loop n junk ts (imp\<lparr>imp_statements := imp_statements imp @ [st]\<rparr>) ctx1)
        }
      else if t = TOKEN_IMPORT then
        (if kind_at ts ctx 1 \<noteq> TOKEN_LITERAL_STRING then Some (False, imp, report (advance 1 ctx))
         else do {
           p \<leftarrow> get_str ts (head ctx + 1);
           top_loop n junk ts
             (if p \<in> set (dependencies imp) then imp
              else imp\<lparr>dependencies := dependencies imp @ [p]\<rparr>)
             (advance 2 ctx)
         })
      else Some (False, imp, report ctx))"

text \<open>
  \<^verbatim>\<open>ParseTokenStream\<close>; the caller passes the import that waits for the stream, or has a new one
  made from the path.  The number of errors so far is the reporter's.
\<close>

definition ParseTokenStream ::
  "nat \<Rightarrow> f32 \<Rightarrow> TokenStream \<Rightarrow> Import option \<Rightarrow> AST \<Rightarrow> nat \<Rightarrow> (bool \<times> Import \<times> ParseContext) option"
where
  "ParseTokenStream n junk ts imp a errs =
    do {
      (sid, a1) \<leftarrow> createScope 0 a;
      let imp0 = (case imp of None \<Rightarrow> new_import (path ts) | Some i \<Rightarrow> i);
      let imp1 = imp0\<lparr>imp_body := Some sid, imp_stream := Some ts\<rparr>;
      top_loop n junk ts imp1 \<lparr>head = 0, ast = a1, errors = errs, current_scopeId = sid\<rparr>
    }"

end
