(* ===== verification/ParserTotal.thy ===== *)
theory ParserTotal
  imports Parser
begin

text \<open>
  What every parsing function of src/Parser.cpp promises on a well formed token stream, whatever
  the tokens are: the stacks of \<^verbatim>\<open>parseExpression\<close> never run empty, every loop ends, a null
  pointer is returned only after a report, and what is returned without a report is complete.
\<close>

section \<open>The stacks never run empty\<close>

definition binary_kinds :: "ExprKind set" where
  "binary_kinds =
    {ADD, SUB, MUL, DIV, AND', OR', EQUAL, NOT_EQUAL, LESS, GREATER, LESS_EQUAL, GREATER_EQUAL, ASSIGN}"

text \<open>
  Between two values the pending operations are binary and one operand is left over.  Before a
  value the prefix operators read so far lie on top of them, each with its location, each cast
  with its type.
\<close>

definition stacks_ok :: "ExprKind list \<Rightarrow> ExprState \<Rightarrow> bool" where
  "stacks_ok us st \<longleftrightarrow>
    (\<exists>bs. operations st = us @ bs \<and> set us \<subseteq> unary_kinds \<and> set bs \<subseteq> binary_kinds
      \<and> length (saved_locations st) = length us + length bs
      \<and> length (cast_strings st) = count_list us CAST
      \<and> length (expressions st) = length bs + (if is_operator st then 1 else 0))
    \<and> (is_operator st \<longrightarrow> us = [])"

definition expr_inv :: "ExprState \<Rightarrow> bool" where
  "expr_inv st \<longleftrightarrow> (\<exists>us. stacks_ok us st)"

lemma binary_not_unary: "op \<in> binary_kinds \<Longrightarrow> op \<notin> unary_kinds"
  by (auto simp: binary_kinds_def unary_kinds_def)

lemma resolve_unary_ok:
  assumes "operations st = us @ bs" and "set us \<subseteq> unary_kinds" and "set bs \<subseteq> binary_kinds"
    and "length (saved_locations st) = length us + length bs"
    and "length (cast_strings st) = count_list us CAST"
    and "expressions st = e # es"
  shows "\<exists>e' ls. resolve_unary st =
      Some (st\<lparr>operations := bs, expressions := e' # es, saved_locations := ls, cast_strings := []\<rparr>)
    \<and> length ls = length bs"
  using assms
proof (induction us arbitrary: st e)
  case Nil
  then have "resolve_unary st = Some st"
    using binary_not_unary by (cases bs) (auto simp: resolve_unary.simps [of st])
  with Nil show ?case
    by (intro exI [of _ e] exI [of _ "saved_locations st"]) simp
next
  case (Cons u us)
  obtain l ls where l: "saved_locations st = l # ls"
    using Cons.prems(4) by (cases "saved_locations st") auto
  obtain st1 e1 where st1: "resolve_one u st = Some st1"
    "st1 = st\<lparr>operations := us @ bs, expressions := e1 # es, saved_locations := ls,
       cast_strings := (if u = CAST then tl (cast_strings st) else cast_strings st)\<rparr>"
  proof (cases "u = CAST")
    case True
    then obtain c cs where "cast_strings st = c # cs"
      using Cons.prems(5) by (cases "cast_strings st") auto
    with True l Cons.prems show ?thesis
      by (intro that) (auto simp: resolve_one_def)
  next
    case False
    with l Cons.prems show ?thesis
      by (intro that) (auto simp: resolve_one_def)
  qed
  have "resolve_unary st = resolve_unary st1"
    using Cons.prems(1,2) st1(1) by (simp add: resolve_unary.simps [of st])
  moreover have "\<exists>e' ls. resolve_unary st1 =
      Some (st1\<lparr>operations := bs, expressions := e' # es, saved_locations := ls, cast_strings := []\<rparr>)
    \<and> length ls = length bs"
    using Cons.prems l st1(2) by (intro Cons.IH [of st1 e1]) auto
  ultimately show ?case
    using st1(2) by auto
qed

lemma apply_binary_ok:
  assumes "length (expressions st) = Suc (length ops) + 1" and "length (saved_locations st) = Suc (length ops)"
  shows "\<exists>es ls. apply_binary op ops st = Some (st\<lparr>operations := ops, expressions := es, saved_locations := ls\<rparr>)
    \<and> length es = length ops + 1 \<and> length ls = length ops"
proof -
  obtain r l es where e: "expressions st = r # l # es" "length es = length ops"
    using assms(1) by (auto simp: length_Suc_conv)
  obtain loc ls where l: "saved_locations st = loc # ls" "length ls = length ops"
    using assms(2) by (auto simp: length_Suc_conv)
  from e l show ?thesis
    by (intro exI [of _ "EBinary op loc l r # es"] exI [of _ ls]) (simp add: apply_binary_def)
qed

lemma reduce_all_ok:
  "length (expressions st) = length (operations st) + 1 \<Longrightarrow>
   length (saved_locations st) = length (operations st) \<Longrightarrow>
   \<exists>e. reduce_all st = Some (st\<lparr>operations := [], expressions := [e], saved_locations := []\<rparr>)"
proof (induction "operations st" arbitrary: st)
  case Nil
  then have "reduce_all st = Some st"
    by (simp add: reduce_all.simps [of st])
  moreover obtain e where "expressions st = [e]"
    using Nil by (cases "expressions st") auto
  ultimately show ?case
    using Nil by (intro exI [of _ e]) (cases st, auto)
next
  case (Cons op ops)
  have "length (operations st) = Suc (length ops)"
    using Cons(2) [symmetric] by simp
  then obtain es ls where a: "apply_binary op ops st =
      Some (st\<lparr>operations := ops, expressions := es, saved_locations := ls\<rparr>)"
    "length es = length ops + 1" "length ls = length ops"
    using apply_binary_ok [of st ops op] Cons(3,4) by auto
  then have "reduce_all st = reduce_all (st\<lparr>operations := ops, expressions := es, saved_locations := ls\<rparr>)"
    using Cons(2) [symmetric] by (simp add: reduce_all.simps [of st])
  with Cons(1) [of "st\<lparr>operations := ops, expressions := es, saved_locations := ls\<rparr>"] a show ?case
    by auto
qed

text \<open>The reduction before the next operand: the newest operation has no right operand yet.\<close>

lemma reduce_while_ok:
  "operations st = op # ops \<Longrightarrow> set (operations st) \<subseteq> binary_kinds \<Longrightarrow>
   length (expressions st) = length (operations st) \<Longrightarrow>
   length (saved_locations st) = length (operations st) \<Longrightarrow>
   \<exists>ops' es ls. reduce_while st =
       Some (st\<lparr>operations := op # ops', expressions := es, saved_locations := ls\<rparr>)
     \<and> set (op # ops') \<subseteq> binary_kinds \<and> length es = length ops' + 1 \<and> length ls = length ops' + 1"
proof (induction ops arbitrary: st)
  case Nil
  then have "reduce_while st = Some st"
    by (simp add: reduce_while.simps [of st])
  with Nil show ?case
    by (intro exI [of _ "[]"] exI [of _ "expressions st"] exI [of _ "saved_locations st"]) auto
next
  case (Cons left_op ops)
  show ?case
  proof (cases "GetPrecedence left_op \<ge> GetPrecedence op")
    case True
    obtain es ls where a: "apply_binary left_op (op # ops) st =
        Some (st\<lparr>operations := op # ops, expressions := es, saved_locations := ls\<rparr>)"
      "length es = length (op # ops)" "length ls = length (op # ops)"
      using Cons.prems by (auto simp: apply_binary_def length_Suc_conv split: list.splits)
    let ?st = "st\<lparr>operations := op # ops, expressions := es, saved_locations := ls\<rparr>"
    have "reduce_while st = reduce_while ?st"
      using Cons.prems(1) True a(1) by (simp add: reduce_while.simps [of st])
    with Cons.IH [of ?st] Cons.prems a show ?thesis by auto
  next
    case False
    then have "reduce_while st = Some st"
      using Cons.prems(1) by (simp add: reduce_while.simps [of st])
    with Cons.prems show ?thesis
      by (intro exI [of _ "left_op # ops"] exI [of _ "expressions st"] exI [of _ "saved_locations st"]) auto
  qed
qed

text \<open>Each way to continue an iteration keeps the invariant.\<close>

lemma after_value_push:
  assumes "expr_inv st" and "\<not> is_operator st"
  shows "\<exists>st'. after_value (push_expr e st) = Some st' \<and> expr_inv st' \<and> is_operator st'"
proof -
  obtain us bs where s: "operations st = us @ bs" "set us \<subseteq> unary_kinds" "set bs \<subseteq> binary_kinds"
    "length (saved_locations st) = length us + length bs" "length (cast_strings st) = count_list us CAST"
    "length (expressions st) = length bs"
    using assms by (auto simp: expr_inv_def stacks_ok_def)
  obtain e' ls where r: "resolve_unary (push_expr e st) = Some ((push_expr e st)\<lparr>operations := bs,
      expressions := e' # expressions st, saved_locations := ls, cast_strings := []\<rparr>)"
    "length ls = length bs"
    using resolve_unary_ok [of "push_expr e st" us bs e "expressions st"] s by (auto simp: push_expr_def)
  then show ?thesis
    using s by (auto simp: after_value_def expr_inv_def stacks_ok_def intro!: exI [of _ "[]"])
qed

lemma after_value_postfix:
  assumes "expr_inv st" and "is_operator st" and "op \<in> {POST_INCREMENT, POST_DECREMENT}"
  shows "\<exists>st'. after_value (push_op op loc st) = Some st' \<and> expr_inv st' \<and> is_operator st'"
proof -
  from assms obtain bs where s: "operations st = bs" "set bs \<subseteq> binary_kinds"
    "length (saved_locations st) = length bs" "cast_strings st = []" "length (expressions st) = length bs + 1"
    by (auto simp: expr_inv_def stacks_ok_def)
  obtain e es where e: "expressions st = e # es" using s(5) by (cases "expressions st") auto
  have u: "op \<in> unary_kinds" "op \<noteq> CAST" using assms(3) by (auto simp: unary_kinds_def)
  obtain e' ls where r: "resolve_unary (push_op op loc st) = Some ((push_op op loc st)\<lparr>operations := bs,
      expressions := e' # es, saved_locations := ls, cast_strings := []\<rparr>)" "length ls = length bs"
    using resolve_unary_ok [of "push_op op loc st" "[op]" bs e es] s e u by (auto simp: push_op_def)
  then show ?thesis
    using s e by (auto simp: after_value_def expr_inv_def stacks_ok_def intro!: exI [of _ "[]"])
qed

lemma after_value_top:
  assumes "expr_inv st" and "is_operator st" and "expressions st = e # es"
  shows "\<exists>st'. after_value (st\<lparr>expressions := e' # es\<rparr>) = Some st' \<and> expr_inv st' \<and> is_operator st'"
proof -
  from assms obtain bs where s: "operations st = bs" "set bs \<subseteq> binary_kinds"
    "length (saved_locations st) = length bs" "cast_strings st = []" "length es = length bs"
    by (auto simp: expr_inv_def stacks_ok_def)
  obtain e'' ls where r: "resolve_unary (st\<lparr>expressions := e' # es\<rparr>) =
      Some (st\<lparr>expressions := e'' # es, operations := bs, saved_locations := ls, cast_strings := []\<rparr>)"
    "length ls = length bs"
    using resolve_unary_ok [of "st\<lparr>expressions := e' # es\<rparr>" "[]" bs e' es] s by auto
  then show ?thesis
    using s by (auto simp: after_value_def expr_inv_def stacks_ok_def intro!: exI [of _ "[]"])
qed

lemma after_operator_push:
  assumes "expr_inv st" and "is_operator st" and "op \<in> binary_kinds"
  shows "\<exists>st'. after_operator (push_op op loc st) = Some st' \<and> expr_inv st' \<and> \<not> is_operator st'"
proof -
  from assms have s: "set (operations st) \<subseteq> binary_kinds"
    "length (saved_locations st) = length (operations st)" "cast_strings st = []"
    "length (expressions st) = length (operations st) + 1"
    by (auto simp: expr_inv_def stacks_ok_def)
  obtain ops' es ls where r: "reduce_while (push_op op loc st) =
      Some ((push_op op loc st)\<lparr>operations := op # ops', expressions := es, saved_locations := ls\<rparr>)"
    "set (op # ops') \<subseteq> binary_kinds" "length es = length ops' + 1" "length ls = length ops' + 1"
    using reduce_while_ok [of "push_op op loc st" op "operations st"] s assms(3) by (auto simp: push_op_def)
  have "stacks_ok [] ((push_op op loc st)\<lparr>operations := op # ops', expressions := es,
      saved_locations := ls, is_operator := False\<rparr>)"
    unfolding stacks_ok_def using r s by (intro conjI exI [of _ "op # ops'"]) (auto simp: push_op_def)
  then show ?thesis
    using r by (auto simp: after_operator_def expr_inv_def)
qed

lemma push_unary:
  assumes "expr_inv st" and "\<not> is_operator st" and "op \<in> unary_kinds"
    and "length cs = length (cast_strings st) + (if op = CAST then 1 else 0)"
  shows "expr_inv ((push_op op loc st)\<lparr>cast_strings := cs\<rparr>)"
proof -
  obtain us where "stacks_ok us st" using assms(1) by (auto simp: expr_inv_def)
  with assms(2-4) have "stacks_ok (op # us) ((push_op op loc st)\<lparr>cast_strings := cs\<rparr>)"
    by (auto simp: stacks_ok_def push_op_def)
  then show ?thesis by (auto simp: expr_inv_def)
qed

lemma push_prefix:
  assumes "expr_inv st" and "\<not> is_operator st" and "op \<in> unary_kinds" and "op \<noteq> CAST"
  shows "expr_inv (push_op op loc st)"
proof -
  have "(push_op op loc st)\<lparr>cast_strings := cast_strings st\<rparr> = push_op op loc st"
    by (cases st) (simp add: push_op_def)
  with push_unary [OF assms(1-3), of "cast_strings st" loc] assms(4) show ?thesis by simp
qed

lemma push_cast:
  "expr_inv st \<Longrightarrow> \<not> is_operator st \<Longrightarrow>
   expr_inv ((push_op CAST loc st)\<lparr>cast_strings := ty # cast_strings st\<rparr>)"
  by (rule push_unary) (simp_all add: unary_kinds_def)

lemma push_op_is_operator [simp]: "is_operator (push_op op loc st) = is_operator st"
  by (simp add: push_op_def)

lemma reduce_all_end:
  assumes "expr_inv st" and "is_operator st"
  shows "\<exists>e. reduce_all st = Some (st\<lparr>operations := [], expressions := [e], saved_locations := []\<rparr>)"
  using assms by (intro reduce_all_ok) (auto simp: expr_inv_def stacks_ok_def)

lemma expr_inv_init: "expr_inv (expr_init junk)" "\<not> is_operator (expr_init junk)"
  by (auto simp: expr_inv_def stacks_ok_def expr_init_def)

lemma infix_kinds:
  "infix_operator t t2 cmp = Some (op, k) \<Longrightarrow>
   (op \<in> {POST_INCREMENT, POST_DECREMENT} \<or> op \<in> binary_kinds) \<and> t \<noteq> TOKEN_EOF \<and> 1 \<le> k
   \<and> (2 \<le> k \<longrightarrow> k = 2 \<and> t2 \<noteq> TOKEN_EOF)"
  by (auto simp: infix_operator_def CharToExprType_def binary_kinds_def split: if_splits)

lemma prefix_kinds:
  "prefix_operator t t2 cmp = Some (op, k) \<Longrightarrow>
   op \<in> unary_kinds \<and> op \<noteq> CAST \<and> t \<noteq> TOKEN_EOF \<and> 1 \<le> k \<and> (2 \<le> k \<longrightarrow> k = 2 \<and> t2 \<noteq> TOKEN_EOF)"
  by (auto simp: prefix_operator_def unary_kinds_def split: if_splits)

lemma literal_kinds:
  "literal_value t t2 loc st = Some (e, k) \<Longrightarrow> t \<noteq> TOKEN_EOF \<and> 1 \<le> k \<and> (2 \<le> k \<longrightarrow> k = 2 \<and> t2 \<noteq> TOKEN_EOF)"
  by (auto simp: literal_value_def split: if_splits)

section \<open>Enough fuel, and nulls are reported\<close>

text \<open>The tokens of a stream that the lexer built can all be read.\<close>

lemma readable_str:
  "wf_stream ts \<Longrightarrow> tok_type (get_token ts i) \<in> str_kinds \<Longrightarrow> \<exists>s. get_str ts i = Some s"
  using indices_of_range [of str_kinds ts "length (strings ts)" "get_token ts i"]
  by (auto simp: get_str_def wf_stream_def str_kinds_def get_token_def eof_token_def split: if_splits)

lemma readable_num:
  "wf_stream ts \<Longrightarrow> tok_type (get_token ts i) = TOKEN_LITERAL_INTEGER \<Longrightarrow> \<exists>s. get_num ts i = Some s"
  using indices_of_range [of "{TOKEN_LITERAL_INTEGER}" ts "length (integers ts)" "get_token ts i"]
  by (auto simp: get_num_def wf_stream_def get_token_def eof_token_def split: if_splits)

lemma readable_dec:
  "wf_stream ts \<Longrightarrow> tok_type (get_token ts i) = TOKEN_LITERAL_DECIMAL \<Longrightarrow> \<exists>s. get_dec ts i = Some s"
  using indices_of_range [of "{TOKEN_LITERAL_DECIMAL}" ts "length (floats ts)" "get_token ts i"]
  by (auto simp: get_dec_def wf_stream_def get_token_def eof_token_def split: if_splits)

lemma readable_token_str: "wf_stream ts \<Longrightarrow> \<exists>s. token_str ts i old = Some s"
  using readable_str [of ts i] by (auto simp: token_str_def str_kinds_def)

lemma readable_values:
  assumes "wf_stream ts"
  shows "\<exists>s n x. read_values ts h st = Some (st\<lparr>px_name := s, px_number := n, px_decimal := x\<rparr>)"
proof -
  obtain n where "token_num ts h (px_number st) = Some n"
    using readable_num [OF assms, of h] by (cases "tok_type (get_token ts h) = TOKEN_LITERAL_INTEGER") (auto simp: token_num_def)
  moreover obtain x where "token_dec ts h (px_decimal st) = Some x"
    using readable_dec [OF assms, of h] by (cases "tok_type (get_token ts h) = TOKEN_LITERAL_DECIMAL") (auto simp: token_dec_def)
  moreover obtain s where "token_str ts h (px_name st) = Some s"
    using readable_token_str [OF assms, of h "px_name st"] by auto
  ultimately show ?thesis
    by (intro exI [of _ s] exI [of _ n] exI [of _ x]) (simp add: read_values_def)
qed

text \<open>An expression without a missing operand.\<close>

primrec complete_expr :: "ASTExpression \<Rightarrow> bool" where
  "complete_expr (EIdentifier l n) = True"
| "complete_expr (ECall l n args) = list_all id (map complete_expr args)"
| "complete_expr (EBinary k l a b) = (complete_expr a \<and> complete_expr b)"
| "complete_expr (EUnary k l a) = complete_expr a"
| "complete_expr (EIndex l a b) = (complete_expr a \<and> (case map_option complete_expr b of None \<Rightarrow> False | Some c \<Rightarrow> c))"
| "complete_expr (EMember l a n) = complete_expr a"
| "complete_expr (ECast l a n) = complete_expr a"
| "complete_expr (ESizeof l n) = True"
| "complete_expr (ELitInt l v) = True"
| "complete_expr (ELitFloat l v) = True"
| "complete_expr (ELitStr l v) = True"
| "complete_expr (ELitChar l v) = True"
| "complete_expr (ELitNull l) = True"
| "complete_expr (ELitTrue l) = True"
| "complete_expr (ELitFalse l) = True"

definition complete_stack :: "ExprState \<Rightarrow> bool" where
  "complete_stack st \<longleftrightarrow> (\<forall>e\<in>set (expressions st). complete_expr e)"

lemma resolve_unary_complete:
  "resolve_unary st = Some st' \<Longrightarrow> complete_stack st \<Longrightarrow> complete_stack st'"
proof (induction st rule: resolve_unary.induct)
  case (1 st)
  show ?case
  proof (cases "operations st = [] \<or> hd (operations st) \<notin> unary_kinds")
    case True
    then have "st' = st"
      using 1(2) by (auto simp: resolve_unary.simps [of st] split: list.splits)
    with 1 show ?thesis by simp
  next
    case False
    then obtain op ops where op: "operations st = op # ops" "op \<in> unary_kinds"
      by (cases "operations st") auto
    with 1(2) obtain st1 where st1: "resolve_one op st = Some st1" "resolve_unary st1 = Some st'"
      by (auto simp: resolve_unary.simps [of st] split: option.splits)
    then have "complete_stack st1"
      using 1(3) by (auto simp: resolve_one_def complete_stack_def split: list.splits if_splits)
    with 1(1) [OF op(1)] op(2) st1 show ?thesis by auto
  qed
qed

lemma apply_binary_complete:
  "apply_binary op ops st = Some st' \<Longrightarrow> complete_stack st \<Longrightarrow> complete_stack st'"
  by (auto simp: apply_binary_def complete_stack_def split: list.splits)

lemma reduce_while_complete:
  "reduce_while st = Some st' \<Longrightarrow> complete_stack st \<Longrightarrow> complete_stack st'"
proof (induction st rule: reduce_while.induct)
  case (1 st)
  show ?case
  proof (cases "\<exists>r l ops. operations st = r # l # ops \<and> GetPrecedence l \<ge> GetPrecedence r")
    case True
    then obtain r l ops where ops: "operations st = r # l # ops" "GetPrecedence l \<ge> GetPrecedence r"
      by blast
    with 1(2) obtain st1 where "apply_binary l (r # ops) st = Some st1" "reduce_while st1 = Some st'"
      by (auto simp: reduce_while.simps [of st] split: option.splits)
    with 1(1) [OF ops(1)] ops(2) 1(3) apply_binary_complete show ?thesis
      by blast
  next
    case False
    then have "st' = st"
      using 1(2) by (auto simp: reduce_while.simps [of st] split: list.splits if_splits)
    with 1 show ?thesis by simp
  qed
qed

lemma reduce_all_complete:
  "reduce_all st = Some st' \<Longrightarrow> complete_stack st \<Longrightarrow> complete_stack st'"
proof (induction st rule: reduce_all.induct)
  case (1 st)
  show ?case
  proof (cases "operations st")
    case Nil
    with 1 show ?thesis by (simp add: reduce_all.simps [of st])
  next
    case (Cons op ops)
    with 1(2) obtain st1 where "apply_binary op ops st = Some st1" "reduce_all st1 = Some st'"
      by (auto simp: reduce_all.simps [of st] split: option.splits)
    with 1(1) [OF Cons] 1(3) apply_binary_complete show ?thesis by blast
  qed
qed

lemma after_complete:
  "after_value st = Some st' \<Longrightarrow> complete_stack st \<Longrightarrow> complete_stack st'"
  "after_operator st = Some st' \<Longrightarrow> complete_stack st \<Longrightarrow> complete_stack st'"
  using resolve_unary_complete reduce_while_complete
  by (fastforce simp: after_value_def after_operator_def bind_eq_Some_conv complete_stack_def)+

lemma complete_stack_push [simp]:
  "complete_stack (push_op op l st) = complete_stack st"
  "complete_stack (push_expr e st) = (complete_expr e \<and> complete_stack st)"
  "complete_stack (st\<lparr>cast_strings := cs\<rparr>) = complete_stack st"
  "complete_stack (expr_init junk)"
  by (auto simp: complete_stack_def push_op_def push_expr_def expr_init_def)

text \<open>What a call may change in the context, and what it promises of its result.\<close>

definition ctx_step :: "ParseContext \<Rightarrow> ParseContext \<Rightarrow> bool" where
  "ctx_step c c' \<longleftrightarrow>
    head c \<le> head c' \<and> ast c' = ast c \<and> current_scopeId c' = current_scopeId c \<and> errors c \<le> errors c'"

definition parse_post ::
  "('a \<Rightarrow> bool) \<Rightarrow> nat \<Rightarrow> bool \<Rightarrow> ParseContext \<Rightarrow> ('a option \<times> ParseContext) option \<Rightarrow> bool" where
  "parse_post good E b ctx r \<longleftrightarrow>
    (\<exists>x ctx'. r = Some (x, ctx') \<and> ctx_step ctx ctx'
      \<and> (x = None \<longrightarrow> errors ctx < errors ctx')
      \<and> (x \<noteq> None \<and> b \<longrightarrow> head ctx < head ctx')
      \<and> (\<forall>e. x = Some e \<and> errors ctx' = E \<longrightarrow> good e))"

lemma ctx_step_refl [simp]: "ctx_step c c"
  by (simp add: ctx_step_def)

lemma ctx_step_trans: "ctx_step a b \<Longrightarrow> ctx_step b c \<Longrightarrow> ctx_step a c"
  by (simp add: ctx_step_def)

lemma ctx_step_advance [simp]: "ctx_step c (advance k c)"
  by (simp add: ctx_step_def advance_def)

lemma ctx_step_report [simp]: "ctx_step c (report c)"
  by (simp add: ctx_step_def report_def)

lemma parse_post_trans:
  "parse_post good E b' ctx1 r \<Longrightarrow> ctx_step ctx ctx1 \<Longrightarrow> head ctx < head ctx1 \<Longrightarrow> parse_post good E b ctx r"
  by (fastforce simp: parse_post_def ctx_step_def)

lemma parse_post_report:
  "ctx_step ctx ctx1 \<Longrightarrow> parse_post good E b ctx (Some (None, report ctx1))"
  by (auto simp: parse_post_def ctx_step_def report_def)

lemma parse_post_null:
  "ctx_step ctx ctx1 \<Longrightarrow> errors ctx < errors ctx1 \<Longrightarrow> parse_post good E b ctx (Some (None, ctx1))"
  by (simp add: parse_post_def)

lemma advance_sel [simp]:
  "head (advance k ctx) = head ctx + k" "errors (advance k ctx) = errors ctx"
  "ast (advance k ctx) = ast ctx" "current_scopeId (advance k ctx) = current_scopeId ctx"
  by (simp_all add: advance_def)

lemma report_sel [simp]:
  "head (report ctx) = head ctx" "errors (report ctx) = Suc (errors ctx)"
  "ast (report ctx) = ast ctx" "current_scopeId (report ctx) = current_scopeId ctx"
  by (simp_all add: report_def)

lemma parseType_total:
  assumes "wf_stream ts"
  shows "\<exists>ty ctx'. parseType ts ctx = Some (ty, ctx') \<and> ctx_step ctx ctx' \<and> errors ctx' = errors ctx"
proof (cases "kind_at ts ctx 0 = TOKEN_ID")
  case True
  then obtain s where s: "get_str ts (head ctx) = Some s"
    using readable_str [OF assms, of "head ctx"] by (auto simp: gettok_def str_kinds_def)
  obtain out h where o: "star_loop ts (gettok ts ctx 0) s (Suc (head ctx)) = (out, h)"
    by (cases "star_loop ts (gettok ts ctx 0) s (Suc (head ctx))")
  show ?thesis
    using True s o star_loop_ge [OF o] by (simp add: parseType_def ctx_step_def)
qed (simp add: parseType_def)

lemma kind_less: "kind_at ts ctx k \<noteq> TOKEN_EOF \<Longrightarrow> head ctx + k < length (tokens ts)"
  using get_token_less [of ts "head ctx + k"] by (simp add: gettok_def)


lemma values_updates [simp]:
  "expr_inv (st\<lparr>px_name := s, px_number := k, px_decimal := x\<rparr>) = expr_inv st"
  "complete_stack (st\<lparr>px_name := s, px_number := k, px_decimal := x\<rparr>) = complete_stack st"
  by (simp_all add: expr_inv_def stacks_ok_def complete_stack_def)

lemma complete_expr_new [simp]:
  "complete_expr (ECall l nm es) = list_all complete_expr es"
  "complete_expr (EIndex l a b) = (complete_expr a \<and> (case b of None \<Rightarrow> False | Some c \<Rightarrow> complete_expr c))"
  by (auto simp: list_all_iff split: option.splits)

declare complete_expr.simps(2,5) [simp del]

lemma literal_complete: "literal_value t t2 loc st = Some (e, k) \<Longrightarrow> complete_expr e"
  by (auto simp: literal_value_def split: if_splits)

text \<open>The branches of an iteration, one equation each.\<close>

definition op_pos :: "TokenStream \<Rightarrow> ParseContext \<Rightarrow> ExprState \<Rightarrow> ExprState \<Rightarrow> bool" where
  "op_pos ts ctx st0 st \<longleftrightarrow> read_values ts (head ctx) st0 = Some st \<and> is_operator st"

definition val_pos :: "TokenStream \<Rightarrow> ParseContext \<Rightarrow> ExprState \<Rightarrow> ExprState \<Rightarrow> bool" where
  "val_pos ts ctx st0 st \<longleftrightarrow> read_values ts (head ctx) st0 = Some st \<and> \<not> is_operator st"

abbreviation infix_at :: "TokenStream \<Rightarrow> ParseContext \<Rightarrow> (ExprKind \<times> nat) option" where
  "infix_at ts ctx \<equiv> infix_operator (kind_at ts ctx 0) (kind_at ts ctx 1) (compact (gettok ts ctx 0))"

abbreviation prefix_at :: "TokenStream \<Rightarrow> ParseContext \<Rightarrow> (ExprKind \<times> nat) option" where
  "prefix_at ts ctx \<equiv> prefix_operator (kind_at ts ctx 0) (kind_at ts ctx 1) (compact (gettok ts ctx 0))"

lemma loop_infix:
  "op_pos ts ctx st0 st \<Longrightarrow> infix_at ts ctx = Some (op, k) \<Longrightarrow>
   (if op = POST_INCREMENT \<or> op = POST_DECREMENT
    then after_value (push_op op (head ctx) st) else after_operator (push_op op (head ctx) st)) = Some st' \<Longrightarrow>
   expr_loop (Suc n) junk ts st0 ctx = expr_loop n junk ts st' (advance k ctx)"
  by (simp add: op_pos_def Let_def)

lemma loop_dot_bad:
  "op_pos ts ctx st0 st \<Longrightarrow> infix_at ts ctx = None \<Longrightarrow> kind_at ts ctx 0 = TOKEN_CHR CHR ''.'' \<Longrightarrow>
   kind_at ts ctx 1 \<noteq> TOKEN_ID \<Longrightarrow> expr_loop (Suc n) junk ts st0 ctx = Some (None, report (advance 1 ctx))"
  by (simp add: op_pos_def Let_def)

lemma loop_dot:
  "op_pos ts ctx st0 st \<Longrightarrow> infix_at ts ctx = None \<Longrightarrow> kind_at ts ctx 0 = TOKEN_CHR CHR ''.'' \<Longrightarrow>
   kind_at ts ctx 1 = TOKEN_ID \<Longrightarrow> get_str ts (head ctx + 1) = Some nm \<Longrightarrow> expressions st = e # es \<Longrightarrow>
   after_value (st\<lparr>expressions := EMember (head ctx) e nm # es\<rparr>) = Some st' \<Longrightarrow>
   expr_loop (Suc n) junk ts st0 ctx = expr_loop n junk ts st' (advance 2 ctx)"
  by (simp add: op_pos_def Let_def)

lemma loop_index:
  "op_pos ts ctx st0 st \<Longrightarrow> infix_at ts ctx = None \<Longrightarrow> kind_at ts ctx 0 = TOKEN_CHR CHR ''['' \<Longrightarrow>
   expressions st = e # es \<Longrightarrow>
   expr_loop n junk ts (expr_init junk) (advance 1 ctx) = Some (right, ctx1) \<Longrightarrow>
   after_value (st\<lparr>expressions := EIndex (head ctx) e right # es\<rparr>) = Some st' \<Longrightarrow>
   expr_loop (Suc n) junk ts st0 ctx =
     (if kind_at ts ctx1 0 \<noteq> TOKEN_CHR CHR '']'' then Some (None, report ctx1)
      else expr_loop n junk ts st' (advance 1 ctx1))"
  by (simp add: op_pos_def Let_def)

lemma loop_end:
  "op_pos ts ctx st0 st \<Longrightarrow> infix_at ts ctx = None \<Longrightarrow> kind_at ts ctx 0 \<noteq> TOKEN_CHR CHR ''.'' \<Longrightarrow>
   kind_at ts ctx 0 \<noteq> TOKEN_CHR CHR ''['' \<Longrightarrow> reduce_all st = Some st' \<Longrightarrow> expressions st' = e # es \<Longrightarrow>
   expr_loop (Suc n) junk ts st0 ctx = Some (Some e, ctx)"
  by (simp add: op_pos_def Let_def)

lemma loop_prefix:
  "val_pos ts ctx st0 st \<Longrightarrow> prefix_at ts ctx = Some (op, k) \<Longrightarrow>
   expr_loop (Suc n) junk ts st0 ctx = expr_loop n junk ts (push_op op (head ctx) st) (advance k ctx)"
  by (simp add: val_pos_def Let_def)

lemma loop_cast:
  "val_pos ts ctx st0 st \<Longrightarrow> kind_at ts ctx 0 = TOKEN_CAST \<Longrightarrow>
   parseType ts (advance 1 ctx) = Some (ty, ctx1) \<Longrightarrow>
   expr_loop (Suc n) junk ts st0 ctx =
     expr_loop n junk ts ((push_op CAST (head ctx) st)\<lparr>cast_strings := ty # cast_strings st\<rparr>) ctx1"
  by (simp add: val_pos_def Let_def prefix_operator_def)

lemma loop_call:
  "val_pos ts ctx st0 st \<Longrightarrow> kind_at ts ctx 0 = TOKEN_ID \<Longrightarrow> kind_at ts ctx 1 = TOKEN_CHR CHR ''('' \<Longrightarrow>
   args_loop n junk ts [] (advance 2 ctx) = Some (args, ctx1) \<Longrightarrow>
   expr_loop (Suc n) junk ts st0 ctx =
     (case args of
        None \<Rightarrow> Some (None, ctx1)
      | Some es \<Rightarrow>
          do { st' \<leftarrow> after_value (push_expr (ECall (head ctx) (px_name st) es) st);
               expr_loop n junk ts st' ctx1 })"
  by (simp add: val_pos_def Let_def prefix_operator_def)

lemma loop_ident:
  "val_pos ts ctx st0 st \<Longrightarrow> kind_at ts ctx 0 = TOKEN_ID \<Longrightarrow> kind_at ts ctx 1 \<noteq> TOKEN_CHR CHR ''('' \<Longrightarrow>
   after_value (push_expr (EIdentifier (head ctx) (px_name st)) st) = Some st' \<Longrightarrow>
   expr_loop (Suc n) junk ts st0 ctx = expr_loop n junk ts st' (advance 1 ctx)"
  by (simp add: val_pos_def Let_def prefix_operator_def)

lemma loop_literal:
  "val_pos ts ctx st0 st \<Longrightarrow> prefix_at ts ctx = None \<Longrightarrow>
   literal_value (kind_at ts ctx 0) (kind_at ts ctx 1) (head ctx) st = Some (e, k) \<Longrightarrow>
   after_value (push_expr e st) = Some st' \<Longrightarrow>
   expr_loop (Suc n) junk ts st0 ctx = expr_loop n junk ts st' (advance k ctx)"
  by (auto simp: val_pos_def Let_def literal_value_def split: if_splits)

lemma loop_sizeof:
  "val_pos ts ctx st0 st \<Longrightarrow> kind_at ts ctx 0 = TOKEN_SIZEOF \<Longrightarrow>
   parseType ts (advance 1 ctx) = Some (ty, ctx1) \<Longrightarrow>
   after_value (push_expr (ESizeof (head ctx) ty) st) = Some st' \<Longrightarrow>
   expr_loop (Suc n) junk ts st0 ctx = expr_loop n junk ts st' ctx1"
  by (simp add: val_pos_def Let_def prefix_operator_def literal_value_def)

lemma loop_paren:
  "val_pos ts ctx st0 st \<Longrightarrow> kind_at ts ctx 0 = TOKEN_CHR CHR ''('' \<Longrightarrow>
   expr_loop n junk ts (expr_init junk) (advance 1 ctx) = Some (inner, ctx1) \<Longrightarrow>
   expr_loop (Suc n) junk ts st0 ctx =
     (case inner of
        None \<Rightarrow> Some (None, ctx1)
      | Some e \<Rightarrow>
          if kind_at ts ctx1 0 \<noteq> TOKEN_CHR CHR '')'' then Some (None, report ctx1)
          else do { st' \<leftarrow> after_value (push_expr e st); expr_loop n junk ts st' (advance 1 ctx1) })"
  by (simp add: val_pos_def Let_def prefix_operator_def literal_value_def)

lemma loop_bad:
  "val_pos ts ctx st0 st \<Longrightarrow> prefix_at ts ctx = None \<Longrightarrow> kind_at ts ctx 0 \<notin> {TOKEN_CAST, TOKEN_ID,
     TOKEN_SIZEOF, TOKEN_CHR CHR ''(''} \<Longrightarrow>
   literal_value (kind_at ts ctx 0) (kind_at ts ctx 1) (head ctx) st = None \<Longrightarrow>
   expr_loop (Suc n) junk ts st0 ctx = Some (None, report ctx)"
  by (simp add: val_pos_def Let_def)

declare expr_loop.simps(2) [simp del]

subsection \<open>Every expression ends\<close>

text \<open>What is known of the stacks, and what the later iterations promise.\<close>

definition good_state :: "nat \<Rightarrow> ParseContext \<Rightarrow> ExprState \<Rightarrow> bool" where
  "good_state E ctx st \<longleftrightarrow> expr_inv st \<and> (errors ctx = E \<longrightarrow> complete_stack st)"

definition loop_ok :: "TokenStream \<Rightarrow> f32 \<Rightarrow> nat \<Rightarrow> nat \<Rightarrow> ParseContext \<Rightarrow> bool" where
  "loop_ok ts junk n E ctx \<longleftrightarrow>
    (\<forall>st' ctx1. good_state E ctx1 st' \<and> ctx_step ctx ctx1 \<and> head ctx < head ctx1
      \<and> kind_at ts ctx 0 \<noteq> TOKEN_EOF \<longrightarrow>
      parse_post complete_expr E (\<not> is_operator st') ctx1 (expr_loop n junk ts st' ctx1))"

definition args_ok :: "TokenStream \<Rightarrow> f32 \<Rightarrow> nat \<Rightarrow> nat \<Rightarrow> ParseContext \<Rightarrow> bool" where
  "args_ok ts junk n E ctx \<longleftrightarrow>
    (\<forall>ctx1. ctx_step ctx ctx1 \<and> Suc (head ctx) < head ctx1 \<and> kind_at ts ctx 0 \<noteq> TOKEN_EOF \<longrightarrow>
      parse_post (list_all complete_expr) E True ctx1 (args_loop n junk ts [] ctx1))"

lemma loop_okD:
  "loop_ok ts junk n E ctx \<Longrightarrow> good_state E ctx1 st' \<Longrightarrow> ctx_step ctx ctx1 \<Longrightarrow> head ctx < head ctx1 \<Longrightarrow>
   kind_at ts ctx 0 \<noteq> TOKEN_EOF \<Longrightarrow> parse_post complete_expr E b ctx (expr_loop n junk ts st' ctx1)"
  by (rule parse_post_trans [of _ _ "\<not> is_operator st'"]) (simp_all add: loop_ok_def)

lemma same_errors: "errors ctx1 = E \<Longrightarrow> ctx_step ctx ctx1 \<Longrightarrow> E \<le> errors ctx \<Longrightarrow> errors ctx = E"
  by (simp add: ctx_step_def)

lemma good_value:
  assumes "good_state E ctx st" and "\<not> is_operator st" and "ctx_step ctx ctx1" and "E \<le> errors ctx"
    and "errors ctx1 = E \<longrightarrow> complete_expr x"
  shows "\<exists>st'. after_value (push_expr x st) = Some st' \<and> good_state E ctx1 st'"
  using after_value_push [of st x] after_complete(1) [of "push_expr x st"] assms same_errors [OF _ assms(3,4)]
  by (auto simp: good_state_def)

lemma good_top:
  assumes "good_state E ctx st" and "is_operator st" and "ctx_step ctx ctx1" and "E \<le> errors ctx"
    and "expressions st = e # es" and "errors ctx1 = E \<and> complete_expr e \<longrightarrow> complete_expr x"
  shows "\<exists>st'. after_value (st\<lparr>expressions := x # es\<rparr>) = Some st' \<and> good_state E ctx1 st'"
proof -
  obtain st' where st': "after_value (st\<lparr>expressions := x # es\<rparr>) = Some st'" "expr_inv st'"
    using after_value_top [of st e es x] assms by (auto simp: good_state_def)
  have "complete_stack st'" if "errors ctx1 = E"
  proof (rule after_complete(1) [OF st'(1)])
    show "complete_stack (st\<lparr>expressions := x # es\<rparr>)"
      using that same_errors [OF that assms(3,4)] assms by (auto simp: good_state_def complete_stack_def)
  qed
  with st' show ?thesis by (auto simp: good_state_def)
qed

lemma op_pos_top:
  assumes "good_state E ctx st" and "is_operator st"
  shows "\<exists>e es. expressions st = e # es \<and> (errors ctx = E \<longrightarrow> complete_expr e)"
  using assms by (cases "expressions st")
    (auto simp: good_state_def expr_inv_def stacks_ok_def complete_stack_def)

lemma post_infix:
  assumes op: "op_pos ts ctx st0 st" "infix_at ts ctx = Some (op, k)"
    and st: "good_state E ctx st" and ok: "loop_ok ts junk n E ctx"
  shows "parse_post complete_expr E b ctx (expr_loop (Suc n) junk ts st0 ctx)"
proof -
  note kinds = infix_kinds [OF op(2)]
  have isop: "is_operator st" using op by (simp add: op_pos_def)
  obtain st' where st': "(if op = POST_INCREMENT \<or> op = POST_DECREMENT
      then after_value (push_op op (head ctx) st) else after_operator (push_op op (head ctx) st)) = Some st'"
    "expr_inv st'"
    using after_value_postfix [of st op "head ctx"] after_operator_push [of st op "head ctx"] kinds isop st
    by (cases "op = POST_INCREMENT \<or> op = POST_DECREMENT") (auto simp: good_state_def)
  have "good_state E (advance k ctx) st'"
    using st' st after_complete [of "push_op op (head ctx) st" st'] by (auto simp: good_state_def split: if_splits)
  then show ?thesis
    unfolding loop_infix [OF op st'(1)] using kinds ok by (intro loop_okD) auto
qed

lemma post_dot:
  assumes ts: "wf_stream ts" and op: "op_pos ts ctx st0 st" "infix_at ts ctx = None" "kind_at ts ctx 0 = TOKEN_CHR CHR ''.''"
    and st: "good_state E ctx st" and ok: "loop_ok ts junk n E ctx" and E: "E \<le> errors ctx"
  shows "parse_post complete_expr E b ctx (expr_loop (Suc n) junk ts st0 ctx)"
proof (cases "kind_at ts ctx 1 = TOKEN_ID")
  case True
  then obtain nm where nm: "get_str ts (head ctx + 1) = Some nm"
    using readable_str [OF ts, of "head ctx + 1"] by (auto simp: gettok_def str_kinds_def)
  have isop: "is_operator st" using op by (simp add: op_pos_def)
  obtain e es where e: "expressions st = e # es" using op_pos_top [OF st isop] by blast
  obtain st' where st': "after_value (st\<lparr>expressions := EMember (head ctx) e nm # es\<rparr>) = Some st'"
    "good_state E (advance 2 ctx) st'"
    using good_top [OF st isop, of "advance 2 ctx" e es "EMember (head ctx) e nm"] e E by auto
  then show ?thesis
    unfolding loop_dot [OF op True nm e st'(1)] using op(3) ok by (intro loop_okD) auto
next
  case False
  then show ?thesis
    unfolding loop_dot_bad [OF op False] by (simp add: parse_post_report)
qed

lemma post_index:
  assumes op: "op_pos ts ctx st0 st" "infix_at ts ctx = None" "kind_at ts ctx 0 = TOKEN_CHR CHR ''[''"
    and st: "good_state E ctx st" and ok: "loop_ok ts junk n E ctx" and E: "E \<le> errors ctx"
  shows "parse_post complete_expr E b ctx (expr_loop (Suc n) junk ts st0 ctx)"
proof -
  have isop: "is_operator st" using op by (simp add: op_pos_def)
  obtain e es where e: "expressions st = e # es" using op_pos_top [OF st isop] by blast
  have "parse_post complete_expr E True ctx (expr_loop n junk ts (expr_init junk) (advance 1 ctx))"
    using op(3) by (intro loop_okD [OF ok]) (auto simp: good_state_def expr_inv_init)
  then obtain right ctx1 where r: "expr_loop n junk ts (expr_init junk) (advance 1 ctx) = Some (right, ctx1)"
    "ctx_step ctx ctx1" "right = None \<longrightarrow> errors ctx < errors ctx1" "right \<noteq> None \<longrightarrow> head ctx < head ctx1"
    "\<forall>x. right = Some x \<and> errors ctx1 = E \<longrightarrow> complete_expr x"
    by (auto simp: parse_post_def)
  have "errors (advance 1 ctx1) = E \<and> complete_expr e \<longrightarrow> complete_expr (EIndex (head ctx) e right)"
    using r(3,5) E by (cases right) auto
  then obtain st' where st': "after_value (st\<lparr>expressions := EIndex (head ctx) e right # es\<rparr>) = Some st'"
    "good_state E (advance 1 ctx1) st'"
    using good_top [OF st isop ctx_step_trans [OF r(2) ctx_step_advance [of ctx1 1]] E e] by blast
  have "parse_post complete_expr E b ctx (expr_loop n junk ts st' (advance 1 ctx1))"
    using st' op(3) r(2) ok by (intro loop_okD) (auto intro: ctx_step_trans simp: ctx_step_def)
  then show ?thesis
    unfolding loop_index [OF op e r(1) st'(1)] using r(2) by (simp add: parse_post_report)
qed

lemma post_end:
  assumes op: "op_pos ts ctx st0 st" "infix_at ts ctx = None" "kind_at ts ctx 0 \<noteq> TOKEN_CHR CHR ''.''"
      "kind_at ts ctx 0 \<noteq> TOKEN_CHR CHR ''[''"
    and st: "good_state E ctx st"
  shows "parse_post complete_expr E False ctx (expr_loop (Suc n) junk ts st0 ctx)"
proof -
  have isop: "is_operator st" using op by (simp add: op_pos_def)
  obtain e where e: "reduce_all st = Some (st\<lparr>operations := [], expressions := [e], saved_locations := []\<rparr>)"
    using reduce_all_end [OF _ isop] st by (auto simp: good_state_def)
  have "errors ctx = E \<longrightarrow> complete_expr e"
    using reduce_all_complete [OF e] st by (auto simp: complete_stack_def good_state_def)
  then show ?thesis
    using loop_end [OF op e, of e "[]" n junk] by (simp add: parse_post_def)
qed

lemma post_value:
  assumes st: "good_state E ctx st" "\<not> is_operator st" and ok: "loop_ok ts junk n E ctx" and E: "E \<le> errors ctx"
    and c: "ctx_step ctx ctx1" "head ctx < head ctx1" "kind_at ts ctx 0 \<noteq> TOKEN_EOF"
    and x: "errors ctx1 = E \<longrightarrow> complete_expr x"
  shows "\<exists>st'. after_value (push_expr x st) = Some st' \<and>
    parse_post complete_expr E b ctx (expr_loop n junk ts st' ctx1)"
  using good_value [OF st c(1) E x] loop_okD [OF ok _ c] by blast

lemma post_cast:
  assumes ts: "wf_stream ts" and v: "val_pos ts ctx st0 st" "kind_at ts ctx 0 = TOKEN_CAST"
    and st: "good_state E ctx st" and ok: "loop_ok ts junk n E ctx"
  shows "parse_post complete_expr E b ctx (expr_loop (Suc n) junk ts st0 ctx)"
proof -
  obtain ty ctx1 where ty: "parseType ts (advance 1 ctx) = Some (ty, ctx1)"
    "ctx_step (advance 1 ctx) ctx1" "errors ctx1 = errors ctx"
    using parseType_total [OF ts, of "advance 1 ctx"] by auto
  show ?thesis
    unfolding loop_cast [OF v ty(1)] using v st ty(2,3) push_cast [of st]
    by (intro loop_okD [OF ok]) (auto simp: good_state_def val_pos_def ctx_step_def)
qed

lemma post_sizeof:
  assumes ts: "wf_stream ts" and v: "val_pos ts ctx st0 st" "kind_at ts ctx 0 = TOKEN_SIZEOF"
    and st: "good_state E ctx st" and ok: "loop_ok ts junk n E ctx" and E: "E \<le> errors ctx"
  shows "parse_post complete_expr E b ctx (expr_loop (Suc n) junk ts st0 ctx)"
proof -
  obtain ty ctx1 where ty: "parseType ts (advance 1 ctx) = Some (ty, ctx1)" "ctx_step (advance 1 ctx) ctx1"
    using parseType_total [OF ts, of "advance 1 ctx"] by auto
  then have c: "ctx_step ctx ctx1" "head ctx < head ctx1" by (auto simp: ctx_step_def)
  obtain st' where "after_value (push_expr (ESizeof (head ctx) ty) st) = Some st'"
    "parse_post complete_expr E b ctx (expr_loop n junk ts st' ctx1)"
    using post_value [OF st _ ok E c, of "ESizeof (head ctx) ty" b] v by (auto simp: val_pos_def)
  then show ?thesis
    using loop_sizeof [OF v ty(1)] by simp
qed

lemma post_ident:
  assumes v: "val_pos ts ctx st0 st" "kind_at ts ctx 0 = TOKEN_ID"
    and st: "good_state E ctx st" and ok: "loop_ok ts junk n E ctx" "args_ok ts junk n E ctx"
    and E: "E \<le> errors ctx"
  shows "parse_post complete_expr E b ctx (expr_loop (Suc n) junk ts st0 ctx)"
proof (cases "kind_at ts ctx 1 = TOKEN_CHR CHR ''(''")
  case False
  obtain st' where "after_value (push_expr (EIdentifier (head ctx) (px_name st)) st) = Some st'"
    "parse_post complete_expr E b ctx (expr_loop n junk ts st' (advance 1 ctx))"
    using post_value [OF st _ ok(1) E, of "advance 1 ctx" "EIdentifier (head ctx) (px_name st)" b] v
    by (auto simp: val_pos_def)
  then show ?thesis
    using loop_ident [OF v False] by simp
next
  case True
  have "parse_post (list_all complete_expr) E True (advance 2 ctx) (args_loop n junk ts [] (advance 2 ctx))"
    using ok(2) v by (simp add: args_ok_def)
  then obtain xs ctx1 where a: "args_loop n junk ts [] (advance 2 ctx) = Some (xs, ctx1)"
    "ctx_step (advance 2 ctx) ctx1" "xs = None \<longrightarrow> errors ctx < errors ctx1"
    "\<forall>es. xs = Some es \<and> errors ctx1 = E \<longrightarrow> list_all complete_expr es"
    by (auto simp: parse_post_def)
  have c: "ctx_step ctx ctx1" "head ctx < head ctx1"
    using a(2) by (auto simp: ctx_step_def)
  show ?thesis
  proof (cases xs)
    case None
    then show ?thesis
      unfolding loop_call [OF v True a(1)] using a(3) c by (simp add: parse_post_null)
  next
    case (Some es)
    obtain st' where "after_value (push_expr (ECall (head ctx) (px_name st) es) st) = Some st'"
      "parse_post complete_expr E b ctx (expr_loop n junk ts st' ctx1)"
      using post_value [OF st _ ok(1) E c, of "ECall (head ctx) (px_name st) es" b] v a(4) Some
      by (auto simp: val_pos_def)
    then show ?thesis
      unfolding loop_call [OF v True a(1)] using Some by simp
  qed
qed

lemma post_literal:
  assumes v: "val_pos ts ctx st0 st" "prefix_at ts ctx = None"
    "literal_value (kind_at ts ctx 0) (kind_at ts ctx 1) (head ctx) st = Some (e, k)"
    and st: "good_state E ctx st" and ok: "loop_ok ts junk n E ctx" and E: "E \<le> errors ctx"
  shows "parse_post complete_expr E b ctx (expr_loop (Suc n) junk ts st0 ctx)"
proof -
  obtain st' where "after_value (push_expr e st) = Some st'"
    "parse_post complete_expr E b ctx (expr_loop n junk ts st' (advance k ctx))"
    using post_value [OF st _ ok E, of "advance k ctx" e b] v literal_kinds [OF v(3)] literal_complete [OF v(3)]
    by (auto simp: val_pos_def)
  then show ?thesis
    using loop_literal [OF v] by simp
qed

lemma post_paren:
  assumes v: "val_pos ts ctx st0 st" "kind_at ts ctx 0 = TOKEN_CHR CHR ''(''"
    and st: "good_state E ctx st" and ok: "loop_ok ts junk n E ctx" and E: "E \<le> errors ctx"
  shows "parse_post complete_expr E b ctx (expr_loop (Suc n) junk ts st0 ctx)"
proof -
  have "parse_post complete_expr E True (advance 1 ctx) (expr_loop n junk ts (expr_init junk) (advance 1 ctx))"
    using ok v(2) expr_inv_init [of junk] unfolding loop_ok_def
    by (auto simp: good_state_def dest!: spec [of _ "expr_init junk"] spec [of _ "advance 1 ctx"])
  then obtain inner ctx1 where r: "expr_loop n junk ts (expr_init junk) (advance 1 ctx) = Some (inner, ctx1)"
    "ctx_step (advance 1 ctx) ctx1" "inner = None \<longrightarrow> errors ctx < errors ctx1"
    "\<forall>x. inner = Some x \<and> errors ctx1 = E \<longrightarrow> complete_expr x"
    by (auto simp: parse_post_def)
  then have c: "ctx_step ctx ctx1" "ctx_step ctx (advance 1 ctx1)" "head ctx < head (advance 1 ctx1)"
    by (auto simp: ctx_step_def)
  show ?thesis
  proof (cases inner)
    case None
    then show ?thesis
      unfolding loop_paren [OF v r(1)] using r(3) c by (simp add: parse_post_null)
  next
    case (Some x)
    obtain st' where "after_value (push_expr x st) = Some st'"
      "parse_post complete_expr E b ctx (expr_loop n junk ts st' (advance 1 ctx1))"
      using post_value [OF st _ ok E c(2,3), of x b] v r(4) Some by (auto simp: val_pos_def)
    then show ?thesis
      unfolding loop_paren [OF v r(1)] using Some c(1) by (simp add: parse_post_report)
  qed
qed

lemma expr_step:
  assumes ts: "wf_stream ts" and ok: "loop_ok ts junk n E ctx" "args_ok ts junk n E ctx"
    and inv: "good_state E ctx st0" and E: "E \<le> errors ctx"
  shows "parse_post complete_expr E (\<not> is_operator st0) ctx (expr_loop (Suc n) junk ts st0 ctx)"
proof -
  obtain st where rv: "read_values ts (head ctx) st0 = Some st" and st: "good_state E ctx st"
    "is_operator st = is_operator st0"
    using readable_values [OF ts, of "head ctx" st0] inv by (auto simp: good_state_def)
  show ?thesis
  proof (cases "is_operator st")
    case True
    then have op: "op_pos ts ctx st0 st" using rv by (simp add: op_pos_def)
    show ?thesis
    proof (cases "infix_at ts ctx")
      case None
      show ?thesis
        using post_dot [OF ts op None _ st(1) ok(1) E] post_index [OF op None _ st(1) ok(1) E]
          post_end [OF op None _ _ st(1)] True st(2)
        by (cases "kind_at ts ctx 0 = TOKEN_CHR CHR ''.''"; cases "kind_at ts ctx 0 = TOKEN_CHR CHR ''[''") simp_all
    next
      case (Some a)
      then show ?thesis
        using post_infix [OF op _ st(1) ok(1)] by (cases a) auto
    qed
  next
    case False
    then have v: "val_pos ts ctx st0 st" using rv by (simp add: val_pos_def)
    consider (prefix) op k where "prefix_at ts ctx = Some (op, k)"
      | (cast) "kind_at ts ctx 0 = TOKEN_CAST" | (id) "kind_at ts ctx 0 = TOKEN_ID"
      | (sizeof) "kind_at ts ctx 0 = TOKEN_SIZEOF" | (paren) "kind_at ts ctx 0 = TOKEN_CHR CHR ''(''"
      | (lit) e k where "prefix_at ts ctx = None"
          "literal_value (kind_at ts ctx 0) (kind_at ts ctx 1) (head ctx) st = Some (e, k)"
      | (bad) "prefix_at ts ctx = None"
          "kind_at ts ctx 0 \<notin> {TOKEN_CAST, TOKEN_ID, TOKEN_SIZEOF, TOKEN_CHR CHR ''(''}"
          "literal_value (kind_at ts ctx 0) (kind_at ts ctx 1) (head ctx) st = None"
      by (metis empty_iff insert_iff not_None_eq surj_pair)
    then show ?thesis
    proof cases
      case prefix
      have "good_state E (advance k ctx) (push_op op (head ctx) st)"
        using st push_prefix [of st op] False prefix_kinds [OF prefix] by (auto simp: good_state_def)
      then show ?thesis
        unfolding loop_prefix [OF v prefix] using prefix_kinds [OF prefix] by (intro loop_okD [OF ok(1)]) auto
    next
      case cast
      show ?thesis by (rule post_cast [OF ts v cast st(1) ok(1)])
    next
      case id
      show ?thesis by (rule post_ident [OF v id st(1) ok E])
    next
      case sizeof
      show ?thesis by (rule post_sizeof [OF ts v sizeof st(1) ok(1) E])
    next
      case paren
      show ?thesis by (rule post_paren [OF v paren st(1) ok(1) E])
    next
      case lit
      show ?thesis by (rule post_literal [OF v lit st(1) ok(1) E])
    next
      case bad
      show ?thesis by (simp add: loop_bad [OF v bad] parse_post_report)
    qed
  qed
qed

lemma args_step:
  assumes loop: "\<And>ctx1. ctx_step ctx ctx1 \<Longrightarrow> kind_at ts ctx 0 \<noteq> TOKEN_EOF \<Longrightarrow>
      parse_post complete_expr E True ctx1 (expr_loop n junk ts (expr_init junk) ctx1)"
    and args: "\<And>ctx1 es. errors ctx1 = E \<longrightarrow> list_all complete_expr es \<Longrightarrow> ctx_step ctx ctx1 \<Longrightarrow>
      head ctx < head ctx1 \<Longrightarrow> kind_at ts ctx 0 \<noteq> TOKEN_EOF \<Longrightarrow>
      parse_post (list_all complete_expr) E True ctx1 (args_loop n junk ts es ctx1)"
    and es: "errors ctx = E \<longrightarrow> list_all complete_expr es" and E: "E \<le> errors ctx"
  shows "parse_post (list_all complete_expr) E True ctx (args_loop (Suc n) junk ts es ctx)"
proof (cases "kind_at ts ctx 0 = TOKEN_EOF \<or> kind_at ts ctx 0 = TOKEN_CHR CHR '')''")
  case True
  then show ?thesis
    using es by (elim disjE) (simp_all add: parse_post_report, simp add: parse_post_def)
next
  case False
  then have "parse_post complete_expr E True ctx (expr_loop n junk ts (expr_init junk) ctx)"
    by (intro loop) auto
  then obtain arg ctx1 where r: "expr_loop n junk ts (expr_init junk) ctx = Some (arg, ctx1)"
    "ctx_step ctx ctx1" "arg = None \<longrightarrow> errors ctx < errors ctx1" "arg \<noteq> None \<longrightarrow> head ctx < head ctx1"
    "\<forall>x. arg = Some x \<and> errors ctx1 = E \<longrightarrow> complete_expr x"
    by (auto simp: parse_post_def)
  show ?thesis
  proof (cases arg)
    case None
    then show ?thesis
      using False r by (simp add: parse_post_null)
  next
    case (Some e)
    have es': "errors ctx1 = E \<longrightarrow> list_all complete_expr (es @ [e])"
      using r(5) Some es same_errors [OF _ r(2) E] by auto
    have "parse_post (list_all complete_expr) E True ctx (args_loop n junk ts (es @ [e]) ctx2)"
      if "ctx2 = ctx1 \<or> ctx2 = advance 1 ctx1" for ctx2
    proof (rule parse_post_trans)
      show "parse_post (list_all complete_expr) E True ctx2 (args_loop n junk ts (es @ [e]) ctx2)"
        using that es' r(2,4) Some False by (intro args) (auto simp: ctx_step_def)
    qed (use that r(2,4) Some in \<open>auto simp: ctx_step_def\<close>)
    then show ?thesis
      using False r(1,2) Some by (auto simp: parse_post_report)
  qed
qed

lemma expr_args_total:
  assumes ts: "wf_stream ts"
  shows "(length (tokens ts) - head ctx + 1 \<le> n \<longrightarrow> good_state E ctx st \<longrightarrow> E \<le> errors ctx \<longrightarrow>
      parse_post complete_expr E (\<not> is_operator st) ctx (expr_loop n junk ts st ctx))
    \<and> (1 \<le> n \<and> (head ctx < length (tokens ts) \<longrightarrow> length (tokens ts) - head ctx + 2 \<le> n) \<longrightarrow>
      (errors ctx = E \<longrightarrow> list_all complete_expr es) \<longrightarrow> E \<le> errors ctx \<longrightarrow>
      parse_post (list_all complete_expr) E True ctx (args_loop n junk ts es ctx))"
proof (induction n arbitrary: ctx st es)
  case (Suc n)
  have less: "head ctx < length (tokens ts)" if "kind_at ts ctx 0 \<noteq> TOKEN_EOF"
    using kind_less [OF that] by simp
  have mono: "E \<le> errors ctx1" if "E \<le> errors ctx" "ctx_step ctx ctx1" for ctx1
    using that by (simp add: ctx_step_def)
  have loop: "loop_ok ts junk n E ctx" if "length (tokens ts) - head ctx + 1 \<le> Suc n" "E \<le> errors ctx"
    unfolding loop_ok_def
  proof (intro allI impI)
    fix st' ctx1
    assume a: "good_state E ctx1 st' \<and> ctx_step ctx ctx1 \<and> head ctx < head ctx1
      \<and> kind_at ts ctx 0 \<noteq> TOKEN_EOF"
    then have "length (tokens ts) - head ctx1 + 1 \<le> n" using less that(1) by linarith
    with a Suc.IH [of ctx1 st'] mono [OF that(2)]
    show "parse_post complete_expr E (\<not> is_operator st') ctx1 (expr_loop n junk ts st' ctx1)" by blast
  qed
  have args: "args_ok ts junk n E ctx" if "length (tokens ts) - head ctx + 1 \<le> Suc n" "E \<le> errors ctx"
    unfolding args_ok_def
  proof (intro allI impI)
    fix ctx1
    assume a: "ctx_step ctx ctx1 \<and> Suc (head ctx) < head ctx1 \<and> kind_at ts ctx 0 \<noteq> TOKEN_EOF"
    then have "1 \<le> n \<and> (head ctx1 < length (tokens ts) \<longrightarrow> length (tokens ts) - head ctx1 + 2 \<le> n)"
      using less that(1) by linarith
    then show "parse_post (list_all complete_expr) E True ctx1 (args_loop n junk ts [] ctx1)"
      using a Suc.IH [of ctx1 undefined "[]"] mono [OF that(2)] by simp
  qed
  have expr: "parse_post complete_expr E (\<not> is_operator st) ctx (expr_loop (Suc n) junk ts st ctx)"
    if "length (tokens ts) - head ctx + 1 \<le> Suc n" "good_state E ctx st" "E \<le> errors ctx"
    by (rule expr_step [OF ts loop [OF that(1,3)] args [OF that(1,3)] that(2,3)])
  have list: "parse_post (list_all complete_expr) E True ctx (args_loop (Suc n) junk ts es ctx)"
    if len: "head ctx < length (tokens ts) \<longrightarrow> length (tokens ts) - head ctx + 2 \<le> Suc n"
      and es: "errors ctx = E \<longrightarrow> list_all complete_expr es" and E: "E \<le> errors ctx"
  proof (rule args_step [OF _ _ es E])
    fix ctx1 assume c: "ctx_step ctx ctx1" and k: "kind_at ts ctx 0 \<noteq> TOKEN_EOF"
    then have "length (tokens ts) - head ctx1 + 1 \<le> n" using less [OF k] len unfolding ctx_step_def by linarith
    then show "parse_post complete_expr E True ctx1 (expr_loop n junk ts (expr_init junk) ctx1)"
      using Suc.IH [of ctx1 "expr_init junk" "[]"] expr_inv_init [of junk] mono [OF E c] by (simp add: good_state_def)
  next
    fix ctx1 es1
    assume e: "errors ctx1 = E \<longrightarrow> list_all complete_expr es1" and c: "ctx_step ctx ctx1" "head ctx < head ctx1"
      and k: "kind_at ts ctx 0 \<noteq> TOKEN_EOF"
    then have "1 \<le> n \<and> (head ctx1 < length (tokens ts) \<longrightarrow> length (tokens ts) - head ctx1 + 2 \<le> n)"
      using less [OF k] len by linarith
    then show "parse_post (list_all complete_expr) E True ctx1 (args_loop n junk ts es1 ctx1)"
      using Suc.IH [of ctx1 undefined es1] e mono [OF E c(1)] by simp
  qed
  show ?case using expr list by blast
qed simp

section \<open>Statements, functions and files\<close>

text \<open>
  What a tree must have to be used by the generator: complete expressions, and bodies whose
  scope is one of the \<open>n\<close> scopes of the tables.
\<close>

primrec good_stmt :: "nat \<Rightarrow> ASTStatement \<Rightarrow> bool" and good_body :: "nat \<Rightarrow> ASTBody \<Rightarrow> bool" where
  "good_stmt n (SVarDecl l nm ty e) = pred_option complete_expr e"
| "good_stmt n (SGlobalDecl l nm ty) = True"
| "good_stmt n (SConstDecl l nm ty e) = pred_option complete_expr e"
| "good_stmt n (SExpression l e) = complete_expr e"
| "good_stmt n (SIf l e b b') = (complete_expr e \<and> good_body n b \<and> pred_option id (map_option (good_body n) b'))"
| "good_stmt n (SWhile l e b) = (complete_expr e \<and> good_body n b)"
| "good_stmt n (SBreak l) = True"
| "good_stmt n (SContinue l) = True"
| "good_stmt n (SReturn l e) = pred_option complete_expr e"
| "good_body n (ASTBody s stmts) = (s < n \<and> list_all id (map (good_stmt n) stmts))"

lemma good_mono:
  "good_stmt n s \<Longrightarrow> n \<le> m \<Longrightarrow> good_stmt m s"
  "good_body n b \<Longrightarrow> n \<le> m \<Longrightarrow> good_body m b"
proof (induction s and b)
  case (SIf l e b b')
  then show ?case by (cases b') auto
qed (auto simp: list_all_iff)

lemma good_new [simp]:
  "good_stmt n (SIf l e b b') \<longleftrightarrow> complete_expr e \<and> good_body n b \<and> pred_option (good_body n) b'"
  "good_body n (ASTBody s stmts) \<longleftrightarrow> s < n \<and> list_all (good_stmt n) stmts"
  by (cases b') (simp_all add: list_all_iff)

declare good_stmt.simps(5) [simp del] good_body.simps [simp del]

lemma good_set_location [simp]: "good_stmt n (set_location l s) = good_stmt n s"
  by (cases s) simp_all

text \<open>
  The scopes there are and the tokens left: a body takes a token for its scope, so that their
  sum never grows while the parser succeeds.
\<close>

definition room :: "TokenStream \<Rightarrow> ParseContext \<Rightarrow> nat" where
  "room ts ctx = length (scopes (ast ctx)) + (length (tokens ts) - head ctx)"

definition wf_ctx :: "ParseContext \<Rightarrow> bool" where
  "wf_ctx ctx \<longleftrightarrow> wf_scopes (ast ctx) \<and> current_scopeId ctx < length (scopes (ast ctx))"

definition scope_count :: "ParseContext \<Rightarrow> nat" where
  "scope_count ctx = length (scopes (ast ctx))"

definition ctx_le :: "TokenStream \<Rightarrow> nat \<Rightarrow> ParseContext \<Rightarrow> ParseContext \<Rightarrow> bool" where
  "ctx_le ts k c c' \<longleftrightarrow>
    head c \<le> head c' \<and> errors c \<le> errors c' \<and> current_scopeId c' = current_scopeId c
    \<and> room ts c' \<le> room ts c + k \<and> scope_count c \<le> scope_count c'
    \<and> ast_functions (ast c') = ast_functions (ast c)
    \<and> (wf_ctx c \<longrightarrow> wf_ctx c')"

definition stmt_post ::
  "(nat \<Rightarrow> 'a \<Rightarrow> bool) \<Rightarrow> nat \<Rightarrow> TokenStream \<Rightarrow> ParseContext \<Rightarrow> ('a option \<times> ParseContext) option \<Rightarrow> bool"
where
  "stmt_post good E ts ctx r \<longleftrightarrow>
    (\<exists>x c'. r = Some (x, c') \<and> ctx_le ts (if x = None then 1 else 0) ctx c'
      \<and> (x = None \<longrightarrow> errors ctx < errors c')
      \<and> (x \<noteq> None \<longrightarrow> head ctx < head c')
      \<and> (\<forall>e. x = Some e \<and> errors c' = E \<longrightarrow> good (scope_count c') e))"

lemma ctx_le_trans: "ctx_le ts j a b \<Longrightarrow> ctx_le ts k b c \<Longrightarrow> j + k \<le> m \<Longrightarrow> ctx_le ts m a c"
  by (auto simp: ctx_le_def)

lemma ctx_le_refl [simp]: "ctx_le ts k c c"
  by (simp add: ctx_le_def)

lemma ctx_le_step:
  assumes "ctx_step c c'"
  shows "ctx_le ts k c c'"
proof -
  have "length (tokens ts) - head c' \<le> length (tokens ts) - head c"
    using assms by (simp add: ctx_step_def diff_le_mono2)
  with assms show ?thesis
    by (auto simp: ctx_step_def ctx_le_def room_def wf_ctx_def scope_count_def)
qed

lemma ctx_le_trans0: "ctx_le ts 0 a b \<Longrightarrow> ctx_le ts k b c \<Longrightarrow> ctx_le ts k a c"
  by (erule (1) ctx_le_trans) simp

lemma ctx_le_weak: "ctx_le ts 0 a b \<Longrightarrow> ctx_le ts k a b"
  by (erule ctx_le_trans [OF _ ctx_le_refl [of ts 0]]) simp

lemma ctx_leD:
  "ctx_le ts k c c' \<Longrightarrow> head c \<le> head c'" "ctx_le ts k c c' \<Longrightarrow> errors c \<le> errors c'"
  "ctx_le ts k c c' \<Longrightarrow> current_scopeId c' = current_scopeId c"
  by (simp_all add: ctx_le_def)

lemma ctx_le_advance: "ctx_le ts k c c' \<Longrightarrow> ctx_le ts k c (advance j c')"
  by (auto simp: ctx_le_def room_def wf_ctx_def scope_count_def)

lemma stmt_post_trans:
  assumes "stmt_post good E ts c r" and "ctx_le ts 0 c0 c"
  shows "stmt_post good E ts c0 r"
proof -
  obtain x c' where r: "r = Some (x, c')" "ctx_le ts (if x = None then 1 else 0) c c'"
    "x = None \<longrightarrow> errors c < errors c'" "x \<noteq> None \<longrightarrow> head c < head c'"
    "\<forall>e. x = Some e \<and> errors c' = E \<longrightarrow> good (scope_count c') e"
    using assms(1) by (auto simp only: stmt_post_def)
  show ?thesis
    unfolding stmt_post_def
    using r ctx_le_trans0 [OF assms(2) r(2)] ctx_leD(1,2) [OF assms(2)]
    by (intro exI [of _ x] exI [of _ c']) auto
qed

lemma stmt_post_report:
  "ctx_le ts 1 c0 c \<Longrightarrow> stmt_post good E ts c0 (Some (None, report c))"
  by (auto simp: stmt_post_def ctx_le_def room_def wf_ctx_def scope_count_def)

lemma stmt_post_null:
  "ctx_le ts 1 c0 c \<Longrightarrow> errors c0 < errors c \<Longrightarrow> stmt_post good E ts c0 (Some (None, c))"
  by (simp add: stmt_post_def)

lemma stmt_post_some:
  "ctx_le ts 0 c0 c \<Longrightarrow> head c0 < head c \<Longrightarrow> (errors c = E \<Longrightarrow> good (scope_count c) x) \<Longrightarrow>
   stmt_post good E ts c0 (Some (Some x, c))"
  by (simp add: stmt_post_def)

lemma stmt_postE:
  assumes "stmt_post good E ts c r"
  obtains (null) c' where "r = Some (None, c')" "ctx_le ts 1 c c'" "errors c < errors c'"
  | (some) x c' where "r = Some (Some x, c')" "ctx_le ts 0 c c'" "head c < head c'"
      "errors c' = E \<Longrightarrow> good (scope_count c') x"
  using assms unfolding stmt_post_def by (metis (full_types) not_Some_eq)

text \<open>An expression as the part of a statement.\<close>

definition expr_fuel :: "TokenStream \<Rightarrow> nat \<Rightarrow> ParseContext \<Rightarrow> bool" where
  "expr_fuel ts n ctx \<longleftrightarrow> length (tokens ts) - head ctx + 1 \<le> n"

lemma parseExpression_post:
  assumes "wf_stream ts" and "expr_fuel ts n ctx" and "E \<le> errors ctx"
  shows "stmt_post (\<lambda>_. complete_expr) E ts ctx (parseExpression n junk ts ctx)"
proof -
  have "parse_post complete_expr E True ctx (expr_loop n junk ts (expr_init junk) ctx)"
    using expr_args_total [OF assms(1), of ctx n E "expr_init junk" junk] assms(2,3) expr_inv_init [of junk]
    by (simp add: good_state_def expr_fuel_def)
  then obtain x c' where r: "expr_loop n junk ts (expr_init junk) ctx = Some (x, c')" "ctx_step ctx c'"
    "x = None \<longrightarrow> errors ctx < errors c'" "x \<noteq> None \<longrightarrow> head ctx < head c'"
    "\<forall>e. x = Some e \<and> errors c' = E \<longrightarrow> complete_expr e"
    by (auto simp: parse_post_def)
  then show ?thesis
    unfolding stmt_post_def parseExpression_def
    by (intro exI [of _ x] exI [of _ c']) (simp add: ctx_le_step)
qed

lemma expr_fuel_le: "expr_fuel ts n c \<Longrightarrow> head c \<le> head c' \<Longrightarrow> expr_fuel ts n c'"
  by (auto simp: expr_fuel_def)

lemma semicolon_post:
  assumes "stmt_post good_stmt E ts c r"
  shows "\<exists>x. r = Some x \<and> stmt_post good_stmt E ts c (semicolon ts x)"
  using assms
proof (cases rule: stmt_postE)
  case null
  then show ?thesis by (auto simp: semicolon_def stmt_post_null)
next
  case (some x c')
  then show ?thesis
    using ctx_le_weak [OF some(2), of 1] ctx_le_advance [OF some(2), of 1]
    by (auto simp: semicolon_def scope_count_def intro!: stmt_post_report stmt_post_some)
qed

lemma good_make_declaration [simp]:
  "good_stmt n (make_declaration g c l nm ty e) = (if g then True else pred_option complete_expr e)"
  by (simp add: make_declaration_def)

lemma readable_name: "wf_stream ts \<Longrightarrow> \<exists>s. token_str ts i old = Some s"
  using readable_str [of ts i] by (auto simp: token_str_def str_kinds_def)

lemma parseDeclaration_post:
  assumes ts: "wf_stream ts" and fuel: "expr_fuel ts n ctx" and E: "E \<le> errors ctx"
  shows "stmt_post good_stmt E ts ctx (parseDeclaration n junk ts g c ctx)"
proof -
  obtain nm where nm: "token_str ts (head ctx) [] = Some nm" using readable_name [OF ts] by blast
  obtain ty c2 where ty: "parseType ts (advance 1 (advance 1 ctx)) = Some (ty, c2)"
    "ctx_step (advance 1 (advance 1 ctx)) c2" "errors c2 = errors ctx"
    using parseType_total [OF ts, of "advance 1 (advance 1 ctx)"] by auto
  have c2: "ctx_le ts 0 ctx c2" "head ctx < head c2"
    using ty(2) by (auto simp: ctx_step_def intro!: ctx_le_step)
  then have c2': "ctx_le ts 0 ctx (advance 1 c2)" by (simp add: ctx_le_advance)
  have fuel': "expr_fuel ts n (advance 1 c2)" using expr_fuel_le [OF fuel] c2 by simp
  have pe: "stmt_post (\<lambda>_. complete_expr) E ts (advance 1 c2) (parseExpression n junk ts (advance 1 c2))"
    using ty(3) E by (intro parseExpression_post [OF ts fuel']) simp
  have e: "stmt_post good_stmt E ts ctx
     (do { (e, ctx3) \<leftarrow> parseExpression n junk ts (advance 1 c2);
          (case e of None \<Rightarrow> Some (None, ctx3)
           | Some e' \<Rightarrow> Some (Some (make_declaration g c (head ctx) nm ty (Some e')), ctx3)) })"
    using pe
  proof (cases rule: stmt_postE)
    case (null c3)
    then show ?thesis using ctx_le_trans0 [OF c2' null(2)] ty(3) by (simp add: stmt_post_null)
  next
    case (some x c3)
    then show ?thesis using ctx_le_trans0 [OF c2' some(2)] c2(2) by (auto intro!: stmt_post_some)
  qed
  have r1: "stmt_post good_stmt E ts ctx (Some (None, report (advance 1 ctx)))"
    by (rule stmt_post_report [OF ctx_le_advance [OF ctx_le_refl]])
  have r2: "stmt_post good_stmt E ts ctx (Some (None, report c2))"
    by (rule stmt_post_report [OF ctx_le_weak [OF c2(1)]])
  have r3: "stmt_post good_stmt E ts ctx (Some (None, report (advance 1 c2)))"
    by (rule stmt_post_report [OF ctx_le_weak [OF c2']])
  have r4: "stmt_post good_stmt E ts ctx (Some (Some (make_declaration g c (head ctx) nm ty None), c2))"
    by (rule stmt_post_some [OF c2]) simp
  show ?thesis
    unfolding parseDeclaration_def nm Let_def bind.bind_lunit ty(1) prod.case
    using r1 r2 r3 r4 e by (simp only: split: if_split) simp
qed

lemma stmt_post_map:
  assumes "stmt_post good E ts c (Some r)" and "\<And>n x. good n x \<Longrightarrow> good' n (f x)"
  shows "stmt_post good' E ts c (case r of (s, c') \<Rightarrow> Some (map_option f s, c'))"
  using assms by (cases r) (auto simp: stmt_post_def)

lemma decl_post:
  assumes "stmt_post good_stmt E ts c r"
  shows "stmt_post good_stmt E ts c
     (do { x \<leftarrow> r; (s, c1) \<leftarrow> semicolon ts x; Some (map_option (set_location l) s, c1) })"
proof -
  obtain x where x: "r = Some x" "stmt_post good_stmt E ts c (semicolon ts x)"
    using semicolon_post [OF assms] by blast
  then obtain s where s: "semicolon ts x = Some s" by (auto simp: stmt_post_def)
  then show ?thesis
    using stmt_post_map [of good_stmt E ts c s good_stmt "set_location l"] x by simp
qed

lemma expr_stmt_post:
  assumes e: "stmt_post (\<lambda>_. complete_expr) E ts c r" and c: "ctx_le ts 0 c0 c"
    and f: "\<And>n x. complete_expr x \<Longrightarrow> good_stmt n (f x)"
  shows "stmt_post good_stmt E ts c0
     (do { (x, c1) \<leftarrow> r; (case x of None \<Rightarrow> Some (None, c1)
        | Some e' \<Rightarrow> semicolon ts (Some (f e'), c1)) })"
  using e
proof (cases rule: stmt_postE)
  case (null c')
  then show ?thesis
    using ctx_le_trans0 [OF c null(2)] ctx_leD(2) [OF c] by (simp add: stmt_post_null)
next
  case (some x c')
  have "stmt_post good_stmt E ts c0 (Some (Some (f x), c'))"
    using ctx_le_trans0 [OF c some(2)] ctx_leD(1) [OF c] some(3,4) f by (auto intro!: stmt_post_some)
  then show ?thesis
    using semicolon_post some(1) by fastforce
qed

lemma parse_simple_post:
  assumes ts: "wf_stream ts" and fuel: "expr_fuel ts n ctx" and E: "E \<le> errors ctx"
  shows "stmt_post good_stmt E ts ctx (parse_simple n junk ts ctx)"
proof -
  have a: "ctx_le ts 0 ctx (advance 1 ctx)" "expr_fuel ts n (advance 1 ctx)" "E \<le> errors (advance 1 ctx)"
    using E by (auto intro: ctx_le_advance expr_fuel_le [OF fuel])
  have bad: "stmt_post good_stmt E ts ctx (Some (None, report ctx))"
    by (rule stmt_post_report) simp
  have semi: "stmt_post good_stmt E ts ctx (semicolon ts (Some s, advance 1 ctx))" if "\<And>n. good_stmt n s" for s
  proof -
    have "stmt_post good_stmt E ts ctx (Some (Some s, advance 1 ctx))"
      using that a(1) by (intro stmt_post_some) simp_all
    then show ?thesis using semicolon_post by fastforce
  qed
  note decl = decl_post [OF stmt_post_trans [OF parseDeclaration_post [OF ts a(2,3)] a(1)]]
    decl_post [OF parseDeclaration_post [OF ts fuel E]]
  note expr = expr_stmt_post [OF parseExpression_post [OF ts a(2,3)] a(1)]
    expr_stmt_post [OF parseExpression_post [OF ts fuel E] ctx_le_refl]
  have ret: "stmt_post good_stmt E ts ctx (do { (e, ctx1) \<leftarrow> parseExpression n junk ts (advance 1 ctx);
       (case e of None \<Rightarrow> Some (None, ctx1) | Some e' \<Rightarrow> semicolon ts (Some (SReturn (head ctx) (Some e')), ctx1)) })"
    by (rule expr(1)) simp
  have stmt: "stmt_post good_stmt E ts ctx (do { (e, ctx1) \<leftarrow> parseExpression n junk ts ctx;
       (case e of None \<Rightarrow> Some (None, ctx1) | Some e' \<Rightarrow> semicolon ts (Some (SExpression (head ctx) e'), ctx1)) })"
    by (rule expr(2)) simp
  show ?thesis
    unfolding parse_simple_def Let_def
    using ret stmt bad semi [of "SReturn (head ctx) None"] semi [of "SContinue (head ctx)"] semi [of "SBreak (head ctx)"]
      decl(1) [where l = "head ctx + 1"] decl(2) [where l = "head ctx"]
    by (simp only: split: if_split) simp
qed

text \<open>The bodies, on a fuel that covers the tokens left.\<close>

definition body_fuel :: "TokenStream \<Rightarrow> nat \<Rightarrow> nat \<Rightarrow> ParseContext \<Rightarrow> bool" where
  "body_fuel ts k n ctx \<longleftrightarrow>
    1 \<le> n \<and> (head ctx < length (tokens ts) \<longrightarrow> length (tokens ts) - head ctx + k \<le> n)"

definition room_left :: "TokenStream \<Rightarrow> ParseContext \<Rightarrow> bool" where
  "room_left ts ctx \<longleftrightarrow> room ts ctx < scopes_max"

lemma room_left_le: "room_left ts c \<Longrightarrow> ctx_le ts 0 c c' \<Longrightarrow> room_left ts c'"
  by (simp add: room_left_def ctx_le_def)

lemma wf_body_scope:
  assumes "createScope (current_scopeId c) (ast c) = Some (sid, a)"
  shows "sid = scope_count c" "scope_count (c\<lparr>ast := a, current_scopeId := sid\<rparr>) = Suc (scope_count c)"
    "room ts (c\<lparr>ast := a, current_scopeId := sid\<rparr>) = Suc (room ts c)"
    "ast_functions a = ast_functions (ast c)"
    "wf_ctx c \<Longrightarrow> wf_ctx (c\<lparr>ast := a, current_scopeId := sid\<rparr>)"
  using assms wf_scopes_createScope [of "ast c" "current_scopeId c" sid a]
  by (auto simp: createScope_def Let_def room_def scope_count_def wf_ctx_def split: if_splits)

definition ready :: "nat \<Rightarrow> TokenStream \<Rightarrow> ParseContext \<Rightarrow> bool" where
  "ready E ts c \<longleftrightarrow> E \<le> errors c \<and> room_left ts c \<and> wf_ctx c"

lemma ready_le: "ready E ts c \<Longrightarrow> ctx_le ts 0 c c' \<Longrightarrow> ready E ts c'"
  unfolding ready_def using room_left_le by (auto simp: ctx_le_def)

lemma ready_errors: "ready E ts c \<Longrightarrow> E \<le> errors c"
  by (simp add: ready_def)

lemma stmt_bind:
  assumes r: "stmt_post good E ts c r" and c: "ctx_le ts 0 c0 c"
    and k: "\<And>x c'. ctx_le ts 0 c c' \<Longrightarrow> ctx_le ts 0 c0 c' \<Longrightarrow> head c < head c' \<Longrightarrow>
      (errors c' = E \<Longrightarrow> good (scope_count c') x) \<Longrightarrow> stmt_post good' E ts c0 (k x c')"
  shows "stmt_post good' E ts c0
    (do { (x, c') \<leftarrow> r; (case x of None \<Rightarrow> Some (None, c') | Some e \<Rightarrow> k e c') })"
  using r
proof (cases rule: stmt_postE)
  case (null c')
  then show ?thesis
    using ctx_le_trans0 [OF c null(2)] ctx_leD(2) [OF c] by (simp add: stmt_post_null)
next
  case (some x c')
  then show ?thesis
    using k [OF some(2) ctx_le_trans0 [OF c some(2)] some(3,4)] by simp
qed

lemma stmt_bind_map:
  assumes r: "stmt_post good E ts c r" and c: "ctx_le ts 0 c0 c"
    and f: "\<And>x c'. ctx_le ts 0 c0 c' \<Longrightarrow> errors c' = E \<Longrightarrow> good (scope_count c') x \<Longrightarrow> good' (scope_count c') (f x)"
  shows "stmt_post good' E ts c0 (do { (x, c') \<leftarrow> r; Some (map_option f x, c') })"
  using r
proof (cases rule: stmt_postE)
  case (null c')
  then show ?thesis
    using ctx_le_trans0 [OF c null(2)] ctx_leD(2) [OF c] by (simp add: stmt_post_null)
next
  case (some x c')
  then show ?thesis
    using ctx_le_trans0 [OF c some(2)] ctx_leD(1) [OF c] f by (simp add: stmt_post_some)
qed

lemma good_later:
  assumes "errors c' = E" and "ctx_le ts 0 c c'" and "E \<le> errors c"
    and "errors c = E \<Longrightarrow> good_body (scope_count c) b"
  shows "good_body (scope_count c') b"
  using assms good_mono(2) [of "scope_count c" b "scope_count c'"] by (auto simp: ctx_le_def)

lemma complete_later:
  assumes "errors c' = E" and "ctx_le ts 0 c c'" and "E \<le> errors c" and "errors c = E \<Longrightarrow> complete_expr e"
  shows "complete_expr e"
  using assms by (auto simp: ctx_le_def)

lemma after_expr:
  assumes "body_fuel ts 2 (Suc n) ctx" and "kind_at ts ctx 0 \<noteq> TOKEN_EOF"
  shows "expr_fuel ts n (advance 1 ctx)" "head (advance 1 ctx) < head c \<Longrightarrow> body_fuel ts 3 n c"
    "head (advance 1 ctx) < head c \<Longrightarrow> body_fuel ts 2 n c"
  using assms kind_less [OF assms(2)] by (auto simp: body_fuel_def expr_fuel_def)

lemma body_fuel_le: "body_fuel ts k n c \<Longrightarrow> head c \<le> head c' \<Longrightarrow> body_fuel ts k n c'"
  by (auto simp: body_fuel_def)

lemma parseWhile_step:
  assumes ts: "wf_stream ts"
    and body: "\<And>c. ready E ts c \<Longrightarrow> body_fuel ts 3 n c \<Longrightarrow> stmt_post good_body E ts c (parseBody n junk ts c)"
    and ctx: "ready E ts ctx" "body_fuel ts 2 (Suc n) ctx" "kind_at ts ctx 0 = TOKEN_WHILE"
  shows "stmt_post good_stmt E ts ctx (parseWhile (Suc n) junk ts ctx)"
proof -
  have nE: "kind_at ts ctx 0 \<noteq> TOKEN_EOF" using ctx(3) by simp
  note f = after_expr [OF ctx(2) nE]
  have a: "ctx_le ts 0 ctx (advance 1 ctx)" by (simp add: ctx_le_advance)
  have "stmt_post good_stmt E ts ctx
    (do { (e, ctx1) \<leftarrow> parseExpression n junk ts (advance 1 ctx);
        (case e of None \<Rightarrow> Some (None, ctx1)
         | Some e' \<Rightarrow> do { (b, ctx2) \<leftarrow> parseBody n junk ts ctx1; Some (map_option (SWhile 0 e') b, ctx2) }) })"
  proof (rule stmt_bind [OF parseExpression_post [OF ts f(1)] a])
    show "E \<le> errors (advance 1 ctx)" using ready_errors [OF ctx(1)] by simp
    fix e c1
    assume c1: "ctx_le ts 0 ctx c1" "head (advance 1 ctx) < head c1" and e: "errors c1 = E \<Longrightarrow> complete_expr e"
    note rc1 = ready_le [OF ctx(1) c1(1)]
    have b: "stmt_post good_body E ts c1 (parseBody n junk ts c1)"
      by (rule body [OF rc1 f(2) [OF c1(2)]])
    show "stmt_post good_stmt E ts ctx
        (do { (b, ctx2) \<leftarrow> parseBody n junk ts c1; Some (map_option (SWhile 0 e) b, ctx2) })"
    proof (rule stmt_post_trans [OF stmt_bind_map [OF b ctx_le_refl] c1(1)])
      fix b c2 assume "ctx_le ts 0 c1 c2" "errors c2 = E" "good_body (scope_count c2) b"
      then show "good_stmt (scope_count c2) (SWhile 0 e b)"
        using complete_later [OF _ _ ready_errors [OF rc1] e] by simp
    qed
  qed
  then show ?thesis using ctx(3) by simp
qed

lemma parseIf_step:
  assumes ts: "wf_stream ts"
    and body: "\<And>c. ready E ts c \<Longrightarrow> body_fuel ts 3 n c \<Longrightarrow> stmt_post good_body E ts c (parseBody n junk ts c)"
    and ifs: "\<And>c. ready E ts c \<Longrightarrow> body_fuel ts 2 n c \<Longrightarrow> kind_at ts c 0 = TOKEN_IF \<Longrightarrow>
      stmt_post good_stmt E ts c (parseIf n junk ts c)"
    and ctx: "ready E ts ctx" "body_fuel ts 2 (Suc n) ctx" "kind_at ts ctx 0 = TOKEN_IF"
  shows "stmt_post good_stmt E ts ctx (parseIf (Suc n) junk ts ctx)"
proof -
  have nE: "kind_at ts ctx 0 \<noteq> TOKEN_EOF" using ctx(3) by simp
  note f = after_expr [OF ctx(2) nE]
  have a: "ctx_le ts 0 ctx (advance 1 ctx)" by (simp add: ctx_le_advance)
  show ?thesis
    unfolding parseIf.simps
  proof (rule stmt_bind [OF parseExpression_post [OF ts f(1)] a])
    show "E \<le> errors (advance 1 ctx)" using ready_errors [OF ctx(1)] by simp
    fix e c1
    assume c1: "ctx_le ts 0 ctx c1" "head (advance 1 ctx) < head c1" and e: "errors c1 = E \<Longrightarrow> complete_expr e"
    note rc1 = ready_le [OF ctx(1) c1(1)]
    show "stmt_post good_stmt E ts ctx
      (do { (b, ctx2) \<leftarrow> parseBody n junk ts c1;
            (case b of None \<Rightarrow> Some (None, ctx2)
             | Some b' \<Rightarrow>
                 if kind_at ts ctx2 0 \<noteq> TOKEN_ELSE then Some (Some (SIf 0 e b' None), ctx2)
                 else if kind_at ts ctx2 1 = TOKEN_IF then
                   do { (s, ctx3) \<leftarrow> parseIf n junk ts (advance 1 ctx2);
                        (case s of None \<Rightarrow> Some (None, ctx3)
                         | Some s' \<Rightarrow>
                            Some (Some (SIf 0 e b' (Some (ASTBody (current_scopeId ctx3) [s']))), ctx3)) }
                 else do { (b2, ctx3) \<leftarrow> parseBody n junk ts (advance 1 ctx2);
                        Some (Some (SIf 0 e b' b2), ctx3) }) })"
    proof (rule stmt_bind [OF body [OF rc1 f(2) [OF c1(2)]] c1(1)])
      fix b c2
      assume c2: "ctx_le ts 0 c1 c2" "ctx_le ts 0 ctx c2" "head c1 < head c2"
        and b: "errors c2 = E \<Longrightarrow> good_body (scope_count c2) b"
      note rc2 = ready_le [OF ctx(1) c2(2)]
      have h2: "head (advance 1 ctx) < head c2" "head ctx < head c2" using c1(2) c2(3) by auto
      have parts: "complete_expr e" "good_body (scope_count c3) b" if "errors c3 = E" "ctx_le ts 0 c2 c3" for c3
        using complete_later [OF that(1) ctx_le_trans0 [OF c2(1) that(2)] ready_errors [OF rc1] e]
          good_later [OF that ready_errors [OF rc2] b] by simp_all
      have a2: "ctx_le ts 0 c2 (advance 1 c2)" "ctx_le ts 0 ctx (advance 1 c2)"
        using c2(2) by (simp_all add: ctx_le_advance)
      have ra2: "ready E ts (advance 1 c2)" by (rule ready_le [OF rc2 a2(1)])
      have fa2: "body_fuel ts 3 n (advance 1 c2)" "body_fuel ts 2 n (advance 1 c2)"
        using f(2,3) [of "advance 1 c2"] h2 by simp_all
      have plain: "stmt_post good_stmt E ts ctx (Some (Some (SIf 0 e b None), c2))"
        using parts [OF _ ctx_le_refl] by (intro stmt_post_some [OF c2(2) h2(2)]) simp
      have elif: "stmt_post good_stmt E ts ctx
          (do { (s, ctx3) \<leftarrow> parseIf n junk ts (advance 1 c2);
                (case s of None \<Rightarrow> Some (None, ctx3)
                 | Some s' \<Rightarrow> Some (Some (SIf 0 e b (Some (ASTBody (current_scopeId ctx3) [s']))), ctx3)) })"
        if k: "kind_at ts c2 1 = TOKEN_IF"
      proof (rule stmt_bind [OF ifs [OF ra2 fa2(2)] a2(2)])
        show "kind_at ts (advance 1 c2) 0 = TOKEN_IF" using k by (simp add: gettok_def)
        fix s c3
        assume c3: "ctx_le ts 0 (advance 1 c2) c3" "ctx_le ts 0 ctx c3" "head (advance 1 c2) < head c3"
          and s: "errors c3 = E \<Longrightarrow> good_stmt (scope_count c3) s"
        have "wf_ctx c3" using ready_le [OF ctx(1) c3(2)] by (simp add: ready_def)
        then show "stmt_post good_stmt E ts ctx
            (Some (Some (SIf 0 e b (Some (ASTBody (current_scopeId c3) [s]))), c3))"
          using parts [OF _ ctx_le_trans0 [OF a2(1) c3(1)]] s c3(3) h2
          by (intro stmt_post_some [OF c3(2)]) (simp_all add: wf_ctx_def scope_count_def)
      qed
      have els: "stmt_post good_stmt E ts ctx
          (do { (b2, ctx3) \<leftarrow> parseBody n junk ts (advance 1 c2); Some (Some (SIf 0 e b b2), ctx3) })"
        if k: "kind_at ts c2 0 = TOKEN_ELSE"
        using body [OF ra2 fa2(1)]
      proof (cases rule: stmt_postE)
        case (null c3)
        have "head c2 < length (tokens ts)" using kind_less [of ts c2 0] k by simp
        then have "Suc (room ts (advance 1 c2)) = room ts c2" by (simp add: room_def)
        with null(2) have "ctx_le ts 0 c2 c3" using a2(1) by (auto simp: ctx_le_def)
        then have c3: "ctx_le ts 0 ctx c3" by (rule ctx_le_trans0 [OF c2(2)])
        have "errors c3 \<noteq> E" using null(3) ready_errors [OF ra2] by simp
        then have "stmt_post good_stmt E ts ctx (Some (Some (SIf 0 e b None), c3))"
          using null(2) h2 by (intro stmt_post_some [OF c3]) (auto dest: ctx_leD(1))
        then show ?thesis using null(1) by simp
      next
        case (some b2 c3)
        have "stmt_post good_stmt E ts ctx (Some (Some (SIf 0 e b (Some b2)), c3))"
          using parts [OF _ ctx_le_trans0 [OF a2(1) some(2)]] some(3,4) h2
          by (intro stmt_post_some [OF ctx_le_trans0 [OF a2(2) some(2)]]) auto
        then show ?thesis using some(1) by simp
      qed
      show "stmt_post good_stmt E ts ctx
        (if kind_at ts c2 0 \<noteq> TOKEN_ELSE then Some (Some (SIf 0 e b None), c2)
         else if kind_at ts c2 1 = TOKEN_IF then
           do { (s, ctx3) \<leftarrow> parseIf n junk ts (advance 1 c2);
                (case s of None \<Rightarrow> Some (None, ctx3)
                 | Some s' \<Rightarrow> Some (Some (SIf 0 e b (Some (ASTBody (current_scopeId ctx3) [s']))), ctx3)) }
         else do { (b2, ctx3) \<leftarrow> parseBody n junk ts (advance 1 c2); Some (Some (SIf 0 e b b2), ctx3) })"
        using plain elif els by (simp only: split: if_split) simp
    qed
  qed
qed

text \<open>A new scope: one more in the room, taken back by the brace.\<close>

lemma parseBody_step:
  assumes loop: "\<And>c. ready E ts c \<Longrightarrow> body_fuel ts 3 n c \<Longrightarrow>
      stmt_post (\<lambda>m. list_all (good_stmt m)) E ts c (body_loop n junk ts [] c)"
    and ctx: "ready E ts ctx" "body_fuel ts 3 (Suc n) ctx"
  shows "stmt_post good_body E ts ctx (parseBody (Suc n) junk ts ctx)"
proof -
  have "scope_count ctx < scopes_max"
    using ctx(1) by (simp add: ready_def room_left_def room_def scope_count_def)
  then obtain sid a where s: "createScope (current_scopeId ctx) (ast ctx) = Some (sid, a)"
    by (auto simp: createScope_def Let_def scope_count_def)
  let ?c1 = "ctx\<lparr>ast := a, current_scopeId := sid\<rparr>"
  note ws = wf_body_scope [OF s]
  have wf: "wf_ctx ctx" using ctx(1) by (simp add: ready_def)
  have restored: "ctx_le ts k ctx (c2\<lparr>current_scopeId := current_scopeId ctx\<rparr>)"
    if "ctx_le ts j ?c1 c2" "room ts c2 \<le> room ts ctx + k" for c2 j k
    using that wf ws by (auto simp: ctx_le_def room_def wf_ctx_def scope_count_def)
  have loc: "kind_at ts ?c1 0 = kind_at ts ctx 0" by (simp add: gettok_def)
  show ?thesis
  proof (cases "kind_at ts ctx 0 = TOKEN_CHR CHR ''{''")
    case False
    have "stmt_post good_body E ts ctx (Some (None, (report ?c1)\<lparr>current_scopeId := current_scopeId ctx\<rparr>))"
    proof (rule stmt_post_null)
      show "ctx_le ts 1 ctx ((report ?c1)\<lparr>current_scopeId := current_scopeId ctx\<rparr>)"
        using ws by (intro restored [of 0]) (simp_all add: ctx_le_def room_def wf_ctx_def scope_count_def)
    qed simp
    then show ?thesis using s loc False by simp
  next
    case True
    have h: "head ctx < length (tokens ts)" using kind_less [of ts ctx 0] True by simp
    let ?c = "advance 1 ?c1"
    have rm: "room ts ?c = room ts ctx" using ws(3) h by (simp add: room_def)
    have rd: "ready E ts ?c"
      using ctx(1) rm ws(5) [OF wf] by (simp add: ready_def room_left_def wf_ctx_def)
    have fu: "body_fuel ts 3 n ?c" using ctx(2) h by (auto simp: body_fuel_def)
    have c1: "ctx_le ts 0 ?c1 ?c" by (simp add: ctx_le_advance)
    from loop [OF rd fu] have "stmt_post good_body E ts ctx
      (do { (stmts, ctx2) \<leftarrow> body_loop n junk ts [] ?c;
        Some (map_option (ASTBody sid) stmts, ctx2\<lparr>current_scopeId := current_scopeId ctx\<rparr>) })"
    proof (cases rule: stmt_postE)
      case (null c2)
      have "ctx_le ts 1 ctx (c2\<lparr>current_scopeId := current_scopeId ctx\<rparr>)"
        using null(2) rm by (intro restored [OF ctx_le_trans0 [OF c1 null(2)]]) (simp add: ctx_le_def)
      then show ?thesis using null(1,3) by (simp add: stmt_post_null)
    next
      case (some stmts c2)
      have "ctx_le ts 0 ctx (c2\<lparr>current_scopeId := current_scopeId ctx\<rparr>)"
        using some(2) rm by (intro restored [OF ctx_le_trans0 [OF c1 some(2)]]) (simp add: ctx_le_def)
      moreover have "sid < scope_count c2"
        using some(2) ws(1,2) by (simp add: ctx_le_def scope_count_def)
      ultimately show ?thesis
        using some(1,3,4) by (auto intro!: stmt_post_some simp: scope_count_def)
    qed
    then show ?thesis using s loc True by simp
  qed
qed

lemma body_loop_step:
  assumes simple: "\<And>c. ready E ts c \<Longrightarrow> expr_fuel ts n c \<Longrightarrow> stmt_post good_stmt E ts c (parse_simple n junk ts c)"
    and ifs: "\<And>c. ready E ts c \<Longrightarrow> body_fuel ts 2 n c \<Longrightarrow> kind_at ts c 0 = TOKEN_IF \<Longrightarrow>
      stmt_post good_stmt E ts c (parseIf n junk ts c)"
    and whiles: "\<And>c. ready E ts c \<Longrightarrow> body_fuel ts 2 n c \<Longrightarrow> kind_at ts c 0 = TOKEN_WHILE \<Longrightarrow>
      stmt_post good_stmt E ts c (parseWhile n junk ts c)"
    and loop: "\<And>c ss. ready E ts c \<Longrightarrow> body_fuel ts 3 n c \<Longrightarrow>
      (errors c = E \<Longrightarrow> list_all (good_stmt (scope_count c)) ss) \<Longrightarrow>
      stmt_post (\<lambda>m. list_all (good_stmt m)) E ts c (body_loop n junk ts ss c)"
    and ctx: "ready E ts ctx" "body_fuel ts 3 (Suc n) ctx"
    and ss: "errors ctx = E \<Longrightarrow> list_all (good_stmt (scope_count ctx)) ss"
  shows "stmt_post (\<lambda>m. list_all (good_stmt m)) E ts ctx (body_loop (Suc n) junk ts ss ctx)"
proof -
  let ?good = "\<lambda>m. list_all (good_stmt m)"
  let ?t = "kind_at ts ctx 0"
  consider (eof) "?t = TOKEN_EOF" | (brace) "?t = TOKEN_CHR CHR ''}''"
    | (stmt) "?t \<noteq> TOKEN_EOF" "?t \<noteq> TOKEN_CHR CHR ''}''" by blast
  then show ?thesis
  proof cases
    case eof
    then show ?thesis by (simp add: stmt_post_report)
  next
    case brace
    have "stmt_post ?good E ts ctx (Some (Some ss, advance 1 ctx))"
      using ss by (intro stmt_post_some) (simp_all add: ctx_le_advance scope_count_def)
    with brace show ?thesis by simp
  next
    case stmt
    let ?one = "if ?t = TOKEN_IF then parseIf n junk ts ctx
      else if ?t = TOKEN_WHILE then parseWhile n junk ts ctx else parse_simple n junk ts ctx"
    have h: "head ctx < length (tokens ts)" using kind_less [of ts ctx 0] stmt by simp
    have fu: "expr_fuel ts n ctx" "body_fuel ts 2 n ctx" "head ctx < head c \<Longrightarrow> body_fuel ts 3 n c" for c
      using ctx(2) h by (auto simp: body_fuel_def expr_fuel_def)
    have one: "stmt_post good_stmt E ts ctx ?one"
      using simple [OF ctx(1) fu(1)] ifs [OF ctx(1) fu(2)] whiles [OF ctx(1) fu(2)]
      by (simp only: split: if_split) simp
    have "stmt_post ?good E ts ctx
      (do { (s, ctx1) \<leftarrow> ?one;
        (case s of None \<Rightarrow> Some (None, ctx1)
         | Some s' \<Rightarrow> body_loop n junk ts
             (ss @ [if ?t = TOKEN_IF \<or> ?t = TOKEN_WHILE then set_location (head ctx) s' else s']) ctx1) })"
    proof (rule stmt_bind [OF one ctx_le_refl])
      fix s c'
      assume c': "ctx_le ts 0 ctx c'" "head ctx < head c'"
        and s: "errors c' = E \<Longrightarrow> good_stmt (scope_count c') s"
      have "list_all (good_stmt (scope_count c')) ss" if "errors c' = E"
        using that ss c'(1) ready_errors [OF ctx(1)] good_mono(1)
        by (force simp: ctx_le_def list_all_iff)
      then show "stmt_post ?good E ts ctx (body_loop n junk ts
             (ss @ [if ?t = TOKEN_IF \<or> ?t = TOKEN_WHILE then set_location (head ctx) s else s]) c')"
        using s by (intro stmt_post_trans [OF loop [OF ready_le [OF ctx(1) c'(1)] fu(3) [OF c'(2)]] c'(1)]) simp
    qed
    then show ?thesis using stmt by (simp add: Let_def)
  qed
qed

lemma bodies_total:
  assumes ts: "wf_stream ts"
  shows "(ready E ts c1 \<longrightarrow> body_fuel ts 3 n c1 \<longrightarrow>
        (errors c1 = E \<longrightarrow> list_all (good_stmt (scope_count c1)) ss) \<longrightarrow>
        stmt_post (\<lambda>m. list_all (good_stmt m)) E ts c1 (body_loop n junk ts ss c1))
    \<and> (ready E ts c2 \<longrightarrow> body_fuel ts 3 n c2 \<longrightarrow> stmt_post good_body E ts c2 (parseBody n junk ts c2))
    \<and> (ready E ts c3 \<longrightarrow> body_fuel ts 2 n c3 \<longrightarrow> kind_at ts c3 0 = TOKEN_IF \<longrightarrow>
        stmt_post good_stmt E ts c3 (parseIf n junk ts c3))
    \<and> (ready E ts c4 \<longrightarrow> body_fuel ts 2 n c4 \<longrightarrow> kind_at ts c4 0 = TOKEN_WHILE \<longrightarrow>
        stmt_post good_stmt E ts c4 (parseWhile n junk ts c4))"
proof (induction n arbitrary: c1 c2 c3 c4 ss)
  case 0
  then show ?case by (simp add: body_fuel_def)
next
  case (Suc n)
  note loop = Suc.IH [THEN conjunct1, rule_format]
    and body = Suc.IH [THEN conjunct2, THEN conjunct1, rule_format]
    and ifs = Suc.IH [THEN conjunct2, THEN conjunct2, THEN conjunct1, rule_format]
    and whiles = Suc.IH [THEN conjunct2, THEN conjunct2, THEN conjunct2, rule_format]
  show ?case
    by (intro conjI impI body_loop_step parseBody_step parseIf_step [OF ts] parseWhile_step [OF ts]
        loop body ifs whiles parse_simple_post [OF ts] ready_errors) simp_all
qed

lemma readable_id: "wf_stream ts \<Longrightarrow> tok_type (get_token ts i) \<in> str_kinds \<Longrightarrow> \<exists>s. get_str ts i = Some s"
  using readable_str [of ts i] by auto

lemma typed_name:
  assumes "wf_stream ts" and "kind_at ts ctx 0 = TOKEN_ID"
  shows "\<exists>nm ty c1. get_str ts (head ctx) = Some nm \<and> parseType ts (advance 2 ctx) = Some (ty, c1)
    \<and> ctx_step (advance 2 ctx) c1"
  using readable_id [OF assms(1), of "head ctx"] parseType_total [OF assms(1), of "advance 2 ctx"] assms(2)
  by (auto simp: gettok_def str_kinds_def)

lemma step_later: "ctx_step (advance k c) c' \<Longrightarrow> ctx_step c c'"
  by (auto simp: ctx_step_def)

lemma step_advance: "ctx_step c c' \<Longrightarrow> ctx_step c (advance k c')"
  by (auto simp: ctx_step_def)

text \<open>Parameters and members: lists of names with types, whatever ends them.\<close>

definition list_post :: "ParseContext \<Rightarrow> ('a option \<times> ParseContext) option \<Rightarrow> bool" where
  "list_post c r \<longleftrightarrow> (\<exists>x c'. r = Some (x, c') \<and> ctx_step c c' \<and> (x = None \<longrightarrow> errors c < errors c'))"

lemma list_post_some: "ctx_step c c' \<Longrightarrow> list_post c (Some (Some x, c'))"
  by (simp add: list_post_def)

lemma list_post_report: "ctx_step c c' \<Longrightarrow> list_post c (Some (x, report c'))"
  by (auto simp: list_post_def ctx_step_def)

lemma list_post_trans:
  assumes "list_post c r" and "ctx_step c0 c"
  shows "list_post c0 r"
proof -
  obtain x c' where "r = Some (x, c')" "ctx_step c c'" "x = None \<longrightarrow> errors c < errors c'"
    using assms(1) by (auto simp: list_post_def)
  with assms(2) show ?thesis
    unfolding list_post_def by (intro exI [of _ x] exI [of _ c']) (auto simp: ctx_step_def)
qed

lemmas list_post_here = list_post_report [OF ctx_step_refl] list_post_report [OF step_advance [OF ctx_step_refl]]
  list_post_some [OF step_advance [OF ctx_step_refl]]

lemma param_loop_total: "wf_stream ts \<Longrightarrow> list_post ctx (param_loop ts ps ctx)"
proof (induction ts ps ctx rule: param_loop.induct)
  case (1 ts ps ctx)
  show ?case
  proof (cases "kind_at ts ctx 0 = TOKEN_ID \<and> kind_at ts ctx 1 = TOKEN_CHR CHR '':''")
    case False
    then show ?thesis
      by (subst param_loop.simps) (auto intro: list_post_here)
  next
    case True
    obtain nm ty c1 where t: "get_str ts (head ctx) = Some nm"
      "parseType ts (advance 2 ctx) = Some (ty, c1)" "ctx_step (advance 2 ctx) c1"
      using typed_name [OF 1(3)] True by blast
    note c1 = step_later [OF t(3)]
    note r = list_post_report [OF c1]
    have comma: "list_post ctx (param_loop ts (ps @ [native_param nm ty]) (advance 1 c1))"
      if "ty \<noteq> []" "kind_at ts c1 0 = TOKEN_CHR CHR '',''"
      using 1(1) [OF _ _ _ _ t(1,2) refl that] True 1(3) by (auto intro: list_post_trans step_advance [OF c1])
    have paren: "list_post ctx (param_loop ts (ps @ [native_param nm ty]) c1)"
      if "ty \<noteq> []" "kind_at ts c1 0 = TOKEN_CHR CHR '')''"
      using 1(2) [OF _ _ _ _ t(1,2) refl that(1) _ that(2)] True 1(3) that by (auto intro: list_post_trans c1)
    show ?thesis
      using True t comma paren by (subst param_loop.simps) (simp add: r)
  qed
qed

lemma member_loop_total: "wf_stream ts \<Longrightarrow> list_post ctx (member_loop ts ms ctx)"
proof (induction ts ms ctx rule: member_loop.induct)
  case (1 ts ms ctx)
  show ?case
  proof (cases "kind_at ts ctx 0 = TOKEN_ID \<and> kind_at ts ctx 1 = TOKEN_CHR CHR '':''")
    case False
    then show ?thesis
      by (subst member_loop.simps) (auto intro: list_post_here)
  next
    case True
    obtain nm ty c1 where t: "get_str ts (head ctx) = Some nm"
      "parseType ts (advance 2 ctx) = Some (ty, c1)" "ctx_step (advance 2 ctx) c1"
      using typed_name [OF 1(3)] True by blast
    note c1 = step_later [OF t(3)]
    let ?ms = "ms @ [\<lparr>mem_name = nm, mem_typeString = ty, mem_typeId = void_type,
        mem_offset = 0, mem_location = head ctx\<rparr>]"
    note r = list_post_report [OF c1]
    have comma: "list_post ctx (member_loop ts ?ms (advance 1 c1))"
      if "ty \<noteq> []" "kind_at ts c1 0 = TOKEN_CHR CHR '',''"
      using 1(1) [OF _ _ _ _ t(1,2) refl that(1) refl that(2)] True 1(3)
      by (auto intro: list_post_trans step_advance [OF c1])
    have brace: "list_post ctx (member_loop ts ?ms c1)"
      if "ty \<noteq> []" "kind_at ts c1 0 = TOKEN_CHR CHR ''}''"
      using 1(2) [OF _ _ _ _ t(1,2) refl that(1) refl _ that(2)] True 1(3) that by (auto intro: list_post_trans c1)
    show ?thesis
      using True t comma brace by (subst member_loop.simps) (simp add: Let_def r)
  qed
qed

lemma list_postE:
  assumes "list_post c r"
  obtains (null) c' where "r = Some (None, c')" "ctx_step c c'" "errors c < errors c'"
  | (some) x c' where "r = Some (Some x, c')" "ctx_step c c'"
  using assms unfolding list_post_def by (metis (full_types) not_Some_eq)

lemma parseStruct_total:
  assumes ts: "wf_stream ts" and k: "kind_at ts ctx 0 = TOKEN_STRUCT"
  shows "\<exists>x c'. parseStruct ts ctx = Some (x, c') \<and> ctx_step ctx c'
    \<and> (x = None \<longrightarrow> errors ctx < errors c') \<and> (x \<noteq> None \<longrightarrow> head ctx < head c')"
proof (cases "kind_at ts ctx 1 = TOKEN_ID \<and> kind_at ts ctx 2 = TOKEN_CHR CHR ''{''")
  case False
  then show ?thesis
    using k by (auto simp: parseStruct_def ctx_step_def)
next
  case True
  obtain nm where nm: "get_str ts (Suc (head ctx)) = Some nm"
    using readable_id [OF ts, of "Suc (head ctx)"] True by (auto simp: gettok_def str_kinds_def)
  have "list_post (advance 3 ctx) (member_loop ts [] (advance 3 ctx))"
    by (rule member_loop_total [OF ts])
  then show ?thesis
    by (cases rule: list_postE) (use k True nm in \<open>auto simp: parseStruct_def ctx_step_def\<close>)
qed

definition good_function :: "nat \<Rightarrow> ASTFunction \<Rightarrow> bool" where
  "good_function n f \<longleftrightarrow> pred_option (good_body n) (fn_body f)"

lemma parseFunction_post:
  assumes ts: "wf_stream ts" and k: "kind_at ts ctx 0 = TOKEN_FUNCTION"
    and ctx: "ready E ts ctx" "body_fuel ts 3 n ctx"
  shows "stmt_post good_function E ts ctx (parseFunction n junk ts ctx)"
proof (cases "kind_at ts ctx 1 = TOKEN_ID \<and> kind_at ts ctx 2 = TOKEN_CHR CHR ''(''")
  case False
  have "stmt_post good_function E ts ctx (Some (None, report (advance j ctx)))" for j
    by (intro stmt_post_report ctx_le_advance) simp
  with False k show ?thesis
    by (auto simp: parseFunction_def)
next
  case True
  obtain nm where nm: "get_str ts (Suc (head ctx)) = Some nm"
    using readable_id [OF ts, of "Suc (head ctx)"] True by (auto simp: gettok_def str_kinds_def)
  have body: "stmt_post good_function E ts ctx
      (do { (b, c3) \<leftarrow> parseBody n junk ts c2;
        Some (map_option (\<lambda>body. new_function
          \<lparr>fn_name := nm, fn_location := head ctx + 1, fn_parameters := ps,
           return_typeString := ty, fn_body := Some body\<rparr>) b, c3) })"
    if "ctx_step (advance 3 ctx) c2" for c2 ty ps
  proof (rule stmt_bind_map)
    have c2: "ctx_le ts 0 ctx c2" by (rule ctx_le_step [OF step_later [OF that]])
    then show "ctx_le ts 0 ctx c2" .
    show "stmt_post good_body E ts c2 (parseBody n junk ts c2)"
      using bodies_total [OF ts, THEN conjunct2, THEN conjunct1, rule_format,
          OF ready_le [OF ctx(1) c2] body_fuel_le [OF ctx(2) ctx_leD(1) [OF c2]]] .
  qed (simp add: good_function_def)
  have bad: "stmt_post good_function E ts ctx (Some (None, report c2))" if "ctx_step ctx c2" for c2
    by (rule stmt_post_report [OF ctx_le_step [OF that]])
  have "list_post (advance 3 ctx) (param_loop ts [] (advance 3 ctx))"
    by (rule param_loop_total [OF ts])
  then show ?thesis
  proof (cases rule: list_postE)
    case (null c')
    then show ?thesis
      using k True nm by (simp add: parseFunction_def stmt_post_null [OF ctx_le_step [OF step_later [OF null(2)]]])
  next
    case (some ps c')
    obtain ty c where t: "parseType ts (advance 1 c') = Some (ty, c)" "ctx_step (advance 1 c') c"
      using parseType_total [OF ts, of "advance 1 c'"] by blast
    have c: "ctx_step (advance 3 ctx) c"
      using some(2) t(2) by (auto simp: ctx_step_def)
    show ?thesis
      using k True nm some(1) t(1) body [OF c, of ty ps] body [OF some(2), of "[]" ps] bad [OF step_later [OF c]]
      by (simp add: parseFunction_def)
  qed
qed


text \<open>The whole file: only the tables grow outside a body.\<close>

definition file_ok :: "nat \<Rightarrow> Import \<Rightarrow> ParseContext \<Rightarrow> bool" where
  "file_ok E imp c \<longleftrightarrow> (errors c = E \<longrightarrow>
     list_all (good_stmt (scope_count c)) (imp_statements imp)
     \<and> list_all (good_function (scope_count c)) (ast_functions (ast c)))"

definition file_post :: "nat \<Rightarrow> TokenStream \<Rightarrow> (bool \<times> Import \<times> ParseContext) option \<Rightarrow> bool" where
  "file_post E ts r \<longleftrightarrow>
    (\<exists>ok imp c. r = Some (ok, imp, c) \<and> wf_ctx c \<and> E \<le> errors c \<and> file_ok E imp c
      \<and> (\<not> ok \<longrightarrow> E < errors c) \<and> (errors c = E \<longrightarrow> kind_at ts c 0 = TOKEN_EOF))"

lemma good_list_later:
  "list_all (good_stmt n) xs \<Longrightarrow> n \<le> m \<Longrightarrow> list_all (good_stmt m) xs"
  "list_all (good_function n) fs \<Longrightarrow> n \<le> m \<Longrightarrow> list_all (good_function m) fs"
  using good_mono by (force simp: list_all_iff good_function_def pred_option_def)+

lemma file_ok_later: "file_ok E imp c \<Longrightarrow> ctx_le ts 0 c c' \<Longrightarrow> E \<le> errors c \<Longrightarrow> file_ok E imp c'"
  using good_list_later by (auto simp: file_ok_def ctx_le_def)

lemma ready_tables:
  "ready E ts c \<Longrightarrow> length (scopes a) = length (scopes (ast c)) \<Longrightarrow> wf_scopes a \<Longrightarrow> ready E ts (c\<lparr>ast := a\<rparr>)"
  by (auto simp: ready_def room_left_def room_def wf_ctx_def)

lemma file_post_stop:
  "ready E ts c \<Longrightarrow> file_ok E imp c \<Longrightarrow> E < errors c' \<Longrightarrow> ctx_le ts 1 c c' \<Longrightarrow> file_post E ts (Some (ok, imp, c'))"
  by (auto simp: file_post_def ready_def file_ok_def ctx_le_def)

lemma add_function_tables [simp]:
  "length (scopes (add_function f s a)) = length (scopes a)"
  "ast_functions (add_function f s a) = ast_functions a @ [f]"
  by (simp_all add: add_function_def upd_scope_def)

lemma top_loop_total:
  assumes ts: "wf_stream ts"
  shows "ready E ts c \<Longrightarrow> body_fuel ts 4 n c \<Longrightarrow> file_ok E imp c \<Longrightarrow>
    file_post E ts (top_loop n junk ts imp c)"
proof (induction n arbitrary: imp c)
  case (Suc n)
  let ?t = "kind_at ts c 0"
  note rd = Suc.prems(1) and ok = Suc.prems(3)
  have E: "E \<le> errors c" using rd by (simp add: ready_def)
  have fu: "body_fuel ts 3 n c" "expr_fuel ts n (advance 1 c)" "head c < head c' \<Longrightarrow> body_fuel ts 4 n c'"
    if "?t \<noteq> TOKEN_EOF" for c'
    using Suc.prems(2) kind_less [OF that] by (auto simp: body_fuel_def expr_fuel_def)
  note stop = file_post_stop [OF rd ok]
  have a: "ctx_le ts 0 c (advance k c)" for k by (simp add: ctx_le_advance)
  consider "?t = TOKEN_EOF" | "?t = TOKEN_STRUCT" | "?t = TOKEN_FUNCTION"
    | "?t = TOKEN_GLOBAL \<or> ?t = TOKEN_CONST" | "?t = TOKEN_IMPORT"
    | "?t \<notin> {TOKEN_EOF, TOKEN_STRUCT, TOKEN_FUNCTION, TOKEN_GLOBAL, TOKEN_CONST, TOKEN_IMPORT}" by blast
  then show ?case
  proof cases
    case 1
    then show ?thesis using rd ok by (auto simp: file_post_def ready_def)
  next
    case 2
    obtain x c' where s: "parseStruct ts c = Some (x, c')" "ctx_step c c'"
      "x = None \<longrightarrow> errors c < errors c'" "x \<noteq> None \<longrightarrow> head c < head c'"
      using parseStruct_total [OF ts 2] by blast
    note le = ctx_le_step [OF s(2)]
    show ?thesis
    proof (cases x)
      case None
      then show ?thesis using 2 s E stop [OF _ le, of True] by simp
    next
      case (Some st)
      let ?a = "(ast c')\<lparr>ast_structures := ast_structures (ast c') @ [st]\<rparr>"
      have "ready E ts (c'\<lparr>ast := ?a\<rparr>)"
        using ready_le [OF rd le] by (intro ready_tables) (simp_all add: wf_scopes_cong ready_def wf_ctx_def)
      moreover have "file_ok E (imp\<lparr>imp_structures := is\<rparr>) (c'\<lparr>ast := ?a\<rparr>)" for "is"
        using file_ok_later [OF ok le E] by (simp add: file_ok_def scope_count_def)
      ultimately show ?thesis
        using 2 s Some fu(3) [of "c'\<lparr>ast := ?a\<rparr>"] by (simp add: add_structure_def Suc.IH)
    qed
  next
    case 3
    have nE: "?t \<noteq> TOKEN_EOF" using 3 by simp
    show ?thesis using parseFunction_post [OF ts 3 rd fu(1) [OF nE], of junk]
    proof (cases rule: stmt_postE)
      case (null c')
      then show ?thesis using 3 E stop [OF _ null(2), of True] by simp
    next
      case (some f c')
      let ?a = "add_function f (current_scopeId c') (ast c')"
      have "ready E ts (c'\<lparr>ast := ?a\<rparr>)"
        using ready_le [OF rd some(2)]
        by (intro ready_tables) (simp_all add: wf_scopes_add_function ready_def wf_ctx_def)
      moreover have "file_ok E imp (c'\<lparr>ast := ?a\<rparr>)"
        using file_ok_later [OF ok some(2) E] some(4) by (simp add: file_ok_def scope_count_def)
      ultimately show ?thesis
        using 3 some fu(3) [OF nE, of "c'\<lparr>ast := ?a\<rparr>"] by (simp add: Suc.IH)
    qed
  next
    case 4
    then have nE: "?t \<noteq> TOKEN_EOF" by auto
    let ?d = "parseDeclaration n junk ts (?t = TOKEN_GLOBAL) (?t = TOKEN_CONST) (advance 1 c)"
    have "stmt_post good_stmt E ts c ?d"
      using E by (intro stmt_post_trans [OF parseDeclaration_post [OF ts fu(2) [OF nE]] a]) simp
    then obtain r where r: "?d = Some r" "stmt_post good_stmt E ts c (semicolon ts r)"
      using semicolon_post by blast
    from r(2) show ?thesis
    proof (cases rule: stmt_postE)
      case (null c')
      then show ?thesis using 4 r(1) E stop [OF _ null(2), of False] by auto
    next
      case (some s c')
      have "file_ok E (imp\<lparr>imp_statements := imp_statements imp @ [s]\<rparr>) c'"
        using file_ok_later [OF ok some(2) E] some(4) by (simp add: file_ok_def)
      then show ?thesis
        using 4 r(1) some fu(3) [OF nE some(3)] ready_le [OF rd some(2)] by (auto simp: Suc.IH)
    qed
  next
    case 5
    have nE: "?t \<noteq> TOKEN_EOF" using 5 by simp
    show ?thesis
    proof (cases "kind_at ts c 1 = TOKEN_LITERAL_STRING")
      case False
      have "file_post E ts (Some (False, imp, report (advance 1 c)))"
        using E by (intro stop ctx_le_step) (auto simp: ctx_step_def)
      with 5 False show ?thesis by simp
    next
      case True
      obtain p where "get_str ts (Suc (head c)) = Some p"
        using readable_id [OF ts, of "Suc (head c)"] True by (auto simp: gettok_def str_kinds_def)
      moreover have "file_ok E (imp\<lparr>dependencies := ds\<rparr>) (advance 2 c)" "file_ok E imp (advance 2 c)" for ds
        using file_ok_later [OF ok a [of 2] E] by (simp_all add: file_ok_def)
      ultimately show ?thesis
        using 5 True fu(3) [OF nE, of "advance 2 c"] ready_le [OF rd a [of 2]] by (simp add: Suc.IH)
    qed
  next
    case 6
    have "file_post E ts (Some (False, imp, report c))"
      using E by (intro stop ctx_le_step) (auto simp: ctx_step_def)
    with 6 show ?thesis by simp
  qed
qed (simp add: body_fuel_def)

section \<open>Properties\<close>

lemma lexed_wf: "lex_file env p contents = Some ts \<Longrightarrow> wf_stream ts"
proof -
  assume "lex_file env p contents = Some ts"
  then obtain src st where "lex_loop env src (lex_init p (length src)) = Some st"
    "ts = (stream st)\<lparr>total_lines := line st\<rparr>"
    using lex_file_Some by blast
  then show ?thesis
    using lex_loop_invariant [of "\<lambda>st. token_inv (line st) st", OF token_inv_step token_inv_init]
    by (simp add: token_inv_def)
qed

lemma natives_good: "list_all (good_function n) (ast_functions initial_ast)"
  by (simp add: initial_ast_def native_functions_def native_function_def new_function_def good_function_def)

text \<open>
  C10. Parsing a file always ends.  For every text the lexer accepts, with fuel for its tokens and
  room for its scopes, the parser returns: the scope graph stays well formed, a null pointer
  comes only after a report, and when nothing was reported the whole file was read, every
  expression has all its operands and every body an existing scope.
\<close>

theorem parse_file_total:
  assumes "lex_file env p contents = Some ts" and "length (tokens ts) + 4 \<le> n"
    and "wf_scopes a" and "length (scopes a) + length (tokens ts) + 1 < scopes_max"
    and "list_all (good_function (length (scopes a))) (ast_functions a)"
  shows "\<exists>ok imp ctx. ParseTokenStream n junk ts None a errs = Some (ok, imp, ctx)
    \<and> wf_scopes (ast ctx) \<and> errs \<le> errors ctx \<and> (\<not> ok \<longrightarrow> errs < errors ctx)
    \<and> (errors ctx = errs \<longrightarrow> kind_at ts ctx 0 = TOKEN_EOF
        \<and> list_all (good_stmt (length (scopes (ast ctx)))) (imp_statements imp)
        \<and> list_all (good_function (length (scopes (ast ctx)))) (ast_functions (ast ctx)))"
proof -
  obtain sid a1 where s: "createScope 0 a = Some (sid, a1)"
    using assms(4) by (auto simp: createScope_def Let_def)
  have a1: "wf_scopes a1" "sid < length (scopes a1)" "length (scopes a1) = Suc (length (scopes a))"
    "ast_functions a1 = ast_functions a"
    using wf_scopes_createScope [OF assms(3) _ s] s by (auto simp: createScope_def Let_def split: if_splits)
  let ?c = "\<lparr>head = 0, ast = a1, errors = errs, current_scopeId = sid\<rparr>"
  let ?imp = "(new_import (path ts))\<lparr>imp_body := Some sid, imp_stream := Some ts\<rparr>"
  have "file_post errs ts (top_loop n junk ts ?imp ?c)"
  proof (rule top_loop_total [OF lexed_wf [OF assms(1)]])
    show "ready errs ts ?c"
      using assms(4) a1 by (simp add: ready_def room_left_def room_def wf_ctx_def)
    show "body_fuel ts 4 n ?c" using assms(2) by (simp add: body_fuel_def)
    show "file_ok errs ?imp ?c"
      using a1 good_list_later(2) [OF assms(5), of "Suc (length (scopes a))"]
      by (simp add: file_ok_def new_import_def scope_count_def)
  qed
  then show ?thesis
    using s by (auto simp: file_post_def file_ok_def wf_ctx_def ParseTokenStream_def scope_count_def)
qed

theorem parse_file_total_witness:
  "\<exists>ts ok imp ctx. lex_file plain_env ''a.tin'' (Some (lexemes_text sample_lexemes)) = Some ts
    \<and> ParseTokenStream 9 0 ts None initial_ast 0 = Some (ok, imp, ctx)
    \<and> wf_scopes (ast ctx) \<and> (\<not> ok \<longrightarrow> 0 < errors ctx)"
proof -
  obtain ts where ts: "lex_file plain_env ''a.tin'' (Some (lexemes_text sample_lexemes)) = Some ts"
    "map tok_type (tokens ts) = map lexeme_kind sample_lexemes"
    using lexemes_lexed [OF sample_lexemes_ok, of plain_env "''a.tin''"] by auto
  have n: "length (tokens ts) = 5"
    using arg_cong [OF ts(2), of length] by (simp add: sample_lexemes_def)
  have len: "length (scopes initial_ast) = 1"
    by (simp add: initial_ast_def)
  have "length (tokens ts) + 4 \<le> 9" "length (scopes initial_ast) + length (tokens ts) + 1 < scopes_max"
    by (simp_all add: n len scopes_max_def)
  from parse_file_total [OF ts(1) this(1) initial_ast_wf(1) this(2) natives_good, of 0 0] ts(1)
  show ?thesis by blast
qed

end
