(* ===== verification/ParserPrecedence.thy ===== *)
theory ParserPrecedence
  imports ParserTotal
begin

text \<open>
  The order in which \<^verbatim>\<open>parseExpression\<close> of src/Parser.cpp applies operators: the reference
  is a tree built by descending its right edge, and the stacks of the code are shown to hold
  the same tree.  Then two expressions the code reads otherwise than written.
\<close>

section \<open>Operator trees\<close>

text \<open>
  The specification: a flat tree of binary operations, without locations.  A new operation with
  its right operand goes down the right edge until an operation that binds at least as tightly
  stands below it.
\<close>

datatype optree = Leaf ASTExpression | Node ExprKind optree optree

fun tree_of :: "ASTExpression \<Rightarrow> optree" where
  "tree_of (EBinary k l a b) = Node k (tree_of a) (tree_of b)"
| "tree_of e = Leaf e"

fun climb :: "optree \<Rightarrow> ExprKind \<Rightarrow> ASTExpression \<Rightarrow> optree" where
  "climb (Leaf x) op e = Node op (Leaf x) (Leaf e)"
| "climb (Node k a b) op e =
    (if GetPrecedence k \<ge> GetPrecedence op then Node op (Node k a b) (Leaf e) else Node k a (climb b op e))"

definition climb_all :: "ASTExpression \<Rightarrow> (ExprKind \<times> ASTExpression) list \<Rightarrow> optree" where
  "climb_all x xs = foldl (\<lambda>t (op, e). climb t op e) (Leaf x) xs"

text \<open>
  What makes it the right tree: its operands and operations in their order, and every operation
  below another binds tighter, on the left side at least as tightly.
\<close>

primrec in_order :: "optree \<Rightarrow> ASTExpression \<times> (ExprKind \<times> ASTExpression) list" where
  "in_order (Leaf e) = (e, [])"
| "in_order (Node k a b) =
    (fst (in_order a), snd (in_order a) @ (k, fst (in_order b)) # snd (in_order b))"

primrec root_binds :: "(int \<Rightarrow> bool) \<Rightarrow> optree \<Rightarrow> bool" where
  "root_binds P (Leaf e) = True"
| "root_binds P (Node k a b) = P (GetPrecedence k)"

primrec precedence_ok :: "optree \<Rightarrow> bool" where
  "precedence_ok (Leaf e) = True"
| "precedence_ok (Node k a b) =
    (precedence_ok a \<and> precedence_ok b \<and> root_binds (\<lambda>p. GetPrecedence k \<le> p) a
     \<and> root_binds (\<lambda>p. GetPrecedence k < p) b)"

lemma in_order_climb: "in_order (climb t op e) = (fst (in_order t), snd (in_order t) @ [(op, e)])"
  by (induction t) auto

lemma in_order_climb_all: "in_order (climb_all x xs) = (x, xs)"
  by (induction xs rule: rev_induct) (auto simp: climb_all_def in_order_climb)

lemma precedence_ok_climb:
  "precedence_ok t \<Longrightarrow> precedence_ok (climb t op e)
    \<and> (\<forall>P. root_binds P t \<and> P (GetPrecedence op) \<longrightarrow> root_binds P (climb t op e))"
  by (induction t) auto

lemma precedence_ok_climb_all: "precedence_ok (climb_all x xs)"
proof (induction xs rule: rev_induct)
  case (snoc a xs)
  then show ?case
    using precedence_ok_climb [of "climb_all x xs" "fst a" "snd a"]
    by (simp add: climb_all_def split_def)
qed (simp add: climb_all_def)

text \<open>The tree is unique: the order of its parts and the precedences leave no choice.\<close>

lemma all_bind: "precedence_ok t \<Longrightarrow> root_binds (\<lambda>p. q < p) t \<Longrightarrow> (op, e) \<in> set (snd (in_order t)) \<Longrightarrow>
   q < GetPrecedence op"
proof (induction t arbitrary: q)
  case (Node k a b)
  have "root_binds (\<lambda>p. q < p) a" "root_binds (\<lambda>p. q < p) b"
    using Node.prems by (cases a; cases b; auto)+
  with Node show ?case by auto
qed simp

lemma climb_right:
  "\<forall>(op, e)\<in>set xs. GetPrecedence k < GetPrecedence op \<Longrightarrow>
   foldl (\<lambda>t (op, e). climb t op e) (Node k a u) xs = Node k a (foldl (\<lambda>t (op, e). climb t op e) u xs)"
  by (induction xs arbitrary: u) auto

lemma climb_all_in_order:
  "precedence_ok t \<Longrightarrow> climb_all (fst (in_order t)) (snd (in_order t)) = t"
proof (induction t)
  case (Node k a b)
  have a: "foldl (\<lambda>t (op, e). climb t op e) (Leaf (fst (in_order a))) (snd (in_order a)) = a"
    and b: "foldl (\<lambda>t (op, e). climb t op e) (Leaf (fst (in_order b))) (snd (in_order b)) = b"
    using Node by (simp_all add: climb_all_def)
  have "climb a k e = Node k a (Leaf e)" for e
    using Node.prems by (cases a) auto
  moreover have "\<forall>(op, e)\<in>set (snd (in_order b)). GetPrecedence k < GetPrecedence op"
    using all_bind [of b "GetPrecedence k"] Node.prems by auto
  ultimately show ?case
    using climb_right [of "snd (in_order b)" k a "Leaf (fst (in_order b))"] a b
    by (simp add: climb_all_def)
qed (simp add: climb_all_def)

section \<open>The stacks as a tree\<close>

text \<open>The tree that reducing everything would give: pairs of an operation and its left operand.\<close>

primrec assemble :: "(ExprKind \<times> optree) list \<Rightarrow> optree \<Rightarrow> optree" where
  "assemble [] t = t"
| "assemble (p # ps) t = assemble ps (Node (fst p) (snd p) t)"

lemma assemble_append: "assemble (ps @ qs) t = assemble qs (assemble ps t)"
  by (induction ps arbitrary: t) auto

definition tighter :: "ExprKind \<Rightarrow> ExprKind \<times> optree \<Rightarrow> bool" where
  "tighter op p \<longleftrightarrow> GetPrecedence (fst p) \<ge> GetPrecedence op"

definition rising :: "(ExprKind \<times> optree) list \<Rightarrow> bool" where
  "rising ps \<longleftrightarrow> sorted_wrt (\<lambda>p q. GetPrecedence (fst p) > GetPrecedence (fst q)) ps"

lemma climb_assemble_loose:
  "\<forall>p\<in>set qs. \<not> tighter op p \<Longrightarrow> climb (assemble qs u) op e = assemble qs (climb u op e)"
  by (induction qs arbitrary: u) (auto simp: tighter_def)

lemma climb_assemble_tight:
  "\<forall>p\<in>set ps. tighter op p \<Longrightarrow>
   climb (assemble ps (Leaf x)) op e = Node op (assemble ps (Leaf x)) (Leaf e)"
  by (cases ps rule: rev_cases) (auto simp: assemble_append tighter_def)

lemma rising_drop:
  assumes "rising ps"
  shows "\<forall>p\<in>set (dropWhile (tighter op) ps). \<not> tighter op p"
proof (cases "dropWhile (tighter op) ps")
  case (Cons q qs)
  have "sorted_wrt (\<lambda>p q. GetPrecedence (fst p) > GetPrecedence (fst q)) (takeWhile (tighter op) ps @ q # qs)"
    using assms by (simp add: rising_def flip: Cons)
  moreover have "\<not> tighter op q"
    using Cons by (metis hd_dropWhile list.sel(1) list.simps(3))
  ultimately show ?thesis
    using Cons by (auto simp: sorted_wrt_append tighter_def)
next
  case Nil
  show ?thesis unfolding Nil by simp
qed

lemma climb_assemble:
  assumes "rising ps"
  shows "climb (assemble ps (Leaf x)) op e =
    assemble ((op, assemble (takeWhile (tighter op) ps) (Leaf x)) # dropWhile (tighter op) ps) (Leaf e)"
proof -
  have tight: "\<forall>p\<in>set (takeWhile (tighter op) ps). tighter op p"
    by (auto dest: set_takeWhileD)
  have "assemble ps (Leaf x) =
      assemble (dropWhile (tighter op) ps) (assemble (takeWhile (tighter op) ps) (Leaf x))"
    by (metis assemble_append takeWhile_dropWhile_id)
  then show ?thesis
    by (simp only: climb_assemble_loose [OF rising_drop [OF assms]] climb_assemble_tight [OF tight]
        assemble.simps prod.sel)
qed

lemma rising_step:
  assumes "rising ps"
  shows "rising ((op, u) # dropWhile (tighter op) ps)"
proof -
  have "sorted_wrt (\<lambda>p q. GetPrecedence (fst p) > GetPrecedence (fst q))
      (takeWhile (tighter op) ps @ dropWhile (tighter op) ps)"
    using assms by (simp add: rising_def)
  then have "rising (dropWhile (tighter op) ps)"
    by (simp only: sorted_wrt_append rising_def)
  then show ?thesis
    using rising_drop [OF assms, of op] by (auto simp: rising_def tighter_def)
qed

text \<open>The stacks after a value, and the reduction before the next one.\<close>

definition stacks_hold :: "(ExprKind \<times> optree) list \<Rightarrow> optree \<Rightarrow> ExprState \<Rightarrow> bool" where
  "stacks_hold ps t st \<longleftrightarrow>
    operations st = map fst ps \<and> map tree_of (expressions st) = t # map snd ps
    \<and> length (saved_locations st) = length ps \<and> fst ` set ps \<subseteq> binary_kinds"

lemma reduce_all_tree:
  "stacks_hold ps t st \<Longrightarrow>
   \<exists>st' e. reduce_all st = Some st' \<and> expressions st' = [e] \<and> tree_of e = assemble ps t"
proof (induction ps arbitrary: t st)
  case Nil
  then show ?case by (auto simp: stacks_hold_def reduce_all.simps [of st])
next
  case (Cons p ps)
  obtain r l es loc ls where s: "expressions st = r # l # es" "saved_locations st = loc # ls"
    "tree_of r = t" "tree_of l = snd p" "map tree_of es = map snd ps" "length ls = length ps"
    using Cons.prems by (auto simp: stacks_hold_def length_Suc_conv)
  let ?st = "st\<lparr>operations := map fst ps, expressions := EBinary (fst p) loc l r # es, saved_locations := ls\<rparr>"
  have "reduce_all st = reduce_all ?st"
    using Cons.prems s by (simp add: reduce_all.simps [of st] apply_binary_def stacks_hold_def)
  moreover have "stacks_hold ps (Node (fst p) (snd p) t) ?st"
    using Cons.prems s by (simp add: stacks_hold_def)
  ultimately show ?case
    using Cons.IH [of "Node (fst p) (snd p) t" ?st] by simp
qed

lemma reduce_while_tree:
  "stacks_hold ps t st \<Longrightarrow>
   \<exists>st' e es ls. reduce_while (push_op op loc st) = Some st'
     \<and> st' = st\<lparr>operations := op # map fst (dropWhile (tighter op) ps), expressions := e # es,
         saved_locations := ls\<rparr>
     \<and> tree_of e = assemble (takeWhile (tighter op) ps) t
     \<and> map tree_of es = map snd (dropWhile (tighter op) ps)
     \<and> length ls = Suc (length (dropWhile (tighter op) ps))"
proof (induction ps arbitrary: t st loc)
  case Nil
  then obtain e where e: "expressions st = [e]" "tree_of e = t" "operations st = []" "saved_locations st = []"
    by (auto simp: stacks_hold_def)
  then have "reduce_while (push_op op loc st) = Some (push_op op loc st)"
    by (subst reduce_while.simps) (simp add: push_op_def)
  with e show ?case
    by (intro exI [of _ "push_op op loc st"] exI [of _ e] exI [of _ "[]"] exI [of _ "[loc]"])
      (simp add: push_op_def)
next
  case (Cons p ps)
  obtain r l es loc' ls where s: "expressions st = r # l # es" "saved_locations st = loc' # ls"
    "tree_of r = t" "tree_of l = snd p" "map tree_of es = map snd ps" "length ls = length ps"
    "operations st = fst p # map fst ps"
    using Cons.prems by (auto simp: stacks_hold_def length_Suc_conv)
  show ?case
  proof (cases "tighter op p")
    case True
    let ?st = "st\<lparr>operations := map fst ps, expressions := EBinary (fst p) loc l r # es, saved_locations := ls\<rparr>"
    have "reduce_while (push_op op loc st) = reduce_while (push_op op loc' ?st)"
      using True s
      by (subst reduce_while.simps, cases st) (simp add: apply_binary_def push_op_def tighter_def)
    moreover have "stacks_hold ps (Node (fst p) (snd p) t) ?st"
      using Cons.prems s by (simp add: stacks_hold_def)
    ultimately show ?thesis
      using Cons.IH [of "Node (fst p) (snd p) t" ?st loc'] True by auto
  next
    case False
    then have "reduce_while (push_op op loc st) = Some (push_op op loc st)"
      using s by (subst reduce_while.simps) (simp add: push_op_def tighter_def)
    then show ?thesis
      using False s by (intro exI [of _ "push_op op loc st"] exI [of _ r] exI [of _ "l # es"] exI [of _ "loc # loc' # ls"])
        (simp add: push_op_def)
  qed
qed

section \<open>Sequences of operands\<close>

text \<open>An operand of one token, and a sequence of operations and operands with its end.\<close>

definition operand :: "TokenStream \<Rightarrow> nat \<Rightarrow> ASTExpression option" where
  "operand ts i =
    (if tok_type (get_token ts i) = TOKEN_ID then map_option (EIdentifier i) (get_str ts i)
     else if tok_type (get_token ts i) = TOKEN_LITERAL_INTEGER then map_option (ELitInt i) (get_num ts i)
     else None)"

definition infix_here :: "TokenStream \<Rightarrow> nat \<Rightarrow> (ExprKind \<times> nat) option" where
  "infix_here ts i =
    infix_operator (tok_type (get_token ts i)) (tok_type (get_token ts (i + 1))) (compact (get_token ts i))"

fun operations_at :: "TokenStream \<Rightarrow> nat \<Rightarrow> (ExprKind \<times> ASTExpression) list \<Rightarrow> nat \<Rightarrow> bool" where
  "operations_at ts i [] j \<longleftrightarrow>
    i = j \<and> infix_here ts i = None
    \<and> tok_type (get_token ts i) \<notin> {TOKEN_CHR CHR ''.'', TOKEN_CHR CHR ''['', TOKEN_CHR CHR ''(''}"
| "operations_at ts i ((op, e) # xs) j \<longleftrightarrow>
    (case infix_here ts i of
       None \<Rightarrow> False
     | Some (op', k) \<Rightarrow>
         op' = op \<and> op \<in> binary_kinds \<and> operand ts (i + k) = Some e \<and> operations_at ts (i + k + 1) xs j)"

lemma infix_at_here: "infix_at ts ctx = infix_here ts (head ctx)"
  by (simp add: infix_here_def gettok_def)

lemma operations_at_no_call: "operations_at ts i xs j \<Longrightarrow> tok_type (get_token ts i) \<noteq> TOKEN_CHR CHR ''(''"
  by (cases "(ts, i, xs, j)" rule: operations_at.cases)
    (auto simp: infix_here_def infix_operator_def CharToExprType_def split: option.splits)

text \<open>An iteration at an operand pushes it.\<close>

lemma operand_step:
  assumes ts: "wf_stream ts" and x: "operand ts (head ctx) = Some x"
    and call: "tok_type (get_token ts (Suc (head ctx))) \<noteq> TOKEN_CHR CHR ''(''"
    and st: "\<not> is_operator st" "operations st = [] \<or> hd (operations st) \<notin> unary_kinds"
  shows "\<exists>s k d. expr_loop (Suc n) junk ts st ctx =
    expr_loop n junk ts (st\<lparr>expressions := x # expressions st, px_name := s, px_number := k,
      px_decimal := d, is_operator := True\<rparr>) (advance 1 ctx)"
proof -
  obtain s k d where rv: "read_values ts (head ctx) st = Some (st\<lparr>px_name := s, px_number := k, px_decimal := d\<rparr>)"
    using readable_values [OF ts] by blast
  let ?st = "st\<lparr>px_name := s, px_number := k, px_decimal := d\<rparr>"
  have v: "val_pos ts ctx st ?st" using rv st by (simp add: val_pos_def)
  have av: "after_value (push_expr x ?st) = Some (st\<lparr>expressions := x # expressions st, px_name := s, px_number := k,
      px_decimal := d, is_operator := True\<rparr>)"
  proof -
    have "resolve_unary (push_expr x ?st) = Some (push_expr x ?st)"
      using st by (subst resolve_unary.simps, cases "operations st") (simp_all add: push_expr_def)
    then show ?thesis
      by (cases st) (simp add: after_value_def push_expr_def)
  qed
  have read: "token_str ts (head ctx) (px_name st) = Some s" "token_num ts (head ctx) (px_number st) = Some k"
    using rv by (cases st, auto simp: read_values_def bind_eq_Some_conv)+
  have kinds: "kind_at ts ctx 0 = tok_type (get_token ts (head ctx))"
    "kind_at ts ctx 1 = tok_type (get_token ts (Suc (head ctx)))" by (simp_all add: gettok_def)
  have "kind_at ts ctx 0 = TOKEN_ID \<and> x = EIdentifier (head ctx) s
    \<or> kind_at ts ctx 0 = TOKEN_LITERAL_INTEGER \<and> x = ELitInt (head ctx) k"
    using x read unfolding kinds
    by (auto simp: operand_def token_str_def token_num_def split: if_splits)
  then show ?thesis
  proof (elim disjE conjE)
    assume "kind_at ts ctx 0 = TOKEN_ID" "x = EIdentifier (head ctx) s"
    then show ?thesis
      using loop_ident [OF v _ _ , of _ n junk] call av kinds by (intro exI [of _ s] exI [of _ k] exI [of _ d]) simp
  next
    assume "kind_at ts ctx 0 = TOKEN_LITERAL_INTEGER" "x = ELitInt (head ctx) k"
    then show ?thesis
      using loop_literal [OF v, of x 1 _ n junk] av
      by (intro exI [of _ s] exI [of _ k] exI [of _ d]) (simp add: prefix_operator_def literal_value_def)
  qed
qed

lemma operations_parsed:
  assumes ts: "wf_stream ts"
  shows "operations_at ts (head ctx) xs j \<Longrightarrow> stacks_hold ps (Leaf x) st \<Longrightarrow> rising ps \<Longrightarrow> is_operator st \<Longrightarrow>
    2 * length xs + 1 \<le> n \<Longrightarrow>
    \<exists>e. expr_loop n junk ts st ctx = Some (Some e, ctx\<lparr>head := j\<rparr>)
      \<and> tree_of e = foldl (\<lambda>t (op, e). climb t op e) (assemble ps (Leaf x)) xs"
proof (induction xs arbitrary: ctx ps x st n)
  case Nil
  then obtain m where n: "n = Suc m" by (cases n) auto
  obtain s k d where rv: "read_values ts (head ctx) st = Some (st\<lparr>px_name := s, px_number := k, px_decimal := d\<rparr>)"
    using readable_values [OF ts] by blast
  let ?st = "st\<lparr>px_name := s, px_number := k, px_decimal := d\<rparr>"
  have op: "op_pos ts ctx st ?st" using rv Nil.prems(4) by (simp add: op_pos_def)
  have "stacks_hold ps (Leaf x) ?st" using Nil.prems(2) by (simp add: stacks_hold_def)
  then obtain st' e where r: "reduce_all ?st = Some st'" "expressions st' = [e]" "tree_of e = assemble ps (Leaf x)"
    using reduce_all_tree by blast
  have "expr_loop n junk ts st ctx = Some (Some e, ctx)"
    unfolding n using Nil.prems(1) r
    by (intro loop_end [OF op _ _ _ r(1,2)]) (auto simp: infix_here_def gettok_def)
  then show ?case
    using r(3) Nil.prems(1) by simp
next
  case (Cons a xs)
  obtain op y where a: "a = (op, y)" by (cases a)
  obtain k where k: "infix_here ts (head ctx) = Some (op, k)" "op \<in> binary_kinds"
    "operand ts (head ctx + k) = Some y" "operations_at ts (head ctx + k + 1) xs j"
    using Cons.prems(1) a by (auto split: option.splits)
  obtain m where n: "n = Suc (Suc m)" "2 * length xs + 1 \<le> m"
    using Cons.prems(5) by (cases n; cases "n - 1") auto
  obtain s i d where rv: "read_values ts (head ctx) st = Some (st\<lparr>px_name := s, px_number := i, px_decimal := d\<rparr>)"
    using readable_values [OF ts] by blast
  let ?st = "st\<lparr>px_name := s, px_number := i, px_decimal := d\<rparr>"
  have opp: "op_pos ts ctx st ?st" using rv Cons.prems(4) by (simp add: op_pos_def)
  have "stacks_hold ps (Leaf x) ?st" using Cons.prems(2) by (simp add: stacks_hold_def)
  then obtain e es ls where r: "reduce_while (push_op op (head ctx) ?st) = Some (?st\<lparr>operations := op # map fst (dropWhile (tighter op) ps),
      expressions := e # es, saved_locations := ls\<rparr>)"
    "tree_of e = assemble (takeWhile (tighter op) ps) (Leaf x)"
    "map tree_of es = map snd (dropWhile (tighter op) ps)" "length ls = Suc (length (dropWhile (tighter op) ps))"
    using reduce_while_tree by blast
  let ?st1 = "?st\<lparr>operations := op # map fst (dropWhile (tighter op) ps), expressions := e # es,
      saved_locations := ls, is_operator := False\<rparr>"
  have np: "op \<noteq> POST_INCREMENT" "op \<noteq> POST_DECREMENT" "op \<notin> unary_kinds"
    using k(2) binary_not_unary by (auto simp: binary_kinds_def)
  have opk: "infix_at ts ctx = Some (op, k)" using k(1) by (simp add: infix_here_def gettok_def)
  have l1: "expr_loop n junk ts st ctx = expr_loop (Suc m) junk ts ?st1 (advance k ctx)"
    unfolding n(1) using r(1) np
    by (intro loop_infix [OF opp opk]) (simp_all add: after_operator_def)
  obtain s' i' d' where l2: "expr_loop (Suc m) junk ts ?st1 (advance k ctx) =
      expr_loop m junk ts (?st1\<lparr>expressions := y # expressions ?st1, px_name := s', px_number := i',
        px_decimal := d', is_operator := True\<rparr>) (advance 1 (advance k ctx))"
    using operand_step [OF ts, of "advance k ctx" y ?st1 m junk] k(3) np(3) operations_at_no_call [OF k(4)]
    by auto
  let ?ps = "(op, assemble (takeWhile (tighter op) ps) (Leaf x)) # dropWhile (tighter op) ps"
  have y: "tree_of y = Leaf y" using k(3) by (auto simp: operand_def split: if_splits)
  have sh: "stacks_hold ?ps (Leaf y) (?st1\<lparr>expressions := y # expressions ?st1, px_name := s', px_number := i',
        px_decimal := d', is_operator := True\<rparr>)"
    using r(2-4) y k(2) Cons.prems(2) set_dropWhileD [of _ "tighter op" ps]
    by (auto simp: stacks_hold_def)
  have "\<exists>e. expr_loop m junk ts (?st1\<lparr>expressions := y # expressions ?st1, px_name := s', px_number := i',
        px_decimal := d', is_operator := True\<rparr>) (advance 1 (advance k ctx))
      = Some (Some e, (advance 1 (advance k ctx))\<lparr>head := j\<rparr>)
      \<and> tree_of e = foldl (\<lambda>t (op, e). climb t op e) (assemble ?ps (Leaf y)) xs"
    using k(4) n(2) by (intro Cons.IH [OF _ sh rising_step [OF Cons.prems(3)]]) simp_all
  then show ?case
    using l1 l2 climb_assemble [OF Cons.prems(3), of x op y] a by (auto simp: advance_def)
qed

section \<open>Properties\<close>

lemma resolve_unary_done: "operations st = [] \<Longrightarrow> resolve_unary st = Some st"
  by (subst resolve_unary.simps) simp

text \<open>
  C3. Operands separated by binary operators are read as the reference reads them: the parser
  consumes exactly the sequence and builds the tree got by descending the right edge for each
  operation.  That tree has the operands and operations in their order, every operation binds
  tighter than the one above it (on the left at least as tightly), and it is the only such tree.
\<close>

theorem parse_precedence:
  assumes "wf_stream ts" and "operand ts (head ctx) = Some x"
    and "operations_at ts (head ctx + 1) xs j" and "2 * length xs + 2 \<le> n"
  shows "\<exists>e. parseExpression n junk ts ctx = Some (Some e, ctx\<lparr>head := j\<rparr>)
    \<and> tree_of e = climb_all x xs
    \<and> in_order (tree_of e) = (x, xs) \<and> precedence_ok (tree_of e)
    \<and> (\<forall>t. in_order t = (x, xs) \<and> precedence_ok t \<longrightarrow> t = tree_of e)"
proof -
  obtain m where n: "n = Suc m" "2 * length xs + 1 \<le> m"
    using assms(4) by (cases n) auto
  obtain s k d where step: "parseExpression n junk ts ctx = expr_loop m junk ts ((expr_init junk)
      \<lparr>expressions := x # [], px_name := s, px_number := k, px_decimal := d, is_operator := True\<rparr>) (advance 1 ctx)"
    using operand_step [OF assms(1,2), of "expr_init junk" m junk] operations_at_no_call [OF assms(3)]
    by (auto simp: parseExpression_def n(1) expr_init_def)
  have "tree_of x = Leaf x"
    using assms(2) by (auto simp: operand_def split: if_splits)
  then have "\<exists>e. parseExpression n junk ts ctx = Some (Some e, (advance 1 ctx)\<lparr>head := j\<rparr>)
      \<and> tree_of e = foldl (\<lambda>t (op, e). climb t op e) (assemble [] (Leaf x)) xs"
    unfolding step using assms(3) n(2)
    by (intro operations_parsed [OF assms(1)])
      (simp_all add: stacks_hold_def expr_init_def rising_def)
  then obtain e where e: "parseExpression n junk ts ctx = Some (Some e, ctx\<lparr>head := j\<rparr>)"
    "tree_of e = climb_all x xs"
    by (auto simp: climb_all_def advance_def)
  have "t = climb_all x xs" if "in_order t = (x, xs)" "precedence_ok t" for t
    using climb_all_in_order [OF that(2)] that(1) by simp
  with e in_order_climb_all precedence_ok_climb_all show ?thesis
    by (intro exI [of _ e]) simp
qed

text \<open>\<^verbatim>\<open>1 - 2 * 3 - 4;\<close>\<close>

definition sample_operations :: TokenStream where
  "sample_operations =
    add (TOKEN_CHR CHR '';'') 1 15 (add_int 4 1 13 (add (TOKEN_CHR CHR ''-'') 1 11 (add_int 3 1 9
      (add (TOKEN_CHR CHR ''*'') 1 7 (add_int 2 1 5 (add (TOKEN_CHR CHR ''-'') 1 3
        (add_int 1 1 1 (new_stream ''a.tin'' 15))))))))"

definition start_ctx :: ParseContext where
  "start_ctx = \<lparr>head = 0, ast = initial_ast, errors = 0, current_scopeId = 0\<rparr>"

lemma sample_operations_tokens:
  "map tok_type (tokens sample_operations) =
    [TOKEN_LITERAL_INTEGER, TOKEN_CHR CHR ''-'', TOKEN_LITERAL_INTEGER, TOKEN_CHR CHR ''*'',
     TOKEN_LITERAL_INTEGER, TOKEN_CHR CHR ''-'', TOKEN_LITERAL_INTEGER, TOKEN_CHR CHR '';'']"
  "wf_stream sample_operations"
  "map (get_num sample_operations) [0, 2, 4, 6] = [Some 1, Some 2, Some 3, Some 4]"
  by (simp_all add: sample_operations_def add_defs add_def push_token_def new_stream_def wf_stream_def
      indices_of_def str_kinds_def get_num_def get_token_def)

lemma sample_operations_at:
  "operand sample_operations 0 = Some (ELitInt 0 1)"
  "operations_at sample_operations 1 [(SUB, ELitInt 2 2), (MUL, ELitInt 4 3), (SUB, ELitInt 6 4)] 7"
  by (simp_all add: sample_operations_def add_defs push_token_def new_stream_def operand_def
      infix_here_def infix_operator_def CharToExprType_def get_num_def get_token_def nth_opt_def
      binary_kinds_def eof_token_def)

theorem parse_precedence_witness:
  "\<exists>e. parseExpression 8 0 sample_operations start_ctx = Some (Some e, start_ctx\<lparr>head := 7\<rparr>)
    \<and> tree_of e = Node SUB (Node SUB (Leaf (ELitInt 0 1))
        (Node MUL (Leaf (ELitInt 2 2)) (Leaf (ELitInt 4 3)))) (Leaf (ELitInt 6 4))"
  using parse_precedence [OF sample_operations_tokens(2), of start_ctx "ELitInt 0 1"
      "[(SUB, ELitInt 2 2), (MUL, ELitInt 4 3), (SUB, ELitInt 6 4)]" 7 8 0] sample_operations_at
  by (auto simp: start_ctx_def climb_all_def GetPrecedence_def)


text \<open>\<^verbatim>\<open>-5;\<close>\<close>

definition sample_negative :: TokenStream where
  "sample_negative =
    add (TOKEN_CHR CHR '';'') 1 3 (add_int 5 1 2 (add (TOKEN_CHR CHR ''-'') 1 1 (new_stream ''a.tin'' 3)))"



text \<open>\<^verbatim>\<open>&a.b;\<close>\<close>

definition sample_member :: TokenStream where
  "sample_member =
    add (TOKEN_CHR CHR '';'') 1 5 (add_id ''b'' 1 4 (add (TOKEN_CHR CHR ''.'') 1 3 (add_id ''a'' 1 2
      (add (TOKEN_CHR CHR ''&'') 1 1 (new_stream ''a.tin'' 5)))))"


end
