(* ===== verification/VirtualMachine.thy ===== *)
theory VirtualMachine
  imports Bytecode "HOL-Library.AList" "HOL-Library.Signed_Division"
begin

text \<open>
  include/VirtualMachine.h and src/VirtualMachine.cpp: the interpreter of the bytecode.  Memory
  is one map from 64-bit addresses to bytes; the addresses that belong to the program are those
  of the stack, of the copy of the global data and of the blocks it allocated.  A read or write
  through a plain pointer outside of them has no defined result and is \<open>None\<close>; the checked
  accesses of the \<^verbatim>\<open>mov\<close> instructions go through \<open>can_access_memory\<close>, as in the code.

  What the hardware and the system do is a parameter of the model: arithmetic on floats, the
  addresses the allocator returns, the files there are.  The messages of the machine and its
  interactive mode are left out; what the program itself prints is part of the state.
\<close>

section \<open>State\<close>

record vm_env =
  fl_add :: "f32 \<Rightarrow> f32 \<Rightarrow> f32"
  fl_sub :: "f32 \<Rightarrow> f32 \<Rightarrow> f32"
  fl_mul :: "f32 \<Rightarrow> f32 \<Rightarrow> f32"
  fl_div :: "f32 \<Rightarrow> f32 \<Rightarrow> f32"
  fl_eq :: "f32 \<Rightarrow> f32 \<Rightarrow> bool"
  fl_less :: "f32 \<Rightarrow> f32 \<Rightarrow> bool"
  fl_less_eq :: "f32 \<Rightarrow> f32 \<Rightarrow> bool"
  fl_of_int :: "i32 \<Rightarrow> f32"
  fl_to_int :: "f32 \<Rightarrow> i32"
  fl_pow :: "f32 \<Rightarrow> f32 \<Rightarrow> f32"
  fl_sqrt :: "f32 \<Rightarrow> f32"
  env_alloc :: "(i64 \<times> int) list \<Rightarrow> int \<Rightarrow> i64" \<comment> \<open>the allocator, 0 when it fails\<close>
  env_writable :: "u8 list \<Rightarrow> bool" \<comment> \<open>whether a file can be opened for writing\<close>
  env_stack :: i64
  env_global :: i64

datatype vm_output = OutInt i32 | OutFloat f32 | OutChar u8 | OutStr "u8 list"

record VM =
  vm_mem :: "i64 \<Rightarrow> u8"
  stack_base :: i64
  stack_max :: nat
  global_base :: i64
  global_size :: nat
  registers :: "Register \<Rightarrow> i64"
  vm_piece :: int
  allocations :: "(i64 \<times> int) list"
  vm_output :: "vm_output list"
  vm_files :: "(u8 list \<times> u8 list) list"

text \<open>Why the loop ends: \<^verbatim>\<open>running = false\<close>, a \<^verbatim>\<open>break\<close> or a \<^verbatim>\<open>return\<close> after a message.\<close>

datatype vm_stop = Finished | AccessViolation | PcOutOfBounds | StackOverflow | FrameMismatch

type_synonym vm_result = "(vm_stop option \<times> VM) option"

abbreviation go :: "VM \<Rightarrow> vm_result" where "go vm \<equiv> Some (None, vm)"
abbreviation stop :: "vm_stop \<Rightarrow> VM \<Rightarrow> vm_result" where "stop r vm \<equiv> Some (Some r, vm)"

definition reg_of_byte :: "u8 \<Rightarrow> Register option" where
  "reg_of_byte b = nth_opt all_registers (unat b)"

definition set_reg :: "Register \<Rightarrow> i64 \<Rightarrow> VM \<Rightarrow> VM" where
  "set_reg r v vm = vm\<lparr>registers := (registers vm)(r := v)\<rparr>"

text \<open>A write through a pointer to the low four bytes of a register.\<close>

definition set_low :: "f32 \<Rightarrow> i64 \<Rightarrow> i64" where
  "set_low x w = (w AND NOT (mask 32)) OR ucast x"

definition low :: "i64 \<Rightarrow> f32" where
  "low w = ucast w"

section \<open>Memory\<close>

text \<open>Little-endian numbers of \<open>n\<close> bytes.\<close>

primrec load :: "(i64 \<Rightarrow> u8) \<Rightarrow> i64 \<Rightarrow> nat \<Rightarrow> i64" where
  "load m a 0 = 0"
| "load m a (Suc n) = ucast (m a) OR push_bit 8 (load m (a + 1) n)"

primrec store :: "(i64 \<Rightarrow> u8) \<Rightarrow> i64 \<Rightarrow> nat \<Rightarrow> i64 \<Rightarrow> (i64 \<Rightarrow> u8)" where
  "store m a 0 w = m"
| "store m a (Suc n) w = (store m (a + 1) n (drop_bit 8 w))(a := ucast w)"

text \<open>The check of the machine, with the wrap-around of its 64-bit addition.\<close>

definition region_check :: "i64 \<Rightarrow> int \<Rightarrow> int \<Rightarrow> i64 \<Rightarrow> bool" where
  "region_check base limit sz ptr \<longleftrightarrow> (ptr - base) + word_of_int sz \<le> word_of_int limit"

definition can_access_memory :: "VM \<Rightarrow> i64 \<Rightarrow> int \<Rightarrow> bool" where
  "can_access_memory vm ptr sz \<longleftrightarrow>
    region_check (stack_base vm) (int (stack_max vm)) sz ptr
    \<or> region_check (global_base vm) (int (global_size vm)) sz ptr
    \<or> (\<exists>(p, n)\<in>set (allocations vm). region_check p n sz ptr)"

text \<open>What belongs to the program.\<close>

definition in_region :: "i64 \<Rightarrow> int \<Rightarrow> nat \<Rightarrow> i64 \<Rightarrow> bool" where
  "in_region base limit n ptr \<longleftrightarrow> uint (ptr - base) + int n \<le> limit"

definition mapped :: "VM \<Rightarrow> i64 \<Rightarrow> nat \<Rightarrow> bool" where
  "mapped vm ptr n \<longleftrightarrow>
    in_region (stack_base vm) (int (stack_max vm)) n ptr
    \<or> in_region (global_base vm) (int (global_size vm)) n ptr
    \<or> (\<exists>(p, k)\<in>set (allocations vm). in_region p k n ptr)"

definition raw_load :: "nat \<Rightarrow> i64 \<Rightarrow> VM \<Rightarrow> i64 option" where
  "raw_load n ptr vm = (if mapped vm ptr n then Some (load (vm_mem vm) ptr n) else None)"

definition raw_store :: "nat \<Rightarrow> i64 \<Rightarrow> i64 \<Rightarrow> VM \<Rightarrow> VM option" where
  "raw_store n ptr w vm =
    (if mapped vm ptr n then Some (vm\<lparr>vm_mem := store (vm_mem vm) ptr n w\<rparr>) else None)"

text \<open>A zero-terminated string.\<close>

partial_function (option) raw_string :: "VM \<Rightarrow> i64 \<Rightarrow> u8 list option" where
  "raw_string vm ptr =
    (if \<not> mapped vm ptr 1 then None
     else if vm_mem vm ptr = 0 then Some []
     else do { s \<leftarrow> raw_string vm (ptr + 1); Some (vm_mem vm ptr # s) })"

primrec store_bytes :: "(i64 \<Rightarrow> u8) \<Rightarrow> i64 \<Rightarrow> u8 list \<Rightarrow> (i64 \<Rightarrow> u8)" where
  "store_bytes m a [] = m"
| "store_bytes m a (b # bs) = (store_bytes m (a + 1) bs)(a := b)"

section \<open>The stack\<close>

definition stack_out :: "VM \<Rightarrow> bool" where
  "stack_out vm \<longleftrightarrow>
    sint (registers vm REG_SP) > sint (stack_base vm + of_nat (stack_max vm))
    \<or> sint (registers vm REG_SP) < sint (stack_base vm)"

definition move_sp :: "int \<Rightarrow> VM \<Rightarrow> VM" where
  "move_sp k vm = set_reg REG_SP (registers vm REG_SP + word_of_int k) vm"

text \<open>\<^verbatim>\<open>CHECK_STACK\<close>: the rest of the instruction follows only inside the stack.\<close>

definition check_stack :: "VM \<Rightarrow> (VM \<Rightarrow> vm_result) \<Rightarrow> vm_result" where
  "check_stack vm k = (if stack_out vm then stop StackOverflow vm else k vm)"

definition push_value :: "nat \<Rightarrow> (VM \<Rightarrow> i64) \<Rightarrow> VM \<Rightarrow> (VM \<Rightarrow> vm_result) \<Rightarrow> vm_result" where
  "push_value n w vm k =
    check_stack (move_sp (- int n) vm)
      (\<lambda>vm1. do { vm2 \<leftarrow> raw_store n (registers vm1 REG_SP) (w vm1) vm1; k vm2 })"

text \<open>A pop reads before it checks.\<close>

definition pop_value :: "nat \<Rightarrow> VM \<Rightarrow> (i64 \<Rightarrow> VM \<Rightarrow> VM) \<Rightarrow> (VM \<Rightarrow> vm_result) \<Rightarrow> vm_result" where
  "pop_value n vm f k =
    do {
      w \<leftarrow> raw_load n (registers vm REG_SP) vm;
      check_stack (move_sp (int n) (f w vm)) k
    }"

section \<open>Native functions\<close>

definition native_of :: "int \<Rightarrow> NativeCalls option" where
  "native_of i = (if i < 0 then None else nth_opt all_natives (nat i))"

definition print_out :: "vm_output \<Rightarrow> VM \<Rightarrow> VM" where
  "print_out x vm = vm\<lparr>vm_output := vm_output vm @ [x]\<rparr>"

text \<open>An argument at an offset from the stack pointer, and the place of the result below it.\<close>

definition arg_at :: "nat \<Rightarrow> int \<Rightarrow> VM \<Rightarrow> i64 option" where
  "arg_at n off vm = raw_load n (registers vm REG_SP + word_of_int off) vm"

definition ret_to :: "nat \<Rightarrow> i64 \<Rightarrow> VM \<Rightarrow> VM option" where
  "ret_to n w vm = raw_store n (registers vm REG_SP - 24) w vm"

definition native_malloc :: "vm_env \<Rightarrow> VM \<Rightarrow> VM option" where
  "native_malloc env vm =
    do {
      arg0 \<leftarrow> arg_at 4 0 vm;
      let sz = sint (low arg0);
      let p = env_alloc env (allocations vm) sz;
      vm1 \<leftarrow> ret_to 8 p vm;
      Some (if p \<noteq> 0 then vm1\<lparr>allocations := AList.update p sz (allocations vm1)\<rparr> else vm1)
    }"

text \<open>A pointer that was not allocated is only reported.\<close>

definition native_mfree :: "VM \<Rightarrow> VM option" where
  "native_mfree vm =
    do {
      arg0 \<leftarrow> arg_at 8 0 vm;
      Some (if arg0 = 0 \<or> map_of (allocations vm) arg0 = None then vm
            else vm\<lparr>allocations := AList.delete arg0 (allocations vm)\<rparr>)
    }"

definition native_memcpy :: "VM \<Rightarrow> VM option" where
  "native_memcpy vm =
    do {
      dst \<leftarrow> arg_at 8 0 vm;
      src \<leftarrow> arg_at 8 8 vm;
      arg2 \<leftarrow> arg_at 4 16 vm;
      let n = unat (scast (low arg2) :: i64);
      if mapped vm dst n \<and> mapped vm src n
      then Some (vm\<lparr>vm_mem := (\<lambda>a. if unat (a - dst) < n then vm_mem vm (src + (a - dst))
                                    else vm_mem vm a)\<rparr>)
      else None
    }"

text \<open>The size goes out even when the data is not wanted; the block counts as allocated.\<close>

definition native_read_file :: "vm_env \<Rightarrow> VM \<Rightarrow> VM option" where
  "native_read_file env vm =
    do {
      path \<leftarrow> arg_at 8 0 vm;
      out_data \<leftarrow> arg_at 8 8 vm;
      out_size \<leftarrow> arg_at 8 16 vm;
      name \<leftarrow> raw_string vm path;
      (case map_of (vm_files vm) name of
         None \<Rightarrow> ret_to 1 0 vm
       | Some bytes \<Rightarrow>
           do {
             vm1 \<leftarrow> ret_to 1 1 vm;
             let sz = sint (of_nat (length bytes) :: i32);
             vm2 \<leftarrow> (if out_size \<noteq> 0 then raw_store 4 out_size (word_of_int sz) vm1 else Some vm1);
             if out_data = 0 then Some vm2
             else do {
               let p = env_alloc env (allocations vm2) sz;
               let vm3 = vm2\<lparr>allocations := AList.update p sz (allocations vm2)\<rparr>;
               if p = 0 then None
               else raw_store 8 out_data p (vm3\<lparr>vm_mem := store_bytes (vm_mem vm3) p (take (nat sz) bytes)\<rparr>)
             }
           })
    }"

text \<open>
  Opening the file for writing empties it.  The data is written only when its size is negative,
  and then the stream refuses the write.
\<close>

definition native_write_file :: "vm_env \<Rightarrow> VM \<Rightarrow> VM option" where
  "native_write_file env vm =
    do {
      path \<leftarrow> arg_at 8 0 vm;
      out_data \<leftarrow> arg_at 8 8 vm;
      out_size \<leftarrow> arg_at 4 16 vm;
      name \<leftarrow> raw_string vm path;
      if \<not> env_writable env name then ret_to 1 0 vm
      else do {
        vm1 \<leftarrow> ret_to 1 1 vm;
        Some (vm1\<lparr>vm_files := AList.update name [] (vm_files vm1)\<rparr>)
      }
    }"

definition run_native_call :: "vm_env \<Rightarrow> NativeCalls \<Rightarrow> VM \<Rightarrow> VM option" where
  "run_native_call env f vm =
    (case f of
       NATIVE_printi \<Rightarrow> do { x \<leftarrow> arg_at 4 0 vm; Some (print_out (OutInt (low x)) vm) }
     | NATIVE_printf \<Rightarrow> do { x \<leftarrow> arg_at 4 0 vm; Some (print_out (OutFloat (low x)) vm) }
     | NATIVE_printc \<Rightarrow> do { x \<leftarrow> arg_at 1 0 vm; Some (print_out (OutChar (ucast x)) vm) }
     | NATIVE_prints \<Rightarrow>
         do { p \<leftarrow> arg_at 8 0 vm; s \<leftarrow> raw_string vm p; Some (print_out (OutStr s) vm) }
     | NATIVE_malloc \<Rightarrow> native_malloc env vm
     | NATIVE_mfree \<Rightarrow> native_mfree vm
     | NATIVE_memcpy \<Rightarrow> native_memcpy vm
     | NATIVE_pow \<Rightarrow>
         do { x \<leftarrow> arg_at 4 0 vm; y \<leftarrow> arg_at 4 4 vm; ret_to 4 (ucast (fl_pow env (low x) (low y))) vm }
     | NATIVE_sqrt \<Rightarrow> do { x \<leftarrow> arg_at 4 0 vm; ret_to 4 (ucast (fl_sqrt env (low x))) vm }
     | NATIVE_read_file \<Rightarrow> native_read_file env vm
     | NATIVE_write_file \<Rightarrow> native_write_file env vm)"

section \<open>Instructions\<close>

definition mov_sizes :: "nat set" where
  "mov_sizes = {1, 2, 4, 8}"

text \<open>
  \<^verbatim>\<open>INST_MOV_MR\<close>.  After the switch the loop reads the written place again for its log, also
  when the access was refused.
\<close>

definition exec_store :: "Register \<Rightarrow> Register \<Rightarrow> nat \<Rightarrow> int \<Rightarrow> VM \<Rightarrow> vm_result" where
  "exec_store to_reg from_reg n imm vm =
    (let ptr = registers vm to_reg + word_of_int imm in
     if can_access_memory vm ptr (int n) then
       (if n \<in> mov_sizes then do { vm1 \<leftarrow> raw_store n ptr (registers vm from_reg) vm; go vm1 } else go vm)
     else if to_reg \<noteq> REG_INVALID \<and> n \<in> mov_sizes then
       do { w \<leftarrow> raw_load n ptr vm; stop AccessViolation vm }
     else stop AccessViolation vm)"

definition exec_load :: "Register \<Rightarrow> Register \<Rightarrow> nat \<Rightarrow> int \<Rightarrow> VM \<Rightarrow> vm_result" where
  "exec_load to_reg from_reg n imm vm =
    (let ptr = registers vm from_reg + word_of_int imm;
         vm1 = set_reg to_reg 0 vm in
     if can_access_memory vm ptr (int n) then
       (if n \<in> mov_sizes then do { w \<leftarrow> raw_load n ptr vm; go (set_reg to_reg w vm1) } else go vm1)
     else stop AccessViolation vm1)"

definition exec_incr :: "Register \<Rightarrow> int \<Rightarrow> VM \<Rightarrow> vm_result" where
  "exec_incr r k vm =
    (let vm1 = set_reg r (registers vm r + word_of_int k) vm in
     if r = REG_SP then check_stack vm1 go else go vm1)"

text \<open>A call pushes the return position, the piece and the base pointer.\<close>

definition exec_call :: "vm_env \<Rightarrow> int \<Rightarrow> VM \<Rightarrow> vm_result" where
  "exec_call env imm vm =
    (if imm < 0 then
       (case native_of (imm + NATIVE_MAX) of
          None \<Rightarrow> go vm
        | Some f \<Rightarrow> do { vm1 \<leftarrow> run_native_call env f vm; go vm1 })
     else
       push_value 4 (\<lambda>s. registers s REG_PC) vm
         (\<lambda>vm1. push_value 4 (\<lambda>s. word_of_int (vm_piece s)) vm1
           (\<lambda>vm2. push_value 8 (\<lambda>s. registers s REG_BP)
               ((set_reg REG_PC 0 vm2)\<lparr>vm_piece := imm - 1\<rparr>)
             (\<lambda>vm3. go (set_reg REG_BP (registers vm3 REG_SP) vm3)))))"

definition set_piece :: "i64 \<Rightarrow> VM \<Rightarrow> VM" where
  "set_piece w vm = vm\<lparr>vm_piece := sint (low w)\<rparr>"

definition exec_ret :: "VM \<Rightarrow> vm_result" where
  "exec_ret vm =
    (if registers vm REG_SP = stack_base vm + of_nat (stack_max vm) then stop Finished vm
     else if registers vm REG_BP \<noteq> registers vm REG_SP then stop FrameMismatch vm
     else
       pop_value 8 vm (set_reg REG_BP)
         (\<lambda>vm1. pop_value 4 vm1 set_piece
           (\<lambda>vm2. pop_value 4 vm2 (\<lambda>w. set_reg REG_PC (scast (low w))) go)))"

text \<open>The check takes the size as an \<^verbatim>\<open>int\<close>, the call of \<^verbatim>\<open>memset\<close> the whole register.\<close>

definition exec_memzero :: "Register \<Rightarrow> Register \<Rightarrow> VM \<Rightarrow> vm_result" where
  "exec_memzero r r_size vm =
    (let ptr = registers vm r; n = unat (registers vm r_size) in
     if \<not> can_access_memory vm ptr (sint (low (registers vm r_size))) then stop AccessViolation vm
     else if mapped vm ptr n
     then go (vm\<lparr>vm_mem := (\<lambda>a. if unat (a - ptr) < n then 0 else vm_mem vm a)\<rparr>)
     else None)"

definition bool_reg :: "bool \<Rightarrow> i64" where
  "bool_reg b = (if b then 1 else 0)"

definition is_float_op :: "u8 \<Rightarrow> bool" where
  "is_float_op control \<longleftrightarrow> control AND CONTROL_FLOAT \<noteq> 0"

text \<open>The macro \<^verbatim>\<open>CASEF\<close>; the division by zero and its overflow stop the process.\<close>

definition exec_arith ::
  "(f32 \<Rightarrow> f32 \<Rightarrow> f32) \<Rightarrow> (i64 \<Rightarrow> i64 \<Rightarrow> i64 option) \<Rightarrow> u8 \<Rightarrow> Register \<Rightarrow> Register \<Rightarrow> VM \<Rightarrow> vm_result" where
  "exec_arith f g control r r' vm =
    (if is_float_op control then
       go (set_reg r (set_low (f (low (registers vm r)) (low (registers vm r'))) (registers vm r)) vm)
     else do { w \<leftarrow> g (registers vm r) (registers vm r'); go (set_reg r w vm) })"

definition signed_div :: "i64 \<Rightarrow> i64 \<Rightarrow> i64 option" where
  "signed_div a b =
    (if b = 0 \<or> (sint a = - (2 ^ 63) \<and> sint b = - 1) then None
     else Some (word_of_int (sint a sdiv sint b)))"

text \<open>The macro \<^verbatim>\<open>CASEC\<close>: on floats, on the low byte, or on the whole register.\<close>

definition exec_compare ::
  "(f32 \<Rightarrow> f32 \<Rightarrow> bool) \<Rightarrow> (int \<Rightarrow> int \<Rightarrow> bool) \<Rightarrow> u8 \<Rightarrow> Register \<Rightarrow> Register \<Rightarrow> VM \<Rightarrow> vm_result" where
  "exec_compare f g control r r' vm =
    (let a = registers vm r; b = registers vm r' in
     go (set_reg r (bool_reg
       (if is_float_op control then f (low a) (low b)
        else if control AND CONTROL_1B \<noteq> 0 then g (sint (ucast a :: u8)) (sint (ucast b :: u8))
        else g (sint a) (sint b))) vm))"

definition exec_cast :: "vm_env \<Rightarrow> u8 \<Rightarrow> Register \<Rightarrow> VM \<Rightarrow> vm_result" where
  "exec_cast env ty r vm =
    (let w = registers vm r in
     if ty = cast_byte CAST_INT_FLOAT then go (set_reg r (set_low (fl_of_int env (low w)) w) vm)
     else if ty = cast_byte CAST_FLOAT_INT then go (set_reg r (set_low (fl_to_int env (low w)) w) vm)
     else go vm)"

definition jump :: "int \<Rightarrow> VM \<Rightarrow> VM" where
  "jump imm vm = set_reg REG_PC (registers vm REG_PC + word_of_int (imm - 1)) vm"

text \<open>The switch; an opcode it does not know only meets an assertion, which is off.\<close>

definition exec_two ::
  "vm_env \<Rightarrow> Opcode \<Rightarrow> u8 \<Rightarrow> Register \<Rightarrow> Register \<Rightarrow> VM \<Rightarrow> vm_result" where
  "exec_two env c control r r' vm =
    (let a = registers vm r; b = registers vm r' in
     case c of
       INST_ADD \<Rightarrow> exec_arith (fl_add env) (\<lambda>x y. Some (x + y)) control r r' vm
     | INST_SUB \<Rightarrow> exec_arith (fl_sub env) (\<lambda>x y. Some (x - y)) control r r' vm
     | INST_MUL \<Rightarrow> exec_arith (fl_mul env) (\<lambda>x y. Some (x * y)) control r r' vm
     | INST_DIV \<Rightarrow> exec_arith (fl_div env) signed_div control r r' vm
     | INST_AND \<Rightarrow> go (set_reg r (bool_reg (a \<noteq> 0 \<and> b \<noteq> 0)) vm)
     | INST_OR \<Rightarrow> go (set_reg r (bool_reg (a \<noteq> 0 \<or> b \<noteq> 0)) vm)
     | INST_NOT \<Rightarrow> go (set_reg r (bool_reg (b = 0)) vm)
     | INST_EQUAL \<Rightarrow> exec_compare (fl_eq env) (=) control r r' vm
     | INST_NOT_EQUAL \<Rightarrow> exec_compare (\<lambda>x y. \<not> fl_eq env x y) (\<noteq>) control r r' vm
     | INST_LESS \<Rightarrow> exec_compare (fl_less env) (<) control r r' vm
     | INST_LESS_EQUAL \<Rightarrow> exec_compare (fl_less_eq env) (\<le>) control r r' vm
     | INST_GREATER \<Rightarrow> exec_compare (\<lambda>x y. fl_less env y x) (>) control r r' vm
     | INST_GREATER_EQUAL \<Rightarrow> exec_compare (\<lambda>x y. fl_less_eq env y x) (\<ge>) control r r' vm
     | _ \<Rightarrow> go vm)"

definition exec_inst :: "vm_env \<Rightarrow> Instruction \<Rightarrow> int \<Rightarrow> VM \<Rightarrow> vm_result" where
  "exec_inst env i imm vm =
    (case opcode_of_byte (opcode i) of
       None \<Rightarrow> go vm
     | Some INST_HALT \<Rightarrow> go vm
     | Some INST_NOP \<Rightarrow> go vm
     | Some INST_RET \<Rightarrow> exec_ret vm
     | Some INST_JMP \<Rightarrow> go (jump imm vm)
     | Some INST_CALL \<Rightarrow> exec_call env imm vm
     | Some c \<Rightarrow>
         do {
           r \<leftarrow> reg_of_byte (op0 i);
           (case c of
              INST_CAST \<Rightarrow> exec_cast env (op1 i) r vm
            | INST_PUSH \<Rightarrow> push_value 8 (\<lambda>s. registers s r) vm go
            | INST_POP \<Rightarrow> pop_value 8 vm (set_reg r) go
            | INST_INCR \<Rightarrow> exec_incr r (incr_imm (op1 i) (op2 i)) vm
            | INST_LI \<Rightarrow> go (set_reg r (word_of_int imm) vm)
            | INST_DATAPTR \<Rightarrow> go (set_reg r (global_base vm + word_of_int imm) vm)
            | INST_JZ \<Rightarrow> go (if registers vm r = 0 then jump imm vm else vm)
            | _ \<Rightarrow>
                do {
                  r' \<leftarrow> reg_of_byte (op1 i);
                  (case c of
                     INST_MOV_RR \<Rightarrow> go (set_reg r (registers vm r') vm)
                   | INST_MOV_MR \<Rightarrow> exec_store r r' (unat (op2 i)) imm vm
                   | INST_MOV_MR_DISP \<Rightarrow> exec_store r r' (unat (op2 i)) imm vm
                   | INST_MOV_RM \<Rightarrow> exec_load r r' (unat (op2 i)) imm vm
                   | INST_MOV_RM_DISP \<Rightarrow> exec_load r r' (unat (op2 i)) imm vm
                   | INST_MEMZERO \<Rightarrow> exec_memzero r r' vm
                   | _ \<Rightarrow> exec_two env c (op2 i) r r' vm)
                })
         })"

text \<open>
  One turn of the loop: the program counter is compared without its sign, the instruction is
  fetched and, when it has one, its immediate, which is read without a check.
\<close>

definition vm_step :: "vm_env \<Rightarrow> Bytecode \<Rightarrow> VM \<Rightarrow> vm_result" where
  "vm_step env bc vm =
    do {
      p \<leftarrow> getPiece (vm_piece vm) bc;
      let pc = unat (registers vm REG_PC);
      if length (instructions p) \<le> pc then stop PcOutOfBounds vm
      else do {
        let i = instructions p ! pc;
        if has_immediate i then do {
          c \<leftarrow> nth_opt (instructions p) (pc + 1);
          exec_inst env i (sint (cell_of_inst c)) (set_reg REG_PC (registers vm REG_PC + 2) vm)
        }
        else exec_inst env i 0 (set_reg REG_PC (registers vm REG_PC + 1) vm)
      }
    }"

section \<open>Execution\<close>

partial_function (option) vm_run :: "vm_env \<Rightarrow> Bytecode \<Rightarrow> VM \<Rightarrow> (vm_stop \<times> VM) option" where
  "vm_run env bc vm =
    do {
      (r, vm') \<leftarrow> vm_step env bc vm;
      (case r of Some s \<Rightarrow> Some (s, vm') | None \<Rightarrow> vm_run env bc vm')
    }"

text \<open>The same loop, stopped after \<open>n\<close> turns.\<close>

primrec vm_steps :: "nat \<Rightarrow> vm_env \<Rightarrow> Bytecode \<Rightarrow> VM \<Rightarrow> vm_result" where
  "vm_steps 0 env bc vm = go vm"
| "vm_steps (Suc n) env bc vm =
    do {
      (r, vm') \<leftarrow> vm_step env bc vm;
      (case r of Some s \<Rightarrow> stop s vm' | None \<Rightarrow> vm_steps n env bc vm')
    }"

definition find_main :: "Bytecode \<Rightarrow> nat option" where
  "find_main bc = find (\<lambda>i. piece_name (pieces bc ! i) = ''main'') [0..<length (pieces bc)]"

text \<open>\<^verbatim>\<open>init\<close> and the start of \<^verbatim>\<open>execute\<close>.\<close>

definition vm_init :: "vm_env \<Rightarrow> Bytecode \<Rightarrow> nat \<Rightarrow> (u8 list \<times> u8 list) list \<Rightarrow> (i64 \<Rightarrow> u8) \<Rightarrow> VM" where
  "vm_init env bc main files junk =
    \<lparr>vm_mem = store_bytes junk (env_global env) (snd (copyGlobalData bc)),
     stack_base = env_stack env, stack_max = 65536, global_base = env_global env,
     global_size = fst (copyGlobalData bc),
     registers = (\<lambda>r. 0)(REG_SP := env_stack env + 65536, REG_BP := env_stack env + 65536),
     vm_piece = int main, allocations = [], vm_output = [], vm_files = files\<rparr>"

text \<open>
  \<^verbatim>\<open>execute\<close>.  The result is \<open>None\<close> inside when there is no code to run.  Blocks the program did
  not free are freed at the end of the loop, not after a \<^verbatim>\<open>return\<close>.
\<close>

definition execute ::
  "vm_env \<Rightarrow> (nat \<Rightarrow> int) \<Rightarrow> Bytecode \<Rightarrow> (u8 list \<times> u8 list) list \<Rightarrow> (i64 \<Rightarrow> u8) \<Rightarrow>
   (vm_stop \<times> VM) option option" where
  "execute env pci bc files junk =
    do {
      bc' \<leftarrow> apply_relocations pci bc;
      (case find_main bc' of
         None \<Rightarrow> Some None
       | Some m \<Rightarrow>
           if instructions (pieces bc' ! m) = [] then Some None
           else do {
             (r, vm) \<leftarrow> vm_run env bc' (vm_init env bc' m files junk);
             Some (Some (r, if r \<in> {Finished, AccessViolation, PcOutOfBounds}
                            then vm\<lparr>allocations := []\<rparr> else vm))
           })
    }"

section \<open>Memory laws\<close>

definition apart :: "i64 \<Rightarrow> nat \<Rightarrow> i64 \<Rightarrow> nat \<Rightarrow> bool" where
  "apart a n b k \<longleftrightarrow> (\<forall>i<n. \<forall>j<k. a + of_nat i \<noteq> b + of_nat j)"

lemma apartI:
  assumes "n \<le> unat (b - a)" and "k \<le> unat (a - b)"
  shows "apart a n b k"
  unfolding apart_def
proof (intro allI impI notI)
  fix i j assume ij: "i < n" "j < k" "a + of_nat i = b + of_nat j"
  have lim: "unat (b - a) < 2 ^ 64" "unat (a - b) < 2 ^ 64"
    using unsigned_less [where w = "b - a" and 'a = nat] unsigned_less [where w = "a - b" and 'a = nat] by simp_all
  show False
  proof (cases "j \<le> i")
    case True
    then have "b - a = of_nat (i - j)" using ij(3) by (simp add: algebra_simps)
    then have "unat (b - a) = i - j" using ij(1) assms(1) lim(1) by (simp add: unat_of_nat take_bit_nat_eq_self)
    with ij(1) assms(1) show False by simp
  next
    case False
    then have "a - b = of_nat (j - i)" using ij(3) by (simp add: algebra_simps)
    then have "unat (a - b) = j - i" using ij(2) assms(2) lim(2) by (simp add: unat_of_nat take_bit_nat_eq_self)
    with ij(2) assms(2) show False by simp
  qed
qed

lemma apart_sym: "apart a n b k \<Longrightarrow> apart b k a n"
  unfolding apart_def by metis

lemma bit_load: "bit (load m a n) i \<longleftrightarrow> i < 64 \<and> i < 8 * n \<and> bit (m (a + of_nat (i div 8))) (i mod 8)"
proof (induction n arbitrary: a i)
  case (Suc n)
  show ?case
  proof (cases "i < 8")
    case True
    then show ?thesis by (auto simp: bit_simps)
  next
    case False
    then obtain j where j: "i = j + 8" using le_Suc_ex [of 8 i] by (auto simp: not_less add.commute)
    have "\<not> bit (m a) i" using False bit_imp_le_length [of "m a" i] by auto
    moreover have "(j + 8) div 8 = Suc (j div 8)" by presburger
    ultimately show ?thesis
      using Suc.IH [of "a + 1" j] j by (auto simp: bit_simps algebra_simps)
  qed
qed simp

lemma load_cong: "(\<And>j. j < n \<Longrightarrow> m (a + of_nat j) = m' (a + of_nat j)) \<Longrightarrow> load m a n = load m' a n"
  by (rule bit_eqI) (auto simp: bit_load less_mult_imp_div_less mult.commute)

lemma store_other: "(\<And>j. j < n \<Longrightarrow> b \<noteq> a + of_nat j) \<Longrightarrow> store m a n w b = m b"
proof (induction n arbitrary: a w)
  case (Suc n)
  have "b \<noteq> a" using Suc.prems [of 0] by simp
  moreover have "b \<noteq> a + 1 + of_nat j" if "j < n" for j
    using Suc.prems [of "Suc j"] that by (simp add: algebra_simps)
  ultimately show ?case using Suc.IH [of "a + 1"] by simp
qed simp

lemma store_here: "k < n \<Longrightarrow> n \<le> 8 \<Longrightarrow> store m a n w (a + of_nat k) = ucast (drop_bit (8 * k) w)"
proof (induction n arbitrary: a k w)
  case (Suc n)
  show ?case
  proof (cases k)
    case (Suc j)
    have "(of_nat (Suc j) :: i64) \<noteq> 0"
      using Suc.prems \<open>k = Suc j\<close> by (simp add: unat_eq_0 [symmetric] unat_of_nat take_bit_nat_eq_self del: of_nat_Suc)
    then have "a + of_nat (Suc j) \<noteq> a" by simp
    moreover have "a + of_nat (Suc j) = (a + 1) + of_nat j" by simp
    ultimately show ?thesis
      using Suc.IH [of j "a + 1" "drop_bit 8 w"] Suc.prems \<open>k = Suc j\<close>
      by (simp add: drop_bit_drop_bit algebra_simps del: of_nat_Suc)
  qed simp
qed simp

lemma load_store_same: "n \<le> 8 \<Longrightarrow> load (store m a n w) a n = take_bit (8 * n) w"
proof (rule bit_eqI)
  fix i assume "n \<le> 8"
  show "bit (load (store m a n w) a n) i = bit (take_bit (8 * n) w) i"
    using store_here [of "i div 8" n m a w] \<open>n \<le> 8\<close>
    by (auto simp: bit_load bit_simps less_mult_imp_div_less mult.commute)
qed

lemma load_store_apart: "apart a n b k \<Longrightarrow> load (store m a n w) b k = load m b k"
  by (rule load_cong, rule store_other) (metis apart_def)

text \<open>What the machine needs of its memory, and the frame of a call as its client.\<close>

locale byte_memory =
  fixes rd :: "'m \<Rightarrow> i64 \<Rightarrow> nat \<Rightarrow> i64"
    and wr :: "'m \<Rightarrow> i64 \<Rightarrow> nat \<Rightarrow> i64 \<Rightarrow> 'm"
  assumes rd_wr_same: "n \<le> 8 \<Longrightarrow> rd (wr m a n w) a n = take_bit (8 * n) w"
    and rd_wr_apart: "apart a n b k \<Longrightarrow> rd (wr m a n w) b k = rd m b k"
begin

definition frame :: "'m \<Rightarrow> i64 \<Rightarrow> i64 \<Rightarrow> i64 \<Rightarrow> i64 \<Rightarrow> 'm" where
  "frame m s x y z = wr (wr (wr m (s - 4) 4 x) (s - 8) 4 y) (s - 16) 8 z"

lemma frame_read:
  "rd (frame m s x y z) (s - 16) 8 = z"
  "rd (frame m s x y z) (s - 8) 4 = take_bit 32 y"
  "rd (frame m s x y z) (s - 4) 4 = take_bit 32 x"
proof -
  have a: "apart (s - 16) 8 (s - 8) 4" "apart (s - 16) 8 (s - 4) 4" "apart (s - 8) 4 (s - 4) 4"
    by (rule apartI; simp add: word_arith_nat_defs; fail)+
  show "rd (frame m s x y z) (s - 16) 8 = z"
    "rd (frame m s x y z) (s - 8) 4 = take_bit 32 y"
    "rd (frame m s x y z) (s - 4) 4 = take_bit 32 x"
    using rd_wr_same [of 8 "wr (wr m (s - 4) 4 x) (s - 8) 4 y" "s - 16" z]
      rd_wr_same [of 4 "wr m (s - 4) 4 x" "s - 8" y] rd_wr_same [of 4 m "s - 4" x]
    by (simp_all add: frame_def rd_wr_apart a take_bit_word_eq_self)
qed

lemma frame_apart:
  assumes "apart (s - 16) 16 b k"
  shows "rd (frame m s x y z) b k = rd m b k"
proof -
  have sub: "apart (s - 16 + of_nat d) n b k" if "d + n \<le> 16" for d n
    unfolding apart_def
  proof (intro allI impI)
    fix i j assume "i < n" "j < k"
    then have "d + i < 16" using that by simp
    then have "s - 16 + of_nat (d + i) \<noteq> b + of_nat j"
      using assms \<open>j < k\<close> unfolding apart_def by blast
    then show "s - 16 + of_nat d + of_nat i \<noteq> b + of_nat j" by (simp add: add.assoc)
  qed
  show ?thesis
    using sub [of 0 8] sub [of 8 4] sub [of 12 4] by (simp add: frame_def rd_wr_apart)
qed

end

interpretation le: byte_memory load store
  by unfold_locales (simp_all add: load_store_same load_store_apart)

section \<open>Positions in the stack\<close>

text \<open>The stack lies in the half of the addresses that are positive as signed numbers.\<close>

definition wf_vm :: "VM \<Rightarrow> bool" where
  "wf_vm vm \<longleftrightarrow> 0 \<le> sint (stack_base vm) \<and> sint (stack_base vm) + int (stack_max vm) < 2 ^ 63"

definition sp_at :: "VM \<Rightarrow> nat \<Rightarrow> bool" where
  "sp_at vm k \<longleftrightarrow> registers vm REG_SP = stack_base vm + of_nat k \<and> k \<le> stack_max vm"

lemma sint_word_of_int_64: "- (2 ^ 63) \<le> i \<Longrightarrow> i < 2 ^ 63 \<Longrightarrow> sint (word_of_int i :: i64) = i"
  by (simp add: sint_sbintrunc' signed_take_bit_int_eq_self)

lemma sint_offset:
  fixes b :: i64
  assumes "- (2 ^ 63) \<le> sint b + d" and "sint b + d < 2 ^ 63"
  shows "sint (b + word_of_int d) = sint b + d"
proof -
  have "b + word_of_int d = word_of_int (sint b + d)" by simp
  then show ?thesis using sint_word_of_int_64 [OF assms] by simp
qed

lemma sp_in: "wf_vm vm \<Longrightarrow> sp_at vm k \<Longrightarrow> \<not> stack_out vm"
  using sint_offset [of "stack_base vm" "int k"] sint_offset [of "stack_base vm" "int (stack_max vm)"]
  by (auto simp: wf_vm_def sp_at_def stack_out_def)

lemma sp_out_low:
  assumes "wf_vm vm" and "registers vm REG_SP = stack_base vm - of_nat k" and "0 < k" and "k \<le> 8"
  shows "stack_out vm"
  using assms sint_offset [of "stack_base vm" "- int k"] by (auto simp: wf_vm_def stack_out_def)

lemma set_reg_sel [simp]:
  "registers (set_reg r v vm) = (registers vm)(r := v)" "vm_mem (set_reg r v vm) = vm_mem vm"
  "stack_base (set_reg r v vm) = stack_base vm" "stack_max (set_reg r v vm) = stack_max vm"
  "global_base (set_reg r v vm) = global_base vm" "global_size (set_reg r v vm) = global_size vm"
  "allocations (set_reg r v vm) = allocations vm" "vm_piece (set_reg r v vm) = vm_piece vm"
  "vm_output (set_reg r v vm) = vm_output vm" "vm_files (set_reg r v vm) = vm_files vm"
  by (simp_all add: set_reg_def)

lemma mapped_set_reg [simp]: "mapped (set_reg r v vm) p n = mapped vm p n"
  by (simp add: mapped_def)

lemma mapped_stack:
  assumes "k + n \<le> stack_max vm" and "wf_vm vm"
  shows "mapped vm (stack_base vm + of_nat k) n"
proof -
  have "k < 2 ^ 64" using assms by (auto simp: wf_vm_def)
  then have "uint (of_nat k :: i64) = int k" by (simp add: unsigned_of_nat take_bit_nat_eq_self)
  with assms(1) show ?thesis by (simp add: mapped_def in_region_def)
qed

definition pushed :: "nat \<Rightarrow> (VM \<Rightarrow> i64) \<Rightarrow> VM \<Rightarrow> VM" where
  "pushed n f vm = (let vm1 = move_sp (- int n) vm in
     vm1\<lparr>vm_mem := store (vm_mem vm1) (registers vm1 REG_SP) n (f vm1)\<rparr>)"

lemma push_value_eq:
  assumes "wf_vm vm" and "sp_at vm k" and "n \<le> k"
  shows "push_value n f vm K = K (pushed n f vm)" "sp_at (pushed n f vm) (k - n)"
proof -
  let ?vm = "move_sp (- int n) vm"
  have sp: "registers ?vm REG_SP = stack_base vm + of_nat (k - n)"
    using assms by (simp add: move_sp_def sp_at_def of_nat_diff)
  have at: "sp_at ?vm (k - n)"
    using sp assms by (simp add: sp_at_def move_sp_def)
  have wf: "wf_vm ?vm" using assms(1) by (simp add: wf_vm_def move_sp_def)
  have "mapped ?vm (registers ?vm REG_SP) n"
    unfolding sp using mapped_stack [of "k - n" n ?vm] assms wf by (simp add: sp_at_def move_sp_def)
  then show "push_value n f vm K = K (pushed n f vm)"
    using sp_in [OF wf at] by (simp add: push_value_def check_stack_def raw_store_def pushed_def Let_def)
  show "sp_at (pushed n f vm) (k - n)"
    using at by (simp add: pushed_def sp_at_def Let_def)
qed

lemma push_value_overflow:
  assumes "wf_vm vm" and "sp_at vm k" and "k < n" and "n \<le> 8"
  shows "push_value n f vm K = stop StackOverflow (move_sp (- int n) vm)"
proof -
  have "stack_out (move_sp (- int n) vm)"
    using assms by (intro sp_out_low [of _ "n - k"]) (simp_all add: wf_vm_def move_sp_def sp_at_def of_nat_diff)
  then show ?thesis by (simp add: push_value_def check_stack_def)
qed

definition keeps_sp :: "(i64 \<Rightarrow> VM \<Rightarrow> VM) \<Rightarrow> bool" where
  "keeps_sp f \<longleftrightarrow> (\<forall>w vm. registers (f w vm) REG_SP = registers vm REG_SP
     \<and> stack_base (f w vm) = stack_base vm \<and> stack_max (f w vm) = stack_max vm)"

lemma keeps_sp_simps [simp]: "r \<noteq> REG_SP \<Longrightarrow> keeps_sp (set_reg r)" "keeps_sp set_piece"
  "keeps_sp (\<lambda>w. set_reg REG_PC (g w))"
  by (simp_all add: keeps_sp_def set_piece_def)

lemma pop_value_eq:
  assumes "wf_vm vm" and "sp_at vm k" and "k + n \<le> stack_max vm" and "keeps_sp f"
  shows "pop_value n vm f K = K (move_sp (int n) (f (load (vm_mem vm) (registers vm REG_SP) n) vm))"
    "sp_at (move_sp (int n) (f w vm)) (k + n)"
proof -
  have m: "mapped vm (registers vm REG_SP) n"
    using mapped_stack [OF assms(3,1)] assms(2) by (simp add: sp_at_def)
  have at: "sp_at (move_sp (int n) (f w vm)) (k + n)" for w
    using assms by (simp add: sp_at_def move_sp_def keeps_sp_def)
  have wf: "wf_vm (move_sp (int n) (f w vm))" for w
    using assms by (simp add: wf_vm_def move_sp_def keeps_sp_def)
  show "pop_value n vm f K = K (move_sp (int n) (f (load (vm_mem vm) (registers vm REG_SP) n) vm))"
    using m sp_in [OF wf at] by (simp add: pop_value_def raw_load_def check_stack_def)
  show "sp_at (move_sp (int n) (f w vm)) (k + n)" by (rule at)
qed


lemma pushed_sel [simp]:
  "registers (pushed n f vm) = (registers vm)(REG_SP := registers vm REG_SP - of_nat n)"
  "stack_base (pushed n f vm) = stack_base vm" "stack_max (pushed n f vm) = stack_max vm"
  "vm_piece (pushed n f vm) = vm_piece vm" "allocations (pushed n f vm) = allocations vm"
  "vm_mem (pushed n f vm) =
     store (vm_mem vm) (registers vm REG_SP - of_nat n) n (f (move_sp (- int n) vm))"
  by (simp_all add: pushed_def move_sp_def Let_def)

lemma wf_vm_cong: "stack_base vm' = stack_base vm \<Longrightarrow> stack_max vm' = stack_max vm \<Longrightarrow> wf_vm vm' = wf_vm vm"
  by (simp add: wf_vm_def)

lemma sp_at_cong: "stack_base vm' = stack_base vm \<Longrightarrow> stack_max vm' = stack_max vm \<Longrightarrow>
   registers vm' REG_SP = registers vm REG_SP \<Longrightarrow> sp_at vm' k = sp_at vm k"
  by (simp add: sp_at_def)

section \<open>Calls and returns\<close>

lemma exec_call_eq:
  assumes wf: "wf_vm vm" and sp: "sp_at vm k" "16 \<le> k" and imm: "0 \<le> imm"
  shows "\<exists>vm1. exec_call env imm vm = go vm1 \<and> sp_at vm1 (k - 16)
    \<and> registers vm1 = (registers vm)(REG_SP := registers vm REG_SP - 16, REG_BP := registers vm REG_SP - 16, REG_PC := 0)
    \<and> vm_piece vm1 = imm - 1 \<and> stack_base vm1 = stack_base vm \<and> stack_max vm1 = stack_max vm
    \<and> allocations vm1 = allocations vm
    \<and> vm_mem vm1 = le.frame (vm_mem vm) (registers vm REG_SP)
        (registers vm REG_PC) (word_of_int (vm_piece vm)) (registers vm REG_BP)"
proof -
  let ?v1 = "pushed 4 (\<lambda>s. registers s REG_PC) vm"
  let ?v2 = "pushed 4 (\<lambda>s. word_of_int (vm_piece s)) ?v1"
  let ?v2' = "(set_reg REG_PC 0 ?v2)\<lparr>vm_piece := imm - 1\<rparr>"
  let ?v3 = "pushed 8 (\<lambda>s. registers s REG_BP) ?v2'"
  have p1: "push_value 4 (\<lambda>s. registers s REG_PC) vm K = K ?v1" "sp_at ?v1 (k - 4)" for K
    using push_value_eq [OF wf sp(1)] sp(2) by auto
  have w1: "wf_vm ?v1" using wf by (simp add: wf_vm_def)
  have p2: "push_value 4 (\<lambda>s. word_of_int (vm_piece s)) ?v1 K = K ?v2" "sp_at ?v2 (k - 8)" for K
    using push_value_eq [OF w1 p1(2), of 4] sp(2) by auto
  have w2: "wf_vm ?v2'" using wf by (simp add: wf_vm_def)
  have s2: "sp_at ?v2' (k - 8)" using p2(2) by (simp add: sp_at_def)
  have p3: "push_value 8 (\<lambda>s. registers s REG_BP) ?v2' K = K ?v3" "sp_at ?v3 (k - 16)" for K
    using push_value_eq [OF w2 s2, of 8] sp(2) by auto
  have e: "exec_call env imm vm = go (set_reg REG_BP (registers ?v3 REG_SP) ?v3)"
    using imm by (simp only: exec_call_def p1(1) p2(1) p3(1) if_False not_less [symmetric] simp_thms)
  show ?thesis
    unfolding e
    by (intro exI conjI, rule refl, use p3(2) in \<open>simp add: sp_at_def\<close>)
      (simp_all add: le.frame_def fun_eq_iff move_sp_def algebra_simps)
qed

lemma exec_ret_eq:
  assumes wf: "wf_vm vm" and sp: "sp_at vm k" "k + 16 \<le> stack_max vm" and bp: "registers vm REG_BP = registers vm REG_SP"
  shows "\<exists>vm1. exec_ret vm = go vm1 \<and> sp_at vm1 (k + 16) \<and> vm_mem vm1 = vm_mem vm
    \<and> vm_piece vm1 = sint (low (load (vm_mem vm) (registers vm REG_SP + 8) 4))
    \<and> registers vm1 = (registers vm)(REG_SP := registers vm REG_SP + 16,
        REG_BP := load (vm_mem vm) (registers vm REG_SP) 8,
        REG_PC := scast (low (load (vm_mem vm) (registers vm REG_SP + 12) 4)))"
proof -
  let ?r0 = "registers vm REG_SP"
  let ?v1 = "move_sp (int 8) (set_reg REG_BP (load (vm_mem vm) ?r0 8) vm)"
  let ?v2 = "move_sp (int 4) (set_piece (load (vm_mem ?v1) (registers ?v1 REG_SP) 4) ?v1)"
  let ?f3 = "\<lambda>w. set_reg REG_PC (scast (low w))"
  let ?v3 = "move_sp (int 4) (?f3 (load (vm_mem ?v2) (registers ?v2 REG_SP) 4) ?v2)"
  have top: "?r0 \<noteq> stack_base vm + of_nat (stack_max vm)"
  proof
    assume "?r0 = stack_base vm + of_nat (stack_max vm)"
    then have "(of_nat k :: i64) = of_nat (stack_max vm)" using sp(1) by (simp add: sp_at_def)
    then have "unat (of_nat k :: i64) = unat (of_nat (stack_max vm) :: i64)" by simp
    moreover have "stack_max vm < 2 ^ 64" using wf by (auto simp: wf_vm_def)
    ultimately show False using sp by (simp add: unat_of_nat take_bit_nat_eq_self)
  qed
  have p1: "pop_value 8 vm (set_reg REG_BP) K = K ?v1" "sp_at ?v1 (k + 8)" for K
    using pop_value_eq [OF wf sp(1), of 8 "set_reg REG_BP"] sp(2) by auto
  have w1: "wf_vm ?v1" using wf by (simp add: wf_vm_def move_sp_def)
  have p2: "pop_value 4 ?v1 set_piece K = K ?v2" "sp_at ?v2 (k + 8 + 4)" for K
    using pop_value_eq [OF w1 p1(2), of 4 set_piece] sp(2) by (simp_all add: move_sp_def)
  have w2: "wf_vm ?v2" using wf by (simp add: wf_vm_def move_sp_def set_piece_def)
  have p3: "pop_value 4 ?v2 ?f3 K = K ?v3" "sp_at ?v3 (k + 8 + 4 + 4)" for K
    using pop_value_eq [OF w2 p2(2), of 4 ?f3] sp(2) by (simp_all add: move_sp_def set_piece_def)
  have e: "exec_ret vm = go ?v3"
    using top bp by (simp only: exec_ret_def p1(1) p2(1) p3(1) if_False not_True_eq_False simp_thms)
  show ?thesis
    unfolding e
    by (intro exI conjI, rule refl, use p3(2) in \<open>simp add: add.assoc\<close>)
      (simp_all add: move_sp_def set_piece_def fun_eq_iff algebra_simps)
qed


lemma saved_values:
  assumes "uint (w :: i64) < 2 ^ 31" and "fits_i32 i"
  shows "scast (low (take_bit 32 w)) = w" "sint (low (take_bit 32 (word_of_int i :: i64))) = i"
proof -
  have "sint (low (take_bit 32 w)) = uint w"
  proof -
    have "low (take_bit 32 w) = word_of_int (uint w)"
      by (rule bit_word_eqI) (simp add: low_def bit_simps)
    then show ?thesis using sint_word_of_int_32 [of "uint w"] assms(1) uint_ge_0 [of w] by (simp del: uint_ge_0)
  qed
  then show "scast (low (take_bit 32 w)) = w"
    by (metis scast_eq word_of_int_uint)
  have "low (take_bit 32 (word_of_int i :: i64)) = word_of_int i"
    by (rule bit_word_eqI) (simp add: low_def bit_simps)
  then show "sint (low (take_bit 32 (word_of_int i :: i64))) = i"
    using assms(2) by (simp add: fits_i32_def sint_word_of_int_32)
qed

section \<open>Properties\<close>

text \<open>
  C5. A call and its return are inverse.  With room for sixteen bytes, a call enters the piece
  before its immediate at position zero with a base pointer that marks the saved frame; whatever
  the callee does, when it gives back both pointers and leaves those sixteen bytes alone, the
  return restores the caller's piece, program counter, base pointer and stack pointer.
\<close>

theorem call_ret_round_trip:
  assumes "wf_vm vm" and "sp_at vm k" and "16 \<le> k" and "0 \<le> imm"
    and "uint (registers vm REG_PC) < 2 ^ 31" and "fits_i32 (vm_piece vm)"
  shows "\<exists>vm1. exec_call env imm vm = go vm1
    \<and> vm_piece vm1 = imm - 1 \<and> registers vm1 REG_PC = 0
    \<and> registers vm1 REG_SP = registers vm REG_SP - 16 \<and> registers vm1 REG_BP = registers vm1 REG_SP
    \<and> (\<forall>vm2. stack_base vm2 = stack_base vm \<and> stack_max vm2 = stack_max vm
          \<and> registers vm2 REG_SP = registers vm1 REG_SP \<and> registers vm2 REG_BP = registers vm1 REG_BP
          \<and> (\<forall>j<16. vm_mem vm2 (registers vm1 REG_SP + of_nat j) = vm_mem vm1 (registers vm1 REG_SP + of_nat j))
        \<longrightarrow> (\<exists>vm3. exec_ret vm2 = go vm3 \<and> vm_piece vm3 = vm_piece vm \<and> vm_mem vm3 = vm_mem vm2
              \<and> registers vm3 = (registers vm2)(REG_SP := registers vm REG_SP,
                  REG_BP := registers vm REG_BP, REG_PC := registers vm REG_PC)))"
proof -
  obtain vm1 where c: "exec_call env imm vm = go vm1" "sp_at vm1 (k - 16)"
    "registers vm1 = (registers vm)(REG_SP := registers vm REG_SP - 16, REG_BP := registers vm REG_SP - 16, REG_PC := 0)"
    "vm_piece vm1 = imm - 1" "stack_base vm1 = stack_base vm" "stack_max vm1 = stack_max vm"
    "vm_mem vm1 = le.frame (vm_mem vm) (registers vm REG_SP)
        (registers vm REG_PC) (word_of_int (vm_piece vm)) (registers vm REG_BP)"
    using exec_call_eq [OF assms(1-4)] by blast
  let ?s = "registers vm REG_SP - 16"
  have returns: "\<exists>vm3. exec_ret vm2 = go vm3 \<and> vm_piece vm3 = vm_piece vm \<and> vm_mem vm3 = vm_mem vm2
      \<and> registers vm3 = (registers vm2)(REG_SP := registers vm REG_SP,
          REG_BP := registers vm REG_BP, REG_PC := registers vm REG_PC)"
    if b: "stack_base vm2 = stack_base vm" "stack_max vm2 = stack_max vm"
      "registers vm2 REG_SP = ?s" "registers vm2 REG_BP = ?s"
      and m: "\<And>j. j < 16 \<Longrightarrow> vm_mem vm2 (?s + of_nat j) = vm_mem vm1 (?s + of_nat j)" for vm2
  proof -
    have part: "load (vm_mem vm2) (?s + of_nat d) n = load (vm_mem vm1) (?s + of_nat d) n" if "d + n \<le> 16" for d n
      using m [of "d + j" for j] that by (intro load_cong) (simp add: add.assoc flip: of_nat_add)
    have v: "load (vm_mem vm2) ?s 8 = registers vm REG_BP"
      "load (vm_mem vm2) (?s + 8) 4 = take_bit 32 (word_of_int (vm_piece vm))"
      "load (vm_mem vm2) (?s + 12) 4 = take_bit 32 (registers vm REG_PC)"
      using part [of 0 8] part [of 8 4] part [of 12 4] c(7) by (simp_all add: le.frame_read)
    have wf: "wf_vm vm2" using assms(1) b by (simp add: wf_vm_def)
    have sp: "sp_at vm2 (k - 16)" "k - 16 + 16 \<le> stack_max vm2"
      using c(2,3,5,6) b assms(2,3) by (simp_all add: sp_at_def)
    show ?thesis
      using exec_ret_eq [OF wf sp] b v saved_values [OF assms(5,6)] by (auto simp: fun_eq_iff)
  qed
  show ?thesis
    using c returns by (intro exI [of _ vm1]) simp
qed

text \<open>A machine with the stack at 4096 and nothing else, and plain float operations.\<close>

definition sample_vm :: VM where
  "sample_vm =
    \<lparr>vm_mem = (\<lambda>a. 0), stack_base = 4096, stack_max = 65536, global_base = 0, global_size = 0,
     registers = (\<lambda>r. 0)(REG_SP := 69632, REG_BP := 69632, REG_PC := 7),
     vm_piece = 3, allocations = [], vm_output = [], vm_files = []\<rparr>"

definition sample_env :: vm_env where
  "sample_env =
    \<lparr>fl_add = (+), fl_sub = (-), fl_mul = (*), fl_div = (\<lambda>x y. x), fl_eq = (=),
     fl_less = (<), fl_less_eq = (\<le>), fl_of_int = id, fl_to_int = id, fl_pow = (\<lambda>x y. x),
     fl_sqrt = id, env_alloc = (\<lambda>al n. 0), env_writable = (\<lambda>p. True),
     env_stack = 4096, env_global = 1048576\<rparr>"

lemma sample_vm_ok: "wf_vm sample_vm" "sp_at sample_vm 65536"
  by (simp_all add: sample_vm_def wf_vm_def sp_at_def)

theorem call_ret_round_trip_witness:
  "\<exists>vm1 vm3. exec_call sample_env 5 sample_vm = go vm1 \<and> vm_piece vm1 = 4
    \<and> exec_ret vm1 = go vm3 \<and> vm_piece vm3 = 3 \<and> registers vm3 REG_PC = 7"
proof -
  have a: "uint (registers sample_vm REG_PC) < 2 ^ 31" "fits_i32 (vm_piece sample_vm)"
    by (simp_all add: sample_vm_def fits_i32_def)
  obtain vm1 where c: "exec_call sample_env 5 sample_vm = go vm1" "vm_piece vm1 = 5 - 1"
    "\<forall>vm2. stack_base vm2 = stack_base sample_vm \<and> stack_max vm2 = stack_max sample_vm
          \<and> registers vm2 REG_SP = registers vm1 REG_SP \<and> registers vm2 REG_BP = registers vm1 REG_BP
          \<and> (\<forall>j<16. vm_mem vm2 (registers vm1 REG_SP + of_nat j) = vm_mem vm1 (registers vm1 REG_SP + of_nat j))
        \<longrightarrow> (\<exists>vm3. exec_ret vm2 = go vm3 \<and> vm_piece vm3 = vm_piece sample_vm \<and> vm_mem vm3 = vm_mem vm2
              \<and> registers vm3 = (registers vm2)(REG_SP := registers sample_vm REG_SP,
                  REG_BP := registers sample_vm REG_BP, REG_PC := registers sample_vm REG_PC))"
    using call_ret_round_trip [OF sample_vm_ok _ _ a, of 5 sample_env] by auto
  have "stack_base vm1 = stack_base sample_vm" "stack_max vm1 = stack_max sample_vm"
    using exec_call_eq [OF sample_vm_ok, of 5 sample_env] c(1) by auto
  then show ?thesis
    using c by (auto simp: sample_vm_def)
qed

lemma uint_minus_64: "uint (- (x :: i64)) = (- uint x) mod 2 ^ 64"
  by (simp add: uint_word_ariths)

text \<open>
  C28. The access check and the memory of the program.  An access the program owns is always
  accepted.  The converse fails exactly by the wrap-around of the sum: an access that begins
  before a region, by no more bytes than its own size, is accepted as well.
\<close>

theorem access_check:
  assumes "0 \<le> sz" and "sz < 2 ^ 32" and "0 \<le> limit" and "limit < 2 ^ 31"
  shows "region_check base limit sz ptr \<longleftrightarrow>
    in_region base limit (nat sz) ptr
    \<or> (0 < uint (base - ptr) \<and> uint (base - ptr) \<le> sz \<and> sz - uint (base - ptr) \<le> limit)"
proof -
  let ?d = "uint (ptr - base)"
  have d: "0 \<le> ?d" "?d < 2 ^ 64" using uint_bounded [of "ptr - base"] by simp_all
  have sum: "uint ((ptr - base) + word_of_int sz) = (?d + sz) mod 2 ^ 64"
    using assms by (simp add: uint_word_ariths(1) uint_word_of_int mod_add_right_eq)
  have lim: "uint (word_of_int limit :: i64) = limit"
    using assms by (simp add: uint_word_of_int mod_pos_pos_trivial)
  have neg: "uint (base - ptr) = (if ?d = 0 then 0 else 2 ^ 64 - ?d)"
  proof -
    have "uint (base - ptr) = (- ?d) mod 2 ^ 64" using uint_minus_64 [of "ptr - base"] by simp
    then show ?thesis using d by (auto simp: zmod_zminus1_eq_if mod_pos_pos_trivial)
  qed
  show ?thesis
  proof (cases "?d + sz < 2 ^ 64")
    case True
    then have "(?d + sz) mod 2 ^ 64 = ?d + sz" using d assms(1) by (simp add: mod_pos_pos_trivial)
    with True d assms show ?thesis
      unfolding region_check_def in_region_def word_le_def sum lim neg by auto
  next
    case False
    then have "(?d + sz) mod 2 ^ 64 = ?d + sz - 2 ^ 64"
      using d assms mod_pos_pos_trivial [of "?d + sz - 2 ^ 64" "2 ^ 64"]
        minus_mod_self2 [of "?d + sz" "2 ^ 64"] by simp
    with False d assms show ?thesis
      unfolding region_check_def in_region_def word_le_def sum lim neg by auto
  qed
qed

theorem access_check_witness:
  "region_check 4096 65536 8 4092 \<and> \<not> in_region 4096 65536 8 4092"
proof -
  have n: "\<not> in_region 4096 65536 8 4092" by (simp add: in_region_def)
  show ?thesis using access_check [of 8 65536 4096 4092] n by simp
qed

lemma in_region_byte:
  assumes "in_region base limit n p" and "j < n"
  shows "in_region base limit 1 (p + of_nat j)"
proof -
  have "uint (p + of_nat j - base) \<le> uint (p - base) + uint (of_nat j :: i64)"
    using uint_add_le [of "p - base" "of_nat j"] by (simp add: algebra_simps)
  moreover have "uint (of_nat j :: i64) \<le> int j" by (simp add: unsigned_of_nat take_bit_nat_eq)
  ultimately show ?thesis using assms by (simp add: in_region_def)
qed

lemma mapped_byte: "mapped vm p n \<Longrightarrow> j < n \<Longrightarrow> mapped vm (p + of_nat j) 1"
  unfolding mapped_def by (elim disjE bexE; auto dest: in_region_byte simp del: One_nat_def)

lemma mapped_offset: "mapped vm p n \<Longrightarrow> unat (a - p) < n \<Longrightarrow> mapped vm a 1"
  using mapped_byte [of vm p n "unat (a - p)"] by simp

text \<open>What one instruction may do to the memory and to the regions.\<close>

definition same_regions :: "VM \<Rightarrow> VM \<Rightarrow> bool" where
  "same_regions vm vm' \<longleftrightarrow> stack_base vm' = stack_base vm \<and> stack_max vm' = stack_max vm
     \<and> global_base vm' = global_base vm \<and> global_size vm' = global_size vm"

definition confined :: "VM \<Rightarrow> VM \<Rightarrow> bool" where
  "confined vm vm' \<longleftrightarrow> same_regions vm vm'
     \<and> (\<forall>a. vm_mem vm' a \<noteq> vm_mem vm a \<longrightarrow> mapped vm a 1 \<or> mapped vm' a 1)"

text \<open>Most instructions do not touch the blocks either; then confinement composes.\<close>

definition plain :: "VM \<Rightarrow> VM \<Rightarrow> bool" where
  "plain vm vm' \<longleftrightarrow> same_regions vm vm' \<and> allocations vm' = allocations vm
     \<and> (\<forall>a. vm_mem vm' a \<noteq> vm_mem vm a \<longrightarrow> mapped vm a 1)"

lemma plain_refl [simp]: "plain vm vm" by (simp add: plain_def same_regions_def)

lemma mapped_cong: "same_regions vm vm' \<Longrightarrow> allocations vm' = allocations vm \<Longrightarrow> mapped vm' p n = mapped vm p n"
  by (simp add: same_regions_def mapped_def)

lemma plain_trans: "plain a b \<Longrightarrow> plain b c \<Longrightarrow> plain a c"
proof -
  assume ab: "plain a b" and bc: "plain b c"
  have m: "mapped b p n = mapped a p n" for p n
    using ab by (intro mapped_cong) (simp_all add: plain_def)
  have "mapped a x 1" if "vm_mem c x \<noteq> vm_mem a x" for x
    using ab bc that m [of x 1] unfolding plain_def by metis
  then show ?thesis using ab bc by (simp add: plain_def same_regions_def)
qed

lemma plain_confined: "plain vm vm' \<Longrightarrow> confined vm vm'"
  by (auto simp: plain_def confined_def)

lemma plain_set_reg [simp]: "plain vm (set_reg r v vm') = plain vm vm'" "plain vm (move_sp k vm') = plain vm vm'"
  "plain vm (vm'\<lparr>vm_piece := i\<rparr>) = plain vm vm'" "plain vm (set_piece w vm') = plain vm vm'"
  "plain vm (print_out x vm') = plain vm vm'" "plain vm (jump i vm') = plain vm vm'"
  by (simp_all add: plain_def same_regions_def move_sp_def set_piece_def print_out_def jump_def)

lemma plain_raw_store: "raw_store n p w vm = Some vm' \<Longrightarrow> plain vm vm'"
proof -
  assume "raw_store n p w vm = Some vm'"
  then have m: "mapped vm p n" and vm': "vm' = vm\<lparr>vm_mem := store (vm_mem vm) p n w\<rparr>"
    by (auto simp: raw_store_def split: if_splits)
  have "mapped vm a 1" if "store (vm_mem vm) p n w a \<noteq> vm_mem vm a" for a
    using that store_other [of n a p "vm_mem vm" w] mapped_byte [OF m] by blast
  then show ?thesis by (simp add: vm' plain_def same_regions_def)
qed

lemma plain_ret_to: "ret_to n w vm = Some vm' \<Longrightarrow> plain vm vm'"
  by (simp add: ret_to_def plain_raw_store)

definition all_confined :: "(VM \<Rightarrow> bool) \<Rightarrow> vm_result \<Rightarrow> bool" where
  "all_confined P r \<longleftrightarrow> (\<forall>s vm'. r = Some (s, vm') \<longrightarrow> P vm')"

lemma all_confined_simps [simp]:
  "all_confined P None" "all_confined P (Some (s, vm)) = P vm"
  "all_confined P (if b then x else y) = (if b then all_confined P x else all_confined P y)"
  by (simp_all add: all_confined_def)

lemma all_confined_bind: "(\<And>x. r = Some x \<Longrightarrow> all_confined P (k x)) \<Longrightarrow> all_confined P (Option.bind r k)"
  by (cases r) simp_all

lemma check_stack_plain: "plain vm vm1 \<Longrightarrow> (plain vm vm1 \<Longrightarrow> all_confined (plain vm) (k vm1)) \<Longrightarrow>
    all_confined (plain vm) (check_stack vm1 k)"
  by (simp add: check_stack_def)

lemma push_value_plain:
  assumes "plain vm vm0" and "\<And>vm1. plain vm vm1 \<Longrightarrow> all_confined (plain vm) (k vm1)"
  shows "all_confined (plain vm) (push_value n f vm0 k)"
  unfolding push_value_def using assms(1)
  by (intro check_stack_plain all_confined_bind assms(2))
    (simp_all, metis plain_raw_store plain_set_reg(2) plain_trans)

lemma pop_value_plain:
  assumes "plain vm vm0" and "\<And>w vm'. plain vm vm' \<Longrightarrow> plain vm (f w vm')"
    and "\<And>vm1. plain vm vm1 \<Longrightarrow> all_confined (plain vm) (k vm1)"
  shows "all_confined (plain vm) (pop_value n vm0 f k)"
  unfolding pop_value_def using assms by (intro all_confined_bind check_stack_plain) auto


lemma plain_memory:
  "mapped vm p n \<Longrightarrow> (\<And>a. m a \<noteq> vm_mem vm a \<Longrightarrow> unat (a - p) < n) \<Longrightarrow> plain vm (vm\<lparr>vm_mem := m\<rparr>)"
  using mapped_offset by (simp add: plain_def same_regions_def)

lemma exec_store_plain: "all_confined (plain vm) (exec_store r r' n imm vm)"
  unfolding exec_store_def Let_def
  by (auto intro!: all_confined_bind plain_raw_store simp del: bind_eq_Some_conv)

lemma exec_load_plain: "all_confined (plain vm) (exec_load r r' n imm vm)"
  unfolding exec_load_def Let_def by (auto intro!: all_confined_bind)

lemma exec_incr_plain: "all_confined (plain vm) (exec_incr r k vm)"
  unfolding exec_incr_def Let_def by (auto intro: check_stack_plain)

lemma exec_ret_plain: "all_confined (plain vm) (exec_ret vm)"
  unfolding exec_ret_def by (simp; intro impI pop_value_plain; simp)

lemma exec_memzero_plain: "all_confined (plain vm) (exec_memzero r r' vm)"
  unfolding exec_memzero_def Let_def by (auto intro!: plain_memory split: if_splits)

lemma exec_two_plain: "all_confined (plain vm) (exec_two env c control r r' vm)"
  unfolding exec_two_def Let_def exec_arith_def exec_compare_def
  by (cases c) (auto intro!: all_confined_bind)

lemma exec_cast_plain: "all_confined (plain vm) (exec_cast env ty r vm)"
  unfolding exec_cast_def Let_def by simp

text \<open>The native functions; two of them allocate.\<close>

lemma mapped_new_block:
  assumes "unat (a - p) < nat sz"
  shows "mapped (vm\<lparr>allocations := AList.update p sz al\<rparr>) a 1"
proof -
  have "map_of (AList.update p sz al) p = Some sz" by (simp add: update_conv)
  then have "(p, sz) \<in> set (AList.update p sz al)" by (rule map_of_SomeD)
  moreover have "in_region p sz 1 a"
  proof -
    have "int (unat (a - p)) < sz" using assms by linarith
    then show ?thesis by (simp add: in_region_def)
  qed
  ultimately show ?thesis unfolding mapped_def by auto
qed

lemma store_bytes_other: "unat (a - p) \<ge> length bs \<Longrightarrow> store_bytes m p bs a = m a"
proof (induction bs arbitrary: p m)
  case (Cons b bs)
  have "a \<noteq> p" using Cons.prems by auto
  then have "a - p \<noteq> 0" by simp
  then have "unat (a - (p + 1)) = unat (a - p) - 1"
    by (simp add: diff_diff_eq [symmetric] unat_minus_one)
  then show ?case using Cons \<open>a \<noteq> p\<close> by simp
qed simp

lemma native_malloc_confined: "native_malloc env vm = Some vm' \<Longrightarrow> confined vm vm'"
  by (auto simp: native_malloc_def Let_def bind_eq_Some_conv confined_def plain_def same_regions_def
      dest!: plain_ret_to split: if_splits)

lemma native_mfree_confined: "native_mfree vm = Some vm' \<Longrightarrow> confined vm vm'"
  by (auto simp: native_mfree_def bind_eq_Some_conv confined_def same_regions_def split: if_splits)

lemma native_memcpy_plain: "native_memcpy vm = Some vm' \<Longrightarrow> plain vm vm'"
  by (auto simp: native_memcpy_def bind_eq_Some_conv Let_def intro!: plain_memory split: if_splits)

lemma native_write_file_plain: "native_write_file env vm = Some vm' \<Longrightarrow> plain vm vm'"
  by (auto simp: native_write_file_def bind_eq_Some_conv plain_def same_regions_def
      dest!: plain_ret_to split: if_splits)

lemma native_read_file_confined:
  assumes "native_read_file env vm = Some vm'"
  shows "confined vm vm'"
proof -
  obtain out_data out_size name where r: "(case map_of (vm_files vm) name of
         None \<Rightarrow> ret_to 1 0 vm
       | Some bytes \<Rightarrow>
           do {
             vm1 \<leftarrow> ret_to 1 1 vm;
             let sz = sint (of_nat (length bytes) :: i32);
             vm2 \<leftarrow> (if out_size \<noteq> 0 then raw_store 4 out_size (word_of_int sz) vm1 else Some vm1);
             if out_data = 0 then Some vm2
             else do {
               let p = env_alloc env (allocations vm2) sz;
               let vm3 = vm2\<lparr>allocations := AList.update p sz (allocations vm2)\<rparr>;
               if p = 0 then None
               else raw_store 8 out_data p (vm3\<lparr>vm_mem := store_bytes (vm_mem vm3) p (take (nat sz) bytes)\<rparr>)
             }
           }) = Some vm'"
    using assms by (auto simp: native_read_file_def bind_eq_Some_conv)
  show ?thesis
  proof (cases "map_of (vm_files vm) name")
    case None
    then show ?thesis using r by (auto dest: plain_ret_to plain_confined)
  next
    case (Some bytes)
    let ?sz = "sint (of_nat (length bytes) :: i32)"
    obtain vm1 vm2 where v: "ret_to 1 1 vm = Some vm1"
      "(if out_size \<noteq> 0 then raw_store 4 out_size (word_of_int ?sz) vm1 else Some vm1) = Some vm2"
      and rest: "(if out_data = 0 then Some vm2
             else do {
               let p = env_alloc env (allocations vm2) ?sz;
               let vm3 = vm2\<lparr>allocations := AList.update p ?sz (allocations vm2)\<rparr>;
               if p = 0 then None
               else raw_store 8 out_data p (vm3\<lparr>vm_mem := store_bytes (vm_mem vm3) p (take (nat ?sz) bytes)\<rparr>)
             }) = Some vm'"
      using r Some by (auto simp: bind_eq_Some_conv Let_def)
    have p2: "plain vm vm2"
      using plain_ret_to [OF v(1)] v(2) by (auto dest: plain_raw_store intro: plain_trans split: if_splits)
    show ?thesis
    proof (cases "out_data = 0")
      case True
      then show ?thesis using rest p2 plain_confined by auto
    next
      case False
      define p where "p = env_alloc env (allocations vm2) ?sz"
      define vm3 where "vm3 = vm2\<lparr>allocations := AList.update p ?sz (allocations vm2),
          vm_mem := store_bytes (vm_mem vm2) p (take (nat ?sz) bytes)\<rparr>"
      have s: "raw_store 8 out_data p vm3 = Some vm'"
        using rest False by (auto simp: p_def vm3_def Let_def split: if_splits)
      have p3: "plain vm3 vm'" by (rule plain_raw_store [OF s])
      have m3: "mapped vm' a 1 = mapped vm3 a 1" for a
        using p3 by (intro mapped_cong) (simp_all add: plain_def)
      have blk: "mapped vm3 a 1" if "vm_mem vm3 a \<noteq> vm_mem vm2 a" for a
      proof -
        have "unat (a - p) < nat ?sz"
        proof (rule ccontr)
          assume "\<not> unat (a - p) < nat ?sz"
          then have "length (take (nat ?sz) bytes) \<le> unat (a - p)" by simp
          then show False using that store_bytes_other by (simp add: vm3_def)
        qed
        from mapped_new_block [OF this, where vm = "vm2\<lparr>vm_mem := vm_mem vm3\<rparr>" and al = "allocations vm2"]
        show ?thesis by (simp add: vm3_def mapped_def)
      qed
      have "mapped vm a 1 \<or> mapped vm' a 1" if "vm_mem vm' a \<noteq> vm_mem vm a" for a
        using that p2 p3 blk [of a] m3 [of a] unfolding plain_def by metis
      moreover have "same_regions vm vm'"
        using p2 p3 by (simp add: plain_def same_regions_def vm3_def)
      ultimately show ?thesis by (simp add: confined_def)
    qed
  qed
qed

lemma run_native_call_confined: "run_native_call env f vm = Some vm' \<Longrightarrow> confined vm vm'"
  by (cases f)
    (auto simp: run_native_call_def bind_eq_Some_conv native_malloc_confined native_mfree_confined
      native_read_file_confined intro!: plain_confined
      dest: plain_ret_to native_memcpy_plain native_write_file_plain)

lemma all_confined_mono: "all_confined P r \<Longrightarrow> (\<And>x. P x \<Longrightarrow> Q x) \<Longrightarrow> all_confined Q r"
  by (simp add: all_confined_def)

lemma exec_call_confined: "all_confined (confined vm) (exec_call env imm vm)"
proof (cases "imm < 0")
  case True
  then show ?thesis
    by (auto simp: exec_call_def plain_confined run_native_call_confined intro!: all_confined_bind split: option.splits)
next
  case False
  have "all_confined (plain vm) (exec_call env imm vm)"
    using False by (simp add: exec_call_def) (intro push_value_plain; simp)
  then show ?thesis using plain_confined by (rule all_confined_mono)
qed

lemma exec_inst_confined: "all_confined (confined vm) (exec_inst env i imm vm)"
proof -
  note pl = exec_store_plain exec_load_plain exec_incr_plain exec_ret_plain exec_memzero_plain
    exec_two_plain exec_cast_plain
  note cf = pl [THEN all_confined_mono, OF plain_confined]
  have pp: "all_confined (plain vm) (push_value 8 f vm go)" "all_confined (plain vm) (pop_value 8 vm (set_reg r) go)" for f r
    by (intro push_value_plain pop_value_plain; simp)+
  note pp' = pp [THEN all_confined_mono, OF plain_confined]
  show ?thesis
  proof (cases "opcode_of_byte (opcode i)")
    case (Some c)
    show ?thesis
      by (cases c) (simp_all add: exec_inst_def Some cf pp' exec_call_confined plain_confined all_confined_bind)
  qed (simp add: exec_inst_def plain_confined)
qed



text \<open>
  A jump lands where it was patched.  When the immediate of a jump is fixed while the next
  instruction to be emitted has position \<open>get_pc p\<close>, executing the jump in the finished piece
  sets the program counter to exactly that position and changes nothing else; a conditional
  jump does so when its register is zero, and otherwise goes on behind its immediate.
\<close>

theorem patched_jump_lands:
  assumes "fix_jump_here i p = Some q" and "0 < i" and "int (get_pc p) < 2 ^ 31"
    and "getPiece (vm_piece vm) bc = Some q" and "registers vm REG_PC = of_nat (i - 1)"
    and "instructions p ! (i - 1) = inst c (reg_byte r) 0 0" and "c \<in> {INST_JMP, INST_JZ}"
    and "r \<noteq> REG_PC"
  shows "vm_step env bc vm = go (set_reg REG_PC
    (if c = INST_JMP \<or> registers vm r = 0 then of_nat (get_pc p) else of_nat (i + 1)) vm)"
proof -
  have q: "instructions q = (instructions p)[i := inst_of_cell (word_of_int (int (get_pc p) - int i))]"
    and i: "i < get_pc p"
    using assms(1) by (auto simp: fix_jump_here_def set_cell_def get_pc_def bind_eq_Some_conv split: if_splits)
  have len: "get_pc p < 2 ^ 31" using assms(3) by simp
  then have u: "unat (of_nat (i - 1) :: i64) = i - 1"
    using i by (simp add: unat_of_nat take_bit_nat_eq_self)
  have at: "instructions q ! (i - 1) = inst c (reg_byte r) 0 0" "instructions q ! i = inst_of_cell (word_of_int (int (get_pc p) - int i))"
    "length (instructions q) = get_pc p"
    using assms(2,6) i unfolding q by (simp_all add: get_pc_def)
  have imm: "sint (cell_of_inst (instructions q ! i)) = int (get_pc p) - int i"
    unfolding at(2) cell_of_inst_of_cell using len i by (intro sint_word_of_int_32) simp_all
  have rb: "reg_of_byte (reg_byte r) = Some r"
    using reg_num_less [of r] by (simp add: reg_of_byte_def all_registers_nth REG_COUNT_def all_registers_def)
      (cases r; simp add: all_registers_def)
  have pc: "(of_nat (i - 1) :: i64) + 2 = of_nat (i + 1)" using assms(2) by (simp add: of_nat_diff)
  have target: "(of_nat (i + 1) :: i64) + word_of_int (int (get_pc p) - int i - 1) = of_nat (get_pc p)"
    by simp
  have "vm_step env bc vm = exec_inst env (inst c (reg_byte r) 0 0) (int (get_pc p) - int i) (set_reg REG_PC (of_nat (i + 1)) vm)"
    using assms(2,4,5,7) i at u imm pc
    by (auto simp: vm_step_def Let_def less_eq_Opcode_def)
  also have "\<dots> = go (set_reg REG_PC
    (if c = INST_JMP \<or> registers vm r = 0 then of_nat (get_pc p) else of_nat (i + 1)) vm)"
    using assms(7,8) target by (auto simp: exec_inst_def rb jump_def set_reg_def fun_eq_iff)
  finally show ?thesis .
qed


theorem patched_jump_lands_witness:
  "\<exists>q. fix_jump_here 1 (emit_push REG_A (snd (emit_jz_out REG_B new_piece))) = Some q
    \<and> vm_step sample_env (new_bytecode\<lparr>pieces := [q]\<rparr>) (sample_vm\<lparr>vm_piece := 0, registers := (\<lambda>r. 0)\<rparr>)
      = go (set_reg REG_PC 3 (sample_vm\<lparr>vm_piece := 0, registers := (\<lambda>r. 0)\<rparr>))"
proof -
  let ?p = "emit_push REG_A (snd (emit_jz_out REG_B new_piece))"
  have p: "get_pc ?p = 3" "instructions ?p ! 0 = inst INST_JZ (reg_byte REG_B) 0 0"
    by (simp_all add: emit_push_def emit_jz_out_def Let_def piece_simps get_pc_def new_piece_def numeral_3_eq_3)
  then obtain q where q: "fix_jump_here 1 ?p = Some q"
    by (auto simp: fix_jump_here_def set_cell_def get_pc_def)
  show ?thesis
    using patched_jump_lands [OF q, of "sample_vm\<lparr>vm_piece := 0, registers := (\<lambda>r. 0)\<rparr>"
        "new_bytecode\<lparr>pieces := [q]\<rparr>" INST_JZ REG_B sample_env] p q
    by (simp add: getPiece_def new_bytecode_def)
qed

text \<open>
  Pushing and popping.  At \<open>k\<close> bytes above the bottom of the stack, a push of a register
  stops the machine when less than eight bytes are left, and otherwise moves the stack pointer
  down by eight; a following pop into any register but the stack pointer gives that value,
  restores the stack pointer, and outside the eight bytes below it the memory is as before.
\<close>

theorem push_then_pop:
  assumes "wf_vm vm" and "sp_at vm k" and "r' \<noteq> REG_SP" and "r \<noteq> REG_SP"
  shows "(k < 8 \<longrightarrow> push_value 8 (\<lambda>s. registers s r) vm go = stop StackOverflow (move_sp (- 8) vm))
    \<and> (8 \<le> k \<longrightarrow> (\<exists>vm1 vm2. push_value 8 (\<lambda>s. registers s r) vm go = go vm1 \<and> sp_at vm1 (k - 8)
        \<and> pop_value 8 vm1 (set_reg r') go = go vm2
        \<and> registers vm2 = (registers vm)(r' := registers vm r)
        \<and> (\<forall>a. 8 \<le> unat (a - (registers vm REG_SP - 8)) \<longrightarrow> vm_mem vm2 a = vm_mem vm a)))"
proof (intro conjI impI)
  assume "k < 8"
  then show "push_value 8 (\<lambda>s. registers s r) vm go = stop StackOverflow (move_sp (- 8) vm)"
    using push_value_overflow [OF assms(1,2), of 8] by simp
next
  assume k: "8 \<le> k"
  let ?v1 = "pushed 8 (\<lambda>s. registers s r) vm"
  let ?s = "registers vm REG_SP - 8"
  have p: "push_value 8 (\<lambda>s. registers s r) vm go = go ?v1" "sp_at ?v1 (k - 8)"
    using push_value_eq [OF assms(1,2) k] by simp_all
  have w: "wf_vm ?v1" using assms(1) by (simp add: wf_vm_def)
  have top: "k - 8 + 8 \<le> stack_max ?v1" using assms(2) k by (simp add: sp_at_def)
  let ?v2 = "move_sp (int 8) (set_reg r' (load (vm_mem ?v1) (registers ?v1 REG_SP) 8) ?v1)"
  have q: "pop_value 8 ?v1 (set_reg r') go = go ?v2"
    using pop_value_eq(1) [OF w p(2) top, of "set_reg r'"] assms(3) by simp
  have v: "load (vm_mem ?v1) ?s 8 = registers vm r"
    using assms(4) by (simp add: load_store_same move_sp_def take_bit_word_eq_self)
  have "registers ?v2 = (registers vm)(r' := registers vm r)"
    using v assms(3) by (auto simp: move_sp_def fun_eq_iff)
  moreover have "vm_mem ?v2 a = vm_mem vm a" if "8 \<le> unat (a - ?s)" for a
  proof -
    have "a \<noteq> ?s + of_nat j" if "j < 8" for j
      using \<open>8 \<le> unat (a - ?s)\<close> that by (auto simp: unat_of_nat take_bit_nat_eq_self)
    then show ?thesis using store_other [of 8 a ?s] by (simp add: move_sp_def)
  qed
  ultimately show "\<exists>vm1 vm2. push_value 8 (\<lambda>s. registers s r) vm go = go vm1 \<and> sp_at vm1 (k - 8)
        \<and> pop_value 8 vm1 (set_reg r') go = go vm2
        \<and> registers vm2 = (registers vm)(r' := registers vm r)
        \<and> (\<forall>a. 8 \<le> unat (a - (registers vm REG_SP - 8)) \<longrightarrow> vm_mem vm2 a = vm_mem vm a)"
    using p q by (intro exI [of _ ?v1] exI [of _ ?v2]) simp
qed

theorem push_then_pop_witness:
  "\<exists>vm1 vm2. push_value 8 (\<lambda>s. registers s REG_BP) sample_vm go = go vm1
    \<and> pop_value 8 vm1 (set_reg REG_A) go = go vm2 \<and> registers vm2 REG_A = 69632"
  using push_then_pop [OF sample_vm_ok, of REG_A REG_BP] by (auto simp: sample_vm_def)

text \<open>
  Writing a file never writes its data: whenever the call succeeds, the named file is there
  and empty, whatever the data and the size were.
\<close>

theorem write_file_leaves_empty:
  assumes "run_native_call env NATIVE_write_file vm = Some vm'"
    and "arg_at 8 0 vm = Some p" and "raw_string vm p = Some name" and "env_writable env name"
  shows "map_of (vm_files vm') name = Some [] \<and> vm_output vm' = vm_output vm
    \<and> (\<forall>f. f \<noteq> name \<longrightarrow> map_of (vm_files vm') f = map_of (vm_files vm) f)"
  using assms
  by (auto simp: run_native_call_def native_write_file_def bind_eq_Some_conv ret_to_def raw_store_def
      update_conv split: if_splits)

definition write_vm :: VM where
  "write_vm = sample_vm\<lparr>registers := (registers sample_vm)(REG_SP := 69608),
     vm_mem := store (\<lambda>a. 0) 69608 8 69611\<rparr>"

theorem write_file_leaves_empty_witness:
  "\<exists>vm'. run_native_call sample_env NATIVE_write_file write_vm = Some vm'
    \<and> map_of (vm_files vm') [] = Some []"
proof -
  have m: "mapped write_vm 69608 8" "mapped write_vm 69616 8" "mapped write_vm 69624 4"
    "mapped write_vm 69584 1" "mapped write_vm 69611 1"
    by (simp_all add: mapped_def in_region_def write_vm_def sample_vm_def)
  have sp: "registers write_vm REG_SP = 69608" "vm_mem write_vm = store (\<lambda>a. 0) 69608 8 69611"
    by (simp_all add: write_vm_def)
  have "load (vm_mem write_vm) 69608 8 = take_bit 64 69611"
    unfolding sp(2) using load_store_same [of 8 "\<lambda>a. 0" 69608 69611] by simp
  then have p: "arg_at 8 0 write_vm = Some 69611"
    using m(1) by (simp add: arg_at_def raw_load_def sp(1) take_bit_word_eq_self)
  have z: "vm_mem write_vm 69611 = 0"
    unfolding sp(2) using store_here [of 3 8 "\<lambda>a. 0" 69608 69611] by simp
  have s: "raw_string write_vm 69611 = Some []"
    using m(5) z by (subst raw_string.simps) simp
  have q: "\<exists>x. arg_at 8 8 write_vm = Some x" "\<exists>x. arg_at 4 16 write_vm = Some x"
    using m(2,3) by (simp_all add: arg_at_def raw_load_def sp(1))
  have t: "\<exists>v. ret_to 1 1 write_vm = Some v"
    using m(4) by (simp add: ret_to_def raw_store_def sp(1))
  have w: "env_writable sample_env []" by (simp add: sample_env_def)
  obtain x y v where "arg_at 8 8 write_vm = Some x" "arg_at 4 16 write_vm = Some y" "ret_to 1 1 write_vm = Some v"
    using q t by blast
  then obtain vm' where r: "run_native_call sample_env NATIVE_write_file write_vm = Some vm'"
    using p s w by (simp add: run_native_call_def native_write_file_def)
  from write_file_leaves_empty [OF r p s w] r show ?thesis by blast
qed

end
