(* ===== verification/Generator.thy ===== *)
theory Generator
  imports Parser
begin

text \<open>
  include/Generator.h and src/Generator.cpp: from the syntax tree to bytecode.  A context holds
  what the members of \<^verbatim>\<open>GeneratorContext\<close> point to, as values: the tables of the program, the
  bytecode, the piece that is being written, the number of reported errors.  Every method takes a
  context and gives its result with the changed context; the result is \<open>None\<close> where the code
  follows a null pointer, indexes outside of a table or does not return.  Assertions are off, as
  the configuration has them.
\<close>

section \<open>The context\<close>

record LoopScope =
  continue_pc :: int
  loop_frame_offset :: int
  breaks_to_resolve :: "nat list"

record GenCtx =
  gx_ast :: AST
  gx_bytecode :: Bytecode
  gx_piece :: BytecodePiece
  gx_errors :: nat
  gx_function :: nat
  gx_ignore_errors :: bool
  gx_stream :: "TokenStream option"
  current_frameOffset :: int
  gx_scope :: nat
  loopScopes :: "LoopScope list"

text \<open>\<^verbatim>\<open>REPORT\<close>: only the count of errors is kept, the message is left out.\<close>

definition gen_report :: "GenCtx \<Rightarrow> GenCtx" where
  "gen_report ctx = ctx\<lparr>gx_errors := gx_errors ctx + 1\<rparr>"

definition emits :: "(BytecodePiece \<Rightarrow> BytecodePiece) \<Rightarrow> GenCtx \<Rightarrow> GenCtx" where
  "emits f ctx = ctx\<lparr>gx_piece := f (gx_piece ctx)\<rparr>"

definition fun_of :: "GenCtx \<Rightarrow> ASTFunction" where
  "fun_of ctx = ast_functions (gx_ast ctx) ! gx_function ctx"

type_synonym gen_type = "(TypeId \<times> GenCtx) option"

text \<open>A type one pointer level up or down; the level has eight bits and wraps.\<close>

definition level_up :: "TypeId \<Rightarrow> TypeId" where
  "level_up t = set_pointer_level (uint (pointer_level t) + 1) t"

definition level_down :: "TypeId \<Rightarrow> TypeId" where
  "level_down t = set_pointer_level (uint (pointer_level t) - 1) t"

abbreviation pvoid :: TypeId where
  "pvoid \<equiv> make_type (primitive_num TYPE_VOID) 1"

section \<open>Moving values between the stack and memory\<close>

text \<open>
  The members of a type that is a structure, \<open>None\<close> inside for every other type.  A structure
  type with a pointer level is a pointer.
\<close>

definition struct_members :: "AST \<Rightarrow> TypeId \<Rightarrow> Member list option option" where
  "struct_members a t =
    (if pointer_level t \<noteq> 0 then Some None
     else do {
       info \<leftarrow> getType a t;
       Some (map_option (\<lambda>i. members (ast_structures a ! i)) (ast_struct info))
     })"

definition member_items :: "int \<Rightarrow> Member list \<Rightarrow> (int \<times> TypeId) list" where
  "member_items off ms = map (\<lambda>m. (off + mem_offset m, mem_typeId m)) ms"

text \<open>
  The recursion of \<^verbatim>\<open>generatePop\<close> and \<^verbatim>\<open>generatePush\<close> over the members, as a list of the values
  still to be moved: a structure that contains itself never ends.
\<close>

definition pop_value_at :: "Register \<Rightarrow> int \<Rightarrow> int \<Rightarrow> BytecodePiece \<Rightarrow> BytecodePiece" where
  "pop_value_at reg off sz p =
    (let q = emit_pop REG_A p in
     if reg \<noteq> REG_INVALID then emit_mov_mr_disp reg REG_A (word_of_int sz) off q else q)"

definition push_value_at :: "Register \<Rightarrow> int \<Rightarrow> int \<Rightarrow> BytecodePiece \<Rightarrow> BytecodePiece" where
  "push_value_at reg off sz p = emit_push REG_A (emit_mov_rm_disp REG_A reg (word_of_int sz) off p)"

partial_function (option) pop_items ::
  "AST \<Rightarrow> Register \<Rightarrow> (int \<times> TypeId) list \<Rightarrow> BytecodePiece \<Rightarrow> BytecodePiece option" where
  "pop_items a reg items p =
    (case items of
       [] \<Rightarrow> Some p
     | (off, t) # rest \<Rightarrow>
         if t = prim TYPE_VOID then pop_items a reg rest p
         else do {
           sz \<leftarrow> sizeOfType a t;
           ms \<leftarrow> struct_members a t;
           (case ms of
              None \<Rightarrow> pop_items a reg rest (pop_value_at reg off sz p)
            | Some mems \<Rightarrow> pop_items a reg (rev (member_items off mems) @ rest) p)
         })"

partial_function (option) push_items ::
  "AST \<Rightarrow> Register \<Rightarrow> (int \<times> TypeId) list \<Rightarrow> BytecodePiece \<Rightarrow> BytecodePiece option" where
  "push_items a reg items p =
    (case items of
       [] \<Rightarrow> Some p
     | (off, t) # rest \<Rightarrow>
         do {
           sz \<leftarrow> sizeOfType a t;
           ms \<leftarrow> struct_members a t;
           (case ms of
              None \<Rightarrow> push_items a reg rest (push_value_at reg off sz p)
            | Some mems \<Rightarrow> push_items a reg (member_items off mems @ rest) p)
         })"

definition generatePop :: "Register \<Rightarrow> int \<Rightarrow> TypeId \<Rightarrow> GenCtx \<Rightarrow> GenCtx option" where
  "generatePop reg off t ctx =
    do { p \<leftarrow> pop_items (gx_ast ctx) reg [(off, t)] (gx_piece ctx); Some (ctx\<lparr>gx_piece := p\<rparr>) }"

definition generatePush :: "Register \<Rightarrow> int \<Rightarrow> TypeId \<Rightarrow> GenCtx \<Rightarrow> GenCtx option" where
  "generatePush reg off t ctx =
    do { p \<leftarrow> push_items (gx_ast ctx) reg [(off, t)] (gx_piece ctx); Some (ctx\<lparr>gx_piece := p\<rparr>) }"

text \<open>A push that gives the type of what was pushed.\<close>

definition push_typed :: "Register \<Rightarrow> int \<Rightarrow> TypeId \<Rightarrow> TypeId \<Rightarrow> GenCtx \<Rightarrow> gen_type" where
  "push_typed reg off t result ctx =
    do { ctx1 \<leftarrow> generatePush reg off t ctx; Some (result, ctx1) }"

text \<open>
  The last operand of the second test of \<^verbatim>\<open>performCast\<close> is the constant \<^verbatim>\<open>TYPE_BOOL\<close> itself, not
  a comparison.
\<close>

definition cast_top :: "CastType \<Rightarrow> BytecodePiece \<Rightarrow> BytecodePiece" where
  "cast_top c p = emit_push REG_A (emit_cast REG_A c (emit_pop REG_A p))"

definition performCast :: "TypeId \<Rightarrow> TypeId \<Rightarrow> GenCtx \<Rightarrow> bool \<times> GenCtx" where
  "performCast ltype rtype ctx =
    (if ltype = rtype then (True, ctx)
     else if 0 < pointer_level ltype \<and> 0 < pointer_level rtype then (True, ctx)
     else if (ltype = prim TYPE_INT \<or> ltype = prim TYPE_CHAR \<or> ltype = prim TYPE_BOOL)
             \<and> (rtype = prim TYPE_INT \<or> rtype = prim TYPE_CHAR \<or> primitive_num TYPE_BOOL \<noteq> 0)
     then (True, ctx)
     else if ltype = prim TYPE_INT \<and> rtype = prim TYPE_FLOAT
     then (True, emits (cast_top CAST_INT_FLOAT) ctx)
     else if ltype = prim TYPE_FLOAT \<and> rtype = prim TYPE_INT
     then (True, emits (cast_top CAST_FLOAT_INT) ctx)
     else (False, ctx))"

section \<open>References\<close>

datatype PtrType = PTR_LOCAL | PTR_VALUE

text \<open>
  The chain of an expression that names a place: what kind of place, its type and the offset
  still to be added.  A chain that fails gives no place, and the method returns \<^verbatim>\<open>TYPE_VOID\<close>.
\<close>

type_synonym place = "PtrType \<times> TypeId \<times> int"

fun is_chain :: "ASTExpression \<Rightarrow> bool" where
  "is_chain (EIdentifier l nm) = True"
| "is_chain (EMember l a nm) = is_chain a"
| "is_chain (EIndex l a b) = is_chain a"
| "is_chain e = False"

definition ref_identifier :: "string \<Rightarrow> GenCtx \<Rightarrow> (place option \<times> GenCtx) option" where
  "ref_identifier nm ctx =
    do {
      v \<leftarrow> findVariable (gx_ast ctx) nm (gx_scope ctx);
      (case v of
         None \<Rightarrow> Some (None, gen_report ctx)
       | Some i \<Rightarrow>
           (case id_kind i of
              LOCAL_ID \<Rightarrow> Some (Some (PTR_LOCAL, id_type i, id_offset i), ctx)
            | GLOBAL_ID \<Rightarrow>
                Some (Some (PTR_VALUE, id_type i, 0), emits (emit_dataptr REG_B (id_offset i)) ctx)
            | CONST_ID \<Rightarrow> Some (None, gen_report ctx)))
    }"

text \<open>The pointer stored at a place, loaded into \<^verbatim>\<open>REG_B\<close>.\<close>

definition load_pointer :: "PtrType \<Rightarrow> int \<Rightarrow> BytecodePiece \<Rightarrow> BytecodePiece" where
  "load_pointer k off p = emit_mov_rm_disp REG_B (if k = PTR_LOCAL then REG_BP else REG_B) 8 off p"

definition find_member :: "AST \<Rightarrow> TypeId \<Rightarrow> string \<Rightarrow> Member option option" where
  "find_member a t nm =
    do {
      info \<leftarrow> getType a t;
      Some (case ast_struct info of None \<Rightarrow> None | Some i \<Rightarrow> findMember nm (ast_structures a ! i))
    }"

definition ref_member :: "string \<Rightarrow> place \<Rightarrow> GenCtx \<Rightarrow> (place option \<times> GenCtx) option" where
  "ref_member nm pl ctx =
    (case pl of (k, t, off) \<Rightarrow>
       if pointer_level t = 0 then
         do {
           m \<leftarrow> find_member (gx_ast ctx) t nm;
           (case m of
              None \<Rightarrow> Some (None, gen_report ctx)
            | Some mem \<Rightarrow> Some (Some (k, mem_typeId mem, off + mem_offset mem), ctx))
         }
       else if pointer_level t = 1 then
         do {
           m \<leftarrow> find_member (gx_ast ctx) (base_type t) nm;
           (case m of
              None \<Rightarrow> Some (None, gen_report ctx)
            | Some mem \<Rightarrow> Some (Some (PTR_VALUE, mem_typeId mem, mem_offset mem),
                               emits (load_pointer k off) ctx))
         }
       else Some (None, gen_report ctx))"

text \<open>The index of an element, below and above the code of the expression in the brackets.\<close>

definition index_address :: "int \<Rightarrow> BytecodePiece \<Rightarrow> BytecodePiece" where
  "index_address sz p =
    emit_add REG_B REG_A False (emit_mul REG_A REG_C False (emit_li REG_C sz p))"

definition ref_index :: "TypeId \<Rightarrow> TypeId \<Rightarrow> GenCtx \<Rightarrow> (place option \<times> GenCtx) option" where
  "ref_index t rtype ctx =
    (if rtype \<noteq> prim TYPE_INT then Some (None, gen_report ctx)
     else do {
       sz \<leftarrow> sizeOfType (gx_ast ctx) (level_down t);
       Some (Some (PTR_VALUE, level_down t, 0),
             emits (index_address sz \<circ> emit_pop REG_B \<circ> emit_pop REG_A) ctx)
     })"

text \<open>The address of the place, pushed.\<close>

definition ref_address :: "PtrType \<Rightarrow> int \<Rightarrow> BytecodePiece \<Rightarrow> BytecodePiece" where
  "ref_address k off p =
    emit_push REG_B
      (if k = PTR_LOCAL then
         (if off \<noteq> 0 then emit_add REG_B REG_BP False (emit_li REG_B off p)
          else emit_mov_rr REG_B REG_BP p)
       else if off \<noteq> 0 then emit_add REG_B REG_A False (emit_li REG_A off p) else p)"

definition ref_finish :: "place option \<Rightarrow> GenCtx \<Rightarrow> gen_type" where
  "ref_finish r ctx =
    (case r of
       None \<Rightarrow> Some (void_type, ctx)
     | Some (k, t, off) \<Rightarrow> Some (t, emits (ref_address k off) ctx))"

section \<open>Literals and names\<close>

text \<open>A value of the code itself.  A string goes to the data section.\<close>

definition push_constant :: "int \<Rightarrow> BytecodePiece \<Rightarrow> BytecodePiece" where
  "push_constant v p = emit_push REG_A (emit_li REG_A v p)"

definition gen_string :: "string \<Rightarrow> GenCtx \<Rightarrow> gen_type" where
  "gen_string s ctx =
    (let (off, bc) = appendString s (gx_bytecode ctx) in
     Some (set_pointer_level 1 (prim TYPE_CHAR),
           emits (emit_push REG_A \<circ> emit_dataptr REG_A (int off)) (ctx\<lparr>gx_bytecode := bc\<rparr>)))"

definition char_value :: "string \<Rightarrow> int" where
  "char_value s = (case s of [] \<Rightarrow> 0 | c # _ \<Rightarrow> sint (of_char c :: u8))"

definition gen_sizeof :: "string \<Rightarrow> GenCtx \<Rightarrow> gen_type" where
  "gen_sizeof nm ctx =
    do {
      t \<leftarrow> convertFullType (gx_ast ctx) nm (gx_scope ctx);
      if \<not> valid_type t then Some (prim TYPE_INT, gen_report ctx)
      else do {
        sz \<leftarrow> sizeOfType (gx_ast ctx) t;
        Some (prim TYPE_INT, emits (push_constant sz) ctx)
      }
    }"

text \<open>The kinds of \<^verbatim>\<open>isConst\<close>; no other expression reaches this method.\<close>

definition gen_literal :: "ASTExpression \<Rightarrow> GenCtx \<Rightarrow> gen_type" where
  "gen_literal e ctx =
    (case e of
       ELitInt l v \<Rightarrow> Some (prim TYPE_INT, emits (push_constant (int_of_i32 v)) ctx)
     | ELitFloat l v \<Rightarrow> Some (prim TYPE_FLOAT, emits (push_constant (sint v)) ctx)
     | ELitStr l s \<Rightarrow> gen_string s ctx
     | ELitChar l s \<Rightarrow> Some (prim TYPE_CHAR, emits (push_constant (char_value s)) ctx)
     | ESizeof l nm \<Rightarrow> gen_sizeof nm ctx
     | ELitTrue l \<Rightarrow> Some (prim TYPE_BOOL, emits (push_constant 1) ctx)
     | ELitFalse l \<Rightarrow> Some (prim TYPE_BOOL, emits (push_constant 0) ctx)
     | ELitNull l \<Rightarrow> Some (set_pointer_level 1 (prim TYPE_VOID), emits (push_constant 0) ctx)
     | _ \<Rightarrow> None)"

text \<open>
  A name.  The report for a constant without an expression reads the location of that missing
  expression.
\<close>

definition gen_constant :: "ASTStatement option \<Rightarrow> GenCtx \<Rightarrow> gen_type" where
  "gen_constant st ctx =
    (case st of
       Some (SConstDecl l nm ty (Some e)) \<Rightarrow>
         if \<not> is_const_kind (expr_kind e) then Some (void_type, gen_report ctx)
         else gen_literal e ctx
     | _ \<Rightarrow> None)"

definition gen_identifier :: "string \<Rightarrow> GenCtx \<Rightarrow> gen_type" where
  "gen_identifier nm ctx =
    do {
      v \<leftarrow> findVariable (gx_ast ctx) nm (gx_scope ctx);
      (case v of
         None \<Rightarrow> Some (void_type, gen_report ctx)
       | Some i \<Rightarrow>
           (case id_kind i of
              LOCAL_ID \<Rightarrow> push_typed REG_BP (id_offset i) (id_type i) (id_type i) ctx
            | GLOBAL_ID \<Rightarrow>
                push_typed REG_B 0 (id_type i) (id_type i) (emits (emit_dataptr REG_B (id_offset i)) ctx)
            | CONST_ID \<Rightarrow> gen_constant (id_statement i) ctx))
    }"

section \<open>Calls\<close>

text \<open>An argument fits its parameter when the types agree or one of two pointers is \<^verbatim>\<open>void*\<close>.\<close>

definition fits_type :: "TypeId \<Rightarrow> TypeId \<Rightarrow> bool" where
  "fits_type ltype rtype \<longleftrightarrow>
    ltype = rtype \<or> (ltype = pvoid \<and> pointer_level rtype = 1)
    \<or> (pointer_level ltype = 1 \<and> rtype = pvoid)"

fun check_arguments :: "Parameter list \<Rightarrow> TypeId list \<Rightarrow> GenCtx \<Rightarrow> bool \<times> GenCtx" where
  "check_arguments (p # ps) (t # ts) ctx =
     (if fits_type (param_typeId p) t then check_arguments ps ts ctx
      else (False, snd (check_arguments ps ts (gen_report ctx))))"
| "check_arguments ps ts ctx = (True, ctx)"

text \<open>The arguments go from the stack to the places of the parameters, the last one first.\<close>

fun pop_arguments :: "Parameter list \<Rightarrow> int \<Rightarrow> GenCtx \<Rightarrow> GenCtx option" where
  "pop_arguments [] diff ctx = Some ctx"
| "pop_arguments (p # ps) diff ctx =
     do {
       ctx1 \<leftarrow> generatePop REG_B (param_offset p - 16 - diff) (param_typeId p) ctx;
       pop_arguments ps diff ctx1
     }"

definition emit_call_to :: "nat \<Rightarrow> BytecodePiece \<Rightarrow> BytecodePiece" where
  "emit_call_to f p = (let (i, q) = emit_call p in addRelocation f i q)"

text \<open>What follows the code of the arguments.\<close>

definition gen_call :: "nat \<Rightarrow> int \<Rightarrow> TypeId list \<Rightarrow> GenCtx \<Rightarrow> gen_type" where
  "gen_call f arg_offset types ctx =
    (let fn = ast_functions (gx_ast ctx) ! f in
     if length (fn_parameters fn) \<noteq> length types then Some (void_type, gen_report ctx)
     else (case check_arguments (fn_parameters fn) types ctx of
       (False, ctx1) \<Rightarrow> Some (void_type, ctx1)
     | (True, ctx1) \<Rightarrow>
         do {
           let diff = virtual_sp (gx_piece ctx1) - arg_offset;
           ctx2 \<leftarrow> pop_arguments (rev (fn_parameters fn)) diff (emits (emit_mov_rr REG_B REG_SP) ctx1);
           let ctx3 = emits (emit_call_to f) ctx2;
           if valid_type (return_type fn) then
             push_typed REG_B (return_offset fn - 16) (return_type fn) (return_type fn)
               (emits (emit_incr REG_SP (parameters_size fn) \<circ> emit_mov_rr REG_B REG_SP) ctx3)
           else Some (return_type fn, emits (emit_incr REG_SP (parameters_size fn)) ctx3)
         }))"

section \<open>Operators\<close>

definition arithmetic_kind :: "ExprKind \<Rightarrow> bool" where
  "arithmetic_kind k \<longleftrightarrow> k \<in> {ADD, SUB, MUL, DIV}"

definition logical_kind :: "ExprKind \<Rightarrow> bool" where
  "logical_kind k \<longleftrightarrow> k \<in> {AND', OR'}"

definition comparison_kind :: "ExprKind \<Rightarrow> bool" where
  "comparison_kind k \<longleftrightarrow> k \<in> {EQUAL, NOT_EQUAL, LESS, GREATER, LESS_EQUAL, GREATER_EQUAL}"

text \<open>The type of the result and whether the operation is one on floats.\<close>

definition binary_type :: "ExprKind \<Rightarrow> TypeId \<Rightarrow> TypeId \<Rightarrow> (TypeId \<times> bool) option" where
  "binary_type k ltype rtype =
    (if arithmetic_kind k then
       (if ltype = rtype then Some (ltype, False)
        else if (ltype = prim TYPE_INT \<and> 0 < pointer_level rtype)
                \<or> (rtype = prim TYPE_INT \<and> 0 < pointer_level ltype)
        then Some (if pointer_level rtype \<noteq> 0 then rtype else ltype, False)
        else if (ltype = prim TYPE_INT \<or> ltype = prim TYPE_CHAR)
                \<and> (rtype = prim TYPE_INT \<or> rtype = prim TYPE_CHAR)
        then Some (prim TYPE_INT, False)
        else if (ltype = prim TYPE_INT \<or> ltype = prim TYPE_FLOAT)
                \<and> (rtype = prim TYPE_INT \<or> rtype = prim TYPE_FLOAT)
        then Some (prim TYPE_FLOAT, True)
        else None)
     else if logical_kind k then Some (prim TYPE_BOOL, False)
     else if (ltype = prim TYPE_INT \<or> ltype = prim TYPE_CHAR \<or> ltype = prim TYPE_FLOAT)
             \<and> (rtype = prim TYPE_INT \<or> rtype = prim TYPE_CHAR \<or> rtype = prim TYPE_FLOAT)
     then Some (prim TYPE_BOOL, False)
     else None)"

definition emit_operation :: "ExprKind \<Rightarrow> int \<Rightarrow> bool \<Rightarrow> BytecodePiece \<Rightarrow> BytecodePiece" where
  "emit_operation k sz is_float p =
    (case k of
       ADD \<Rightarrow> emit_add REG_A REG_D is_float p
     | SUB \<Rightarrow> emit2f INST_SUB REG_A REG_D is_float p
     | MUL \<Rightarrow> emit_mul REG_A REG_D is_float p
     | DIV \<Rightarrow> emit2f INST_DIV REG_A REG_D is_float p
     | AND' \<Rightarrow> emit2 INST_AND REG_A REG_D p
     | OR' \<Rightarrow> emit2 INST_OR REG_A REG_D p
     | EQUAL \<Rightarrow> emit2c INST_EQUAL REG_A REG_D sz is_float p
     | NOT_EQUAL \<Rightarrow> emit2c INST_NOT_EQUAL REG_A REG_D sz is_float p
     | LESS \<Rightarrow> emit2c INST_LESS REG_A REG_D sz is_float p
     | GREATER \<Rightarrow> emit2c INST_GREATER REG_A REG_D sz is_float p
     | LESS_EQUAL \<Rightarrow> emit2c INST_LESS_EQUAL REG_A REG_D sz is_float p
     | GREATER_EQUAL \<Rightarrow> emit2c INST_GREATER_EQUAL REG_A REG_D sz is_float p
     | _ \<Rightarrow> p)"

definition pop_operand :: "Register \<Rightarrow> bool \<Rightarrow> TypeId \<Rightarrow> BytecodePiece \<Rightarrow> BytecodePiece" where
  "pop_operand r is_float t p =
    (let q = emit_pop r p in
     if is_float \<and> (t = prim TYPE_INT \<or> t = prim TYPE_CHAR) then emit_cast r CAST_INT_FLOAT q else q)"

text \<open>The mismatch is reported unless an operand already failed.\<close>

definition report_operands :: "TypeId \<Rightarrow> TypeId \<Rightarrow> GenCtx \<Rightarrow> GenCtx" where
  "report_operands ltype rtype ctx =
    (if gx_errors ctx = 0 \<or> (ltype \<noteq> prim TYPE_VOID \<and> rtype \<noteq> prim TYPE_VOID)
     then gen_report ctx else ctx)"

definition gen_binary :: "ExprKind \<Rightarrow> TypeId \<Rightarrow> TypeId \<Rightarrow> GenCtx \<Rightarrow> gen_type" where
  "gen_binary k ltype rtype ctx =
    (case binary_type k ltype rtype of
       None \<Rightarrow> Some (void_type, report_operands ltype rtype ctx)
     | Some (out_type, is_float) \<Rightarrow>
         do {
           let operand_type =
             (if is_float \<and> (ltype = prim TYPE_INT \<or> ltype = prim TYPE_CHAR
                             \<or> rtype = prim TYPE_INT \<or> rtype = prim TYPE_CHAR)
              then prim TYPE_FLOAT else ltype);
           info \<leftarrow> getType (gx_ast ctx) operand_type;
           Some (out_type,
             emits (emit_push REG_A \<circ> emit_operation k (type_size info) is_float
                    \<circ> pop_operand REG_A is_float ltype \<circ> pop_operand REG_D is_float rtype) ctx)
         })"

definition negate_top :: "BytecodePiece \<Rightarrow> BytecodePiece" where
  "negate_top p = emit_push REG_A (emit_not REG_A REG_A (emit_pop REG_A p))"

text \<open>The value behind a pointer is pushed with the type of the pointer.\<close>

definition gen_deref :: "TypeId \<Rightarrow> GenCtx \<Rightarrow> gen_type" where
  "gen_deref t ctx =
    (if pointer_level t = 0 then Some (void_type, gen_report ctx)
     else push_typed REG_B 0 t (level_down t) (emits (emit_pop REG_B) ctx))"

definition gen_member :: "TypeId \<Rightarrow> GenCtx \<Rightarrow> gen_type" where
  "gen_member t ctx =
    (if \<not> valid_type t then Some (void_type, ctx)
     else push_typed REG_B 0 t t (emits (emit_pop REG_B) ctx))"

definition gen_index :: "TypeId \<Rightarrow> TypeId \<Rightarrow> GenCtx \<Rightarrow> gen_type" where
  "gen_index ltype rtype ctx =
    (if pointer_level ltype = 0 then Some (void_type, gen_report ctx)
     else if rtype \<noteq> prim TYPE_INT then Some (void_type, gen_report ctx)
     else do {
       sz \<leftarrow> sizeOfType (gx_ast ctx) (level_down ltype);
       push_typed REG_B 0 (level_down ltype) (level_down ltype)
         (emits (index_address sz \<circ> emit_pop REG_A \<circ> emit_pop REG_B) ctx)
     })"

definition gen_cast :: "string \<Rightarrow> TypeId \<Rightarrow> GenCtx \<Rightarrow> gen_type" where
  "gen_cast nm t ctx =
    do {
      castType \<leftarrow> convertFullType (gx_ast ctx) nm (gx_scope ctx);
      if t = castType then Some (castType, ctx)
      else if 0 < pointer_level t \<and> 0 < pointer_level castType then Some (castType, ctx)
      else if (t = prim TYPE_INT \<or> t = prim TYPE_BOOL \<or> t = prim TYPE_CHAR)
              \<and> (castType = prim TYPE_INT \<or> castType = prim TYPE_BOOL \<or> castType = prim TYPE_CHAR)
      then Some (castType, ctx)
      else if (t = prim TYPE_INT \<or> t = prim TYPE_FLOAT)
              \<and> (castType = prim TYPE_INT \<or> castType = prim TYPE_FLOAT)
      then Some (castType,
             emits (cast_top (if t = prim TYPE_INT then CAST_INT_FLOAT else CAST_FLOAT_INT)) ctx)
      else Some (void_type, gen_report ctx)
    }"

definition gen_assign :: "TypeId \<Rightarrow> TypeId \<Rightarrow> GenCtx \<Rightarrow> gen_type" where
  "gen_assign ltype rtype ctx =
    (if \<not> valid_type ltype \<or> \<not> valid_type rtype then Some (void_type, ctx)
     else if \<not> fits_type ltype rtype then Some (void_type, gen_report ctx)
     else do {
       ctx1 \<leftarrow> generatePop REG_B 0 ltype (emits (emit_pop REG_B) ctx);
       push_typed REG_B 0 ltype ltype ctx1
     })"

text \<open>Both prefix operators add one.\<close>

definition incdec_kind :: "ExprKind \<Rightarrow> bool" where
  "incdec_kind k \<longleftrightarrow> k \<in> {PRE_INCREMENT, POST_INCREMENT, PRE_DECREMENT, POST_DECREMENT}"

definition emit_incdec :: "ExprKind \<Rightarrow> BytecodePiece \<Rightarrow> BytecodePiece" where
  "emit_incdec k p =
    (case k of
       PRE_INCREMENT \<Rightarrow> emit_push REG_A (emit_incr REG_A 1 p)
     | PRE_DECREMENT \<Rightarrow> emit_push REG_A (emit_incr REG_A 1 p)
     | POST_INCREMENT \<Rightarrow> emit_incr REG_A 1 (emit_push REG_A p)
     | POST_DECREMENT \<Rightarrow> emit_incr REG_A (- 1) (emit_push REG_A p)
     | _ \<Rightarrow> p)"

definition gen_incdec :: "ExprKind \<Rightarrow> TypeId \<Rightarrow> GenCtx \<Rightarrow> gen_type" where
  "gen_incdec k t ctx =
    (if \<not> valid_type t then Some (void_type, ctx)
     else if t \<noteq> prim TYPE_INT then Some (void_type, gen_report ctx)
     else Some (t, emits (emit_mov_mr REG_B REG_A 4 \<circ> emit_incdec k \<circ> emit_mov_rm REG_A REG_B 4
                          \<circ> emit_pop REG_B) ctx))"

section \<open>Expressions\<close>

text \<open>
  The order of evaluation is that of the code: the right side of an assignment and the brackets
  of an index come first, arguments and the operands of the other operators from the left.
\<close>

function generateExpression :: "ASTExpression \<Rightarrow> GenCtx \<Rightarrow> gen_type"
and generateReference :: "ASTExpression \<Rightarrow> GenCtx \<Rightarrow> gen_type"
and generateChain :: "ASTExpression \<Rightarrow> GenCtx \<Rightarrow> (place option \<times> GenCtx) option"
and generateArguments :: "ASTExpression list \<Rightarrow> GenCtx \<Rightarrow> (TypeId list \<times> GenCtx) option"
where
  "generateExpression (EIdentifier l nm) ctx = gen_identifier nm ctx"
| "generateExpression (ECall l nm args) ctx =
     do {
       f \<leftarrow> findFunction (gx_ast ctx) nm (gx_scope ctx);
       (case f of
          None \<Rightarrow> Some (void_type, gen_report ctx)
        | Some i \<Rightarrow>
            do {
              let ctx1 = emits (emit_incr REG_SP (- parameters_size (ast_functions (gx_ast ctx) ! i))) ctx;
              (types, ctx2) \<leftarrow> generateArguments args ctx1;
              gen_call i (virtual_sp (gx_piece ctx1)) types ctx2
            })
     }"
| "generateExpression (EBinary k l a b) ctx =
     (if k = ASSIGN then
        do {
          (rtype, ctx1) \<leftarrow> generateExpression b ctx;
          (ltype, ctx2) \<leftarrow> generateReference a ctx1;
          gen_assign ltype rtype ctx2
        }
      else if arithmetic_kind k \<or> logical_kind k \<or> comparison_kind k then
        do {
          (ltype, ctx1) \<leftarrow> generateExpression a ctx;
          (rtype, ctx2) \<leftarrow> generateExpression b ctx1;
          gen_binary k ltype rtype ctx2
        }
      else Some (void_type, ctx))"
| "generateExpression (EUnary k l a) ctx =
     (if k = NOT' then
        do { (t, ctx1) \<leftarrow> generateExpression a ctx; Some (t, emits negate_top ctx1) }
      else if k = REFER then
        do { (t, ctx1) \<leftarrow> generateReference a ctx; Some (level_up t, ctx1) }
      else if k = DEREF then
        do { (t, ctx1) \<leftarrow> generateExpression a ctx; gen_deref t ctx1 }
      else if incdec_kind k then
        do { (t, ctx1) \<leftarrow> generateReference a ctx; gen_incdec k t ctx1 }
      else Some (void_type, ctx))"
| "generateExpression (EMember l a nm) ctx =
     do { (t, ctx1) \<leftarrow> generateReference (EMember l a nm) ctx; gen_member t ctx1 }"
| "generateExpression (EIndex l a b) ctx =
     (case b of
        None \<Rightarrow> None
      | Some i \<Rightarrow>
          do {
            (rtype, ctx1) \<leftarrow> generateExpression i ctx;
            (ltype, ctx2) \<leftarrow> generateExpression a ctx1;
            gen_index ltype rtype ctx2
          })"
| "generateExpression (ECast l a ty) ctx =
     do { (t, ctx1) \<leftarrow> generateExpression a ctx; gen_cast ty t ctx1 }"
| "generateExpression (ESizeof l ty) ctx = gen_literal (ESizeof l ty) ctx"
| "generateExpression (ELitInt l v) ctx = gen_literal (ELitInt l v) ctx"
| "generateExpression (ELitFloat l x) ctx = gen_literal (ELitFloat l x) ctx"
| "generateExpression (ELitStr l s) ctx = gen_literal (ELitStr l s) ctx"
| "generateExpression (ELitChar l s) ctx = gen_literal (ELitChar l s) ctx"
| "generateExpression (ELitNull l) ctx = gen_literal (ELitNull l) ctx"
| "generateExpression (ELitTrue l) ctx = gen_literal (ELitTrue l) ctx"
| "generateExpression (ELitFalse l) ctx = gen_literal (ELitFalse l) ctx"
| "generateReference e ctx =
     (case e of
        EUnary k l a \<Rightarrow>
          if k = DEREF then
            do { (t, ctx1) \<leftarrow> generateExpression a ctx; Some (level_down t, ctx1) }
          else Some (void_type, gen_report ctx)
      | _ \<Rightarrow>
          if \<not> is_chain e then Some (void_type, gen_report ctx)
          else do { (r, ctx1) \<leftarrow> generateChain e ctx; ref_finish r ctx1 })"
| "generateChain e ctx =
     (case e of
        EIdentifier l nm \<Rightarrow> ref_identifier nm ctx
      | EMember l a nm \<Rightarrow>
          do {
            (r, ctx1) \<leftarrow> generateChain a ctx;
            (case r of None \<Rightarrow> Some (None, ctx1) | Some pl \<Rightarrow> ref_member nm pl ctx1)
          }
      | EIndex l a b \<Rightarrow>
          do {
            (r, ctx1) \<leftarrow> generateChain a ctx;
            (case r of
               None \<Rightarrow> Some (None, ctx1)
             | Some (k, t, off) \<Rightarrow>
                 if pointer_level t = 0 then Some (None, gen_report ctx1)
                 else (case b of
                   None \<Rightarrow> None
                 | Some i \<Rightarrow>
                     do {
                       (rtype, ctx2) \<leftarrow>
                         generateExpression i (emits (emit_push REG_B \<circ> load_pointer k off) ctx1);
                       ref_index t rtype ctx2
                     }))
          }
      | _ \<Rightarrow> Some (None, ctx))"
| "generateArguments [] ctx = Some ([], ctx)"
| "generateArguments (e # es) ctx =
     do {
       (t, ctx1) \<leftarrow> generateExpression e ctx;
       (ts, ctx2) \<leftarrow> generateArguments es ctx1;
       Some (t # ts, ctx2)
     }"
  by pat_completeness auto
termination
  by (relation "measures
      [\<lambda>x. case x of Inl (Inl (e, _)) \<Rightarrow> size e | Inl (Inr (e, _)) \<Rightarrow> size e
         | Inr (Inl (e, _)) \<Rightarrow> size e | Inr (Inr (es, _)) \<Rightarrow> size_list size es,
       \<lambda>x. case x of Inl (Inl _) \<Rightarrow> 2 | Inl (Inr _) \<Rightarrow> 1 | Inr _ \<Rightarrow> 0]") auto

section \<open>Statements\<close>

text \<open>
  What a statement does to the rest of its body: it goes on, it makes the rest useless
  (\<^verbatim>\<open>stop\<close>), or the method returns the value.  \<^verbatim>\<open>return TYPE_VOID\<close> in a method with a truth value
  is \<^verbatim>\<open>false\<close>.
\<close>

datatype StmtFlow = Proceed | Halt | Leave bool

type_synonym gen_stmt = "(StmtFlow \<times> GenCtx) option"

primrec stmt_location :: "ASTStatement \<Rightarrow> nat" where
  "stmt_location (SVarDecl l nm ty e) = l"
| "stmt_location (SGlobalDecl l nm ty) = l"
| "stmt_location (SConstDecl l nm ty e) = l"
| "stmt_location (SExpression l e) = l"
| "stmt_location (SIf l c b e) = l"
| "stmt_location (SWhile l c b) = l"
| "stmt_location (SBreak l) = l"
| "stmt_location (SContinue l) = l"
| "stmt_location (SReturn l e) = l"

definition debug_line :: "lex_env \<Rightarrow> nat \<Rightarrow> GenCtx \<Rightarrow> GenCtx option" where
  "debug_line env loc ctx =
    do {
      ts \<leftarrow> gx_stream ctx;
      txt \<leftarrow> getline env ts loc;
      Some (emits (push_line (tok_line (get_token ts loc)) txt) ctx)
    }"

definition pushLoop :: "int \<Rightarrow> int \<Rightarrow> GenCtx \<Rightarrow> GenCtx" where
  "pushLoop pc offset ctx =
    ctx\<lparr>loopScopes := loopScopes ctx @
      [\<lparr>continue_pc = pc, loop_frame_offset = offset, breaks_to_resolve = []\<rparr>]\<rparr>"

definition popLoop :: "GenCtx \<Rightarrow> GenCtx" where
  "popLoop ctx = ctx\<lparr>loopScopes := butlast (loopScopes ctx)\<rparr>"

definition add_break :: "nat \<Rightarrow> GenCtx \<Rightarrow> GenCtx" where
  "add_break i ctx =
    (let s = last (loopScopes ctx) in
     ctx\<lparr>loopScopes := butlast (loopScopes ctx) @
       [s\<lparr>breaks_to_resolve := breaks_to_resolve s @ [i]\<rparr>]\<rparr>)"

definition gen_fix_jump :: "nat \<Rightarrow> GenCtx \<Rightarrow> GenCtx option" where
  "gen_fix_jump i ctx = do { p \<leftarrow> fix_jump_here i (gx_piece ctx); Some (ctx\<lparr>gx_piece := p\<rparr>) }"

fun fix_breaks :: "nat list \<Rightarrow> GenCtx \<Rightarrow> GenCtx option" where
  "fix_breaks [] ctx = Some ctx"
| "fix_breaks (i # is) ctx = do { ctx1 \<leftarrow> gen_fix_jump i ctx; fix_breaks is ctx1 }"

text \<open>The variables above the frame offset \<open>prev\<close> are given back to the stack.\<close>

definition free_locals :: "int \<Rightarrow> GenCtx \<Rightarrow> GenCtx" where
  "free_locals prev ctx =
    (if current_frameOffset ctx \<noteq> prev
     then (emits (emit_incr REG_SP (- (current_frameOffset ctx - prev))) ctx)\<lparr>current_frameOffset := prev\<rparr>
     else ctx)"

definition gen_expression_stmt :: "ASTExpression \<Rightarrow> GenCtx \<Rightarrow> gen_stmt" where
  "gen_expression_stmt e ctx =
    do {
      (t, ctx1) \<leftarrow> generateExpression e ctx;
      ctx2 \<leftarrow> generatePop REG_INVALID 0 t ctx1;
      Some (Proceed, ctx2)
    }"

definition gen_global :: "string \<Rightarrow> string \<Rightarrow> GenCtx \<Rightarrow> gen_stmt" where
  "gen_global nm ty ctx =
    do {
      t \<leftarrow> convertFullType (gx_ast ctx) ty (gx_scope ctx);
      if \<not> valid_type t then Some (Leave False, gen_report ctx)
      else do {
        sz \<leftarrow> sizeOfType (gx_ast ctx) t;
        let (off, bc) = appendData (nat sz) None (gx_bytecode ctx);
        (v, a) \<leftarrow> addVariable GLOBAL_ID nm (gx_scope ctx) t (int off) (gx_ast ctx);
        let ctx1 = ctx\<lparr>gx_bytecode := bc, gx_ast := a\<rparr>;
        Some (if v = None then (Leave False, gen_report ctx1) else (Proceed, ctx1))
      }
    }"

definition gen_const :: "ASTStatement \<Rightarrow> string \<Rightarrow> string \<Rightarrow> GenCtx \<Rightarrow> gen_stmt" where
  "gen_const stmt nm ty ctx =
    do {
      t \<leftarrow> convertFullType (gx_ast ctx) ty (gx_scope ctx);
      if \<not> valid_type t then Some (Leave False, gen_report ctx)
      else do {
        (v, a) \<leftarrow> addVariable CONST_ID nm (gx_scope ctx) t 0 (gx_ast ctx);
        Some (Proceed, if v = None then gen_report (ctx\<lparr>gx_ast := a\<rparr>)
                       else ctx\<lparr>gx_ast := set_statement nm (gx_scope ctx) stmt a\<rparr>)
      }
    }"

text \<open>The value of a new local variable: an expression, or zeroes.\<close>

definition init_local :: "int \<Rightarrow> TypeId \<Rightarrow> ASTExpression option \<Rightarrow> GenCtx \<Rightarrow> gen_stmt" where
  "init_local off t e ctx =
    (case e of
       Some e' \<Rightarrow>
         do {
           (t', ctx1) \<leftarrow> generateExpression e' ctx;
           if \<not> valid_type t' then Some (Leave False, ctx1)
           else (case performCast t' t ctx1 of
             (False, ctx2) \<Rightarrow> Some (Leave False, gen_report ctx2)
           | (True, ctx2) \<Rightarrow>
               do { ctx3 \<leftarrow> generatePop REG_BP off t ctx2; Some (Proceed, ctx3) })
         }
     | None \<Rightarrow>
         do {
           sz \<leftarrow> sizeOfType (gx_ast ctx) t;
           Some (Proceed,
             emits (emit_memzero REG_B REG_A \<circ> emit_li REG_A sz \<circ> emit_add REG_B REG_BP False
                    \<circ> emit_li REG_B off) ctx)
         })"

definition gen_var :: "string \<Rightarrow> string \<Rightarrow> ASTExpression option \<Rightarrow> GenCtx \<Rightarrow> gen_stmt" where
  "gen_var nm ty e ctx =
    do {
      t \<leftarrow> convertFullType (gx_ast ctx) ty (gx_scope ctx);
      if \<not> valid_type t then Some (Leave False, gen_report ctx)
      else do {
        size0 \<leftarrow> sizeOfType (gx_ast ctx) t;
        let sz = align_up 8 size0;
        let ctx1 = (emits (emit_incr REG_SP (- sz)) ctx)
                     \<lparr>current_frameOffset := current_frameOffset ctx - sz\<rparr>;
        (v, a) \<leftarrow> addVariable LOCAL_ID nm (gx_scope ctx1) t (current_frameOffset ctx1) (gx_ast ctx1);
        let ctx2 = ctx1\<lparr>gx_ast := a\<rparr>;
        (case v of
           None \<Rightarrow> Some (Proceed, gen_report ctx2)
         | Some i \<Rightarrow> init_local (id_offset i) (id_type i) e ctx2)
      }
    }"

text \<open>The condition of an \<^verbatim>\<open>if\<close> or \<^verbatim>\<open>while\<close>, up to the jump whose target is still open.\<close>

definition gen_condition :: "ASTExpression \<Rightarrow> GenCtx \<Rightarrow> (nat option \<times> GenCtx) option" where
  "gen_condition e ctx =
    do {
      (t, ctx1) \<leftarrow> generateExpression e ctx;
      Some (case performCast t (prim TYPE_BOOL) ctx1 of
        (False, ctx2) \<Rightarrow> (None, gen_report ctx2)
      | (True, ctx2) \<Rightarrow>
          let (i, p) = emit_jz_out REG_A (emit_pop REG_A (gx_piece ctx2)) in
          (Some i, ctx2\<lparr>gx_piece := p\<rparr>))
    }"

text \<open>Leaving the loop body early first frees what was declared in the loop.\<close>

definition unwind :: "int \<Rightarrow> GenCtx \<Rightarrow> GenCtx" where
  "unwind target ctx =
    (if current_frameOffset ctx \<noteq> target
     then emits (emit_incr REG_SP (target - current_frameOffset ctx)) ctx else ctx)"

definition gen_continue :: "int \<Rightarrow> GenCtx \<Rightarrow> gen_stmt" where
  "gen_continue prev ctx =
    (if loopScopes ctx = [] then Some (Leave False, gen_report ctx)
     else
       (let s = last (loopScopes ctx) in
        Some (Halt, (emits (emit_jmp (continue_pc s)) (unwind (loop_frame_offset s) ctx))
                      \<lparr>current_frameOffset := prev\<rparr>)))"

definition gen_break :: "int \<Rightarrow> GenCtx \<Rightarrow> gen_stmt" where
  "gen_break prev ctx =
    (if loopScopes ctx = [] then Some (Leave False, gen_report ctx)
     else
       (let ctx1 = unwind (loop_frame_offset (last (loopScopes ctx))) ctx;
            (i, p) = emit_jmp_out (gx_piece ctx1) in
        Some (Halt, (add_break i (ctx1\<lparr>gx_piece := p\<rparr>))\<lparr>current_frameOffset := prev\<rparr>)))"

definition leave_function :: "GenCtx \<Rightarrow> GenCtx" where
  "leave_function ctx =
    emits emit_ret
      (if current_frameOffset ctx \<noteq> 0
       then emits (emit_incr REG_SP (- current_frameOffset ctx)) ctx else ctx)"

definition gen_return :: "int \<Rightarrow> ASTExpression option \<Rightarrow> GenCtx \<Rightarrow> gen_stmt" where
  "gen_return prev e ctx =
    (case e of
       None \<Rightarrow> Some (Halt, (leave_function ctx)\<lparr>current_frameOffset := prev\<rparr>)
     | Some e' \<Rightarrow>
         if \<not> valid_type (return_type (fun_of ctx)) then Some (Leave False, gen_report ctx)
         else do {
           (t, ctx1) \<leftarrow> generateExpression e' ctx;
           (case performCast t (return_type (fun_of ctx1)) ctx1 of
              (False, ctx2) \<Rightarrow> Some (Leave False, gen_report ctx2)
            | (True, ctx2) \<Rightarrow>
                do {
                  ctx3 \<leftarrow> generatePop REG_BP (return_offset (fun_of ctx2)) t ctx2;
                  Some (Halt, (leave_function ctx3)\<lparr>current_frameOffset := prev\<rparr>)
                })
         })"

text \<open>
  A loop keeps the object \<^verbatim>\<open>pushLoop\<close> made, at a fixed place of the list, while its body is
  generated.  The truth value of an inner body is not looked at.
\<close>

function generateBody :: "lex_env \<Rightarrow> ASTBody \<Rightarrow> GenCtx \<Rightarrow> (bool \<times> GenCtx) option"
and generateStatements :: "lex_env \<Rightarrow> int \<Rightarrow> ASTStatement list \<Rightarrow> GenCtx \<Rightarrow> (bool \<times> GenCtx) option"
and generateStatement :: "lex_env \<Rightarrow> int \<Rightarrow> ASTStatement \<Rightarrow> GenCtx \<Rightarrow> gen_stmt"
where
  "generateBody env (ASTBody s stmts) ctx =
     do {
       (ok, ctx1) \<leftarrow> generateStatements env (current_frameOffset ctx) stmts (ctx\<lparr>gx_scope := s\<rparr>);
       Some (ok, ctx1\<lparr>gx_scope := gx_scope ctx\<rparr>)
     }"
| "generateStatements env prev [] ctx = Some (True, free_locals prev ctx)"
| "generateStatements env prev (stmt # rest) ctx =
     do {
       ctx1 \<leftarrow> debug_line env (stmt_location stmt) ctx;
       (flow, ctx2) \<leftarrow> generateStatement env prev stmt ctx1;
       (case flow of
          Proceed \<Rightarrow> generateStatements env prev rest ctx2
        | Halt \<Rightarrow> Some (True, free_locals prev ctx2)
        | Leave b \<Rightarrow> Some (b, ctx2))
     }"
| "generateStatement env prev (SExpression l e) ctx = gen_expression_stmt e ctx"
| "generateStatement env prev (SGlobalDecl l nm ty) ctx = gen_global nm ty ctx"
| "generateStatement env prev (SConstDecl l nm ty e) ctx = gen_const (SConstDecl l nm ty e) nm ty ctx"
| "generateStatement env prev (SVarDecl l nm ty e) ctx = gen_var nm ty e ctx"
| "generateStatement env prev (SContinue l) ctx = gen_continue prev ctx"
| "generateStatement env prev (SBreak l) ctx = gen_break prev ctx"
| "generateStatement env prev (SReturn l e) ctx = gen_return prev e ctx"
| "generateStatement env prev (SWhile l c body) ctx =
     do {
       let k = length (loopScopes ctx);
       let pc = int (get_pc (gx_piece ctx));
       (i, ctx1) \<leftarrow> gen_condition c (pushLoop pc (current_frameOffset ctx) ctx);
       (case i of
          None \<Rightarrow> Some (Leave False, ctx1)
        | Some reloc_while \<Rightarrow>
            do {
              (ok, ctx2) \<leftarrow> generateBody env body ctx1;
              ctx3 \<leftarrow> gen_fix_jump reloc_while (emits (emit_jmp pc) ctx2);
              ctx4 \<leftarrow> fix_breaks (breaks_to_resolve (loopScopes ctx3 ! k)) ctx3;
              Some (Proceed, popLoop ctx4)
            })
     }"
| "generateStatement env prev (SIf l c body else_body) ctx =
     do {
       (i, ctx1) \<leftarrow> gen_condition c ctx;
       (case i of
          None \<Rightarrow> Some (Leave False, ctx1)
        | Some reloc_if \<Rightarrow>
            do {
              (ok, ctx2) \<leftarrow> generateBody env body ctx1;
              (case else_body of
                 None \<Rightarrow> do { ctx3 \<leftarrow> gen_fix_jump reloc_if ctx2; Some (Proceed, ctx3) }
               | Some eb \<Rightarrow>
                   do {
                     let (reloc_end, p) = emit_jmp_out (gx_piece ctx2);
                     ctx3 \<leftarrow> gen_fix_jump reloc_if (ctx2\<lparr>gx_piece := p\<rparr>);
                     (ok', ctx4) \<leftarrow> generateBody env eb ctx3;
                     ctx5 \<leftarrow> gen_fix_jump reloc_end ctx4;
                     Some (Proceed, ctx5)
                   })
            })
     }"
  by pat_completeness auto
termination
  by (relation "measures
      [\<lambda>x. case x of Inl (_, b, _) \<Rightarrow> size b | Inr (Inl (_, _, ss, _)) \<Rightarrow> size_list size ss
         | Inr (Inr (_, _, s, _)) \<Rightarrow> size s]") auto

section \<open>Structures\<close>

text \<open>The offsets of the members.  A member whose type is not known stops the walk.\<close>

definition member_alignment :: "int \<Rightarrow> int" where
  "member_alignment sz = (if sz = 2 then 2 else if sz \<le> 4 then 4 else 8)"

fun layout_members ::
  "AST \<Rightarrow> nat \<Rightarrow> Member list \<Rightarrow> int \<Rightarrow> int \<Rightarrow> (bool \<times> Member list \<times> int \<times> int) option" where
  "layout_members a s [] off al = Some (True, [], off, al)"
| "layout_members a s (m # ms) off al =
     do {
       t \<leftarrow> convertFullType a (mem_typeString m) s;
       if \<not> valid_type t then Some (False, m # ms, off, al)
       else do {
         sz \<leftarrow> sizeOfType a t;
         let al1 = member_alignment sz;
         let off1 = align_up al1 off;
         (ok, ms', off', al') \<leftarrow> layout_members a s ms (off1 + sz) (max al al1);
         Some (ok, m\<lparr>mem_typeId := t, mem_offset := off1\<rparr> # ms', off', al')
       }
     }"

definition upd_struct :: "nat \<Rightarrow> (ASTStructure \<Rightarrow> ASTStructure) \<Rightarrow> AST \<Rightarrow> AST" where
  "upd_struct i f a = a\<lparr>ast_structures := (ast_structures a)[i := f (ast_structures a ! i)]\<rparr>"

definition set_type_struct :: "nat \<Rightarrow> nat \<Rightarrow> AST \<Rightarrow> AST" where
  "set_type_struct n i a = a\<lparr>typeInfos := (typeInfos a)[n := (typeInfos a ! n)\<lparr>ast_struct := Some i\<rparr>]\<rparr>"

definition create_struct_type :: "nat \<Rightarrow> nat \<Rightarrow> AST \<Rightarrow> AST option" where
  "create_struct_type i s a =
    (if created_type (ast_structures a ! i) then Some a
     else do {
       (n, a1) \<leftarrow> createType (st_name (ast_structures a ! i)) s a;
       Some (upd_struct i (\<lambda>st. st\<lparr>created_type := True, typeInfo := Some n\<rparr>) (set_type_struct n i a1))
     })"

definition generateStruct :: "nat \<Rightarrow> GenCtx \<Rightarrow> (bool \<times> GenCtx) option" where
  "generateStruct i ctx =
    (if complete (ast_structures (gx_ast ctx) ! i) then Some (True, ctx)
     else do {
       a1 \<leftarrow> create_struct_type i (gx_scope ctx) (gx_ast ctx);
       (ok, ms, off, al) \<leftarrow> layout_members a1 (gx_scope ctx) (members (ast_structures a1 ! i)) 0 1;
       let a2 = upd_struct i (\<lambda>st. st\<lparr>members := ms\<rparr>) a1;
       if \<not> ok then
         Some (False, (if gx_ignore_errors ctx then id else gen_report) (ctx\<lparr>gx_ast := a2\<rparr>))
       else do {
         n \<leftarrow> typeInfo (ast_structures a2 ! i);
         Some (True, ctx\<lparr>gx_ast := upd_struct i (\<lambda>st. st\<lparr>complete := True\<rparr>)
                                     (set_type_size n (align_up al off) a2)\<rparr>)
       }
     })"

section \<open>Declarations of a file\<close>

definition new_context :: "AST \<Rightarrow> nat \<Rightarrow> nat \<Rightarrow> TokenStream option \<Rightarrow> GenCtx" where
  "new_context a errs s str =
    \<lparr>gx_ast = a, gx_bytecode = new_bytecode, gx_piece = new_piece, gx_errors = errs, gx_function = 0,
     gx_ignore_errors = False, gx_stream = str, current_frameOffset = 0, gx_scope = s,
     loopScopes = []\<rparr>"

text \<open>The results of \<^verbatim>\<open>CheckStructs\<close>: whether all succeeded, and whether one did that had not.\<close>

fun check_structs :: "nat list \<Rightarrow> GenCtx \<Rightarrow> (bool \<times> bool \<times> GenCtx) option" where
  "check_structs [] ctx = Some (True, False, ctx)"
| "check_structs (i # is) ctx =
     (if complete (ast_structures (gx_ast ctx) ! i) then check_structs is ctx
      else do {
        (yes, ctx1) \<leftarrow> generateStruct i ctx;
        (ok, changed, ctx2) \<leftarrow> check_structs is ctx1;
        Some (yes \<and> ok, yes \<or> changed, ctx2)
      })"

definition CheckStructs :: "AST \<Rightarrow> Import \<Rightarrow> nat \<Rightarrow> bool \<Rightarrow> (bool \<times> bool \<times> AST \<times> nat) option" where
  "CheckStructs a imp errs ignore_errors =
    do {
      s \<leftarrow> imp_body imp;
      (ok, changed, ctx) \<leftarrow> check_structs (imp_structures imp)
        ((new_context a errs s (imp_stream imp))\<lparr>gx_ignore_errors := ignore_errors\<rparr>);
      Some (ok, changed, gx_ast ctx, gx_errors ctx)
    }"

text \<open>
  The parameters of a function.  In a function with a body each one is also a variable of the
  scope of that body.
\<close>

definition param_alignment :: "int \<Rightarrow> int" where
  "param_alignment sz = (if sz \<le> 1 then 1 else if sz \<le> 2 then 2 else if sz \<le> 4 then 4 else 8)"

definition declare_param :: "ASTBody option \<Rightarrow> Parameter \<Rightarrow> GenCtx \<Rightarrow> GenCtx option" where
  "declare_param body p ctx =
    (case body of
       None \<Rightarrow> Some ctx
     | Some b \<Rightarrow>
         do {
           (v, a) \<leftarrow> addVariable LOCAL_ID (param_name p) (body_scope b) (param_typeId p)
             (param_offset p) (gx_ast ctx);
           Some (if v = None then gen_report (ctx\<lparr>gx_ast := a\<rparr>) else ctx\<lparr>gx_ast := a\<rparr>)
         })"

fun layout_params ::
  "ASTBody option \<Rightarrow> Parameter list \<Rightarrow> int \<Rightarrow> GenCtx \<Rightarrow> (Parameter list \<times> int \<times> GenCtx) option" where
  "layout_params body [] off ctx = Some ([], off, ctx)"
| "layout_params body (p # ps) off ctx =
     do {
       t \<leftarrow> convertFullType (gx_ast ctx) (param_typeString p) (gx_scope ctx);
       let ctx1 = (if valid_type t then ctx else gen_report ctx);
       sz \<leftarrow> sizeOfType (gx_ast ctx1) t;
       let off1 = align_up (param_alignment sz) off;
       let p1 = p\<lparr>param_typeId := t, param_offset := off1\<rparr>;
       ctx2 \<leftarrow> declare_param body p1 ctx1;
       (ps', off', ctx3) \<leftarrow> layout_params body ps (off1 + sz) ctx2;
       Some (p1 # ps', off', ctx3)
     }"

definition upd_function :: "nat \<Rightarrow> (ASTFunction \<Rightarrow> ASTFunction) \<Rightarrow> AST \<Rightarrow> AST" where
  "upd_function i f a = a\<lparr>ast_functions := (ast_functions a)[i := f (ast_functions a ! i)]\<rparr>"

definition layout_return :: "nat \<Rightarrow> GenCtx \<Rightarrow> GenCtx option" where
  "layout_return f ctx =
    (let fn = ast_functions (gx_ast ctx) ! f in
     if return_typeString fn = [] then Some ctx
     else do {
       t \<leftarrow> convertFullType (gx_ast ctx) (return_typeString fn) (gx_scope ctx);
       let ctx1 = ctx\<lparr>gx_ast := upd_function f (\<lambda>fn. fn\<lparr>return_type := t\<rparr>) (gx_ast ctx)\<rparr>;
       if \<not> valid_type t then Some (gen_report ctx1)
       else do {
         sz \<leftarrow> sizeOfType (gx_ast ctx1) t;
         Some (ctx1\<lparr>gx_ast := upd_function f (\<lambda>fn. fn\<lparr>return_offset := - align_up 8 sz\<rparr>)
                                (gx_ast ctx1)\<rparr>)
       }
     })"

definition CheckFunction :: "AST \<Rightarrow> Import \<Rightarrow> nat \<Rightarrow> nat \<Rightarrow> (AST \<times> nat) option" where
  "CheckFunction a imp f errs =
    do {
      s \<leftarrow> imp_body imp;
      let fn = ast_functions a ! f;
      (ps, off, ctx1) \<leftarrow> layout_params (fn_body fn) (fn_parameters fn) 16
        (new_context a errs s (imp_stream imp));
      let a1 = upd_function f
        (\<lambda>fn. fn\<lparr>fn_parameters := ps, parameters_size := align_up 8 off - 16\<rparr>) (gx_ast ctx1);
      ctx2 \<leftarrow> layout_return f (ctx1\<lparr>gx_ast := a1\<rparr>);
      Some (gx_ast ctx2, gx_errors ctx2)
    }"

text \<open>The global variables of a file; the first one that fails ends the walk.\<close>

fun check_globals :: "ASTStatement list \<Rightarrow> GenCtx \<Rightarrow> (bool \<times> GenCtx) option" where
  "check_globals [] ctx = Some (True, ctx)"
| "check_globals (SGlobalDecl l nm ty # rest) ctx =
     do {
       (flow, ctx1) \<leftarrow> gen_global nm ty ctx;
       (if flow = Proceed then check_globals rest ctx1 else Some (False, ctx1))
     }"
| "check_globals (stmt # rest) ctx = check_globals rest ctx"

definition CheckGlobals ::
  "AST \<Rightarrow> Import \<Rightarrow> Bytecode \<Rightarrow> nat \<Rightarrow> (bool \<times> AST \<times> Bytecode \<times> nat) option" where
  "CheckGlobals a imp bc errs =
    do {
      s \<leftarrow> imp_body imp;
      (ok, ctx) \<leftarrow> check_globals (imp_statements imp)
        ((new_context a errs s (imp_stream imp))\<lparr>gx_bytecode := bc\<rparr>);
      Some (ok, gx_ast ctx, gx_bytecode ctx, gx_errors ctx)
    }"

section \<open>Functions\<close>

text \<open>
  The start of \<^verbatim>\<open>main\<close> clears the global variables of all files: those of the file itself and
  those declared in a body.  The bodies still to be visited are a stack; a global has no
  expression in the syntax tree, so the branch of the code for one is not there.
\<close>

fun child_bodies :: "ASTStatement list \<Rightarrow> ASTBody list" where
  "child_bodies [] = []"
| "child_bodies (SIf l c b None # rest) = b # child_bodies rest"
| "child_bodies (SIf l c b (Some e) # rest) = b # e # child_bodies rest"
| "child_bodies (SWhile l c b # rest) = b # child_bodies rest"
| "child_bodies (_ # rest) = child_bodies rest"

definition clear_global :: "string \<Rightarrow> GenCtx \<Rightarrow> GenCtx option" where
  "clear_global nm ctx =
    do {
      v \<leftarrow> findVariable (gx_ast ctx) nm (gx_scope ctx);
      (case v of
         None \<Rightarrow> Some ctx
       | Some i \<Rightarrow>
           do {
             sz \<leftarrow> sizeOfType (gx_ast ctx) (id_type i);
             Some (emits (emit_memzero REG_B REG_A \<circ> emit_li REG_A sz
                          \<circ> emit_dataptr REG_B (id_offset i)) ctx)
           })
    }"

fun clear_globals :: "ASTStatement list \<Rightarrow> GenCtx \<Rightarrow> GenCtx option" where
  "clear_globals [] ctx = Some ctx"
| "clear_globals (SGlobalDecl l nm ty # rest) ctx =
     do { ctx1 \<leftarrow> clear_global nm ctx; clear_globals rest ctx1 }"
| "clear_globals (stmt # rest) ctx = clear_globals rest ctx"

lemma size_list_rev: "size_list f (rev xs) = size_list f xs"
  by (induction xs) auto

lemma size_child_bodies: "size_list size (child_bodies ss) \<le> size_list size ss"
  by (induction ss rule: child_bodies.induct) auto

function clear_bodies :: "ASTBody list \<Rightarrow> GenCtx \<Rightarrow> GenCtx option" where
  "clear_bodies [] ctx = Some ctx"
| "clear_bodies (ASTBody s stmts # rest) ctx =
     do {
       ctx1 \<leftarrow> clear_globals stmts (ctx\<lparr>gx_scope := s\<rparr>);
       clear_bodies (rev (child_bodies stmts) @ rest) ctx1
     }"
  by pat_completeness auto
termination
  by (relation "measure (\<lambda>(bs, _). size_list size bs)")
    (auto simp: size_list_rev intro: le_less_trans [OF size_child_bodies])

definition function_bodies :: "AST \<Rightarrow> nat \<Rightarrow> ASTBody list" where
  "function_bodies a s =
    List.map_filter (\<lambda>f. fn_body (ast_functions a ! f)) (scope_functions (scopes a ! s))"

fun clear_imports :: "Import list \<Rightarrow> GenCtx \<Rightarrow> GenCtx option" where
  "clear_imports [] ctx = Some ctx"
| "clear_imports (imp # imps) ctx =
     do {
       s \<leftarrow> imp_body imp;
       ctx1 \<leftarrow> clear_globals (imp_statements imp) (ctx\<lparr>gx_scope := s\<rparr>);
       ctx2 \<leftarrow> clear_bodies
         (rev (function_bodies (gx_ast ctx1) s @ child_bodies (imp_statements imp))) ctx1;
       clear_imports imps ctx2
     }"

definition main_prologue :: "Import list \<Rightarrow> ASTBody \<Rightarrow> GenCtx \<Rightarrow> GenCtx option" where
  "main_prologue imps body ctx =
    do {
      ctx1 \<leftarrow> clear_imports imps
        (emits (push_line 0 ''<set-globals>'') (ctx\<lparr>gx_scope := body_scope body\<rparr>));
      Some (ctx1\<lparr>gx_scope := gx_scope ctx\<rparr>)
    }"

text \<open>The last cell of the code is compared with the opcode of a return, immediate or not.\<close>

definition finish_function :: "GenCtx \<Rightarrow> GenCtx" where
  "finish_function ctx =
    (let code = instructions (gx_piece ctx) in
     if code \<noteq> [] \<and> opcode (last code) \<noteq> opcode_byte INST_RET
     then leave_function
            (if return_type (fun_of ctx) \<noteq> prim TYPE_VOID then gen_report ctx else ctx)
     else ctx)"

definition reserve_return :: "GenCtx \<Rightarrow> GenCtx option" where
  "reserve_return ctx =
    (if valid_type (return_type (fun_of ctx)) then
       do {
         sz \<leftarrow> sizeOfType (gx_ast ctx) (return_type (fun_of ctx));
         Some ((emits (emit_incr REG_SP (- align_up 8 sz)) ctx)
                 \<lparr>current_frameOffset := current_frameOffset ctx - align_up 8 sz\<rparr>)
       }
     else Some ctx)"

definition store_piece :: "BytecodePiece \<Rightarrow> Bytecode \<Rightarrow> Bytecode" where
  "store_piece p bc = bc\<lparr>pieces := (pieces bc)[nat (piece_index p) := p]\<rparr>"

definition GenerateFunction ::
  "lex_env \<Rightarrow> AST \<Rightarrow> Import list \<Rightarrow> TokenStream option \<Rightarrow> nat \<Rightarrow> Bytecode \<Rightarrow> nat \<Rightarrow>
   (AST \<times> Bytecode \<times> nat) option" where
  "GenerateFunction env a imps str f bc errs =
    (let fn = ast_functions a ! f in
     if is_native fn then Some (a, bc, errs)
     else do {
       body \<leftarrow> fn_body fn;
       let (p, bc1) = createPiece bc;
       let ctx = (new_context
           (upd_function f (\<lambda>fn. fn\<lparr>piece_code_index := piece_index p\<rparr>) a) errs 0 str)
           \<lparr>gx_bytecode := bc1, gx_function := f,
            gx_piece := p\<lparr>piece_name := fn_name fn, virtual_sp := 0\<rparr>\<rparr>;
       ctx1 \<leftarrow> (if fn_name fn = ''main'' then main_prologue imps body ctx else Some ctx);
       ctx2 \<leftarrow> reserve_return ctx1;
       (ok, ctx3) \<leftarrow> generateBody env body ctx2;
       let ctx4 = finish_function ctx3;
       Some (gx_ast ctx4, store_piece (gx_piece ctx4) (gx_bytecode ctx4), gx_errors ctx4)
     })"

end
