(* ===== verification/Scheduler.thy ===== *)
theory Scheduler
  imports Generator
begin

text \<open>
  include/Compiler.h and src/Compiler.cpp: the tasks of the compiler and the threads that work on
  them.  A file is lexed and parsed, its structures, then its functions and globals are checked,
  and code is generated; a file waits before its structures are checked until the files it
  imports are parsed.

  Between two locks a thread is one step of the model: taking a task, parsing, telling the files
  that wait, looking an import up, acting on what was found, each of the later tasks, putting the
  task back.  The threads take these steps in any order.  What the code does without a lock on
  tables that other threads use is one step as well.  The result of a step is \<open>None\<close> where the
  code has no defined behaviour.
\<close>

section \<open>State\<close>

datatype TaskType = TASK_LEX_FILE | TASK_CHECK_STRUCTS | TASK_CHECK_FUNCTIONS | TASK_GEN_FUNCTIONS

record Task =
  task_type :: TaskType
  task_name :: string
  task_imp :: "nat option"
  no_change :: bool

text \<open>
  The semaphore of the queue has at most one signal.  A pointer to an import is its number in
  \<^verbatim>\<open>ast->imports\<close>.
\<close>

record Compiler =
  comp_ast :: AST
  comp_errors :: nat
  comp_bytecode :: Bytecode
  comp_streams :: "TokenStream list"
  stream_map :: "string \<rightharpoonup> TokenStream"
  import_list :: "Import list"
  import_map :: "string \<rightharpoonup> nat"
  comp_tasks :: "Task list"
  threads_processing :: int
  total_threads :: int
  is_signaled :: bool
  tasks_queue_lock :: nat

text \<open>The file system, what the lexer needs, and the uninitialised number of the parser.\<close>

record comp_env =
  ce_lex :: lex_env
  ce_files :: "string \<Rightarrow> string option"
  ce_junk :: f32

text \<open>Where a thread is in \<^verbatim>\<open>processTasks\<close>.\<close>

datatype Thread =
    Starting
  | Waiting
  | Entered
  | Busy Task
  | Parsed Task nat
  | Linking Task nat "string list"
  | Found Task nat string "nat option" "string list"
  | Finishing Task bool
  | Exited bool

definition upd_import :: "nat \<Rightarrow> (Import \<Rightarrow> Import) \<Rightarrow> Compiler \<Rightarrow> Compiler" where
  "upd_import i f c = c\<lparr>import_list := (import_list c)[i := f (import_list c ! i)]\<rparr>"

definition createImport :: "string \<Rightarrow> Compiler \<Rightarrow> nat \<times> Compiler" where
  "createImport nm c =
    (length (import_list c),
     c\<lparr>import_list := import_list c @ [new_import nm], import_map := (import_map c)(nm \<mapsto> length (import_list c))\<rparr>)"

definition findImport :: "string \<Rightarrow> Compiler \<Rightarrow> nat option" where
  "findImport nm c = import_map c nm"

definition push_task :: "Task \<Rightarrow> Compiler \<Rightarrow> Compiler" where
  "push_task t c = c\<lparr>comp_tasks := comp_tasks c @ [t]\<rparr>"

section \<open>Taking a task and putting it back\<close>

text \<open>\<^verbatim>\<open>SEM_SIGNAL\<close> behind \<^verbatim>\<open>is_signaled\<close>.\<close>

definition signal :: "Compiler \<Rightarrow> Compiler" where
  "signal c = (if is_signaled c then c else c\<lparr>is_signaled := True, tasks_queue_lock := 1\<rparr>)"

definition task_ready :: "Compiler \<Rightarrow> Task \<Rightarrow> bool" where
  "task_ready c t \<longleftrightarrow>
    (case task_imp t of
       None \<Rightarrow> True
     | Some i \<Rightarrow> deps_count (import_list c ! i) = deps_now (import_list c ! i))"

definition ready_index :: "Compiler \<Rightarrow> nat option" where
  "ready_index c = find (\<lambda>i. task_ready c (comp_tasks c ! i)) [0..<length (comp_tasks c)]"

definition remove_nth :: "nat \<Rightarrow> 'a list \<Rightarrow> 'a list" where
  "remove_nth i xs = take i xs @ drop (Suc i) xs"

definition take_task :: "Compiler \<Rightarrow> Compiler \<times> Thread" where
  "take_task c0 =
    (let c = c0\<lparr>is_signaled := False\<rparr> in
     case ready_index c of
       None \<Rightarrow>
         if comp_tasks c = [] \<and> threads_processing c = 0 then (signal c, Exited True)
         else if threads_processing c = 0 then (signal c, Exited False)
         else (c, Waiting)
     | Some i \<Rightarrow>
         let c1 = c\<lparr>comp_tasks := remove_nth i (comp_tasks c),
                    threads_processing := threads_processing c + 1\<rparr>
         in (if comp_tasks c1 \<noteq> [] then signal c1 else c1, Busy (comp_tasks c ! i)))"

definition finish_task :: "Task \<Rightarrow> bool \<Rightarrow> Compiler \<Rightarrow> Compiler" where
  "finish_task t queue c =
    (let c1 = c\<lparr>threads_processing := threads_processing c - 1\<rparr> in
     signal (if queue then push_task t c1 else c1))"

section \<open>Lexing a file and waiting for its imports\<close>

text \<open>
  The fuel of the parser is enough for every stream.  An import that has no number yet gets one
  in \<^verbatim>\<open>ParseTokenStream\<close>.  A null pointer as its result is followed in the next lines.
\<close>

definition parse_fuel :: "TokenStream \<Rightarrow> nat" where
  "parse_fuel ts = length (tokens ts) + 4"

definition store_import :: "nat option \<Rightarrow> Import \<Rightarrow> Compiler \<Rightarrow> nat \<times> Compiler" where
  "store_import i imp c =
    (case i of
       Some k \<Rightarrow> (k, upd_import k (\<lambda>_. imp) c)
     | None \<Rightarrow> let (k, c1) = createImport (imp_name imp) c in (k, upd_import k (\<lambda>_. imp) c1))"

definition do_lex :: "comp_env \<Rightarrow> Task \<Rightarrow> Compiler \<Rightarrow> (Compiler \<times> Thread) option" where
  "do_lex env t c =
    (case lex_file (ce_lex env) (task_name t) (ce_files env (task_name t)) of
       None \<Rightarrow> Some (c\<lparr>comp_errors := comp_errors c + 1\<rparr>, Finishing t False)
     | Some ts \<Rightarrow>
         do {
           let c1 = c\<lparr>comp_streams := comp_streams c @ [ts],
                      stream_map := (stream_map c)(task_name t \<mapsto> ts)\<rparr>;
           (ok, imp, ctx) \<leftarrow> ParseTokenStream (parse_fuel ts) (ce_junk env) ts
             (map_option (\<lambda>i. import_list c1 ! i) (task_imp t)) (comp_ast c1) (comp_errors c1);
           let (k, c2) = store_import (task_imp t) imp
             (c1\<lparr>comp_ast := ast ctx, comp_errors := errors ctx\<rparr>);
           if ok then Some (c2, Parsed (t\<lparr>task_imp := Some k\<rparr>) k) else None
         })"

text \<open>The imports that wait for this one see its scope and have one more dependency.\<close>

definition fix_import :: "nat \<Rightarrow> nat \<Rightarrow> Compiler \<Rightarrow> Compiler option" where
  "fix_import k f c =
    do {
      s \<leftarrow> imp_body (import_list c ! f);
      s' \<leftarrow> imp_body (import_list c ! k);
      Some (upd_import f (\<lambda>i. i\<lparr>deps_now := deps_now i + 1\<rparr>)
              (c\<lparr>comp_ast := share_scope s s' (comp_ast c)\<rparr>))
    }"

fun fix_imports :: "nat \<Rightarrow> nat list \<Rightarrow> Compiler \<Rightarrow> Compiler option" where
  "fix_imports k [] c = Some c"
| "fix_imports k (f # fs) c = do { c1 \<leftarrow> fix_import k f c; fix_imports k fs c1 }"

definition do_fixups :: "nat \<Rightarrow> Compiler \<Rightarrow> Compiler option" where
  "do_fixups k c =
    do {
      c1 \<leftarrow> fix_imports k (fixups (import_list c ! k)) c;
      Some (upd_import k (\<lambda>i. i\<lparr>fixups := [], deps_now := 0, deps_count := 0\<rparr>) c1)
    }"

text \<open>
  An imported file that nobody asked for before becomes a task; one that is known but not parsed
  yet is waited for; one that is parsed gives its scope at once.
\<close>

definition wait_for :: "nat \<Rightarrow> nat \<Rightarrow> Compiler \<Rightarrow> Compiler" where
  "wait_for k j c =
    upd_import k (\<lambda>i. i\<lparr>deps_count := deps_count i + 1\<rparr>)
      (upd_import j (\<lambda>i. i\<lparr>fixups := fixups i @ [k]\<rparr>) c)"

definition link_import :: "nat \<Rightarrow> string \<Rightarrow> nat option \<Rightarrow> Compiler \<Rightarrow> Compiler option" where
  "link_import k nm found c =
    (case found of
       None \<Rightarrow>
         let (j, c1) = createImport nm c in
         Some (push_task \<lparr>task_type = TASK_LEX_FILE, task_name = nm, task_imp = Some j,
                           no_change = False\<rparr> (wait_for k j c1))
     | Some j \<Rightarrow>
         (case imp_body (import_list c ! j) of
            Some s' \<Rightarrow>
              do {
                s \<leftarrow> imp_body (import_list c ! k);
                Some (c\<lparr>comp_ast := share_scope s s' (comp_ast c)\<rparr>)
              }
          | None \<Rightarrow> Some (wait_for k j c)))"

section \<open>The later tasks\<close>

text \<open>Errors are only printed when two tries in a row completed no structure.\<close>

definition do_structs :: "Task \<Rightarrow> Compiler \<Rightarrow> (Compiler \<times> Thread) option" where
  "do_structs t c =
    do {
      i \<leftarrow> task_imp t;
      (success, changed, a, errs) \<leftarrow> CheckStructs (comp_ast c) (import_list c ! i) (comp_errors c) True;
      let c1 = c\<lparr>comp_ast := a, comp_errors := errs\<rparr>;
      if success then Some (c1, Finishing (t\<lparr>task_type := TASK_CHECK_FUNCTIONS\<rparr>) True)
      else if \<not> changed \<and> no_change t then
        do {
          (success', changed', a', errs') \<leftarrow>
            CheckStructs (comp_ast c1) (import_list c1 ! i) (comp_errors c1) False;
          Some (c1\<lparr>comp_ast := a', comp_errors := errs'\<rparr>,
                Finishing (t\<lparr>no_change := \<not> changed'\<rparr>) False)
        }
      else Some (c1, Finishing (t\<lparr>no_change := \<not> changed\<rparr>) True)
    }"

fun check_functions :: "Import \<Rightarrow> nat list \<Rightarrow> Compiler \<Rightarrow> Compiler option" where
  "check_functions imp [] c = Some c"
| "check_functions imp (f # fs) c =
     do {
       (a, errs) \<leftarrow> CheckFunction (comp_ast c) imp f (comp_errors c);
       check_functions imp fs (c\<lparr>comp_ast := a, comp_errors := errs\<rparr>)
     }"

definition body_functions :: "nat \<Rightarrow> Compiler \<Rightarrow> nat list option" where
  "body_functions i c =
    do {
      s \<leftarrow> imp_body (import_list c ! i);
      sc \<leftarrow> getScope (comp_ast c) s;
      Some (scope_functions sc)
    }"

definition do_functions :: "Task \<Rightarrow> Compiler \<Rightarrow> (Compiler \<times> Thread) option" where
  "do_functions t c =
    do {
      i \<leftarrow> task_imp t;
      fs \<leftarrow> body_functions i c;
      c1 \<leftarrow> check_functions (import_list c ! i) fs c;
      let next_task = (if comp_errors c1 = 0 then Finishing (t\<lparr>task_type := TASK_GEN_FUNCTIONS\<rparr>) True
                  else Finishing t False);
      (ok, a, bc, errs) \<leftarrow> CheckGlobals (comp_ast c1) (import_list c1 ! i) (comp_bytecode c1) (comp_errors c1);
      Some (c1\<lparr>comp_ast := a, comp_bytecode := bc, comp_errors := errs\<rparr>, next_task)
    }"

fun generate_functions :: "comp_env \<Rightarrow> nat \<Rightarrow> nat list \<Rightarrow> Compiler \<Rightarrow> Compiler option" where
  "generate_functions env i [] c = Some c"
| "generate_functions env i (f # fs) c =
     do {
       (a, bc, errs) \<leftarrow> GenerateFunction (ce_lex env) (comp_ast c) (import_list c) (imp_stream (import_list c ! i))
         f (comp_bytecode c) (comp_errors c);
       generate_functions env i fs (c\<lparr>comp_ast := a, comp_bytecode := bc, comp_errors := errs\<rparr>)
     }"

definition do_generate :: "comp_env \<Rightarrow> Task \<Rightarrow> Compiler \<Rightarrow> (Compiler \<times> Thread) option" where
  "do_generate env t c =
    do {
      i \<leftarrow> task_imp t;
      fs \<leftarrow> body_functions i c;
      c1 \<leftarrow> generate_functions env i fs c;
      Some (c1, Finishing t False)
    }"

definition do_task :: "comp_env \<Rightarrow> Task \<Rightarrow> Compiler \<Rightarrow> (Compiler \<times> Thread) option" where
  "do_task env t c =
    (case task_type t of
       TASK_LEX_FILE \<Rightarrow> do_lex env t c
     | TASK_CHECK_STRUCTS \<Rightarrow> do_structs t c
     | TASK_CHECK_FUNCTIONS \<Rightarrow> do_functions t c
     | TASK_GEN_FUNCTIONS \<Rightarrow> do_generate env t c)"

section \<open>Threads\<close>

text \<open>A thread that waits goes on when the semaphore is up; one that has left does nothing.\<close>

definition enabled :: "Compiler \<Rightarrow> Thread \<Rightarrow> bool" where
  "enabled c th = (case th of Waiting \<Rightarrow> 0 < tasks_queue_lock c | Exited b \<Rightarrow> False | _ \<Rightarrow> True)"

definition count_exit :: "Compiler \<times> Thread \<Rightarrow> Compiler \<times> Thread" where
  "count_exit r =
    (case r of
       (c, Exited b) \<Rightarrow> (c\<lparr>total_threads := total_threads c - 1\<rparr>, Exited b)
     | (c, th) \<Rightarrow> (c, th))"

definition thread_step :: "comp_env \<Rightarrow> Compiler \<Rightarrow> Thread \<Rightarrow> (Compiler \<times> Thread) option" where
  "thread_step env c th =
    (case th of
       Starting \<Rightarrow> Some (c\<lparr>total_threads := total_threads c + 1\<rparr>, Waiting)
     | Waiting \<Rightarrow> Some (c\<lparr>tasks_queue_lock := tasks_queue_lock c - 1\<rparr>, Entered)
     | Entered \<Rightarrow> Some (count_exit (take_task c))
     | Busy t \<Rightarrow> do_task env t c
     | Parsed t k \<Rightarrow>
         do {
           c1 \<leftarrow> do_fixups k c;
           Some (c1, Linking t k (dependencies (import_list c1 ! k)))
         }
     | Linking t k [] \<Rightarrow> Some (c, Finishing (t\<lparr>task_type := TASK_CHECK_STRUCTS\<rparr>) True)
     | Linking t k (nm # nms) \<Rightarrow> Some (c, Found t k nm (findImport nm c) nms)
     | Found t k nm found nms \<Rightarrow>
         do {
           c1 \<leftarrow> link_import k nm found c;
           Some (c1, Linking t k nms)
         }
     | Finishing t queue \<Rightarrow> Some (finish_task t queue c, Waiting)
     | Exited b \<Rightarrow> None)"

inductive sys_step :: "comp_env \<Rightarrow> Compiler \<times> Thread list \<Rightarrow> Compiler \<times> Thread list \<Rightarrow> bool"
  for env where
  step_thread:
    "i < length ths \<Longrightarrow> enabled c (ths ! i) \<Longrightarrow> thread_step env c (ths ! i) = Some (c', th) \<Longrightarrow>
     sys_step env (c, ths) (c', ths[i := th])"

section \<open>A compilation\<close>

text \<open>\<^verbatim>\<open>CompileFile\<close> before its threads start.\<close>

definition compile_init :: "string \<Rightarrow> Compiler option" where
  "compile_init initial_file =
    do {
      a \<leftarrow> ast_init;
      let c = \<lparr>comp_ast = a, comp_errors = 0, comp_bytecode = new_bytecode, comp_streams = [],
               stream_map = Map.empty, import_list = [], import_map = Map.empty, comp_tasks = [],
               threads_processing = 0, total_threads = 0, is_signaled = False, tasks_queue_lock = 1\<rparr>;
      let (i, c1) = createImport ''preload'' c;
      let c2 = upd_import i (\<lambda>imp. imp\<lparr>imp_body := Some 0\<rparr>) c1;
      let c3 = push_task \<lparr>task_type = TASK_CHECK_STRUCTS, task_name = ''preload'', task_imp = Some i,
                           no_change = False\<rparr> c2;
      if initial_file = [] then None
      else Some (push_task \<lparr>task_type = TASK_LEX_FILE, task_name = initial_file, task_imp = None,
                             no_change = False\<rparr> c3)
    }"

text \<open>What the threads can reach from there.\<close>

inductive reachable :: "comp_env \<Rightarrow> Compiler \<times> Thread list \<Rightarrow> bool" for env where
  reach_init: "compile_init file = Some c \<Longrightarrow> 0 < n \<Longrightarrow> reachable env (c, replicate n Starting)"
| reach_step: "reachable env s \<Longrightarrow> sys_step env s s' \<Longrightarrow> reachable env s'"

text \<open>\<^verbatim>\<open>processTasks\<close> by one thread alone, and the result of the compilation.\<close>

partial_function (option) processTasks :: "comp_env \<Rightarrow> Compiler \<Rightarrow> Thread \<Rightarrow> Compiler option" where
  "processTasks env c th =
    (case th of
       Exited b \<Rightarrow> Some c
     | _ \<Rightarrow>
         if enabled c th then do {
           (c', th') \<leftarrow> thread_step env c th;
           processTasks env c' th'
         }
         else None)"

definition CompileFile :: "comp_env \<Rightarrow> string \<Rightarrow> (Bytecode \<times> AST) option option" where
  "CompileFile env initial_file =
    (if initial_file = [] then Some None
     else do {
       c \<leftarrow> compile_init initial_file;
       c' \<leftarrow> processTasks env c Starting;
       Some (if comp_errors c' \<noteq> 0 then None else Some (comp_bytecode c', comp_ast c'))
     })"

end
