(* ===== verification/SchedulerSafety.thy ===== *)
theory SchedulerSafety
  imports Scheduler
begin

text \<open>
  What holds for all threads of the compiler together, in every order of their steps: the
  semaphore protocol of the task queue, the accounting of imports that wait for each other, and
  that neither of them ever stops the compilation.  The invariants are proved step by step over
  \<open>sys_step\<close>; the properties at the end read them off for reachable states.
\<close>


section \<open>The later tasks only fill the tables\<close>

definition tables_only :: "Compiler \<Rightarrow> Compiler \<Rightarrow> bool" where
  "tables_only c c' \<longleftrightarrow>
    (\<exists>a bc e. c' = c\<lparr>comp_ast := a, comp_bytecode := bc, comp_errors := e\<rparr>)"

lemma tables_only_sel:
  assumes "tables_only c c'"
  shows "import_list c' = import_list c" "import_map c' = import_map c" "comp_tasks c' = comp_tasks c"
    "is_signaled c' = is_signaled c" "tasks_queue_lock c' = tasks_queue_lock c"
    "threads_processing c' = threads_processing c" "total_threads c' = total_threads c"
  using assms by (auto simp: tables_only_def)

lemma tables_only_intro:
  "tables_only c c" "tables_only c (c\<lparr>comp_ast := a, comp_errors := e\<rparr>)"
  "tables_only c (c\<lparr>comp_ast := a, comp_bytecode := bc, comp_errors := e\<rparr>)"
proof -
  have "c = c\<lparr>comp_ast := comp_ast c, comp_bytecode := comp_bytecode c, comp_errors := comp_errors c\<rparr>" by simp
  then show "tables_only c c" unfolding tables_only_def by blast
  have "c\<lparr>comp_ast := a, comp_errors := e\<rparr>
      = c\<lparr>comp_ast := a, comp_bytecode := comp_bytecode c, comp_errors := e\<rparr>" by simp
  then show "tables_only c (c\<lparr>comp_ast := a, comp_errors := e\<rparr>)" unfolding tables_only_def by blast
qed (auto simp: tables_only_def)

lemma tables_only_trans: "tables_only a b \<Longrightarrow> tables_only b c \<Longrightarrow> tables_only a c"
  by (auto simp: tables_only_def; blast)

lemma check_functions_tables: "check_functions imp fs c = Some c' \<Longrightarrow> tables_only c c'"
proof (induction fs arbitrary: c)
  case (Cons f fs)
  then obtain a errs where r: "CheckFunction (comp_ast c) imp f (comp_errors c) = Some (a, errs)"
    by (cases "CheckFunction (comp_ast c) imp f (comp_errors c)") auto
  then have "check_functions imp fs (c\<lparr>comp_ast := a, comp_errors := errs\<rparr>) = Some c'"
    using Cons.prems by simp
  from Cons.IH [OF this] show ?case by (rule tables_only_trans [OF tables_only_intro(2)])
qed (simp add: tables_only_intro)

lemma generate_functions_tables: "generate_functions env i fs c = Some c' \<Longrightarrow> tables_only c c'"
proof (induction fs arbitrary: c)
  case (Cons f fs)
  let ?g = "GenerateFunction (ce_lex env) (comp_ast c) (import_list c) (imp_stream (import_list c ! i))
         f (comp_bytecode c) (comp_errors c)"
  obtain a bc errs where r: "?g = Some (a, bc, errs)"
    using Cons.prems by (cases ?g) auto
  then have "generate_functions env i fs (c\<lparr>comp_ast := a, comp_bytecode := bc, comp_errors := errs\<rparr>) = Some c'"
    using Cons.prems by simp
  from Cons.IH [OF this] show ?case by (rule tables_only_trans [OF tables_only_intro(3)])
qed (simp add: tables_only_intro)

definition later_result :: "Task \<Rightarrow> Thread \<Rightarrow> bool" where
  "later_result t th \<longleftrightarrow>
    (case th of Finishing t' q \<Rightarrow> task_imp t' = task_imp t \<and> task_type t' \<noteq> TASK_LEX_FILE | _ \<Rightarrow> False)"

lemma later_task:
  assumes "do_task env t c = Some (c', th)" and "task_type t \<noteq> TASK_LEX_FILE"
  shows "tables_only c c' \<and> later_result t th"
proof (cases "task_type t")
  case TASK_CHECK_STRUCTS
  then show ?thesis using assms(1)
    by (auto simp: do_task_def do_structs_def later_result_def Let_def tables_only_intro
        split: Option.bind_splits if_splits)
next
  case TASK_CHECK_FUNCTIONS
  with assms(1) obtain i fs c1 ok a bc errs where
      c1: "check_functions (import_list c ! i) fs c = Some c1"
      and c': "c' = c1\<lparr>comp_ast := a, comp_bytecode := bc, comp_errors := errs\<rparr>"
      and th: "later_result t th"
    by (auto simp: do_task_def do_functions_def Let_def later_result_def
        split: Option.bind_splits if_splits)
  show ?thesis
    using th tables_only_trans [OF check_functions_tables [OF c1] tables_only_intro(3)] by (simp add: c')
next
  case TASK_GEN_FUNCTIONS
  then show ?thesis using assms(1)
    by (auto simp: do_task_def do_generate_def later_result_def dest!: generate_functions_tables
        split: Option.bind_splits)
qed (use assms in simp)

section \<open>The semaphore\<close>

definition working :: "Thread \<Rightarrow> bool" where
  "working th \<longleftrightarrow>
    (case th of Busy t \<Rightarrow> True | Parsed t k \<Rightarrow> True | Linking t k nms \<Rightarrow> True
     | Found t k nm found nms \<Rightarrow> True | Finishing t q \<Rightarrow> True | _ \<Rightarrow> False)"

lemma working_simps [simp]:
  "working (Busy t)" "working (Parsed t k)" "working (Linking t k nms)"
  "working (Found t k nm found nms)" "working (Finishing t q)"
  "\<not> working Starting" "\<not> working Waiting" "\<not> working Entered" "\<not> working (Exited b)"
  by (simp_all add: working_def)

definition workers :: "Thread list \<Rightarrow> nat" where
  "workers ths = length (filter working ths)"

lemma workers_update:
  assumes "i < length ths"
  shows "int (workers (ths[i := th])) =
    int (workers ths) - (if working (ths ! i) then 1 else 0) + (if working th then 1 else 0)"
proof -
  have s: "ths = take i ths @ ths ! i # drop (Suc i) ths" using assms by (rule id_take_nth_drop)
  have "workers ths = workers (take i ths @ ths ! i # drop (Suc i) ths)" using s by simp
  then show ?thesis
    using assms by (simp add: workers_def upd_conv_take_nth_drop)
qed

lemma workers_none: "workers ths = 0 \<longleftrightarrow> (\<forall>th\<in>set ths. \<not> working th)"
  by (simp add: workers_def filter_empty_conv)

text \<open>The part of the state that the tasks themselves leave alone.\<close>

definition same_control :: "Compiler \<Rightarrow> Compiler \<Rightarrow> bool" where
  "same_control c c' \<longleftrightarrow>
    is_signaled c' = is_signaled c \<and> tasks_queue_lock c' = tasks_queue_lock c
    \<and> threads_processing c' = threads_processing c \<and> total_threads c' = total_threads c"

named_theorems control_simps

lemma same_control_refl [control_simps]: "same_control c c"
  by (simp add: same_control_def)

lemma same_control_trans: "same_control a b \<Longrightarrow> same_control b c \<Longrightarrow> same_control a c"
  by (simp add: same_control_def)

lemma same_control_ops [control_simps]:
  "same_control c (upd_import i f c)" "same_control c (push_task t c)"
  "same_control c (snd (createImport nm c))"
  by (simp_all add: same_control_def upd_import_def push_task_def createImport_def)

lemma same_control_fields [control_simps]:
  "same_control c (c\<lparr>comp_ast := a\<rparr>)" "same_control c (c\<lparr>comp_errors := e\<rparr>)"
  "same_control c (c\<lparr>comp_ast := a, comp_errors := e\<rparr>)"
  "same_control c (c\<lparr>comp_ast := a, comp_bytecode := bc, comp_errors := e\<rparr>)"
  by (simp_all add: same_control_def)

lemma fix_imports_control: "fix_imports k fs c = Some c' \<Longrightarrow> same_control c c'"
proof (induction fs arbitrary: c)
  case (Cons f fs)
  then obtain c1 where c1: "fix_import k f c = Some c1" "fix_imports k fs c1 = Some c'"
    by (auto split: Option.bind_splits)
  have "same_control c c1" using c1(1)
    by (auto simp: fix_import_def same_control_def upd_import_def split: Option.bind_splits)
  with Cons.IH [OF c1(2)] show ?case by (blast intro: same_control_trans)
qed (simp add: control_simps)

lemma do_lex_control:
  assumes "do_lex env t c = Some (c', th)"
  shows "same_control c c' \<and> working th"
proof (cases "lex_file (ce_lex env) (task_name t) (ce_files env (task_name t))")
  case None
  then show ?thesis using assms by (auto simp: do_lex_def control_simps)
next
  case (Some ts)
  show ?thesis using assms Some
    by (auto simp: do_lex_def Let_def same_control_def store_import_def upd_import_def createImport_def
        split: Option.bind_splits if_splits prod.splits option.splits)
qed

lemma do_task_control:
  assumes "do_task env t c = Some (c', th)"
  shows "same_control c c' \<and> working th"
proof (cases "task_type t = TASK_LEX_FILE")
  case True
  then show ?thesis using assms do_lex_control by (simp add: do_task_def)
next
  case False
  from later_task [OF assms this] show ?thesis
    by (auto simp: same_control_def later_result_def tables_only_sel split: Thread.splits)
qed

lemma link_import_control: "link_import k nm found c = Some c' \<Longrightarrow> same_control c c'"
  by (auto simp: link_import_def wait_for_def same_control_def upd_import_def push_task_def
      createImport_def Let_def split: option.splits Option.bind_splits)

text \<open>A step of a working thread, other than putting its task back, moves nothing of the control.\<close>

lemma working_step:
  assumes "thread_step env c th = Some (c', th')" and "working th" and "\<nexists>t q. th = Finishing t q"
  shows "same_control c c' \<and> working th'"
proof (cases th)
  case (Parsed t k)
  then obtain c1 where c1: "fix_imports k (fixups (import_list c ! k)) c = Some c1"
      "c' = upd_import k (\<lambda>i. i\<lparr>fixups := [], deps_now := 0, deps_count := 0\<rparr>) c1"
      and th': "working th'"
    using assms(1) by (auto simp: thread_step_def do_fixups_def split: Option.bind_splits)
  have "same_control c c'"
    unfolding c1(2) by (rule same_control_trans [OF fix_imports_control [OF c1(1)]]) (rule control_simps)
  with th' show ?thesis by simp
next
  case (Linking t k nms)
  then show ?thesis using assms(1) by (cases nms) (auto simp: thread_step_def control_simps)
next
  case (Found t k nm found nms)
  then show ?thesis using assms(1)
    by (auto simp: thread_step_def dest!: link_import_control split: Option.bind_splits)
next
  case (Busy t)
  then show ?thesis using assms(1) do_task_control by (simp add: thread_step_def)
qed (use assms in auto)

text \<open>
  At most one signal; a signal that was given is still there or a thread took it and is about to
  look at the queue; when nobody is on the way, the semaphore is up.
\<close>

definition control_inv :: "Compiler \<Rightarrow> Thread list \<Rightarrow> bool" where
  "control_inv c ths \<longleftrightarrow>
    tasks_queue_lock c \<le> 1 \<and> threads_processing c = int (workers ths)
    \<and> (is_signaled c \<longrightarrow> tasks_queue_lock c = 1 \<or> Entered \<in> set ths)
    \<and> (tasks_queue_lock c = 1 \<or> Entered \<in> set ths \<or> 0 < workers ths)"

lemma signal_control [simp]:
  "tasks_queue_lock c \<le> 1 \<Longrightarrow> tasks_queue_lock (signal c) \<le> 1"
  "is_signaled (signal c)" "threads_processing (signal c) = threads_processing c"
  "total_threads (signal c) = total_threads c"
  "\<not> is_signaled c \<Longrightarrow> tasks_queue_lock (signal c) = 1"
  "comp_tasks (signal c) = comp_tasks c" "import_list (signal c) = import_list c"
  by (simp_all add: signal_def)

lemma other_thread: "x \<in> set ths \<Longrightarrow> x \<noteq> ths ! i \<Longrightarrow> x \<in> set (ths[i := th])"
  by (metis in_set_conv_nth length_list_update nth_list_update_neq)

lemma control_working:
  assumes "control_inv c ths" and "i < length ths" and "same_control c c'"
    and "working (ths ! i)" and "working th"
  shows "control_inv c' (ths[i := th])"
proof -
  have w: "workers (ths[i := th]) = workers ths" and "0 < workers ths"
    using workers_update [OF assms(2), of th] assms(2,4,5) nth_mem [OF assms(2)]
      workers_none [of ths] by auto
  moreover have "Entered \<in> set ths \<Longrightarrow> Entered \<in> set (ths[i := th])"
    using other_thread [of Entered ths i th] assms(4) by force
  ultimately show ?thesis
    using assms(1,3) by (auto simp: control_inv_def same_control_def)
qed

lemma take_task_control:
  assumes "control_inv c ths" and "i < length ths" and "ths ! i = Entered"
    and "count_exit (take_task c) = (c', th)"
  shows "control_inv c' (ths[i := th])"
proof -
  let ?c = "c\<lparr>is_signaled := False\<rparr>"
  have w: "int (workers (ths[i := th])) = int (workers ths) + (if working th then 1 else 0)"
    using workers_update [OF assms(2), of th] assms(3) by simp
  have inv: "tasks_queue_lock c \<le> 1" "threads_processing c = int (workers ths)"
    using assms(1) by (auto simp: control_inv_def)
  show ?thesis
  proof (cases "ready_index ?c")
    case None
    show ?thesis
    proof (cases "threads_processing c = 0")
      case True
      then have "\<exists>b. th = Exited b" "tasks_queue_lock c' = 1" "threads_processing c' = 0"
        using assms(4) None by (auto simp: take_task_def count_exit_def Let_def split: if_splits)
      then show ?thesis using w inv True by (auto simp: control_inv_def)
    next
      case False
      then have "th = Waiting" "c' = ?c"
        using assms(4) None by (auto simp: take_task_def count_exit_def Let_def split: if_splits)
      then show ?thesis using w inv False by (auto simp: control_inv_def)
    qed
  next
    case (Some k)
    then have th: "th = Busy (comp_tasks c ! k)" and c: "threads_processing c' = threads_processing c + 1"
        "tasks_queue_lock c' \<le> 1" "is_signaled c' \<longrightarrow> tasks_queue_lock c' = 1"
      using assms(4) inv by (auto simp: take_task_def count_exit_def Let_def split: if_splits)
    then show ?thesis using w inv by (auto simp: control_inv_def)
  qed
qed

lemma finish_control:
  assumes "control_inv c ths" and "i < length ths" and "ths ! i = Finishing t q"
  shows "control_inv (finish_task t q c) (ths[i := Waiting])"
proof -
  have w: "int (workers (ths[i := Waiting])) = int (workers ths) - 1"
    using workers_update [OF assms(2), of Waiting] assms(3) by simp
  have e: "Entered \<in> set ths \<Longrightarrow> Entered \<in> set (ths[i := Waiting])"
    using other_thread [of Entered ths i Waiting] assms(3) by force
  show ?thesis
  proof (cases "is_signaled c")
    case True
    then show ?thesis using assms(1) w e
      by (auto simp: control_inv_def finish_task_def push_task_def signal_def Let_def)
  next
    case False
    then show ?thesis using assms(1) w
      by (auto simp: control_inv_def finish_task_def push_task_def signal_def Let_def)
  qed
qed

lemma control_step:
  assumes "control_inv c ths" and "sys_step env (c, ths) (c', ths')"
  shows "control_inv c' ths'"
  using assms(2)
proof (cases rule: sys_step.cases)
  case (step_thread i th)
  note st = step_thread
  show ?thesis
  proof (cases "ths ! i")
    case Starting
    then have th: "th = Waiting" "c' = c\<lparr>total_threads := total_threads c + 1\<rparr>"
      using st by (auto simp: thread_step_def)
    have w: "int (workers (ths[i := th])) = int (workers ths)"
      using workers_update [OF st(2), of th] Starting th by simp
    have e: "Entered \<in> set ths \<Longrightarrow> Entered \<in> set (ths[i := th])"
      using other_thread [of Entered ths i th] Starting by force
    show ?thesis using assms(1) th w e st(1) by (auto simp: control_inv_def)
  next
    case Waiting
    then have th: "th = Entered" "c' = c\<lparr>tasks_queue_lock := tasks_queue_lock c - 1\<rparr>"
      using st by (auto simp: thread_step_def)
    have w: "int (workers (ths[i := th])) = int (workers ths)"
      using workers_update [OF st(2), of th] Waiting th by simp
    have "Entered \<in> set (ths[i := th])" using th(1) st(2) by (simp add: set_update_memI)
    then show ?thesis using assms(1) th(2) w st(1) by (auto simp: control_inv_def)
  next
    case Entered
    then show ?thesis using take_task_control [OF assms(1) st(2), of c' th] st by (simp add: thread_step_def)
  next
    case (Finishing t q)
    then show ?thesis using finish_control [OF assms(1) st(2)] st by (simp add: thread_step_def)
  next
    case (Exited b)
    then show ?thesis using st by (simp add: thread_step_def)
  qed (use st working_step [OF st(4)] control_working [OF assms(1) st(2), of c' th] in auto)
qed

lemma compile_init_eq:
  assumes "compile_init nm = Some c"
  shows "is_signaled c = False \<and> tasks_queue_lock c = 1 \<and> threads_processing c = 0
    \<and> import_list c = [(new_import ''preload'')\<lparr>imp_body := Some 0\<rparr>]
    \<and> import_map c = [''preload'' \<mapsto> 0]
    \<and> comp_tasks c =
        [\<lparr>task_type = TASK_CHECK_STRUCTS, task_name = ''preload'', task_imp = Some 0, no_change = False\<rparr>,
         \<lparr>task_type = TASK_LEX_FILE, task_name = nm, task_imp = None, no_change = False\<rparr>]
    \<and> comp_ast c = initial_ast \<and> comp_errors c = 0 \<and> comp_bytecode c = new_bytecode
    \<and> total_threads c = 0 \<and> comp_streams c = [] \<and> stream_map c = Map.empty"
  using assms by (auto simp: compile_init_def ast_init_eq Let_def createImport_def upd_import_def
      push_task_def split: if_splits)

text \<open>
  What every invariant of the threads promises: it holds when the threads start and every step
  keeps it.  Then it holds in every reachable state.
\<close>

locale thread_invariant =
  fixes env :: comp_env
    and inv :: "Compiler \<Rightarrow> Thread list \<Rightarrow> bool"
  assumes holds_at_start: "compile_init nm = Some c \<Longrightarrow> inv c (replicate n Starting)"
    and kept_by_step: "inv c ths \<Longrightarrow> sys_step env (c, ths) (c', ths') \<Longrightarrow> inv c' ths'"
begin

lemma holds_when_reachable: "reachable env s \<Longrightarrow> inv (fst s) (snd s)"
proof (induction rule: reachable.induct)
  case (reach_init nm c n)
  then show ?case by (simp add: holds_at_start)
next
  case (reach_step s s')
  then show ?case using kept_by_step [of "fst s" "snd s" "fst s'" "snd s'"] by simp
qed

end

interpretation control: thread_invariant env control_inv for env
proof
  fix nm c n assume "compile_init nm = Some c"
  then show "control_inv c (replicate n Starting)"
    using compile_init_eq by (auto simp: control_inv_def workers_def)
qed (rule control_step)

lemma reachable_control: "reachable env s \<Longrightarrow> control_inv (fst s) (snd s)"
  by (rule control.holds_when_reachable)

lemma never_stuck_inv:
  assumes "control_inv c ths"
  shows "(\<forall>th\<in>set ths. \<exists>b. th = Exited b) \<or> (\<exists>th\<in>set ths. enabled c th)"
proof (rule disjCI)
  assume n: "\<not> (\<exists>th\<in>set ths. enabled c th)"
  have no: "Starting \<notin> set ths" "Entered \<notin> set ths" using n by (auto simp: enabled_def)
  have "\<not> working th" if "th \<in> set ths" for th using n that by (cases th) (auto simp: enabled_def)
  then have "workers ths = 0" using workers_none by blast
  then have "tasks_queue_lock c = 1" using assms no by (auto simp: control_inv_def)
  then have "\<exists>b. th = Exited b" if "th \<in> set ths" for th
    using n that by (cases th) (auto simp: enabled_def)
  then show "\<forall>th\<in>set ths. \<exists>b. th = Exited b" by blast
qed

section \<open>The parser leaves the accounting of an import alone\<close>

definition same_import :: "Import \<Rightarrow> Import \<Rightarrow> bool" where
  "same_import a b \<longleftrightarrow>
    imp_body b = imp_body a \<and> fixups b = fixups a \<and> deps_count b = deps_count a
    \<and> deps_now b = deps_now a \<and> imp_name b = imp_name a"

lemma same_import_step:
  "same_import a a"
  "same_import (a\<lparr>imp_structures := xs\<rparr>) b = same_import a b"
  "same_import (a\<lparr>imp_statements := ys\<rparr>) b = same_import a b"
  "same_import (a\<lparr>dependencies := zs\<rparr>) b = same_import a b"
  by (simp_all add: same_import_def)

lemma top_loop_import: "top_loop n junk ts imp ctx = Some (ok, imp', ctx') \<Longrightarrow> same_import imp imp'"
proof (induction n arbitrary: imp ctx)
  case (Suc n)
  let ?t = "kind_at ts ctx 0"
  let ?P = "top_loop (Suc n) junk ts imp ctx = Some (ok, imp', ctx')"
  note IH = Suc.IH [of "imp\<lparr>imp_structures := xs\<rparr>" for xs, unfolded same_import_step]
    Suc.IH [of "imp\<lparr>imp_statements := xs\<rparr>" for xs, unfolded same_import_step]
    Suc.IH [of "imp\<lparr>dependencies := xs\<rparr>" for xs, unfolded same_import_step]
    Suc.IH [of imp]
  consider "?t = TOKEN_EOF" | "?t = TOKEN_STRUCT" | "?t = TOKEN_FUNCTION"
    | "?t = TOKEN_GLOBAL \<or> ?t = TOKEN_CONST" | "?t = TOKEN_IMPORT"
    | "?t \<notin> {TOKEN_EOF, TOKEN_STRUCT, TOKEN_FUNCTION, TOKEN_GLOBAL, TOKEN_CONST, TOKEN_IMPORT}"
    by auto
  then show ?case
  proof cases
    case 2
    then have "?P = (do { (s, ctx1) \<leftarrow> parseStruct ts ctx;
        (case s of None \<Rightarrow> Some (True, imp, ctx1)
         | Some st \<Rightarrow> let (i, a) = add_structure st (ast ctx1) in
             top_loop n junk ts (imp\<lparr>imp_structures := imp_structures imp @ [i]\<rparr>) (ctx1\<lparr>ast := a\<rparr>)) }
      = Some (ok, imp', ctx'))" by (simp add: Let_def)
    with Suc.prems show ?thesis
      by (cases "parseStruct ts ctx") (auto simp: same_import_step Let_def split_beta
          intro: IH split: option.splits)
  next
    case 3
    then have "?P = (do { (f, ctx1) \<leftarrow> parseFunction n junk ts ctx;
        (case f of None \<Rightarrow> Some (True, imp, ctx1)
         | Some fn \<Rightarrow> top_loop n junk ts imp
                 (ctx1\<lparr>ast := add_function fn (current_scopeId ctx1) (ast ctx1)\<rparr>)) }
      = Some (ok, imp', ctx'))" by (simp add: Let_def)
    with Suc.prems show ?thesis
      by (cases "parseFunction n junk ts ctx") (auto simp: same_import_step intro: IH split: option.splits)
  next
    case 4
    define d where "d = do {
          r \<leftarrow> parseDeclaration n junk ts (?t = TOKEN_GLOBAL) (?t = TOKEN_CONST) (advance 1 ctx);
          semicolon ts r }"
    have "?P = (do { (s, ctx1) \<leftarrow> d; (case s of
             None \<Rightarrow> Some (False, imp, ctx1)
           | Some st \<Rightarrow> top_loop n junk ts (imp\<lparr>imp_statements := imp_statements imp @ [st]\<rparr>) ctx1) }
      = Some (ok, imp', ctx'))"
      using 4 by (auto simp: Let_def d_def)
    with Suc.prems show ?thesis
      by (cases d) (auto simp: same_import_step intro: IH split: option.splits)
  next
    case 5
    then have "?P = ((if kind_at ts ctx 1 \<noteq> TOKEN_LITERAL_STRING
         then Some (False, imp, report (advance 1 ctx))
         else do {
           p \<leftarrow> get_str ts (head ctx + 1);
           top_loop n junk ts
             (if p \<in> set (dependencies imp) then imp
              else imp\<lparr>dependencies := dependencies imp @ [p]\<rparr>) (advance 2 ctx)
         }) = Some (ok, imp', ctx'))" by (simp add: Let_def)
    with Suc.prems show ?thesis
      by (cases "get_str ts (head ctx + 1)") (auto simp: same_import_step intro: IH split: if_splits)
  qed (use Suc.prems in \<open>auto simp: Let_def same_import_step\<close>)
qed simp

lemma ParseTokenStream_import:
  assumes "ParseTokenStream n junk ts imp a errs = Some (ok, imp', ctx)"
  defines "imp0 \<equiv> (case imp of None \<Rightarrow> new_import (path ts) | Some i \<Rightarrow> i)"
  shows "\<exists>s. same_import (imp0\<lparr>imp_body := Some s\<rparr>) imp'"
proof (cases "createScope 0 a")
  case None
  then show ?thesis using assms(1) by (simp add: ParseTokenStream_def)
next
  case (Some r)
  then obtain s a1 where "createScope 0 a = Some (s, a1)" by (cases r) auto
  then have "same_import (imp0\<lparr>imp_body := Some s, imp_stream := Some ts\<rparr>) imp'"
    using assms(1) unfolding imp0_def ParseTokenStream_def Let_def by (auto dest: top_loop_import)
  then show ?thesis by (auto simp: same_import_def)
qed

section \<open>Who waits for whom\<close>

text \<open>How often a file waits: its occurrences in the lists of those that are not parsed yet.\<close>

definition waits :: "Import list \<Rightarrow> nat \<Rightarrow> nat" where
  "waits is k = (\<Sum>j<length is. count_list (fixups (is ! j)) k)"

lemma waits_cong:
  "length is' = length is \<Longrightarrow> (\<And>j. j < length is \<Longrightarrow> fixups (is' ! j) = fixups (is ! j)) \<Longrightarrow>
   waits is' k = waits is k"
  by (simp add: waits_def)

lemma waits_append: "waits (is @ [x]) k = waits is k + count_list (fixups x) k"
  by (simp add: waits_def nth_append)

lemma waits_change:
  assumes "length is' = length is" and "m < length is"
    and "\<And>j. j < length is \<Longrightarrow> j \<noteq> m \<Longrightarrow> fixups (is' ! j) = fixups (is ! j)"
  shows "waits is' k + count_list (fixups (is ! m)) k = waits is k + count_list (fixups (is' ! m)) k"
proof -
  have fin: "finite {..<length is}" "m \<in> {..<length is}" using assms(2) by auto
  have "(\<Sum>j\<in>{..<length is} - {m}. count_list (fixups (is' ! j)) k)
      = (\<Sum>j\<in>{..<length is} - {m}. count_list (fixups (is ! j)) k)"
    using assms(3) by (intro sum.cong) auto
  then show ?thesis
    unfolding waits_def assms(1)
    using sum.remove [OF fin, of "\<lambda>j. count_list (fixups (is' ! j)) k"]
      sum.remove [OF fin, of "\<lambda>j. count_list (fixups (is ! j)) k"] by simp
qed

lemma waits_zero: "waits is k = 0 \<longleftrightarrow> (\<forall>j<length is. k \<notin> set (fixups (is ! j)))"
  by (auto simp: waits_def count_list_0_iff)

lemma count_update:
  assumes "i < length xs"
  shows "count_list (map f (xs[i := x])) y + (if f (xs ! i) = y then 1 else 0)
    = count_list (map f xs) y + (if f x = y then 1 else 0)"
proof -
  have "xs = take i xs @ xs ! i # drop (Suc i) xs" using assms by (rule id_take_nth_drop)
  then have "count_list (map f xs) y = count_list (map f (take i xs @ xs ! i # drop (Suc i) xs)) y" by simp
  then show ?thesis using assms by (simp add: upd_conv_take_nth_drop)
qed

text \<open>The one task or thread that will parse a file, and the one that looks at its imports.\<close>

definition lex_token :: "Task \<Rightarrow> nat option" where
  "lex_token t = (if task_type t = TASK_LEX_FILE then task_imp t else None)"

definition lex_of :: "Thread \<Rightarrow> nat option" where
  "lex_of th = (case th of Busy t \<Rightarrow> lex_token t | _ \<Rightarrow> None)"

definition link_of :: "Thread \<Rightarrow> nat option" where
  "link_of th =
    (case th of Parsed t k \<Rightarrow> Some k | Linking t k nms \<Rightarrow> Some k
     | Found t k nm found nms \<Rightarrow> Some k | _ \<Rightarrow> None)"

definition lexers :: "Task list \<Rightarrow> Thread list \<Rightarrow> nat \<Rightarrow> nat" where
  "lexers ts ths k = count_list (map lex_token ts) (Some k) + count_list (map lex_of ths) (Some k)"

definition linkers :: "Thread list \<Rightarrow> nat \<Rightarrow> nat" where
  "linkers ths k = count_list (map link_of ths) (Some k)"

lemma token_simps [simp]:
  "lex_of (Busy t) = lex_token t" "lex_of Starting = None" "lex_of Waiting = None"
  "lex_of Entered = None" "lex_of (Parsed t k) = None" "lex_of (Linking t k nms) = None"
  "lex_of (Found t k nm found nms) = None" "lex_of (Finishing t q) = None" "lex_of (Exited b) = None"
  "link_of (Busy t) = None" "link_of Starting = None" "link_of Waiting = None"
  "link_of Entered = None" "link_of (Parsed t k) = Some k" "link_of (Linking t k nms) = Some k"
  "link_of (Found t k nm found nms) = Some k" "link_of (Finishing t q) = None"
  "link_of (Exited b) = None"
  by (simp_all add: lex_of_def link_of_def)

text \<open>The task a thread holds, and what it may be.\<close>

definition held_task :: "Thread \<Rightarrow> Task option" where
  "held_task th =
    (case th of Busy t \<Rightarrow> Some t | Finishing t q \<Rightarrow> Some t | _ \<Rightarrow> None)"

definition task_in :: "nat \<Rightarrow> Task \<Rightarrow> bool" where
  "task_in n t \<longleftrightarrow> (\<forall>i. task_imp t = Some i \<longrightarrow> i < n)"

definition thread_in :: "nat \<Rightarrow> Thread \<Rightarrow> bool" where
  "thread_in n th \<longleftrightarrow>
    (case th of
       Busy t \<Rightarrow> task_in n t
     | Parsed t k \<Rightarrow> task_in n t \<and> k < n
     | Linking t k nms \<Rightarrow> task_in n t \<and> k < n
     | Found t k nm found nms \<Rightarrow> task_in n t \<and> k < n \<and> (\<forall>j. found = Some j \<longrightarrow> j < n)
     | Finishing t q \<Rightarrow> task_in n t \<and> (q \<longrightarrow> task_type t \<noteq> TASK_LEX_FILE)
     | _ \<Rightarrow> True)"

lemma task_in_mono: "task_in n t \<Longrightarrow> n \<le> m \<Longrightarrow> task_in m t"
  by (auto simp: task_in_def)

lemma thread_in_mono: "thread_in n th \<Longrightarrow> n \<le> m \<Longrightarrow> thread_in m th"
  by (auto simp: thread_in_def split: Thread.splits intro: task_in_mono)

definition indices_in :: "Compiler \<Rightarrow> Thread list \<Rightarrow> bool" where
  "indices_in c ths \<longleftrightarrow>
    (\<forall>j<length (import_list c). \<forall>k\<in>set (fixups (import_list c ! j)).
       k < length (import_list c) \<and> imp_body (import_list c ! k) \<noteq> None)
    \<and> (\<forall>t\<in>set (comp_tasks c). task_in (length (import_list c)) t)
    \<and> (\<forall>th\<in>set ths. thread_in (length (import_list c)) th)
    \<and> (\<forall>nm j. import_map c nm = Some j \<longrightarrow> j < length (import_list c))"

text \<open>
  What \<^verbatim>\<open>deps_count\<close> and \<^verbatim>\<open>deps_now\<close> count: the difference is the number of lists the file is
  in.  A file that is not parsed is waited for by nothing of its own and has one task to parse it,
  or none when it could not be read, which does not happen when \<open>all\<close> files can; a list with
  waiting files belongs to a file that is not parsed or just was.
\<close>

definition import_ok :: "bool \<Rightarrow> Compiler \<Rightarrow> Thread list \<Rightarrow> nat \<Rightarrow> bool" where
  "import_ok all c ths k \<longleftrightarrow>
    deps_count (import_list c ! k) - deps_now (import_list c ! k) = int (waits (import_list c) k)
    \<and> lexers (comp_tasks c) ths k \<le> (if imp_body (import_list c ! k) = None then 1 else 0)
    \<and> (all \<and> imp_body (import_list c ! k) = None \<longrightarrow> lexers (comp_tasks c) ths k = 1)
    \<and> linkers ths k \<le> (if imp_body (import_list c ! k) = None then 0 else 1)
    \<and> (imp_body (import_list c ! k) = None \<longrightarrow> waits (import_list c) k = 0)
    \<and> (fixups (import_list c ! k) \<noteq> [] \<and> imp_body (import_list c ! k) \<noteq> None \<longrightarrow>
         (\<exists>t. Parsed t k \<in> set ths))
    \<and> (\<forall>t. Parsed t k \<in> set ths \<longrightarrow> waits (import_list c) k = 0)"

definition dep_inv :: "bool \<Rightarrow> Compiler \<Rightarrow> Thread list \<Rightarrow> bool" where
  "dep_inv all c ths \<longleftrightarrow> indices_in c ths \<and> (\<forall>k<length (import_list c). import_ok all c ths k)"

text \<open>From the invariant: when nobody works and tasks are left, one of them is ready.\<close>

lemma some_task_ready:
  assumes inv: "dep_inv True c ths" and idle: "\<forall>th\<in>set ths. lex_of th = None \<and> link_of th = None"
    and ne: "comp_tasks c \<noteq> []"
  shows "ready_index c \<noteq> None"
proof -
  have lexed: "task_ready c t" if "t \<in> set (comp_tasks c)" "lex_token t = Some j" for t j
  proof -
    have t: "task_imp t = Some j" using that(2) by (simp add: lex_token_def split: if_splits)
    have j: "j < length (import_list c)"
      using inv that(1) t by (auto simp: dep_inv_def indices_in_def task_in_def)
    then have ok: "import_ok True c ths j" using inv by (simp add: dep_inv_def)
    have "0 < count_list (map lex_token (comp_tasks c)) (Some j)"
      using that by (metis count_list_0_iff gr0I image_eqI set_map)
    then have "imp_body (import_list c ! j) = None"
      using ok by (auto simp: import_ok_def lexers_def split: if_splits)
    then show ?thesis using ok t by (simp add: import_ok_def task_ready_def)
  qed
  have "\<exists>t\<in>set (comp_tasks c). task_ready c t"
  proof (rule ccontr)
    assume none: "\<not> ?thesis"
    obtain t where t: "t \<in> set (comp_tasks c)" using ne by (cases "comp_tasks c") auto
    with none obtain i where i: "task_imp t = Some i"
        "deps_count (import_list c ! i) \<noteq> deps_now (import_list c ! i)"
      by (auto simp: task_ready_def split: option.splits)
    have "i < length (import_list c)"
      using inv t i(1) by (auto simp: dep_inv_def indices_in_def task_in_def)
    then have "import_ok True c ths i" using inv by (simp add: dep_inv_def)
    then have "waits (import_list c) i \<noteq> 0" using i(2) by (auto simp: import_ok_def)
    then obtain j where j: "j < length (import_list c)" "i \<in> set (fixups (import_list c ! j))"
      by (auto simp: waits_zero)
    have ok: "import_ok True c ths j" using inv j(1) by (simp add: dep_inv_def)
    have "Parsed t' j \<notin> set ths" for t' using idle by force
    then have "imp_body (import_list c ! j) = None"
      using ok j(2) by (cases "fixups (import_list c ! j)") (auto simp: import_ok_def)
    then have "lexers (comp_tasks c) ths j = 1" using ok by (simp add: import_ok_def)
    moreover have "count_list (map lex_of ths) (Some j) = 0"
      using idle by (auto simp: count_list_0_iff)
    ultimately have "count_list (map lex_token (comp_tasks c)) (Some j) \<noteq> 0"
      by (simp add: lexers_def)
    then obtain t' where "t' \<in> set (comp_tasks c)" "lex_token t' = Some j"
      by (auto simp: count_list_0_iff)
    then show False using lexed none by blast
  qed
  then show ?thesis
    by (auto simp: ready_index_def find_None_iff in_set_conv_nth)
qed

text \<open>Steps that change no import.\<close>

lemma update_other: "x \<noteq> xs ! i \<Longrightarrow> x \<noteq> y \<Longrightarrow> x \<in> set (xs[i := y]) \<longleftrightarrow> x \<in> set xs"
proof -
  assume x: "x \<noteq> xs ! i" "x \<noteq> y"
  have "x \<in> set xs \<Longrightarrow> x \<in> set (xs[i := y])"
    using x(1) by (metis in_set_conv_nth length_list_update nth_list_update_neq)
  moreover have "x \<in> set (xs[i := y]) \<Longrightarrow> x \<in> set xs"
    using x(2) set_update_subset_insert [of xs i y] by auto
  ultimately show ?thesis by blast
qed

lemma threads_in_update:
  "\<forall>th\<in>set ths. thread_in n th \<Longrightarrow> n \<le> m \<Longrightarrow> thread_in m th' \<Longrightarrow> \<forall>th\<in>set (ths[i := th']). thread_in m th"
  using set_update_subset_insert [of ths i th'] by (auto intro: thread_in_mono)

lemma dep_same_imports:
  assumes inv: "dep_inv all c ths" and i: "i < length ths"
    and same: "import_list c' = import_list c" "import_map c' = import_map c"
    and lex: "\<And>k. count_list (map lex_token (comp_tasks c')) (Some k) + (if lex_of th = Some k then 1 else 0)
        = count_list (map lex_token (comp_tasks c)) (Some k) + (if lex_of (ths ! i) = Some k then 1 else 0)"
    and link: "link_of th = link_of (ths ! i) \<or> link_of th = None"
    and parsed: "\<nexists>t k. ths ! i = Parsed t k" "\<nexists>t k. th = Parsed t k"
    and tasks: "\<forall>t\<in>set (comp_tasks c'). task_in (length (import_list c)) t"
    and th: "thread_in (length (import_list c)) th"
  shows "dep_inv all c' (ths[i := th])"
proof -
  have ind: "indices_in c ths" using inv by (simp add: dep_inv_def)
  then have "\<forall>th\<in>set ths. thread_in (length (import_list c)) th" by (simp add: indices_in_def)
  from threads_in_update [OF this order_refl th]
  have "\<forall>th\<in>set (ths[i := th]). thread_in (length (import_list c)) th" .
  then have "indices_in c' (ths[i := th])" using ind tasks by (simp add: indices_in_def same)
  moreover have "import_ok all c' (ths[i := th]) k" if "k < length (import_list c)" for k
  proof -
    have ok: "import_ok all c ths k" using inv that by (simp add: dep_inv_def)
    have l: "lexers (comp_tasks c') (ths[i := th]) k = lexers (comp_tasks c) ths k"
      using lex [of k] count_update [OF i, of lex_of th "Some k"] by (simp add: lexers_def split: if_splits)
    have k: "linkers (ths[i := th]) k \<le> linkers ths k"
      using link count_update [OF i, of link_of th "Some k"] by (auto simp: linkers_def split: if_splits)
    have p: "Parsed t k \<in> set (ths[i := th]) \<longleftrightarrow> Parsed t k \<in> set ths" for t
      using update_other [of "Parsed t k" ths i th] parsed by metis
    show ?thesis
      using ok k unfolding import_ok_def same l p by (auto split: if_splits)
  qed
  ultimately show ?thesis by (simp add: dep_inv_def same)
qed

lemma remove_nth_count:
  assumes "k < length xs"
  shows "count_list (map f (remove_nth k xs)) y + (if f (xs ! k) = y then 1 else 0) = count_list (map f xs) y"
proof -
  have "xs = take k xs @ xs ! k # drop (Suc k) xs" using assms by (rule id_take_nth_drop)
  then have "count_list (map f xs) y = count_list (map f (take k xs @ xs ! k # drop (Suc k) xs)) y" by simp
  then show ?thesis by (simp add: remove_nth_def)
qed

lemma set_remove_nth: "set (remove_nth k xs) \<subseteq> set xs"
  unfolding remove_nth_def by (auto dest: in_set_takeD in_set_dropD)

lemma ready_index_range: "ready_index c = Some k \<Longrightarrow> k < length (comp_tasks c)"
  by (auto simp: ready_index_def find_Some_iff)

lemma signal_data [simp]:
  "comp_tasks (signal c) = comp_tasks c" "import_list (signal c) = import_list c"
  "import_map (signal c) = import_map c"
  by (simp_all add: signal_def)

lemma dep_take:
  assumes inv: "dep_inv all c ths" and i: "i < length ths" "ths ! i = Entered"
    and step: "count_exit (take_task c) = (c', th)"
  shows "dep_inv all c' (ths[i := th])"
proof -
  let ?c = "c\<lparr>is_signaled := False\<rparr>"
  have tasks: "\<forall>t\<in>set (comp_tasks c). task_in (length (import_list c)) t"
    using inv by (simp add: dep_inv_def indices_in_def)
  show ?thesis
  proof (cases "ready_index ?c")
    case None
    then have "import_list c' = import_list c" "import_map c' = import_map c" "comp_tasks c' = comp_tasks c"
      and th: "th = Waiting \<or> (\<exists>b. th = Exited b)"
      using step by (auto simp: take_task_def count_exit_def Let_def split: if_splits)
    then show ?thesis
      using th tasks i by (intro dep_same_imports [OF inv i(1)]) (auto simp: thread_in_def)
  next
    case (Some k)
    have k: "k < length (comp_tasks c)" using ready_index_range [OF Some] by simp
    from Some step have c': "import_list c' = import_list c" "import_map c' = import_map c"
        "comp_tasks c' = remove_nth k (comp_tasks c)" and th: "th = Busy (comp_tasks c ! k)"
      by (auto simp: take_task_def count_exit_def Let_def split: if_splits)
    show ?thesis
    proof (rule dep_same_imports [OF inv i(1) c'(1,2)])
      show "count_list (map lex_token (comp_tasks c')) (Some m) + (if lex_of th = Some m then 1 else 0)
        = count_list (map lex_token (comp_tasks c)) (Some m) + (if lex_of (ths ! i) = Some m then 1 else 0)" for m
        using remove_nth_count [OF k, of lex_token "Some m"] by (simp add: c'(3) th i(2))
      show "\<forall>t\<in>set (comp_tasks c'). task_in (length (import_list c)) t"
        using tasks set_remove_nth [of k "comp_tasks c"] by (auto simp: c'(3))
      show "thread_in (length (import_list c)) th" using tasks k by (simp add: th thread_in_def)
    qed (simp_all add: th i(2))
  qed
qed

lemma dep_finish:
  assumes inv: "dep_inv all c ths" and i: "i < length ths" "ths ! i = Finishing t q"
  shows "dep_inv all (finish_task t q c) (ths[i := Waiting])"
proof (rule dep_same_imports [OF inv i(1)])
  have tin: "task_in (length (import_list c)) t" "q \<longrightarrow> lex_token t = None"
    using inv i nth_mem [OF i(1)]
    by (force simp: dep_inv_def indices_in_def thread_in_def lex_token_def)+
  then show "\<forall>t\<in>set (comp_tasks (finish_task t q c)). task_in (length (import_list c)) t"
    using inv by (auto simp: finish_task_def push_task_def Let_def dep_inv_def indices_in_def)
  show "count_list (map lex_token (comp_tasks (finish_task t q c))) (Some k) + (if lex_of Waiting = Some k then 1 else 0)
        = count_list (map lex_token (comp_tasks c)) (Some k) + (if lex_of (ths ! i) = Some k then 1 else 0)" for k
    using tin(2) by (simp add: finish_task_def push_task_def Let_def i(2))
qed (simp_all add: finish_task_def push_task_def Let_def thread_in_def i(2))

lemma dep_later:
  assumes inv: "dep_inv all c ths" and i: "i < length ths" "ths ! i = Busy t"
    and step: "do_task env t c = Some (c', th)" "task_type t \<noteq> TASK_LEX_FILE"
  shows "dep_inv all c' (ths[i := th])"
proof -
  obtain t' q where d: "import_list c' = import_list c" "import_map c' = import_map c"
      "comp_tasks c' = comp_tasks c" "th = Finishing t' q" "task_imp t' = task_imp t"
      "task_type t' \<noteq> TASK_LEX_FILE"
    using later_task [OF step] by (auto simp: later_result_def tables_only_sel split: Thread.splits)
  have t: "task_in (length (import_list c)) t"
    using inv i nth_mem [OF i(1)] by (force simp: dep_inv_def indices_in_def thread_in_def)
  show ?thesis
  proof (rule dep_same_imports [OF inv i(1) d(1,2)])
    show "\<forall>t\<in>set (comp_tasks c'). task_in (length (import_list c)) t"
      using inv by (simp add: d(3) dep_inv_def indices_in_def)
    show "thread_in (length (import_list c)) th" using t d(5,6) by (simp add: d(4) thread_in_def task_in_def)
  qed (simp_all add: d i(2) lex_token_def step(2))
qed

text \<open>Parsing a file that others may wait for.\<close>

lemma dep_lex_known:
  assumes inv: "dep_inv all c ths" and i: "i < length ths" "ths ! i = Busy t" "lex_token t = Some k"
    and c': "import_list c' = (import_list c)[k := imp']" "import_map c' = import_map c"
      "comp_tasks c' = comp_tasks c"
    and imp: "same_import ((import_list c ! k)\<lparr>imp_body := Some s\<rparr>) imp'"
  shows "dep_inv all c' (ths[i := Parsed t k])"
proof -
  let ?is = "import_list c" and ?ths = "ths[i := Parsed t k]"
  have ind: "indices_in c ths" using inv by (simp add: dep_inv_def)
  have tin: "task_in (length ?is) t" and k: "k < length ?is"
    using ind i nth_mem [OF i(1)] by (force simp: indices_in_def thread_in_def task_in_def lex_token_def split: if_splits)+
  have th: "thread_in (length ?is) (Parsed t k)" using tin k by (simp add: thread_in_def)
  have imp': "fixups imp' = fixups (?is ! k)" "deps_count imp' = deps_count (?is ! k)"
      "deps_now imp' = deps_now (?is ! k)" "imp_body imp' = Some s"
    using imp by (simp_all add: same_import_def)
  have nth: "fixups (import_list c' ! m) = fixups (?is ! m)"
      "deps_count (import_list c' ! m) = deps_count (?is ! m)"
      "deps_now (import_list c' ! m) = deps_now (?is ! m)"
      "imp_body (import_list c' ! m) = (if m = k then Some s else imp_body (?is ! m))"
    if "m < length ?is" for m using that k imp' by (simp_all add: c'(1) nth_list_update)
  have len: "length (import_list c') = length ?is" by (simp add: c'(1))
  have waits: "waits (import_list c') m = waits ?is m" for m by (rule waits_cong) (simp_all add: len nth)
  have ts: "\<forall>th\<in>set ths. thread_in (length ?is) th" using ind by (simp add: indices_in_def)
  have "indices_in c' ?ths"
    using ind threads_in_update [OF ts order_refl th] by (auto simp: indices_in_def c'(2,3) len nth)
  moreover have "import_ok all c' ?ths m" if "m < length ?is" for m
  proof -
    have ok: "import_ok all c ths m" using inv that by (simp add: dep_inv_def)
    have lex: "lexers (comp_tasks c') ?ths m + (if m = k then 1 else 0) = lexers (comp_tasks c) ths m"
      using count_update [OF i(1), of lex_of "Parsed t k" "Some m"] i(2,3) by (auto simp: lexers_def c'(3))
    have link: "linkers ?ths m = linkers ths m + (if m = k then 1 else 0)"
      using count_update [OF i(1), of link_of "Parsed t k" "Some m"] i(2) by (auto simp: linkers_def)
    have parsed: "Parsed u m \<in> set ?ths \<longleftrightarrow> Parsed u m \<in> set ths" if "m \<noteq> k" for u
      using that update_other [of "Parsed u m" ths i "Parsed t k"] i(2) by auto
    show ?thesis
    proof (cases "m = k")
      case False
      then show ?thesis using ok lex link parsed by (simp add: import_ok_def nth [OF that] waits)
    next
      case True
      have "imp_body (?is ! k) = None"
        using ok lex True by (auto simp: import_ok_def split: if_splits)
      moreover have "Parsed t k \<in> set ?ths" using i(1) by (simp add: set_update_memI)
      ultimately show ?thesis
        using ok lex link True nth [OF that] by (auto simp: import_ok_def waits)
    qed
  qed
  ultimately show ?thesis by (simp add: dep_inv_def len)
qed

text \<open>Parsing the first file, which nobody can wait for.\<close>

lemma range_counts:
  assumes "indices_in c ths" and "length (import_list c) \<le> k"
  shows "waits (import_list c) k = 0" "lexers (comp_tasks c) ths k = 0" "linkers ths k = 0"
    "Parsed t k \<notin> set ths"
proof -
  show "waits (import_list c) k = 0" using assms by (fastforce simp: waits_zero indices_in_def)
  have "lex_token t \<noteq> Some k" if "t \<in> set (comp_tasks c)" for t
    using assms that by (force simp: indices_in_def task_in_def lex_token_def split: if_splits)
  moreover have "lex_of th \<noteq> Some k \<and> link_of th \<noteq> Some k" if "th \<in> set ths" for th
    using assms that by (cases th) (force simp: indices_in_def thread_in_def task_in_def lex_token_def
        split: if_splits)+
  ultimately show "lexers (comp_tasks c) ths k = 0" "linkers ths k = 0"
    by (simp_all add: lexers_def linkers_def count_list_0_iff image_iff) metis+
  show "Parsed t k \<notin> set ths" using assms by (force simp: indices_in_def thread_in_def)
qed

lemma dep_lex_first:
  assumes inv: "dep_inv all c ths" and i: "i < length ths" "ths ! i = Busy t" "lex_token t = None"
    and c': "import_list c' = import_list c @ [imp']"
      "import_map c' = (import_map c)(nm \<mapsto> length (import_list c))" "comp_tasks c' = comp_tasks c"
    and imp: "same_import ((new_import nm)\<lparr>imp_body := Some s\<rparr>) imp'"
    and u: "task_in (Suc (length (import_list c))) u"
  shows "dep_inv all c' (ths[i := Parsed u (length (import_list c))])"
proof -
  let ?is = "import_list c" and ?n = "length (import_list c)"
  let ?ths = "ths[i := Parsed u ?n]"
  have ind: "indices_in c ths" using inv by (simp add: dep_inv_def)
  note none = range_counts [OF ind order_refl]
  have imp': "fixups imp' = []" "deps_count imp' = 0" "deps_now imp' = 0" "imp_body imp' = Some s"
    using imp by (simp_all add: same_import_def new_import_def)
  have waits: "waits (import_list c') m = waits ?is m" for m by (simp add: c'(1) waits_append imp')
  have nth: "import_list c' ! m = (if m < ?n then ?is ! m else imp')" if "m < Suc ?n" for m
    using that by (auto simp: c'(1) nth_append less_Suc_eq)
  have th: "thread_in (Suc ?n) (Parsed u ?n)" using u by (simp add: thread_in_def)
  have ts: "\<forall>th\<in>set ths. thread_in ?n th" using ind by (simp add: indices_in_def)
  have "indices_in c' ?ths"
    using ind threads_in_update [OF ts _ th, of i]
    by (fastforce simp: indices_in_def c'(2,3) c'(1) nth_append less_Suc_eq imp' intro: task_in_mono split: if_splits)
  moreover have "import_ok all c' ?ths m" if "m < Suc ?n" for m
  proof -
    have lex: "lexers (comp_tasks c') ?ths m = lexers (comp_tasks c) ths m"
      using count_update [OF i(1), of lex_of "Parsed u ?n" "Some m"] i(2,3) by (auto simp: lexers_def c'(3))
    have link: "linkers ?ths m = linkers ths m + (if m = ?n then 1 else 0)"
      using count_update [OF i(1), of link_of "Parsed u ?n" "Some m"] i(2) by (auto simp: linkers_def)
    have parsed: "Parsed v m \<in> set ?ths \<longleftrightarrow> Parsed v m \<in> set ths" if "m \<noteq> ?n" for v
      using that update_other [of "Parsed v m" ths i "Parsed u ?n"] i(2) by auto
    show ?thesis
    proof (cases "m = ?n")
      case False
      then have m: "m < ?n" using that by simp
      then have "import_ok all c ths m" using inv by (simp add: dep_inv_def)
      then show ?thesis using lex link parsed m False by (simp add: import_ok_def nth waits)
    next
      case True
      then show ?thesis using lex link none by (simp add: import_ok_def nth waits imp')
    qed
  qed
  ultimately show ?thesis by (simp add: dep_inv_def c'(1))
qed

text \<open>Telling the files that wait.\<close>

lemma upd_import_data [simp]:
  "import_list (upd_import k f c) = (import_list c)[k := f (import_list c ! k)]"
  "import_map (upd_import k f c) = import_map c" "comp_tasks (upd_import k f c) = comp_tasks c"
  by (simp_all add: upd_import_def)

lemma fix_imports_data:
  "fix_imports k fs c = Some c' \<Longrightarrow> \<forall>f\<in>set fs. f < length (import_list c) \<Longrightarrow>
   import_map c' = import_map c \<and> comp_tasks c' = comp_tasks c
   \<and> length (import_list c') = length (import_list c)
   \<and> (\<forall>m<length (import_list c). import_list c' ! m =
        (import_list c ! m)\<lparr>deps_now := deps_now (import_list c ! m) + int (count_list fs m)\<rparr>)"
proof (induction fs arbitrary: c)
  case (Cons f fs)
  obtain c1 where c1: "fix_import k f c = Some c1" "fix_imports k fs c1 = Some c'"
    using Cons.prems by (cases "fix_import k f c") auto
  have d: "import_map c1 = import_map c" "comp_tasks c1 = comp_tasks c"
      "import_list c1 = (import_list c)[f := (import_list c ! f)\<lparr>deps_now := deps_now (import_list c ! f) + 1\<rparr>]"
    using c1(1) by (auto simp: fix_import_def split: Option.bind_splits)
  show ?case using Cons.IH [OF c1(2)] Cons.prems(2) by (auto simp: d nth_list_update)
qed simp

lemma linker_counts: "i < length ths \<Longrightarrow> link_of (ths ! i) = Some k \<Longrightarrow> linkers ths k \<noteq> 0"
  unfolding linkers_def count_list_0_iff by (metis image_eqI nth_mem set_map)

lemma only_linker:
  assumes "linkers ths k \<le> 1" and "i < length ths" and "link_of (ths ! i) = Some k"
  shows "Parsed u k \<in> set ths \<Longrightarrow> ths ! i = Parsed u k"
proof (rule ccontr)
  assume u: "Parsed u k \<in> set ths" "ths ! i \<noteq> Parsed u k"
  then have "Parsed u k \<in> set (ths[i := Waiting])"
    using update_other [of "Parsed u k" ths i Waiting] by auto
  then have "Some k \<in> set (map link_of (ths[i := Waiting]))"
    by (metis image_eqI set_map token_simps(14))
  then have "count_list (map link_of (ths[i := Waiting])) (Some k) \<noteq> 0"
    by (simp only: count_list_0_iff) simp
  then show False
    using count_update [OF assms(2), of link_of Waiting "Some k"] assms(1,3) by (simp add: linkers_def)
qed

lemma dep_fixups:
  assumes inv: "dep_inv all c ths" and i: "i < length ths" "ths ! i = Parsed t k"
    and step: "do_fixups k c = Some c'"
  shows "dep_inv all c' (ths[i := Linking t k nms])"
proof -
  let ?is = "import_list c" and ?ths = "ths[i := Linking t k nms]"
  have ind: "indices_in c ths" using inv by (simp add: dep_inv_def)
  have tin: "thread_in (length ?is) (Parsed t k)"
    using ind i nth_mem [OF i(1)] by (force simp: indices_in_def)
  then have k: "k < length ?is" and th: "thread_in (length ?is) (Linking t k nms)"
    by (simp_all add: thread_in_def)
  have okk: "import_ok all c ths k" using inv k by (simp add: dep_inv_def)
  have "Parsed t k \<in> set ths" using i nth_mem by metis
  then have wk: "waits ?is k = 0" using okk by (auto simp: import_ok_def)
  have bk: "imp_body (?is ! k) \<noteq> None"
    using linker_counts [OF i(1), of k] i(2) okk by (auto simp: import_ok_def split: if_splits)
  obtain c1 where c1: "fix_imports k (fixups (?is ! k)) c = Some c1"
      and c': "c' = upd_import k (\<lambda>i. i\<lparr>fixups := [], deps_now := 0, deps_count := 0\<rparr>) c1"
    using step by (auto simp: do_fixups_def split: Option.bind_splits)
  have d: "import_map c' = import_map c" "comp_tasks c' = comp_tasks c"
      and len: "length (import_list c') = length ?is"
      and l1: "\<And>m. m < length ?is \<Longrightarrow> import_list c1 ! m =
        (?is ! m)\<lparr>deps_now := deps_now (?is ! m) + int (count_list (fixups (?is ! k)) m)\<rparr>"
      "length (import_list c1) = length ?is"
    using fix_imports_data [OF c1] ind k by (simp_all add: c' indices_in_def)
  have nth: "imp_body (import_list c' ! m) = imp_body (?is ! m)"
      "fixups (import_list c' ! m) = (if m = k then [] else fixups (?is ! m))"
      "deps_count (import_list c' ! m) = (if m = k then 0 else deps_count (?is ! m))"
      "deps_now (import_list c' ! m) =
        (if m = k then 0 else deps_now (?is ! m) + int (count_list (fixups (?is ! k)) m))"
    if "m < length ?is" for m using that k l1 by (simp_all add: c' nth_list_update)
  have waits: "waits (import_list c') m + count_list (fixups (?is ! k)) m = waits ?is m" for m
    using waits_change [of "import_list c'" ?is k m] len k by (simp add: nth)
  have ts: "\<forall>th\<in>set ths. thread_in (length ?is) th" using ind by (simp add: indices_in_def)
  have "indices_in c' ?ths"
    using ind threads_in_update [OF ts order_refl th]
    by (auto simp: indices_in_def d len nth)
  moreover have "import_ok all c' ?ths m" if m: "m < length ?is" for m
  proof -
    have ok: "import_ok all c ths m" using inv m by (simp add: dep_inv_def)
    have lex: "lexers (comp_tasks c') ?ths m = lexers (comp_tasks c) ths m"
      using count_update [OF i(1), of lex_of "Linking t k nms" "Some m"] i(2) by (simp add: lexers_def d)
    have link: "linkers ?ths m = linkers ths m"
      using count_update [OF i(1), of link_of "Linking t k nms" "Some m"] i(2) by (auto simp: linkers_def split: if_splits)
    have parsed: "Parsed u m \<in> set ?ths \<longleftrightarrow> Parsed u m \<in> set ths" if "m \<noteq> k" for u
      using that update_other [of "Parsed u m" ths i "Linking t k nms"] i(2) by auto
    show ?thesis
    proof (cases "m = k")
      case True
      then show ?thesis using ok lex link waits [of k] wk bk nth [OF k] by (auto simp: import_ok_def)
    next
      case False
      have "waits (import_list c') m \<le> waits ?is m" using waits [of m] by simp
      moreover have "deps_count (import_list c' ! m) - deps_now (import_list c' ! m)
          = int (waits (import_list c') m)"
        using ok waits [of m] False by (simp add: import_ok_def nth [OF m])
      ultimately show ?thesis using ok lex link parsed [OF False] False
        by (auto simp: import_ok_def nth [OF m])
    qed
  qed
  ultimately show ?thesis by (simp add: dep_inv_def len)
qed

text \<open>A new file with its task, and waiting for a file.\<close>

lemma dep_create:
  assumes inv: "dep_inv all c ths"
    and c': "import_list c' = import_list c @ [new_import nm]"
      "import_map c' = (import_map c)(nm \<mapsto> length (import_list c))"
      "comp_tasks c' = comp_tasks c @ [t]" "lex_token t = Some (length (import_list c))"
  shows "dep_inv all c' ths"
proof -
  let ?is = "import_list c" and ?n = "length (import_list c)"
  have ind: "indices_in c ths" using inv by (simp add: dep_inv_def)
  note none = range_counts [OF ind order_refl]
  have new: "fixups (new_import nm) = []" "deps_count (new_import nm) = 0"
      "deps_now (new_import nm) = 0" "imp_body (new_import nm) = None" by (simp_all add: new_import_def)
  have t: "task_in (Suc ?n) t" using c'(4) by (auto simp: lex_token_def task_in_def split: if_splits)
  have waits: "waits (import_list c') m = waits ?is m" for m by (simp add: c'(1) waits_append new)
  have nth: "import_list c' ! m = (if m < ?n then ?is ! m else new_import nm)" if "m < Suc ?n" for m
    using that by (auto simp: c'(1) nth_append less_Suc_eq)
  have "\<forall>th\<in>set ths. thread_in (Suc ?n) th"
    using ind by (auto simp: indices_in_def intro: thread_in_mono [of ?n])
  then have "indices_in c' ths"
    using ind t by (fastforce simp: indices_in_def c'(2,3) c'(1) nth_append less_Suc_eq new
        intro: task_in_mono split: if_splits)
  moreover have "import_ok all c' ths m" if "m < Suc ?n" for m
  proof -
    have lex: "lexers (comp_tasks c') ths m = lexers (comp_tasks c) ths m + (if m = ?n then 1 else 0)"
      by (simp add: lexers_def c'(3,4))
    show ?thesis
    proof (cases "m = ?n")
      case False
      then have m: "m < ?n" using that by simp
      then have "import_ok all c ths m" using inv by (simp add: dep_inv_def)
      then show ?thesis using lex m False by (simp add: import_ok_def nth waits)
    next
      case True
      then show ?thesis using lex none by (simp add: import_ok_def nth waits new)
    qed
  qed
  ultimately show ?thesis by (simp add: dep_inv_def c'(1))
qed

lemma dep_wait:
  assumes inv: "dep_inv all c ths" and i: "i < length ths" "ths ! i = Found t k nm found nms"
    and j: "j < length (import_list c)" "imp_body (import_list c ! j) = None"
  shows "dep_inv all (wait_for k j c) (ths[i := Linking t k nms])"
proof -
  let ?is = "import_list c" and ?ths = "ths[i := Linking t k nms]" and ?c = "wait_for k j c"
  have ind: "indices_in c ths" using inv by (simp add: dep_inv_def)
  have tin: "thread_in (length ?is) (Found t k nm found nms)"
    using ind i nth_mem [OF i(1)] by (force simp: indices_in_def)
  then have k: "k < length ?is" and th: "thread_in (length ?is) (Linking t k nms)"
    by (simp_all add: thread_in_def)
  have okk: "import_ok all c ths k" using inv k by (simp add: dep_inv_def)
  have bk: "imp_body (?is ! k) \<noteq> None" "linkers ths k \<le> 1"
    using linker_counts [OF i(1), of k] i(2) okk by (auto simp: import_ok_def split: if_splits)
  then have kj: "k \<noteq> j" using j(2) by auto
  have noparsed: "Parsed u k \<notin> set ths" for u
    using only_linker [OF bk(2) i(1), of u] i(2) by auto
  have d: "import_map ?c = import_map c" "comp_tasks ?c = comp_tasks c"
      and len: "length (import_list ?c) = length ?is" by (simp_all add: wait_for_def)
  have nth: "imp_body (import_list ?c ! m) = imp_body (?is ! m)"
      "fixups (import_list ?c ! m) = (if m = j then fixups (?is ! j) @ [k] else fixups (?is ! m))"
      "deps_count (import_list ?c ! m) = deps_count (?is ! m) + (if m = k then 1 else 0)"
      "deps_now (import_list ?c ! m) = deps_now (?is ! m)"
    if "m < length ?is" for m using that k j kj by (auto simp: wait_for_def nth_list_update)
  have waits: "waits (import_list ?c) m = waits ?is m + (if m = k then 1 else 0)" for m
    using waits_change [of "import_list ?c" ?is j m] len j by (auto simp: nth split: if_splits)
  have ts: "\<forall>th\<in>set ths. thread_in (length ?is) th" using ind by (simp add: indices_in_def)
  have "indices_in ?c ?ths"
    using ind threads_in_update [OF ts order_refl th] k bk(1)
    by (auto simp: indices_in_def d len nth split: if_splits)
  moreover have "import_ok all ?c ?ths m" if m: "m < length ?is" for m
  proof -
    have ok: "import_ok all c ths m" using inv m by (simp add: dep_inv_def)
    have lex: "lexers (comp_tasks ?c) ?ths m = lexers (comp_tasks c) ths m"
      using count_update [OF i(1), of lex_of "Linking t k nms" "Some m"] i(2) by (simp add: lexers_def d)
    have link: "linkers ?ths m = linkers ths m"
      using count_update [OF i(1), of link_of "Linking t k nms" "Some m"] i(2) by (auto simp: linkers_def split: if_splits)
    have parsed: "Parsed u m \<in> set ?ths \<longleftrightarrow> Parsed u m \<in> set ths" for u
      using update_other [of "Parsed u m" ths i "Linking t k nms"] i(2) by auto
    show ?thesis
      using ok lex link parsed bk(1) noparsed j(2) nth [OF m] waits [of m] kj
      by (auto simp: import_ok_def split: if_splits)
  qed
  ultimately show ?thesis by (simp add: dep_inv_def len)
qed

text \<open>Every file can be read and lexed.\<close>

definition files_lex :: "comp_env \<Rightarrow> bool" where
  "files_lex env \<longleftrightarrow> (\<forall>nm. lex_file (ce_lex env) nm (ce_files env nm) \<noteq> None)"

lemma dep_lexed:
  assumes inv: "dep_inv all c ths" and i: "i < length ths" "ths ! i = Busy t" "task_type t = TASK_LEX_FILE"
    and ts: "lex_file (ce_lex env) (task_name t) (ce_files env (task_name t)) = Some ts"
    and step: "do_lex env t c = Some (c', th)"
  shows "dep_inv all c' (ths[i := th])"
proof -
  let ?c1 = "c\<lparr>comp_streams := comp_streams c @ [ts], stream_map := (stream_map c)(task_name t \<mapsto> ts)\<rparr>"
  let ?imp = "map_option (\<lambda>i. import_list c ! i) (task_imp t)"
  obtain imp ctx k where p: "ParseTokenStream (parse_fuel ts) (ce_junk env) ts ?imp (comp_ast c) (comp_errors c)
        = Some (True, imp, ctx)"
      and r: "store_import (task_imp t) imp (?c1\<lparr>comp_ast := ast ctx, comp_errors := errors ctx\<rparr>) = (k, c')"
      and th: "th = Parsed (t\<lparr>task_imp := Some k\<rparr>) k"
    using step ts by (auto simp: do_lex_def Let_def split: Option.bind_splits prod.splits if_splits)
  from ParseTokenStream_import [OF p] obtain s where
    s: "same_import ((case ?imp of None \<Rightarrow> new_import (path ts) | Some i \<Rightarrow> i)\<lparr>imp_body := Some s\<rparr>) imp"
    by blast
  show ?thesis
  proof (cases "task_imp t")
    case (Some k')
    have k: "k = k'" and c': "import_list c' = (import_list c)[k := imp]" "import_map c' = import_map c"
        "comp_tasks c' = comp_tasks c"
      using r by (auto simp: store_import_def Some)
    have t: "t\<lparr>task_imp := Some k'\<rparr> = t" using Some by simp
    have th': "th = Parsed t k'" unfolding th k by (simp only: t)
    show ?thesis
      using dep_lex_known [OF inv i(1,2) _ c'] s by (simp add: th' Some k lex_token_def i(3))
  next
    case None
    have nm: "imp_name imp = path ts" using s by (simp add: None same_import_def new_import_def)
    have k: "k = length (import_list c)" and c': "import_list c' = import_list c @ [imp]"
        "import_map c' = (import_map c)(path ts \<mapsto> length (import_list c))" "comp_tasks c' = comp_tasks c"
      using r by (auto simp: store_import_def None createImport_def nm)
    show ?thesis
      unfolding th k
      by (rule dep_lex_first [OF inv i(1,2) _ c'])
        (use s in \<open>simp_all add: None lex_token_def task_in_def\<close>)
  qed
qed

text \<open>A file that cannot be read has no task any more.\<close>

lemma dep_lex_failed:
  assumes inv: "dep_inv False c ths" and i: "i < length ths" "ths ! i = Busy t"
    and same: "import_list c' = import_list c" "import_map c' = import_map c" "comp_tasks c' = comp_tasks c"
  shows "dep_inv False c' (ths[i := Finishing t False])"
proof -
  have ind: "indices_in c ths" using inv by (simp add: dep_inv_def)
  then have ts: "\<forall>th\<in>set ths. thread_in (length (import_list c)) th" by (simp add: indices_in_def)
  then have "thread_in (length (import_list c)) (Busy t)" using i nth_mem by metis
  then have "thread_in (length (import_list c)) (Finishing t False)" by (simp add: thread_in_def)
  then have "indices_in c' (ths[i := Finishing t False])"
    using ind threads_in_update [OF ts order_refl] by (simp add: indices_in_def same)
  moreover have "import_ok False c' (ths[i := Finishing t False]) k" if "k < length (import_list c)" for k
  proof -
    have ok: "import_ok False c ths k" using inv that by (simp add: dep_inv_def)
    have l: "lexers (comp_tasks c') (ths[i := Finishing t False]) k \<le> lexers (comp_tasks c) ths k"
      using count_update [OF i(1), of lex_of "Finishing t False" "Some k"] by (auto simp: lexers_def same split: if_splits)
    have n: "linkers (ths[i := Finishing t False]) k = linkers ths k"
      using count_update [OF i(1), of link_of "Finishing t False" "Some k"] i(2) by (simp add: linkers_def)
    have p: "Parsed u k \<in> set (ths[i := Finishing t False]) \<longleftrightarrow> Parsed u k \<in> set ths" for u
      using update_other [of "Parsed u k" ths i "Finishing t False"] i(2) by auto
    show ?thesis using ok l n unfolding import_ok_def same p by (auto split: if_splits)
  qed
  ultimately show ?thesis by (simp add: dep_inv_def same)
qed

lemma dep_lex:
  assumes inv: "dep_inv all c ths" and i: "i < length ths" "ths ! i = Busy t" "task_type t = TASK_LEX_FILE"
    and files: "all \<longrightarrow> files_lex env" and step: "do_lex env t c = Some (c', th)"
  shows "dep_inv all c' (ths[i := th])"
proof (cases "lex_file (ce_lex env) (task_name t) (ce_files env (task_name t))")
  case None
  then have "\<not> files_lex env" by (auto simp: files_lex_def)
  then have "all = False" using files by simp
  moreover have "th = Finishing t False" "c' = c\<lparr>comp_errors := comp_errors c + 1\<rparr>"
    using None step by (auto simp: do_lex_def)
  ultimately show ?thesis using dep_lex_failed [OF _ i(1,2), of c c'] inv by simp
qed (rule dep_lexed [OF inv i _ step])

lemma push_task_wait_for: "push_task t (wait_for k j c) = wait_for k j (push_task t c)"
  by (cases c) (simp add: push_task_def wait_for_def upd_import_def)

lemma dep_found:
  assumes inv: "dep_inv all c ths" and i: "i < length ths" "ths ! i = Found t k nm found nms"
    and step: "link_import k nm found c = Some c'"
  shows "dep_inv all c' (ths[i := Linking t k nms])"
proof -
  have "thread_in (length (import_list c)) (Found t k nm found nms)"
    using inv i nth_mem [OF i(1)] by (force simp: dep_inv_def indices_in_def)
  then have k: "k < length (import_list c)" "thread_in (length (import_list c)) (Linking t k nms)"
      and found: "\<And>j. found = Some j \<Longrightarrow> j < length (import_list c)"
    by (simp_all add: thread_in_def)
  show ?thesis
  proof (cases found)
    case None
    let ?t = "\<lparr>task_type = TASK_LEX_FILE, task_name = nm, task_imp = Some (length (import_list c)),
                no_change = False\<rparr>"
    let ?c1 = "push_task ?t (snd (createImport nm c))"
    have new: "dep_inv all ?c1 ths"
      by (rule dep_create [OF inv, of _ nm ?t]) (simp_all add: push_task_def createImport_def lex_token_def)
    have c': "c' = wait_for k (length (import_list c)) ?c1"
      using step by (simp add: link_import_def None createImport_def push_task_wait_for)
    show ?thesis
      unfolding c' using dep_wait [OF new i, of "length (import_list c)"]
      by (simp add: push_task_def createImport_def new_import_def)
  next
    case (Some j)
    show ?thesis
    proof (cases "imp_body (import_list c ! j)")
      case None
      then show ?thesis
        using step dep_wait [OF inv i found [OF Some]] by (simp add: link_import_def Some)
    next
      case (Some s)
      then have c': "import_list c' = import_list c" "import_map c' = import_map c"
          "comp_tasks c' = comp_tasks c"
        using step by (auto simp: link_import_def \<open>found = Some j\<close> split: Option.bind_splits)
      show ?thesis
      proof (rule dep_same_imports [OF inv i(1) c'(1,2)])
        show "\<forall>t\<in>set (comp_tasks c'). task_in (length (import_list c)) t"
          using inv by (simp add: c'(3) dep_inv_def indices_in_def)
      qed (simp_all add: c'(3) i(2) k)
    qed
  qed
qed

lemma dep_step:
  assumes inv: "dep_inv all c ths" and files: "all \<longrightarrow> files_lex env" and step: "sys_step env (c, ths) (c', ths')"
  shows "dep_inv all c' ths'"
  using step
proof (cases rule: sys_step.cases)
  case (step_thread i th)
  note st = step_thread
  have tasks: "\<forall>t\<in>set (comp_tasks c). task_in (length (import_list c)) t"
    using inv by (simp add: dep_inv_def indices_in_def)
  have tin: "thread_in (length (import_list c)) (ths ! i)"
    using inv st(2) nth_mem [OF st(2)] by (simp add: dep_inv_def indices_in_def)
  show ?thesis
  proof (cases "ths ! i")
    case Starting
    then have "th = Waiting" "c' = c\<lparr>total_threads := total_threads c + 1\<rparr>"
      using st by (auto simp: thread_step_def)
    then show ?thesis unfolding st(1)
      by (intro dep_same_imports [OF inv st(2)]) (simp_all add: Starting thread_in_def tasks)
  next
    case Waiting
    then have "th = Entered" "c' = c\<lparr>tasks_queue_lock := tasks_queue_lock c - 1\<rparr>"
      using st by (auto simp: thread_step_def)
    then show ?thesis unfolding st(1)
      by (intro dep_same_imports [OF inv st(2)]) (simp_all add: Waiting thread_in_def tasks)
  next
    case Entered
    then show ?thesis using dep_take [OF inv st(2)] st by (simp add: thread_step_def)
  next
    case (Busy t)
    then have d: "do_task env t c = Some (c', th)" using st by (simp add: thread_step_def)
    show ?thesis
    proof (cases "task_type t = TASK_LEX_FILE")
      case True
      then show ?thesis
        using dep_lex [OF inv st(2) Busy True files, of c' th] d st(1) by (simp add: do_task_def)
    next
      case False
      then show ?thesis using dep_later [OF inv st(2) Busy d False] st(1) by simp
    qed
  next
    case (Parsed t k)
    then obtain nms where "do_fixups k c = Some c'" "th = Linking t k nms"
      using st by (auto simp: thread_step_def split: Option.bind_splits)
    then show ?thesis using dep_fixups [OF inv st(2) Parsed] st(1) by simp
  next
    case (Linking t k nms)
    show ?thesis
    proof (cases nms)
      case Nil
      then have "c' = c" "th = Finishing (t\<lparr>task_type := TASK_CHECK_STRUCTS\<rparr>) True"
        using st Linking by (auto simp: thread_step_def)
      moreover have "thread_in (length (import_list c)) th"
        using tin by (simp add: Linking calculation thread_in_def task_in_def)
      ultimately show ?thesis unfolding st(1)
        by (intro dep_same_imports [OF inv st(2)]) (simp_all add: Linking tasks)
    next
      case (Cons nm rest)
      then have "c' = c" "th = Found t k nm (findImport nm c) rest"
        using st Linking by (auto simp: thread_step_def)
      moreover have "\<forall>j. findImport nm c = Some j \<longrightarrow> j < length (import_list c)"
        using inv by (simp add: dep_inv_def indices_in_def findImport_def)
      ultimately show ?thesis unfolding st(1)
        using tin by (intro dep_same_imports [OF inv st(2)])
          (simp_all add: Linking thread_in_def tasks)
    qed
  next
    case (Found t k nm found nms)
    then obtain c1 where "link_import k nm found c = Some c1" "c' = c1" "th = Linking t k nms"
      using st by (auto simp: thread_step_def split: Option.bind_splits)
    then show ?thesis using dep_found [OF inv st(2) Found] st(1) by simp
  next
    case (Finishing t q)
    then show ?thesis using dep_finish [OF inv st(2) Finishing] st by (simp add: thread_step_def)
  next
    case (Exited b)
    then show ?thesis using st by (simp add: thread_step_def)
  qed
qed

interpretation dependency: thread_invariant env "\<lambda>c ths. (all \<longrightarrow> files_lex env) \<longrightarrow> dep_inv all c ths" for env all
proof
  fix nm c n assume "compile_init nm = Some c"
  note c = compile_init_eq [OF this]
  have r: "lex_of x = None \<and> link_of x = None \<and> thread_in m x" if "x \<in> set (replicate n Starting)" for x m
    using that by (auto simp: thread_in_def)
  have "count_list (map lex_of (replicate n Starting)) (Some k) = 0"
    "count_list (map link_of (replicate n Starting)) (Some k) = 0" for k
    by (auto simp: count_list_0_iff)
  then show "(all \<longrightarrow> files_lex env) \<longrightarrow> dep_inv all c (replicate n Starting)" using c
    by (auto simp: dep_inv_def indices_in_def import_ok_def task_in_def lexers_def linkers_def waits_def
        new_import_def lex_token_def thread_in_def split: if_splits)
qed (use dep_step in blast)

lemma reachable_dep: "reachable env s \<Longrightarrow> all \<longrightarrow> files_lex env \<Longrightarrow> dep_inv all (fst s) (snd s)"
  using dependency.holds_when_reachable by blast

section \<open>Properties of the threads together\<close>

lemma ready_index_signaled: "ready_index (c\<lparr>is_signaled := b\<rparr>) = ready_index c"
  by (simp add: ready_index_def task_ready_def cong: option.case_cong)

lemma leaving_step:
  assumes "control_inv c ths" and "dep_inv True c ths" and "i < length ths" and "ths ! i = Entered"
    and "count_exit (take_task c) = (c', Exited b)"
  shows "b \<and> comp_tasks c' = [] \<and> workers ths = 0"
proof -
  have idle: "ready_index c = None" "threads_processing c = 0"
      "b = (comp_tasks c = [])" "comp_tasks c' = comp_tasks c"
    using assms(5) ready_index_signaled [of False c]
    by (auto simp: take_task_def count_exit_def Let_def split: option.splits if_splits)
  have w: "workers ths = 0" using assms(1) idle(2) by (simp add: control_inv_def)
  have "lex_of th = None \<and> link_of th = None" if "th \<in> set ths" for th
    using w that by (cases th) (auto simp: workers_none)
  then have "comp_tasks c = []" using some_task_ready [OF assms(2)] idle(1) by blast
  then show ?thesis using idle w by simp
qed

definition left_done :: "Compiler \<Rightarrow> Thread list \<Rightarrow> bool" where
  "left_done c ths \<longleftrightarrow>
    (\<forall>b. Exited b \<in> set ths \<longrightarrow> b \<and> comp_tasks c = [] \<and> workers ths = 0)"

lemma left_step:
  assumes inv: "control_inv c ths" "dep_inv True c ths" "left_done c ths"
    and step: "sys_step env (c, ths) (c', ths')"
  shows "left_done c' ths'"
  using step
proof (cases rule: sys_step.cases)
  case (step_thread i th)
  note st = step_thread
  have w: "int (workers (ths[i := th])) =
      int (workers ths) - (if working (ths ! i) then 1 else 0) + (if working th then 1 else 0)"
    by (rule workers_update [OF st(2)])
  show ?thesis
  proof (cases "\<exists>b. Exited b \<in> set ths")
    case True
    then have done': "comp_tasks c = []" "workers ths = 0" and ex: "\<And>b. Exited b \<in> set ths \<Longrightarrow> b"
      using inv(3) by (auto simp: left_done_def)
    have nw: "\<not> working (ths ! i)" using done'(2) st(2) by (simp add: workers_none)
    have "comp_tasks c' = [] \<and> \<not> working th \<and> (\<forall>b. th = Exited b \<longrightarrow> b)"
    proof (cases "ths ! i")
      case Entered
      have "threads_processing c = 0" using inv(1) done'(2) by (simp add: control_inv_def)
      then show ?thesis using st done'(1) Entered
        by (auto simp: thread_step_def take_task_def count_exit_def Let_def ready_index_def)
    qed (use st nw done'(1) in \<open>auto simp: thread_step_def\<close>)
    moreover have "workers (ths[i := th]) = 0" using w nw done'(2) calculation by simp
    moreover have "b" if "Exited b \<in> set (ths[i := th])" for b
      using that ex set_update_subset_insert [of ths i th] calculation(1) by auto
    ultimately show ?thesis unfolding left_done_def st(1) by blast
  next
    case False
    show ?thesis
    proof (cases "\<exists>b. th = Exited b")
      case True
      then obtain b where b: "th = Exited b" ..
      have e: "ths ! i = Entered"
      proof (cases "ths ! i")
        case (Busy t)
        then show ?thesis using st b working_step [OF st(4)] by auto
      next
        case (Linking t k nms)
        then show ?thesis using st b by (cases nms) (auto simp: thread_step_def)
      qed (use st b in \<open>auto simp: thread_step_def split: Option.bind_splits\<close>)
      then have "count_exit (take_task c) = (c', Exited b)" using st(4) b by (simp add: thread_step_def)
      from leaving_step [OF inv(1,2) st(2) e this] have d: "b" "comp_tasks c' = []" "workers ths = 0" by auto
      moreover have "workers (ths[i := th]) = 0" using w e b d(3) by simp
      moreover have "b' = b" if "Exited b' \<in> set (ths[i := th])" for b'
        using that set_update_subset_insert [of ths i th] False b by auto
      ultimately show ?thesis unfolding left_done_def st(1) by blast
    next
      case False
      then have "Exited b \<notin> set (ths[i := th])" for b
        using \<open>\<nexists>b. Exited b \<in> set ths\<close> set_update_subset_insert [of ths i th] by auto
      then show ?thesis by (simp add: left_done_def st(1))
    qed
  qed
qed

interpretation leaving: thread_invariant env
  "\<lambda>c ths. files_lex env \<longrightarrow> control_inv c ths \<and> dep_inv True c ths \<and> left_done c ths" for env
proof
  fix nm c n assume "compile_init nm = Some c"
  then show "files_lex env \<longrightarrow> control_inv c (replicate n Starting) \<and> dep_inv True c (replicate n Starting)
      \<and> left_done c (replicate n Starting)"
    using control.holds_at_start dependency.holds_at_start [of _ _ True env] by (auto simp: left_done_def)
next
  fix c ths c' ths'
  assume "files_lex env \<longrightarrow> control_inv c ths \<and> dep_inv True c ths \<and> left_done c ths"
    and "sys_step env (c, ths) (c', ths')"
  then show "files_lex env \<longrightarrow> control_inv c' ths' \<and> dep_inv True c' ths' \<and> left_done c' ths'"
    using control_step dep_step left_step by blast
qed

lemma reachable_left: "reachable env s \<Longrightarrow> files_lex env \<Longrightarrow> left_done (fst s) (snd s)"
  using leaving.holds_when_reachable by blast

text \<open>A directory of empty files, and a compilation with two threads.\<close>

definition empty_files :: comp_env where
  "empty_files =
    \<lparr>ce_lex = \<lparr>env_atof = (\<lambda>s. 0), env_atoi_range = (\<lambda>s. 0), env_to_string = (\<lambda>x. [])\<rparr>,
     ce_files = (\<lambda>nm. Some []), ce_junk = 0\<rparr>"

lemma empty_files_lex: "files_lex empty_files"
  by (simp add: files_lex_def empty_files_def lex_file_def lex_loop.simps lex_init_def)

definition two_threads :: "Compiler \<times> Thread list" where
  "two_threads = (the (compile_init ''a''), [Starting, Starting])"

lemma two_threads_reachable: "reachable env two_threads"
proof -
  have "compile_init ''a'' = Some (the (compile_init ''a''))"
    by (simp add: compile_init_def ast_init_eq Let_def split_beta)
  then have "reachable env (the (compile_init ''a''), replicate 2 Starting)"
    by (rule reach_init) simp
  then show ?thesis by (simp add: two_threads_def numeral_2_eq_2)
qed

definition one_entered :: "Compiler \<times> Thread list" where
  "one_entered =
    ((the (compile_init ''a''))\<lparr>total_threads := 1, tasks_queue_lock := 0\<rparr>, [Entered, Starting])"

lemma one_entered_reachable: "reachable env one_entered"
proof -
  let ?c = "the (compile_init ''a'')"
  obtain c where c: "compile_init ''a'' = Some c"
    by (simp add: compile_init_def ast_init_eq Let_def split_beta)
  have l: "tasks_queue_lock ?c = 1" "total_threads ?c = 0" using compile_init_eq [OF c] c by simp_all
  have "sys_step env (?c, [Starting, Starting]) (?c\<lparr>total_threads := 1\<rparr>, [Starting, Starting][0 := Waiting])"
    by (rule step_thread) (simp_all add: enabled_def thread_step_def l)
  with two_threads_reachable [of env] have r: "reachable env (?c\<lparr>total_threads := 1\<rparr>, [Waiting, Starting])"
    by (auto simp: two_threads_def intro: reach_step)
  have "sys_step env (?c\<lparr>total_threads := 1\<rparr>, [Waiting, Starting])
      (?c\<lparr>total_threads := 1, tasks_queue_lock := 0\<rparr>, [Waiting, Starting][0 := Entered])"
    by (rule step_thread) (simp_all add: enabled_def thread_step_def l)
  from reach_step [OF r this] show ?thesis by (simp add: one_entered_def)
qed

text \<open>
  C11. The threads never block each other for good.  However many threads there are and whatever the
  order of their steps, in every state they can reach either all of them have left or one of
  them can go on; and \<^verbatim>\<open>threads_processing\<close> is the number of threads that hold a task.
\<close>

theorem threads_never_stuck:
  assumes "reachable env (c, ths)"
  shows "((\<forall>th\<in>set ths. \<exists>b. th = Exited b) \<or> (\<exists>th\<in>set ths. enabled c th))
    \<and> threads_processing c = int (workers ths)"
  using reachable_control [OF assms] never_stuck_inv by (simp add: control_inv_def)

theorem threads_never_stuck_witness:
  "(\<exists>th\<in>set [Starting, Starting]. enabled (fst two_threads) th)
    \<and> threads_processing (fst two_threads) = int (workers [Starting, Starting])"
  using threads_never_stuck [of empty_files "fst two_threads" "snd two_threads"]
    two_threads_reachable [of empty_files]
  by (simp add: two_threads_def enabled_def)

text \<open>
  C4. When all files can be read and lexed, imports never wait for each other in vain, also when
  they import each other: no thread ever finds tasks of which none is ready while nobody works,
  and as soon as one thread has left, no task is left and no thread holds one.
\<close>

theorem imports_never_deadlock:
  assumes "reachable env (c, ths)" and "files_lex env"
  shows "(Entered \<in> set ths \<longrightarrow> snd (take_task c) \<noteq> Exited False)
    \<and> (\<forall>b. Exited b \<in> set ths \<longrightarrow> b \<and> comp_tasks c = [] \<and> (\<forall>th\<in>set ths. \<not> working th))"
proof -
  have inv: "control_inv c ths" "dep_inv True c ths" "left_done c ths"
    using reachable_control [OF assms(1)] reachable_dep [OF assms(1), of True] reachable_left [OF assms] assms(2) by simp_all
  have "snd (take_task c) \<noteq> Exited False" if entered: "Entered \<in> set ths"
  proof
    assume e: "snd (take_task c) = Exited False"
    obtain i where i: "i < length ths" "ths ! i = Entered" using entered unfolding in_set_conv_nth by blast
    have "count_exit (take_task c) = (fst (count_exit (take_task c)), Exited False)"
      using e by (cases "take_task c") (simp add: count_exit_def)
    from leaving_step [OF inv(1,2) i this] show False by simp
  qed
  then show ?thesis using inv(3) workers_none by (auto simp: left_done_def)
qed

theorem imports_never_deadlock_witness:
  "snd (take_task (fst one_entered)) \<noteq> Exited False"
  using imports_never_deadlock [of empty_files "fst one_entered" "snd one_entered"]
    one_entered_reachable [of empty_files] empty_files_lex
  by (simp add: one_entered_def)

text \<open>
  C17. The counters of the imports are exact.  In every reachable state, also when files are missing,
  \<^verbatim>\<open>deps_count - deps_now\<close> of a file is the number of files it still waits for, and no file has
  two tasks that will parse it or one after it is parsed; when all files can be read, a file
  that is not parsed yet has exactly one.
\<close>

theorem dependencies_exact:
  assumes "reachable env (c, ths)" and "k < length (import_list c)"
  shows "deps_count (import_list c ! k) - deps_now (import_list c ! k) = int (waits (import_list c) k)
    \<and> lexers (comp_tasks c) ths k \<le> (if imp_body (import_list c ! k) = None then 1 else 0)
    \<and> (files_lex env \<and> imp_body (import_list c ! k) = None \<longrightarrow> lexers (comp_tasks c) ths k = 1)"
  using reachable_dep [OF assms(1), of "files_lex env"] assms(2) by (simp add: dep_inv_def import_ok_def)

theorem dependencies_exact_witness:
  "deps_count (import_list (fst two_threads) ! 0) = deps_now (import_list (fst two_threads) ! 0)
    \<and> lexers (comp_tasks (fst two_threads)) [Starting, Starting] 0 = 0"
proof -
  have c: "compile_init ''a'' = Some (fst two_threads)"
    by (simp add: two_threads_def compile_init_def ast_init_eq Let_def split_beta)
  have il: "import_list (fst two_threads) = [(new_import ''preload'')\<lparr>imp_body := Some 0\<rparr>]"
    using compile_init_eq [OF c] by blast
  have "waits (import_list (fst two_threads)) 0 = 0" by (simp add: il waits_def new_import_def)
  moreover have r: "reachable empty_files (fst two_threads, [Starting, Starting])"
    using two_threads_reachable [of empty_files] by (simp add: two_threads_def)
  ultimately show ?thesis using dependencies_exact [OF r, of 0] by (simp add: il)
qed

text \<open>
  C31. A file whose first token starts no declaration is reported, and then the compiler follows a
  null pointer: the parser gives no import, and the imports that wait are read from it before it
  is tested.
\<close>

theorem bad_file_is_dereferenced:
  assumes "task_type t = TASK_LEX_FILE"
    and ts: "lex_file (ce_lex env) (task_name t) (ce_files env (task_name t)) = Some ts"
    and bad: "tok_type (get_token ts 0) \<notin>
      {TOKEN_EOF, TOKEN_STRUCT, TOKEN_FUNCTION, TOKEN_GLOBAL, TOKEN_CONST, TOKEN_IMPORT}"
    and room: "length (scopes (comp_ast c)) < scopes_max"
  shows "(\<exists>imp ctx. ParseTokenStream (parse_fuel ts) (ce_junk env) ts
        (map_option (\<lambda>i. import_list c ! i) (task_imp t)) (comp_ast c) (comp_errors c)
        = Some (False, imp, ctx) \<and> errors ctx = comp_errors c + 1)
    \<and> thread_step env c (Busy t) = None"
proof -
  obtain s a1 where s: "createScope 0 (comp_ast c) = Some (s, a1)"
    using room by (auto simp: createScope_def Let_def)
  obtain n where fuel: "parse_fuel ts = Suc n" by (simp add: parse_fuel_def)
  have top: "top_loop (parse_fuel ts) (ce_junk env) ts imp \<lparr>head = 0, ast = a1, errors = e, current_scopeId = s\<rparr>
      = Some (False, imp, report \<lparr>head = 0, ast = a1, errors = e, current_scopeId = s\<rparr>)" for imp e
    using bad unfolding fuel by (simp add: Let_def gettok_def)
  have p: "\<exists>imp ctx. ParseTokenStream (parse_fuel ts) (ce_junk env) ts
        (map_option (\<lambda>i. import_list c ! i) (task_imp t)) (comp_ast c) (comp_errors c)
        = Some (False, imp, ctx) \<and> errors ctx = comp_errors c + 1"
    by (simp add: ParseTokenStream_def s top Let_def report_def)
  then show ?thesis
    using assms(1) ts by (auto simp: thread_step_def do_task_def do_lex_def Let_def split: prod.splits)
qed

definition one_word_files :: comp_env where
  "one_word_files = empty_files\<lparr>ce_files := (\<lambda>nm. Some (lexemes_text [LWord ''x'']))\<rparr>"

theorem bad_file_is_dereferenced_witness:
  "thread_step one_word_files (the (compile_init ''a''))
    (Busy \<lparr>task_type = TASK_LEX_FILE, task_name = ''a'', task_imp = None, no_change = False\<rparr>) = None"
proof -
  have "\<forall>x\<in>set [LWord ''x'']. lexeme_ok x" by (simp add: is_letter_def is_digit_def is_delim_def chr_defs)
  from lexemes_lexed [OF this, of "ce_lex one_word_files" "''a''"] obtain ts where
    ts: "lex_file (ce_lex one_word_files) ''a'' (Some (lexemes_text [LWord ''x''])) = Some ts"
      "map tok_type (tokens ts) = [TOKEN_ID]"
    by (auto simp: keyword_of_def keyword_kinds_def)
  have "tokens ts \<noteq> []" "tok_type (tokens ts ! 0) = TOKEN_ID" using ts(2) by auto
  then have "tok_type (get_token ts 0) = TOKEN_ID" by (simp add: get_token_def)
  moreover obtain c where c: "compile_init ''a'' = Some c"
    by (simp add: compile_init_def ast_init_eq Let_def split_beta)
  then have "length (scopes (comp_ast c)) < scopes_max"
    using compile_init_eq [OF c] by (simp add: initial_ast_def scopes_max_def)
  ultimately show ?thesis
    using bad_file_is_dereferenced [of "\<lparr>task_type = TASK_LEX_FILE, task_name = ''a'',
        task_imp = None, no_change = False\<rparr>" one_word_files ts c] ts(1) c
    by (simp add: one_word_files_def)
qed

end
