(* ===== verification/GeneratorCode.thy ===== *)
theory GeneratorCode
  imports Generator
begin

text \<open>
  The code the generator writes is well formed: whatever it is given, every piece it stores
  decodes to whole instructions, every jump that is patched is the immediate of an instruction,
  and the relocations are different immediates.  The first part is about the operations on a
  piece, the second about expressions, the third about statements and functions.
\<close>


section \<open>Operations on a piece that keep it well formed\<close>

text \<open>Relocations are different immediates of the code.\<close>

definition code_ok :: "BytecodePiece \<Rightarrow> bool" where
  "code_ok p \<longleftrightarrow>
    wf_piece p \<and> distinct (map index_of_immediate (relocations p))
    \<and> (\<forall>r\<in>set (relocations p). imm_cell (index_of_immediate r) p)"

definition keeps :: "BytecodePiece \<Rightarrow> BytecodePiece \<Rightarrow> bool" where
  "keeps p q \<longleftrightarrow>
    piece_index q = piece_index p
    \<and> (code_ok p \<longrightarrow> code_ok q \<and> (\<forall>i. imm_cell i p \<longrightarrow> imm_cell i q))"

named_theorems keeping

lemma keeps_refl [keeping]: "keeps p p"
  by (simp add: keeps_def)

lemma keeps_trans: "keeps p q \<Longrightarrow> keeps q r \<Longrightarrow> keeps p r"
  by (auto simp: keeps_def)

lemma layout_next:
  "inst_layout i xs l \<Longrightarrow> i + j \<in> set l \<Longrightarrow> has_immediate (xs ! j) \<Longrightarrow> Suc (i + j) \<notin> set l"
proof (induction arbitrary: j rule: inst_layout.induct)
  case (layout_plain x i xs l)
  show ?case
  proof (cases j)
    case 0
    then show ?thesis using layout_plain by simp
  next
    case (Suc m)
    then have "Suc i + m \<in> set l" using layout_plain.prems by auto
    from layout_plain.IH [OF this] show ?thesis using layout_plain.prems Suc by simp
  qed
next
  case (layout_imm x i xs l c)
  show ?case
  proof (cases "j = 0")
    case True
    then show ?thesis using layout_imm.hyps(2) inst_layout_range by fastforce
  next
    case False
    then have m: "i + j \<in> set l" using layout_imm.prems by auto
    then have "Suc (Suc i) \<le> i + j" using layout_imm.hyps(2) inst_layout_range by blast
    then obtain m where j: "j = Suc (Suc m)" by (metis add_2_eq_Suc le_Suc_ex add_le_cancel_left add_Suc_right add.right_neutral)
    then show ?thesis using layout_imm.IH [of m] layout_imm.prems m by auto
  qed
qed simp

lemma imm_cell_append:
  assumes "imm_cell i p" and "instructions q = instructions p @ xs"
    and "set (index_of_non_immediates p) \<subseteq> set (index_of_non_immediates q)"
  shows "imm_cell i q"
  using assms by (auto simp: imm_cell_def nth_append)

lemma imm_cell_same:
  "instructions q = instructions p \<Longrightarrow> index_of_non_immediates q = index_of_non_immediates p \<Longrightarrow>
   imm_cell i q = imm_cell i p"
  by (simp add: imm_cell_def)

lemma imm_cell_pop_last:
  assumes "wf_piece p" and "imm_cell i p" and "index_of_non_immediates p \<noteq> []"
    and "\<not> has_immediate (instructions p ! last (index_of_non_immediates p))"
  shows "imm_cell i (pop_last_inst p)"
proof -
  let ?l = "index_of_non_immediates p"
  have s: "sorted_wrt (<) ?l" "distinct ?l"
    using inst_layout_sorted assms(1) strict_sorted_iff unfolding wf_piece_def by blast+
  have l: "?l = butlast ?l @ [last ?l]" using assms(3) by simp
  have i: "i - 1 \<in> set ?l" "0 < i" "has_immediate (instructions p ! (i - 1))"
    using assms(2) by (simp_all add: imm_cell_def)
  have ne: "i - 1 \<noteq> last ?l" using i assms(4) by auto
  then have b: "i - 1 \<in> set (butlast ?l)" using i(1) l by (metis Un_iff empty_iff insert_iff set_append list.set)
  then have "i - 1 < last ?l" using s(1) by (metis l sorted_wrt_append list.set_intros(1))
  moreover have "i \<notin> set ?l"
    using layout_next [of 0 "instructions p" ?l "i - 1"] assms(1) i by (simp add: wf_piece_def)
  then have "i \<noteq> last ?l" using assms(3) by auto
  moreover have "last ?l < length (instructions p)"
    using inst_layout_range [of 0 "instructions p" ?l "last ?l"] assms(1,3) by (simp add: wf_piece_def)
  ultimately show ?thesis
    using b i assms(3) by (auto simp: imm_cell_def pop_last_inst_def)
qed

lemma imm_cell_fix:
  assumes "wf_piece p" and "imm_cell i p" and "imm_cell j p" and "fix_jump_here j p = Some q"
  shows "imm_cell i q"
proof -
  have q: "instructions q = (instructions p)[j := inst_of_cell (word_of_int (int (get_pc p) - int j))]"
      "index_of_non_immediates q = index_of_non_immediates p"
    using assms(4) by (auto simp: fix_jump_here_def set_cell_def bind_eq_Some_conv split: if_splits)
  have "j \<notin> set (index_of_non_immediates p)"
    using layout_next [of 0 "instructions p" "index_of_non_immediates p" "j - 1"] assms(1,3)
    by (simp add: wf_piece_def imm_cell_def)
  then have "i - 1 \<noteq> j" using assms(2) by (auto simp: imm_cell_def)
  then show ?thesis using assms(2) q by (simp add: imm_cell_def)
qed

lemma imm_cell_pop:
  assumes "wf_piece p" and "imm_cell i p"
  shows "imm_cell i (emit_pop r p)"
proof -
  let ?q = "p\<lparr>virtual_sp := virtual_sp p + 8\<rparr>"
  have q: "wf_piece ?q" "imm_cell i ?q" using assms by (simp_all add: imm_cell_def)
  have "\<not> has_immediate x" if "opcode x = opcode_byte INST_PUSH" for x
    using that has_immediate_inst [of INST_PUSH 0 0 0] by (simp add: has_immediate_def del: has_immediate_inst)
  then show ?thesis
    using imm_cell_pop_last [OF q] imm_cell_append [OF q(2), of "emit x ?q" for x]
    by (auto simp: emit_pop_def Let_def piece_simps)
qed

lemma emission_imm_cell: "emission p q \<Longrightarrow> wf_piece p \<Longrightarrow> imm_cell i p \<Longrightarrow> imm_cell i q"
proof (induction rule: emission.induct)
  case (em_pop p r)
  then show ?case by (rule imm_cell_pop)
next
  case (em_fix j p q)
  then show ?case by (blast intro: imm_cell_fix)
next
  case (em_reloc p f j)
  then show ?case by (simp add: addRelocation_def imm_cell_def)
next
  case (em_line p ln t)
  then show ?case by (simp add: push_line_def imm_cell_def)
qed (auto simp: emit_ops_defs Let_def imm_cell_def piece_simps nth_append)

lemma emission_index: "emission p q \<Longrightarrow> piece_index q = piece_index p"
proof (induction rule: emission.induct)
  case (em_fix i p q)
  then show ?case by (auto simp: fix_jump_here_def bind_eq_Some_conv)
qed (simp_all add: emit_ops_defs piece_simps Let_def pop_last_inst_def)

lemma emission_keeps: "emission p q \<Longrightarrow> relocations q = relocations p \<Longrightarrow> keeps p q"
  using emission_wf emission_imm_cell emission_index by (auto simp: keeps_def code_ok_def)

lemma relocations_ops:
  "relocations (emit_li r v p) = relocations p" "relocations (emit_push r p) = relocations p"
  "relocations (emit_pop r p) = relocations p" "relocations (emit_incr r v p) = relocations p"
  "relocations (emit_cast r ct p) = relocations p" "relocations (emit_mov_rr r r' p) = relocations p"
  "relocations (emit_mov_mr r r' sz p) = relocations p" "relocations (emit_mov_rm r r' sz p) = relocations p"
  "relocations (emit_mov_mr_disp r r' sz v p) = relocations p"
  "relocations (emit_mov_rm_disp r r' sz v p) = relocations p"
  "relocations (emit2 c r r' p) = relocations p" "relocations (emit2f c r r' fl p) = relocations p"
  "relocations (emit2c c r r' v fl p) = relocations p" "relocations (emit_jmp v p) = relocations p"
  "relocations (snd (emit_jmp_out p)) = relocations p" "relocations (snd (emit_jz_out r p)) = relocations p"
  "relocations (emit_dataptr r v p) = relocations p" "relocations (snd (emit_call p)) = relocations p"
  "relocations (emit_ret p) = relocations p" "relocations (emit_memzero r r' p) = relocations p"
  "relocations (push_line n txt p) = relocations p"
  by (simp_all add: emit_ops_defs piece_simps Let_def pop_last_inst_def)

lemma keeps_ops [keeping]:
  "keeps p (emit_li r v p)" "keeps p (emit_push r p)" "keeps p (emit_pop r p)"
  "keeps p (emit_incr r v p)" "keeps p (emit_cast r ct p)" "keeps p (emit_mov_rr r r' p)"
  "keeps p (emit_mov_mr r r' sz p)" "keeps p (emit_mov_rm r r' sz p)"
  "keeps p (emit_mov_mr_disp r r' sz v p)" "keeps p (emit_mov_rm_disp r r' sz v p)"
  "keeps p (emit_jmp v p)" "keeps p (snd (emit_jmp_out p))" "keeps p (snd (emit_jz_out r p))"
  "keeps p (emit_dataptr r v p)" "keeps p (snd (emit_call p))" "keeps p (emit_ret p)"
  "keeps p (emit_memzero r r' p)" "keeps p (push_line n txt p)"
  by (rule emission_keeps, rule emission.intros, simp add: relocations_ops)+

lemma keeps_operations [keeping]:
  "c < INST_LI \<Longrightarrow> keeps p (emit2 c r r' p)" "c < INST_LI \<Longrightarrow> keeps p (emit2f c r r' fl p)"
  "c < INST_LI \<Longrightarrow> keeps p (emit2c c r r' v fl p)"
  by (rule emission_keeps, erule emission.intros, simp add: relocations_ops)+

lemma keeps_fix: "imm_cell i p \<Longrightarrow> fix_jump_here i p = Some q \<Longrightarrow> keeps p q"
  by (rule emission_keeps, erule (1) emission.intros)
    (auto simp: fix_jump_here_def bind_eq_Some_conv)

text \<open>The two cells whose target is still open, and the call of a function.\<close>

lemma open_cells:
  "imm_cell (fst (emit_jmp_out p)) (snd (emit_jmp_out p))"
  "imm_cell (fst (emit_jz_out r p)) (snd (emit_jz_out r p))"
  "imm_cell (fst (emit_call p)) (snd (emit_call p))" "fst (emit_call p) = Suc (length (instructions p))"
  by (simp_all add: emit_jmp_out_def emit_jz_out_def emit_call_def Let_def imm_cell_def piece_simps
      get_pc_def nth_append)

lemma keeps_call [keeping]: "keeps p (emit_call_to f p)"
proof -
  let ?i = "fst (emit_call p)" and ?q = "snd (emit_call p)"
  have e: "emit_call_to f p = addRelocation f ?i ?q" by (simp add: emit_call_to_def split_beta)
  have same: "imm_cell j (addRelocation f ?i ?q) = imm_cell j ?q" "wf_piece (addRelocation f ?i ?q) = wf_piece ?q" for j
    by (simp_all add: addRelocation_def imm_cell_def wf_piece_def)
  have k: "keeps p ?q" by (rule keeping)
  show ?thesis
    unfolding keeps_def
  proof (intro impI conjI allI)
    show "piece_index (emit_call_to f p) = piece_index p"
      using k by (simp add: e keeps_def addRelocation_def)
  next
    assume ok: "code_ok p"
    have q: "code_ok ?q" "\<And>j. imm_cell j p \<Longrightarrow> imm_cell j ?q" using k ok by (auto simp: keeps_def)
    have "j < ?i" if "imm_cell j p" for j using that open_cells(4) by (simp add: imm_cell_def)
    then have "?i \<notin> index_of_immediate ` set (relocations p)" using ok by (force simp: code_ok_def)
    then show "code_ok (emit_call_to f p)"
      using q open_cells(3) [of p] unfolding e code_ok_def same
      by (auto simp: addRelocation_def relocations_ops imm_cell_def)
    show "imm_cell j (emit_call_to f p)" if "imm_cell j p" for j using q(2) [OF that] same by (simp add: e)
  qed
qed

lemma keeps_comp: "keeps p (f p) \<Longrightarrow> (\<And>q. keeps q (g q)) \<Longrightarrow> keeps p (g (f p))"
  by (blast intro: keeps_trans)

lemma INST_operations [simp]:
  "INST_ADD < INST_LI" "INST_SUB < INST_LI" "INST_MUL < INST_LI" "INST_DIV < INST_LI"
  "INST_AND < INST_LI" "INST_OR < INST_LI" "INST_NOT < INST_LI" "INST_EQUAL < INST_LI"
  "INST_NOT_EQUAL < INST_LI" "INST_LESS < INST_LI" "INST_GREATER < INST_LI"
  "INST_LESS_EQUAL < INST_LI" "INST_GREATER_EQUAL < INST_LI"
  by (simp_all add: less_Opcode_def)

lemma keeps_arith [keeping]:
  "keeps p (emit_add r r' fl p)" "keeps p (emit_mul r r' fl p)" "keeps p (emit_not r r' p)"
  by (simp_all add: emit_add_def emit_mul_def emit_not_def keeping)

text \<open>A chain of operations, the last one outermost.\<close>

lemmas keeps_step = keeps_ops [THEN keeps_trans [rotated]] keeps_operations [THEN keeps_trans [rotated]]
  keeps_arith [THEN keeps_trans [rotated]]

lemma keeps_values [keeping]:
  "keeps p (pop_value_at r off sz p)" "keeps p (push_value_at r off sz p)" "keeps p (cast_top c p)"
  "keeps p (load_pointer k off p)" "keeps p (index_address sz p)" "keeps p (push_constant v p)"
  "keeps p (negate_top p)" "keeps p (pop_operand r fl t p)"
  by (auto simp: pop_value_at_def push_value_at_def cast_top_def load_pointer_def index_address_def
      push_constant_def negate_top_def pop_operand_def Let_def
      intro!: keeps_step intro: keeping)

lemma keeps_address [keeping]: "keeps p (ref_address k off p)"
  unfolding ref_address_def by (auto intro!: keeps_step intro: keeping)

lemma keeps_operation [keeping]: "keeps p (emit_operation k sz fl p)"
  unfolding emit_operation_def by (cases k) (auto intro!: keeping)

lemma keeps_incdec [keeping]: "keeps p (emit_incdec k p)"
  unfolding emit_incdec_def by (cases k) (auto intro!: keeps_step intro: keeping)

lemmas keeps_chain = keeps_step keeps_values [THEN keeps_trans [rotated]]
  keeps_address [THEN keeps_trans [rotated]] keeps_operation [THEN keeps_trans [rotated]]
  keeps_incdec [THEN keeps_trans [rotated]] keeps_call [THEN keeps_trans [rotated]]

lemma keeps_pop_items: "pop_items a r items p = Some q \<Longrightarrow> keeps p q"
proof (induction rule: pop_items.raw_induct [rotated, consumes 1, case_names step])
  case (step f a r items p q)
  show ?case
  proof (cases items)
    case Nil
    then show ?thesis using step.hyps by (simp add: keeping)
  next
    case (Cons x rest)
    obtain off t where x: "x = (off, t)" by (cases x)
    consider "f a r rest p = Some q" | sz where "f a r rest (pop_value_at r off sz p) = Some q"
      | mems where "f a r (rev (member_items off mems) @ rest) p = Some q"
      using step.hyps Cons x by (auto split: if_splits Option.bind_splits option.splits)
    then show ?thesis
      by cases (auto dest: step.IH intro: keeps_trans keeping)
  qed
qed

lemma keeps_push_items: "push_items a r items p = Some q \<Longrightarrow> keeps p q"
proof (induction rule: push_items.raw_induct [rotated, consumes 1, case_names step])
  case (step f a r items p q)
  show ?case
  proof (cases items)
    case Nil
    then show ?thesis using step.hyps by (simp add: keeping)
  next
    case (Cons x rest)
    obtain off t where x: "x = (off, t)" by (cases x)
    consider sz where "f a r rest (push_value_at r off sz p) = Some q"
      | mems where "f a r (member_items off mems @ rest) p = Some q"
      using step.hyps Cons x by (auto split: if_splits Option.bind_splits option.splits)
    then show ?thesis
      by cases (auto dest: step.IH intro: keeps_trans keeping)
  qed
qed

section \<open>What the code of an expression changes\<close>

text \<open>Only the piece, the data section and the count of errors.\<close>

definition expr_post :: "GenCtx \<Rightarrow> GenCtx \<Rightarrow> bool" where
  "expr_post ctx ctx' \<longleftrightarrow>
    keeps (gx_piece ctx) (gx_piece ctx') \<and> gx_errors ctx \<le> gx_errors ctx'
    \<and> pieces (gx_bytecode ctx') = pieces (gx_bytecode ctx)
    \<and> (wf_data (gx_bytecode ctx) \<longrightarrow> wf_data (gx_bytecode ctx'))
    \<and> gx_ast ctx' = gx_ast ctx \<and> gx_function ctx' = gx_function ctx
    \<and> gx_ignore_errors ctx' = gx_ignore_errors ctx \<and> gx_stream ctx' = gx_stream ctx
    \<and> current_frameOffset ctx' = current_frameOffset ctx \<and> gx_scope ctx' = gx_scope ctx
    \<and> loopScopes ctx' = loopScopes ctx"

named_theorems expr_posts

lemma expr_post_refl [expr_posts]: "expr_post ctx ctx"
  by (simp add: expr_post_def keeping)

lemma expr_post_trans: "expr_post a b \<Longrightarrow> expr_post b c \<Longrightarrow> expr_post a c"
  unfolding expr_post_def by (auto intro: keeps_trans)

lemma expr_post_report [expr_posts]: "expr_post ctx (gen_report ctx)"
  by (simp add: expr_post_def gen_report_def keeping)

lemma expr_post_emits [expr_posts]:
  "keeps (gx_piece ctx) (f (gx_piece ctx)) \<Longrightarrow> expr_post ctx (emits f ctx)"
  by (simp add: expr_post_def emits_def)

lemma expr_post_string [expr_posts]:
  "expr_post ctx (ctx\<lparr>gx_bytecode := snd (appendString s (gx_bytecode ctx))\<rparr>)"
proof -
  have "pieces (snd (appendString s b)) = pieces b" for b
    by (simp add: appendString_def appendData_def Let_def split: option.splits)
  then show ?thesis using wf_data_appendString by (simp add: expr_post_def keeping)
qed

lemma generatePop_post: "generatePop r off t ctx = Some ctx' \<Longrightarrow> expr_post ctx ctx'"
  by (auto simp: generatePop_def expr_post_def dest: keeps_pop_items split: Option.bind_splits)

lemma generatePush_post: "generatePush r off t ctx = Some ctx' \<Longrightarrow> expr_post ctx ctx'"
  by (auto simp: generatePush_def expr_post_def dest: keeps_push_items split: Option.bind_splits)

lemma push_typed_post: "push_typed r off t u ctx = Some (v, ctx') \<Longrightarrow> expr_post ctx ctx'"
  by (auto simp: push_typed_def dest: generatePush_post split: Option.bind_splits)

text \<open>A result after some emissions.\<close>

lemma emits_then:
  "expr_post (emits f ctx) ctx' \<Longrightarrow> keeps (gx_piece ctx) (f (gx_piece ctx)) \<Longrightarrow> expr_post ctx ctx'"
  by (blast intro: expr_post_trans expr_post_emits)

lemma report_then: "expr_post (gen_report ctx) ctx' \<Longrightarrow> expr_post ctx ctx'"
  by (blast intro: expr_post_trans expr_post_report)

lemma performCast_post: "performCast l r ctx = (b, ctx') \<Longrightarrow> expr_post ctx ctx'"
  by (auto simp: performCast_def intro: expr_posts keeping split: if_splits)

lemma ref_identifier_post: "ref_identifier nm ctx = Some (r, ctx') \<Longrightarrow> expr_post ctx ctx'"
  by (auto simp: ref_identifier_def intro: expr_posts keeping
      split: Option.bind_splits option.splits IdentifierKind.splits)

lemma ref_member_post: "ref_member nm pl ctx = Some (r, ctx') \<Longrightarrow> expr_post ctx ctx'"
  by (auto simp: ref_member_def intro: expr_posts keeping
      split: Option.bind_splits option.splits prod.splits if_splits)

lemma ref_index_post: "ref_index t u ctx = Some (r, ctx') \<Longrightarrow> expr_post ctx ctx'"
  by (auto simp: ref_index_def intro!: expr_post_emits keeps_chain intro: expr_posts keeping
      split: Option.bind_splits if_splits)

lemma ref_finish_post: "ref_finish r ctx = Some (t, ctx') \<Longrightarrow> expr_post ctx ctx'"
  by (auto simp: ref_finish_def intro: expr_posts keeping split: option.splits prod.splits)

lemma gen_literal_post: "gen_literal e ctx = Some (t, ctx') \<Longrightarrow> expr_post ctx ctx'"
proof (cases e)
  case (ELitStr l s)
  assume "gen_literal e ctx = Some (t, ctx')"
  then have "ctx' = emits (emit_push REG_A \<circ> emit_dataptr REG_A (int (fst (appendString s (gx_bytecode ctx)))))
      (ctx\<lparr>gx_bytecode := snd (appendString s (gx_bytecode ctx))\<rparr>)"
    by (simp add: gen_literal_def gen_string_def ELitStr split_beta)
  then show ?thesis
    by (simp only:) (rule expr_post_trans [OF expr_post_string expr_post_emits], auto intro!: keeps_step intro: keeping)
qed (auto simp: gen_literal_def gen_sizeof_def intro: expr_posts keeping
      split: Option.bind_splits if_splits)

lemma gen_identifier_post: "gen_identifier nm ctx = Some (t, ctx') \<Longrightarrow> expr_post ctx ctx'"
  by (auto simp: gen_identifier_def gen_constant_def
      intro: expr_posts keeping emits_then dest!: push_typed_post dest: gen_literal_post
      split: Option.bind_splits option.splits IdentifierKind.splits ASTStatement.splits if_splits)

lemma check_arguments_post: "expr_post ctx (snd (check_arguments ps ts ctx))"
  by (induction ps ts ctx rule: check_arguments.induct) (auto intro: expr_posts report_then)

lemma pop_arguments_post: "pop_arguments ps diff ctx = Some ctx' \<Longrightarrow> expr_post ctx ctx'"
  by (induction ps diff ctx rule: pop_arguments.induct)
    (auto intro: expr_posts expr_post_trans dest: generatePop_post split: Option.bind_splits)

lemma gen_call_post: "gen_call f off ts ctx = Some (t, ctx') \<Longrightarrow> expr_post ctx ctx'"
proof -
  assume g: "gen_call f off ts ctx = Some (t, ctx')"
  let ?fn = "ast_functions (gx_ast ctx) ! f"
  obtain b ctx1 where ca: "check_arguments (fn_parameters ?fn) ts ctx = (b, ctx1)" by fastforce
  have p1: "expr_post ctx ctx1" using check_arguments_post [of ctx "fn_parameters ?fn" ts] ca by simp
  consider "ctx' = gen_report ctx" | "ctx' = ctx1"
    | ctx2 diff where "pop_arguments (rev (fn_parameters ?fn)) diff (emits (emit_mov_rr REG_B REG_SP) ctx1) = Some ctx2"
        "expr_post ctx2 ctx'"
  proof -
    assume r: "ctx' = gen_report ctx \<Longrightarrow> thesis" "ctx' = ctx1 \<Longrightarrow> thesis"
      "\<And>diff ctx2. pop_arguments (rev (fn_parameters ?fn)) diff (emits (emit_mov_rr REG_B REG_SP) ctx1) = Some ctx2 \<Longrightarrow>
        expr_post ctx2 ctx' \<Longrightarrow> thesis"
    show thesis
    proof (cases "length (fn_parameters ?fn) \<noteq> length ts \<or> \<not> b")
      case True
      then show ?thesis using g r(1,2) ca by (auto simp: gen_call_def Let_def split: if_splits)
    next
      case False
      let ?pa = "pop_arguments (rev (fn_parameters ?fn)) (virtual_sp (gx_piece ctx1) - off)
          (emits (emit_mov_rr REG_B REG_SP) ctx1)"
      obtain ctx2 where c2: "?pa = Some ctx2"
        using g False ca by (cases ?pa) (auto simp: gen_call_def Let_def)
      have "expr_post (emits (emit_call_to f) ctx2) ctx'"
        using g False ca c2
        by (auto simp: gen_call_def Let_def intro!: expr_post_emits keeps_chain intro: keeping
            elim!: emits_then dest!: push_typed_post split: if_splits)
      then have "expr_post ctx2 ctx'" by (rule emits_then) (rule keeping)
      then show ?thesis using r(3) c2 by blast
    qed
  qed
  then show ?thesis
  proof cases
    case 3
    from pop_arguments_post [OF 3(1)] have "expr_post ctx1 ctx2" by (rule emits_then) (rule keeping)
    then show ?thesis using p1 3(2) by (blast intro: expr_post_trans)
  qed (use p1 in \<open>auto intro: expr_posts\<close>)
qed

lemma gen_binary_post: "gen_binary k l r ctx = Some (t, ctx') \<Longrightarrow> expr_post ctx ctx'"
  by (auto simp: gen_binary_def report_operands_def Let_def
      intro!: expr_post_emits keeps_chain intro: expr_posts keeping
      split: Option.bind_splits option.splits prod.splits if_splits)

lemma gen_deref_post: "gen_deref u ctx = Some (t, ctx') \<Longrightarrow> expr_post ctx ctx'"
  by (auto simp: gen_deref_def intro: expr_posts keeping emits_then dest!: push_typed_post split: if_splits)

lemma gen_member_post: "gen_member u ctx = Some (t, ctx') \<Longrightarrow> expr_post ctx ctx'"
  by (auto simp: gen_member_def intro: expr_posts keeping emits_then dest!: push_typed_post split: if_splits)

lemma gen_index_post: "gen_index l r ctx = Some (t, ctx') \<Longrightarrow> expr_post ctx ctx'"
  by (auto simp: gen_index_def intro!: keeps_chain intro: expr_posts keeping elim!: emits_then
      dest!: push_typed_post split: Option.bind_splits if_splits)

lemma gen_cast_post: "gen_cast nm u ctx = Some (t, ctx') \<Longrightarrow> expr_post ctx ctx'"
  by (auto simp: gen_cast_def intro: expr_posts keeping split: Option.bind_splits if_splits)

lemma gen_assign_post: "gen_assign l r ctx = Some (t, ctx') \<Longrightarrow> expr_post ctx ctx'"
  by (auto simp: gen_assign_def intro: expr_posts keeping emits_then expr_post_trans
      dest!: push_typed_post generatePop_post split: Option.bind_splits if_splits)

lemma gen_incdec_post: "gen_incdec k u ctx = Some (t, ctx') \<Longrightarrow> expr_post ctx ctx'"
  by (auto simp: gen_incdec_def intro!: expr_post_emits keeps_chain intro: expr_posts keeping split: if_splits)

lemmas gen_posts =
  gen_identifier_post gen_call_post gen_binary_post gen_deref_post gen_member_post gen_index_post
  gen_cast_post gen_assign_post gen_incdec_post gen_literal_post ref_identifier_post
  ref_member_post ref_index_post ref_finish_post

lemma bind_Some_pair: "(m \<bind> (\<lambda>(x, c). k x c)) = Some r \<Longrightarrow> \<exists>x c. m = Some (x, c) \<and> k x c = Some r"
  by (cases m) auto

declare generateReference.simps [simp del] generateChain.simps [simp del]

lemma expression_post:
  "generateExpression e ctx = Some (t, ctx1) \<Longrightarrow> expr_post ctx ctx1"
  "generateReference e ctx = Some (t, ctx1) \<Longrightarrow> expr_post ctx ctx1"
  "generateChain e ctx = Some (r, ctx1) \<Longrightarrow> expr_post ctx ctx1"
  "generateArguments es ctx = Some (ts, ctx1) \<Longrightarrow> expr_post ctx ctx1"
proof (induction e ctx and e ctx and e ctx and es ctx arbitrary: t ctx1 and t ctx1 and r ctx1 and ts ctx1
    rule: generateExpression_generateReference_generateChain_generateArguments.induct)
  case (2 l nm args ctx)
  show ?case
  proof (cases "findFunction (gx_ast ctx) nm (gx_scope ctx)")
    case (Some r)
    show ?thesis
    proof (cases r)
      case None
      then show ?thesis using "2.prems" Some by (auto intro: expr_posts)
    next
      case f: (Some i)
      let ?c = "emits (emit_incr REG_SP (- parameters_size (ast_functions (gx_ast ctx) ! i))) ctx"
      obtain ts c2 where g: "generateArguments args ?c = Some (ts, c2)"
          "gen_call i (virtual_sp (gx_piece ?c)) ts c2 = Some (t, ctx1)"
        using "2.prems" Some f by (auto simp: Let_def split: Option.bind_splits)
      have "expr_post ?c c2" using "2.IH" [OF Some f refl g(1)] .
      then have "expr_post ctx c2" by (rule emits_then) (rule keeping)
      with gen_call_post [OF g(2)] show ?thesis by (blast intro: expr_post_trans)
    qed
  qed (use "2.prems" in simp)
next
  case (3 k l a b ctx)
  show ?case
  proof (cases "k = ASSIGN")
    case True
    then obtain u c1 v c2 where g: "generateExpression b ctx = Some (u, c1)"
        "generateReference a c1 = Some (v, c2)" "gen_assign v u c2 = Some (t, ctx1)"
      using "3.prems" by (auto dest!: bind_Some_pair)
    have "expr_post ctx c1" "expr_post c1 c2" using "3.IH"(1,2) True g by auto
    then show ?thesis using gen_assign_post [OF g(3)] by (blast intro: expr_post_trans)
  next
    case False
    show ?thesis
    proof (cases "arithmetic_kind k \<or> logical_kind k \<or> comparison_kind k")
      case True
      then obtain u c1 v c2 where g: "generateExpression a ctx = Some (u, c1)"
          "generateExpression b c1 = Some (v, c2)" "gen_binary k u v c2 = Some (t, ctx1)"
        using "3.prems" False by (auto dest!: bind_Some_pair)
      have "expr_post ctx c1" "expr_post c1 c2" using "3.IH"(3,4) True False g by auto
      then show ?thesis using gen_binary_post [OF g(3)] by (blast intro: expr_post_trans)
    qed (use "3.prems" False in \<open>auto intro: expr_posts\<close>)
  qed
next
  case (4 k l a ctx)
  consider "k = NOT'" | "k = REFER" | "k = DEREF" | "incdec_kind k"
    | "k \<noteq> NOT'" "k \<noteq> REFER" "k \<noteq> DEREF" "\<not> incdec_kind k" by blast
  then show ?case
  proof cases
    case 1
    then obtain u c where g: "generateExpression a ctx = Some (u, c)" "ctx1 = emits negate_top c"
      using "4.prems" by (auto dest!: bind_Some_pair)
    then have "expr_post ctx c" using "4.IH"(1) 1 by auto
    moreover have "expr_post c ctx1" unfolding g(2) by (intro expr_posts keeping)
    ultimately show ?thesis by (rule expr_post_trans)
  next
    case 2
    then show ?thesis using "4.prems" "4.IH"(2) by (auto dest!: bind_Some_pair)
  next
    case 3
    then obtain u c where g: "generateExpression a ctx = Some (u, c)" "gen_deref u c = Some (t, ctx1)"
      using "4.prems" by (auto dest!: bind_Some_pair)
    then have "expr_post ctx c" using "4.IH"(3) 3 by auto
    then show ?thesis using gen_deref_post [OF g(2)] by (rule expr_post_trans)
  next
    case 4
    then have k: "k \<noteq> NOT'" "k \<noteq> REFER" "k \<noteq> DEREF" by (auto simp: incdec_kind_def)
    then obtain u c where g: "generateReference a ctx = Some (u, c)" "gen_incdec k u c = Some (t, ctx1)"
      using "4.prems" 4 by (auto dest!: bind_Some_pair)
    then have "expr_post ctx c" using "4.IH"(4) 4 k by auto
    then show ?thesis using gen_incdec_post [OF g(2)] by (rule expr_post_trans)
  qed (use "4.prems" in \<open>auto intro: expr_posts\<close>)
next
  case (5 l a nm ctx)
  then obtain u c where g: "generateReference (EMember l a nm) ctx = Some (u, c)" "gen_member u c = Some (t, ctx1)"
    by (auto dest!: bind_Some_pair)
  show ?case using "5.IH" [OF g(1)] gen_member_post [OF g(2)] by (rule expr_post_trans)
next
  case (6 l a b ctx)
  then obtain i u c1 v c2 where g: "b = Some i" "generateExpression i ctx = Some (u, c1)"
      "generateExpression a c1 = Some (v, c2)" "gen_index v u c2 = Some (t, ctx1)"
    by (cases b) (auto dest!: bind_Some_pair)
  have "expr_post ctx c1" "expr_post c1 c2" using "6.IH" g by auto
  then show ?case using gen_index_post [OF g(4)] by (blast intro: expr_post_trans)
next
  case (7 l a ty ctx)
  then obtain u c where g: "generateExpression a ctx = Some (u, c)" "gen_cast ty u c = Some (t, ctx1)"
    by (auto dest!: bind_Some_pair)
  show ?case using "7.IH" [OF g(1)] gen_cast_post [OF g(2)] by (rule expr_post_trans)
next
  case (16 e ctx)
  show ?case
  proof (cases "\<exists>k l a. e = EUnary k l a")
    case True
    then show ?thesis using "16"
      by (auto simp: generateReference.simps intro: expr_posts split: if_splits dest!: bind_Some_pair)
  next
    case False
    then have eq: "generateReference e ctx =
        (if \<not> is_chain e then Some (void_type, gen_report ctx)
         else do { (r, ctx1) \<leftarrow> generateChain e ctx; ref_finish r ctx1 })"
      by (cases e) (simp_all add: generateReference.simps)
    have ch: "is_chain e \<Longrightarrow> generateChain e ctx = Some (r, c) \<Longrightarrow> expr_post ctx c" for r c
      using "16" False by (cases e) auto
    show ?thesis
    proof (cases "is_chain e")
      case True
      then obtain r c where g: "generateChain e ctx = Some (r, c)" "ref_finish r c = Some (t, ctx1)"
        using "16.prems" unfolding eq by (auto dest!: bind_Some_pair)
      show ?thesis using ch [OF True g(1)] ref_finish_post [OF g(2)] by (rule expr_post_trans)
    next
      case False
      then show ?thesis using "16.prems" unfolding eq by (auto intro: expr_posts)
    qed
  qed
next
  case (17 e ctx)
  note prems = "17.prems" [unfolded generateChain.simps [of e ctx]]
  show ?case
  proof (cases e)
    case (EIdentifier l nm)
    then show ?thesis using prems by (auto dest: gen_posts)
  next
    case (EMember l a nm)
    then obtain r1 c1 where g: "generateChain a ctx = Some (r1, c1)"
        "(case r1 of None \<Rightarrow> Some (None, c1) | Some pl \<Rightarrow> ref_member nm pl c1) = Some (r, ctx1)"
      using prems by (auto dest!: bind_Some_pair)
    have "expr_post ctx c1" using "17.IH"(3) [OF EMember g(1)] .
    then show ?thesis using g(2) ref_member_post
      by (cases r1) (auto intro: expr_post_trans)
  next
    case (EIndex l a b)
    obtain r1 c1 where g: "generateChain a ctx = Some (r1, c1)"
      using prems EIndex by (cases "generateChain a ctx") auto
    have p1: "expr_post ctx c1" using "17.IH"(1) [OF EIndex g] .
    show ?thesis
    proof (cases r1)
      case None
      then show ?thesis using prems EIndex g p1 by simp
    next
      case (Some pl)
      obtain k t off where pl: "pl = (k, t, off)" by (cases pl)
      show ?thesis
      proof (cases "pointer_level t = 0")
        case True
        then show ?thesis using prems EIndex g p1 Some pl
          by (auto intro: expr_post_trans expr_posts)
      next
        case False
        then obtain i where i: "b = Some i" using prems EIndex g Some pl by (cases b) auto
        let ?c = "emits (emit_push REG_B \<circ> load_pointer k off) c1"
        obtain u c2 where g2: "generateExpression i ?c = Some (u, c2)" "ref_index t u c2 = Some (r, ctx1)"
          using prems EIndex g Some pl False i by (auto dest!: bind_Some_pair)
        have "expr_post ?c c2" using "17.IH"(2) [OF EIndex g refl Some pl [symmetric] refl False i g2(1)] by simp
        then have "expr_post c1 c2" by (rule emits_then) (auto intro!: keeps_chain intro: keeping)
        then show ?thesis using p1 ref_index_post [OF g2(2)] by (blast intro: expr_post_trans)
      qed
    qed
  qed (use prems in \<open>auto intro: expr_posts\<close>)
next
  case (19 e es ctx)
  then obtain u c1 vs where g: "generateExpression e ctx = Some (u, c1)" "generateArguments es c1 = Some (vs, ctx1)"
    by (auto dest!: bind_Some_pair)
  have "expr_post ctx c1" "expr_post c1 ctx1" using "19.IH" g by auto
  then show ?case by (rule expr_post_trans)
qed (auto dest: gen_posts intro: expr_posts)


section \<open>What the code of a statement changes\<close>

definition loops_ok :: "GenCtx \<Rightarrow> bool" where
  "loops_ok ctx \<longleftrightarrow>
    (\<forall>s\<in>set (loopScopes ctx). \<forall>i\<in>set (breaks_to_resolve s). imm_cell i (gx_piece ctx))"

definition good :: "GenCtx \<Rightarrow> bool" where
  "good ctx \<longleftrightarrow> code_ok (gx_piece ctx) \<and> loops_ok ctx"

definition loop_shape :: "LoopScope \<Rightarrow> int \<times> int" where
  "loop_shape s = (continue_pc s, loop_frame_offset s)"

text \<open>
  The loops that are open stay open with their targets, unless an error was reported: a failing
  condition leaves its loop on the stack.
\<close>

definition body_post :: "GenCtx \<Rightarrow> GenCtx \<Rightarrow> bool" where
  "body_post ctx ctx' \<longleftrightarrow>
    (good ctx \<longrightarrow> good ctx' \<and> (\<forall>i. imm_cell i (gx_piece ctx) \<longrightarrow> imm_cell i (gx_piece ctx')))
    \<and> piece_index (gx_piece ctx') = piece_index (gx_piece ctx)
    \<and> gx_errors ctx \<le> gx_errors ctx' \<and> pieces (gx_bytecode ctx') = pieces (gx_bytecode ctx)
    \<and> (wf_data (gx_bytecode ctx) \<longrightarrow> wf_data (gx_bytecode ctx'))
    \<and> gx_function ctx' = gx_function ctx
    \<and> length (loopScopes ctx) \<le> length (loopScopes ctx')
    \<and> (gx_errors ctx' = gx_errors ctx \<longrightarrow>
         map loop_shape (loopScopes ctx') = map loop_shape (loopScopes ctx))"

lemma body_post_refl: "body_post ctx ctx"
  by (simp add: body_post_def)

lemma body_post_trans:
  assumes ab: "body_post a b" and bc: "body_post b c"
  shows "body_post a c"
proof -
  have e: "gx_errors a \<le> gx_errors b" "gx_errors b \<le> gx_errors c"
    using ab bc by (simp_all add: body_post_def)
  have g: "good a \<Longrightarrow> good c \<and> (\<forall>i. imm_cell i (gx_piece a) \<longrightarrow> imm_cell i (gx_piece c))"
    using ab bc by (simp add: body_post_def)
  have s: "gx_errors c = gx_errors a \<Longrightarrow> map loop_shape (loopScopes c) = map loop_shape (loopScopes a)"
    using ab bc e by (simp add: body_post_def)
  have w: "wf_data (gx_bytecode a) \<Longrightarrow> wf_data (gx_bytecode c)" using ab bc by (simp add: body_post_def)
  have l: "length (loopScopes a) \<le> length (loopScopes c)"
    using ab bc by (auto simp: body_post_def)
  have r: "piece_index (gx_piece c) = piece_index (gx_piece a)"
    "pieces (gx_bytecode c) = pieces (gx_bytecode a)" "gx_function c = gx_function a"
    using ab bc by (simp_all add: body_post_def)
  show ?thesis unfolding body_post_def using e g s w l r by simp
qed

lemma expr_body_post: "expr_post ctx ctx' \<Longrightarrow> body_post ctx ctx'"
  by (auto simp: expr_post_def body_post_def keeps_def good_def loops_ok_def)

lemma body_post_report: "body_post ctx (gen_report ctx)"
  by (rule expr_body_post) (rule expr_posts)

lemma body_post_emits: "keeps (gx_piece ctx) (f (gx_piece ctx)) \<Longrightarrow> body_post ctx (emits f ctx)"
  by (rule expr_body_post) (rule expr_posts)

text \<open>Fields the code does not depend on.\<close>

lemma body_post_fields:
  "body_post ctx (ctx\<lparr>gx_ast := a\<rparr>)" "body_post ctx (ctx\<lparr>current_frameOffset := n\<rparr>)"
  "body_post ctx (ctx\<lparr>gx_scope := s\<rparr>)"
  "body_post ctx (ctx\<lparr>gx_bytecode := snd (appendData k None (gx_bytecode ctx)), gx_ast := a\<rparr>)"
proof -
  have "wf_data (snd (appendData k None b))" if "wf_data b" for b
    using wf_data_appendData [OF that, of None "[]" k] by simp
  then show "body_post ctx (ctx\<lparr>gx_bytecode := snd (appendData k None (gx_bytecode ctx)), gx_ast := a\<rparr>)"
    by (simp add: body_post_def good_def loops_ok_def)
qed (simp_all add: body_post_def good_def loops_ok_def)

lemma body_post_after_fields:
  "body_post (ctx\<lparr>gx_ast := a\<rparr>) ctx' \<Longrightarrow> body_post ctx ctx'"
  "body_post (ctx\<lparr>current_frameOffset := n\<rparr>) ctx' \<Longrightarrow> body_post ctx ctx'"
  "body_post (ctx\<lparr>gx_scope := s\<rparr>) ctx' \<Longrightarrow> body_post ctx ctx'"
  using body_post_fields body_post_trans by blast+

lemma body_post_then_fields:
  "body_post ctx ctx' \<Longrightarrow> body_post ctx (ctx'\<lparr>gx_ast := a\<rparr>)"
  "body_post ctx ctx' \<Longrightarrow> body_post ctx (ctx'\<lparr>current_frameOffset := n\<rparr>)"
  "body_post ctx ctx' \<Longrightarrow> body_post ctx (ctx'\<lparr>gx_scope := s\<rparr>)"
  "body_post ctx ctx' \<Longrightarrow> body_post ctx (gen_report ctx')"
  using body_post_fields body_post_report body_post_trans by blast+

lemma body_post_emits_then: "body_post (emits f ctx) ctx' \<Longrightarrow> keeps (gx_piece ctx) (f (gx_piece ctx)) \<Longrightarrow> body_post ctx ctx'"
  by (blast intro: body_post_trans body_post_emits)

lemma body_post_then_emits: "body_post ctx ctx' \<Longrightarrow> keeps (gx_piece ctx') (f (gx_piece ctx')) \<Longrightarrow> body_post ctx (emits f ctx')"
  by (blast intro: body_post_trans body_post_emits)

lemma free_locals_post: "body_post ctx (free_locals prev ctx)"
  by (auto simp: free_locals_def intro!: body_post_then_fields body_post_emits intro: keeping body_post_refl)

lemma debug_line_post: "debug_line env l ctx = Some ctx' \<Longrightarrow> body_post ctx ctx'"
  by (auto simp: debug_line_def intro: body_post_emits keeping split: Option.bind_splits)

lemma gen_expression_stmt_post: "gen_expression_stmt e ctx = Some (fl, ctx') \<Longrightarrow> body_post ctx ctx'"
proof -
  assume g: "gen_expression_stmt e ctx = Some (fl, ctx')"
  then obtain t c1 where e: "generateExpression e ctx = Some (t, c1)" "generatePop REG_INVALID 0 t c1 = Some ctx'"
    by (auto simp: gen_expression_stmt_def dest!: bind_Some_pair split: Option.bind_splits)
  show ?thesis
    by (rule expr_body_post, rule expr_post_trans [OF expression_post(1) [OF e(1)] generatePop_post [OF e(2)]])
qed

lemma gen_global_post: "gen_global nm ty ctx = Some (fl, ctx') \<Longrightarrow> body_post ctx ctx'"
  by (auto simp: gen_global_def Let_def split_beta
      intro: body_post_report body_post_fields body_post_then_fields
      split: Option.bind_splits if_splits)

lemma gen_const_post: "gen_const st nm ty ctx = Some (fl, ctx') \<Longrightarrow> body_post ctx ctx'"
proof -
  assume g: "gen_const st nm ty ctx = Some (fl, ctx')"
  have "ctx' = gen_report ctx \<or> (\<exists>a. ctx' = gen_report (ctx\<lparr>gx_ast := a\<rparr>)) \<or> (\<exists>a. ctx' = ctx\<lparr>gx_ast := a\<rparr>)"
    using g unfolding gen_const_def
    by (cases "convertFullType (gx_ast ctx) ty (gx_scope ctx)") (auto dest!: bind_Some_pair split: if_splits)
  then show ?thesis using body_post_report body_post_fields(1) body_post_then_fields(4) by blast
qed

lemma init_local_post: "init_local off t e ctx = Some (fl, ctx') \<Longrightarrow> body_post ctx ctx'"
proof (cases e)
  case None
  assume "init_local off t e ctx = Some (fl, ctx')"
  then show ?thesis using None
    by (auto simp: init_local_def intro!: body_post_emits keeps_chain intro: keeping
        split: Option.bind_splits)
next
  case (Some e')
  assume i: "init_local off t e ctx = Some (fl, ctx')"
  obtain t' c1 where g: "generateExpression e' ctx = Some (t', c1)"
    using i Some by (cases "generateExpression e' ctx") (auto simp: init_local_def)
  obtain b c2 where c: "performCast t' t c1 = (b, c2)" by fastforce
  have "ctx' = c1 \<or> ctx' = gen_report c2 \<or> generatePop REG_BP off t c2 = Some ctx'"
    using i Some g c by (auto simp: init_local_def split: if_splits bool.splits Option.bind_splits)
  moreover have "body_post ctx c1" "body_post c1 c2"
    using expression_post(1) [OF g] performCast_post [OF c] by (blast intro: expr_body_post)+
  ultimately show ?thesis
    using body_post_report generatePop_post by (blast intro: body_post_trans expr_body_post)
qed


lemma gen_var_post: "gen_var nm ty e ctx = Some (fl, ctx') \<Longrightarrow> body_post ctx ctx'"
proof -
  assume g: "gen_var nm ty e ctx = Some (fl, ctx')"
  obtain t where t: "convertFullType (gx_ast ctx) ty (gx_scope ctx) = Some t"
    using g by (cases "convertFullType (gx_ast ctx) ty (gx_scope ctx)") (auto simp: gen_var_def)
  show ?thesis
  proof (cases "valid_type t")
    case False
    then show ?thesis using g t by (auto simp: gen_var_def intro: body_post_report)
  next
    case True
    obtain s0 where s0: "sizeOfType (gx_ast ctx) t = Some s0"
      using g t True by (cases "sizeOfType (gx_ast ctx) t") (auto simp: gen_var_def)
    let ?c1 = "(emits (emit_incr REG_SP (- align_up 8 s0)) ctx)
      \<lparr>current_frameOffset := current_frameOffset ctx - align_up 8 s0\<rparr>"
    have p1: "body_post ctx ?c1" by (rule body_post_then_fields, rule body_post_emits) (rule keeping)
    obtain v a where v: "addVariable LOCAL_ID nm (gx_scope ?c1) t (current_frameOffset ?c1) (gx_ast ?c1) = Some (v, a)"
        "(case v of None \<Rightarrow> Some (Proceed, gen_report (?c1\<lparr>gx_ast := a\<rparr>))
          | Some i \<Rightarrow> init_local (id_offset i) (id_type i) e (?c1\<lparr>gx_ast := a\<rparr>)) = Some (fl, ctx')"
      using g t True s0 by (auto simp: gen_var_def Let_def dest!: bind_Some_pair)
    have "body_post (?c1\<lparr>gx_ast := a\<rparr>) ctx'"
      using v(2) init_local_post body_post_report by (cases v) auto
    then show ?thesis using p1 body_post_after_fields(1) body_post_trans by blast
  qed
qed

lemma open_imm_cell_emits:
  "(i, q) = emit_jz_out r p \<Longrightarrow> imm_cell i q \<and> keeps p q"
  "(i, q) = emit_jmp_out p \<Longrightarrow> imm_cell i q \<and> keeps p q"
  by (metis fst_conv snd_conv open_cells(2) keeping, metis fst_conv snd_conv open_cells(1) keeping)

lemma body_post_piece: "keeps (gx_piece ctx) q \<Longrightarrow> body_post ctx (ctx\<lparr>gx_piece := q\<rparr>)"
  using body_post_emits [of ctx "\<lambda>_. q"] by (simp add: emits_def)

lemma gen_condition_post:
  assumes "gen_condition e ctx = Some (i, ctx')"
  shows "body_post ctx ctx' \<and> (\<forall>j. i = Some j \<longrightarrow> imm_cell j (gx_piece ctx'))
    \<and> (i = None \<longrightarrow> gx_errors ctx < gx_errors ctx')"
proof -
  obtain t c1 where e: "generateExpression e ctx = Some (t, c1)"
      "(case performCast t (prim TYPE_BOOL) c1 of
        (False, ctx2) \<Rightarrow> (None, gen_report ctx2)
      | (True, ctx2) \<Rightarrow>
          let (i, p) = emit_jz_out REG_A (emit_pop REG_A (gx_piece ctx2)) in
          (Some i, ctx2\<lparr>gx_piece := p\<rparr>)) = (i, ctx')"
    using assms unfolding gen_condition_def by (auto dest!: bind_Some_pair)
  obtain b c2 where c: "performCast t (prim TYPE_BOOL) c1 = (b, c2)" by fastforce
  have p: "body_post ctx c2"
    using expr_post_trans [OF expression_post(1) [OF e(1)] performCast_post [OF c]] by (rule expr_body_post)
  show ?thesis
  proof (cases b)
    case False
    then have "i = None" "ctx' = gen_report c2" using e(2) c by auto
    then show ?thesis using p body_post_then_fields(4) [OF p] by (auto simp: gen_report_def body_post_def)
  next
    case True
    obtain j q where j: "(j, q) = emit_jz_out REG_A (emit_pop REG_A (gx_piece c2))" by (metis surj_pair)
    then have i: "i = Some j" "ctx' = c2\<lparr>gx_piece := q\<rparr>" using e(2) c True by (auto simp: Let_def split: prod.splits)
    have "imm_cell j q" "keeps (gx_piece c2) q"
      using open_imm_cell_emits(1) [OF j] keeps_trans keeps_ops(3) by blast+
    then show ?thesis using i body_post_trans [OF p body_post_piece] by simp
  qed
qed

lemma unwind_post: "body_post ctx (unwind n ctx)" and unwind_loops: "loopScopes (unwind n ctx) = loopScopes ctx"
  by (auto simp: unwind_def intro: body_post_emits keeping body_post_refl, simp add: emits_def)

lemma gen_continue_post: "gen_continue prev ctx = Some (fl, ctx') \<Longrightarrow> body_post ctx ctx'"
  by (auto simp: gen_continue_def Let_def intro: body_post_report body_post_then_fields body_post_then_emits
      unwind_post keeping split: if_splits)

lemma add_break_post:
  assumes "imm_cell i (gx_piece ctx)" and ne: "loopScopes ctx \<noteq> []"
  shows "body_post ctx (add_break i ctx)"
proof -
  have "last (loopScopes ctx) \<in> set (loopScopes ctx)" using ne by simp
  then have "loops_ok ctx \<Longrightarrow> loops_ok (add_break i ctx)"
    using assms(1) in_set_butlastD by (fastforce simp: loops_ok_def add_break_def Let_def)
  moreover have "map loop_shape (loopScopes (add_break i ctx)) = map loop_shape (loopScopes ctx)"
    using ne by (cases "loopScopes ctx" rule: rev_cases) (simp_all add: add_break_def Let_def loop_shape_def)
  moreover from this have "length (loopScopes (add_break i ctx)) = length (loopScopes ctx)"
    by (metis length_map)
  ultimately show ?thesis
    by (simp add: body_post_def good_def) (simp add: add_break_def Let_def)
qed

lemma gen_break_post: "gen_break prev ctx = Some (fl, ctx') \<Longrightarrow> body_post ctx ctx'"
proof (cases "loopScopes ctx = []")
  case True
  assume "gen_break prev ctx = Some (fl, ctx')"
  then show ?thesis using True by (auto simp: gen_break_def intro: body_post_report)
next
  case False
  assume g: "gen_break prev ctx = Some (fl, ctx')"
  let ?c = "unwind (loop_frame_offset (last (loopScopes ctx))) ctx"
  obtain i q where i: "(i, q) = emit_jmp_out (gx_piece ?c)" by (metis surj_pair)
  then have c': "ctx' = (add_break i (?c\<lparr>gx_piece := q\<rparr>))\<lparr>current_frameOffset := prev\<rparr>"
    using g False by (auto simp: gen_break_def Let_def split: prod.splits)
  have "body_post (?c\<lparr>gx_piece := q\<rparr>) (add_break i (?c\<lparr>gx_piece := q\<rparr>))"
    using open_imm_cell_emits(2) [OF i] False unwind_loops by (intro add_break_post) auto
  moreover have "body_post ?c (?c\<lparr>gx_piece := q\<rparr>)"
    using open_imm_cell_emits(2) [OF i] by (intro body_post_piece) simp
  ultimately show ?thesis unfolding c' using unwind_post body_post_trans body_post_then_fields(2) by blast
qed

lemma leave_function_post: "body_post ctx (leave_function ctx)"
  unfolding leave_function_def
  by (rule body_post_then_emits) (auto intro: body_post_emits keeping body_post_refl)

lemma gen_return_post: "gen_return prev e ctx = Some (fl, ctx') \<Longrightarrow> body_post ctx ctx'"
proof (cases e)
  case None
  assume "gen_return prev e ctx = Some (fl, ctx')"
  then show ?thesis using None by (auto simp: gen_return_def intro: body_post_then_fields leave_function_post)
next
  case (Some e')
  assume g: "gen_return prev e ctx = Some (fl, ctx')"
  show ?thesis
  proof (cases "valid_type (return_type (fun_of ctx))")
    case False
    then show ?thesis using g Some by (auto simp: gen_return_def intro: body_post_report)
  next
    case True
    obtain t c1 where e: "generateExpression e' ctx = Some (t, c1)"
      using g Some True by (cases "generateExpression e' ctx") (auto simp: gen_return_def)
    obtain b c2 where c: "performCast t (return_type (fun_of c1)) c1 = (b, c2)" by fastforce
    have p: "body_post ctx c2"
      using expr_post_trans [OF expression_post(1) [OF e] performCast_post [OF c]] by (rule expr_body_post)
    show ?thesis
    proof (cases b)
      case False
      then show ?thesis using g Some True e c p body_post_then_fields(4) by (auto simp: gen_return_def)
    next
      case b: True
      obtain c3 where c3: "generatePop REG_BP (return_offset (fun_of c2)) t c2 = Some c3"
          "ctx' = (leave_function c3)\<lparr>current_frameOffset := prev\<rparr>"
        using g Some True e c b by (auto simp: gen_return_def split: Option.bind_splits)
      then show ?thesis
        using p body_post_then_fields(2) leave_function_post body_post_trans expr_body_post generatePop_post by metis
    qed
  qed
qed


text \<open>A jump is closed only at a cell that is an immediate.\<close>

lemma gen_fix_jump_post:
  assumes "gen_fix_jump i ctx = Some ctx'" and "imm_cell i (gx_piece ctx)"
  shows "body_post ctx ctx'" and "loopScopes ctx' = loopScopes ctx"
proof -
  obtain q where q: "fix_jump_here i (gx_piece ctx) = Some q" "ctx' = ctx\<lparr>gx_piece := q\<rparr>"
    using assms(1) by (auto simp: gen_fix_jump_def split: Option.bind_splits)
  show "body_post ctx ctx'" using keeps_fix [OF assms(2) q(1)] q(2) body_post_piece by simp
  show "loopScopes ctx' = loopScopes ctx" using q(2) by simp
qed

lemma fix_breaks_post:
  "fix_breaks is ctx = Some ctx' \<Longrightarrow> good ctx \<Longrightarrow> \<forall>i\<in>set is. imm_cell i (gx_piece ctx) \<Longrightarrow>
   body_post ctx ctx' \<and> loopScopes ctx' = loopScopes ctx"
proof (induction "is" arbitrary: ctx)
  case (Cons i "is")
  obtain c1 where c1: "gen_fix_jump i ctx = Some c1" "fix_breaks is c1 = Some ctx'"
    using Cons.prems(1) by (cases "gen_fix_jump i ctx") auto
  have f: "body_post ctx c1" "loopScopes c1 = loopScopes ctx"
    using gen_fix_jump_post [OF c1(1)] Cons.prems(3) by auto
  then have "good c1" "\<forall>i\<in>set is. imm_cell i (gx_piece c1)"
    using Cons.prems(2,3) by (auto simp: body_post_def)
  then show ?case using Cons.IH [OF c1(2)] f body_post_trans by metis
qed (simp add: body_post_refl)

text \<open>
  What is known of the code from a state in which it is well formed; the cells of jumps still
  open are among the immediates that are kept.
\<close>

definition good_post :: "GenCtx \<Rightarrow> GenCtx \<Rightarrow> bool" where
  "good_post ctx ctx' \<longleftrightarrow> good ctx \<longrightarrow> body_post ctx ctx'"

lemma good_post_trans: "good_post a b \<Longrightarrow> good_post b c \<Longrightarrow> good_post a c"
  unfolding good_post_def using body_post_trans by (metis body_post_def)

lemma body_good_post: "body_post a b \<Longrightarrow> good_post a b"
  by (simp add: good_post_def)

lemma good_post_after_scope: "good_post (ctx\<lparr>gx_scope := s\<rparr>) ctx' \<Longrightarrow> good_post ctx ctx'"
  using good_post_trans body_good_post body_post_fields(3) by blast

lemma good_pushLoop: "good ctx \<Longrightarrow> good (pushLoop pc off ctx)"
  by (auto simp: good_def loops_ok_def pushLoop_def)

lemma while_post:
  assumes c: "gen_condition c (pushLoop pc off ctx) = Some (Some r, ctx1)"
    and b: "good_post ctx1 ctx2"
    and f: "gen_fix_jump r (emits (emit_jmp pc') ctx2) = Some ctx3"
    and x: "fix_breaks (breaks_to_resolve (loopScopes ctx3 ! length (loopScopes ctx))) ctx3 = Some ctx4"
  shows "good_post ctx (popLoop ctx4)"
  unfolding good_post_def
proof
  assume g: "good ctx"
  let ?p = "pushLoop pc off ctx"
  have gp: "good ?p" using g by (rule good_pushLoop)
  have k: "body_post ?p ctx1" "imm_cell r (gx_piece ctx1)" using gen_condition_post [OF c] by auto
  then have b2: "body_post ctx1 ctx2" using b gp by (simp add: good_post_def body_post_def)
  have b3: "body_post ctx2 (emits (emit_jmp pc') ctx2)" by (rule body_post_emits) (rule keeping)
  have p3: "body_post ?p (emits (emit_jmp pc') ctx2)" using k(1) b2 b3 body_post_trans by blast
  have "good ctx1" using k(1) gp by (simp add: body_post_def)
  then have "imm_cell r (gx_piece (emits (emit_jmp pc') ctx2))"
    using body_post_trans [OF b2 b3] k(2) by (simp add: body_post_def)
  then have f3: "body_post (emits (emit_jmp pc') ctx2) ctx3" "loopScopes ctx3 = loopScopes (emits (emit_jmp pc') ctx2)"
    using gen_fix_jump_post [OF f] by auto
  have q3: "body_post ?p ctx3" using p3 f3(1) body_post_trans by blast
  have g3: "good ctx3" using q3 gp by (simp add: body_post_def)
  have len: "length (loopScopes ctx) < length (loopScopes ctx3)"
    using q3 by (auto simp: body_post_def pushLoop_def)
  then have "loopScopes ctx3 ! length (loopScopes ctx) \<in> set (loopScopes ctx3)" by simp
  then have "\<forall>i\<in>set (breaks_to_resolve (loopScopes ctx3 ! length (loopScopes ctx))). imm_cell i (gx_piece ctx3)"
    using g3 by (auto simp: good_def loops_ok_def)
  then have x4: "body_post ctx3 ctx4" "loopScopes ctx4 = loopScopes ctx3"
    using fix_breaks_post [OF x g3] by auto
  have q4: "body_post ?p ctx4" using q3 x4(1) body_post_trans by blast
  have g4: "good (popLoop ctx4)"
    using q4 gp in_set_butlastD by (fastforce simp: body_post_def good_def loops_ok_def popLoop_def)
  have l4: "length (loopScopes ctx) \<le> length (loopScopes (popLoop ctx4))"
    using len x4(2) by (simp add: popLoop_def)
  have s4: "map loop_shape (loopScopes (popLoop ctx4)) = map loop_shape (loopScopes ctx)"
    if "gx_errors ctx4 = gx_errors ctx"
  proof -
    have "map loop_shape (loopScopes ctx4) = map loop_shape (loopScopes ?p)"
      using q4 that by (simp add: body_post_def pushLoop_def)
    then show ?thesis by (simp add: popLoop_def pushLoop_def map_butlast)
  qed
  show "body_post ctx (popLoop ctx4)"
    using q4 gp g4 l4 s4 unfolding body_post_def by (simp add: pushLoop_def popLoop_def)
qed

lemma while_failed_post:
  assumes c: "gen_condition c (pushLoop pc off ctx) = Some (None, ctx1)"
  shows "good_post ctx ctx1"
  unfolding good_post_def
proof
  assume g: "good ctx"
  have "body_post (pushLoop pc off ctx) ctx1" "gx_errors (pushLoop pc off ctx) < gx_errors ctx1"
    using gen_condition_post [OF c] by simp_all
  then show "body_post ctx ctx1"
    using good_pushLoop [OF g] unfolding body_post_def by (simp add: pushLoop_def)
qed

lemma if_post:
  assumes c: "gen_condition c ctx = Some (Some r, ctx1)" and b: "good_post ctx1 ctx2"
    and f: "gen_fix_jump r ctx2 = Some ctx3"
  shows "good_post ctx ctx3"
  unfolding good_post_def
proof
  assume g: "good ctx"
  have k: "body_post ctx ctx1" "imm_cell r (gx_piece ctx1)" using gen_condition_post [OF c] by auto
  then have g1: "good ctx1" and b2: "body_post ctx1 ctx2" using b g by (simp_all add: good_post_def body_post_def)
  have "imm_cell r (gx_piece ctx2)" using g1 b2 k(2) by (simp add: body_post_def)
  then show "body_post ctx ctx3" using gen_fix_jump_post(1) [OF f] k(1) b2 body_post_trans by blast
qed

lemma else_post:
  assumes c: "gen_condition c ctx = Some (Some r, ctx1)" and b: "good_post ctx1 ctx2"
    and j: "(n, q) = emit_jmp_out (gx_piece ctx2)"
    and f: "gen_fix_jump r (ctx2\<lparr>gx_piece := q\<rparr>) = Some ctx3"
    and e: "good_post ctx3 ctx4" and f': "gen_fix_jump n ctx4 = Some ctx5"
  shows "good_post ctx ctx5"
  unfolding good_post_def
proof
  assume g: "good ctx"
  have k: "body_post ctx ctx1" "imm_cell r (gx_piece ctx1)" using gen_condition_post [OF c] by auto
  have g1: "good ctx1" and b2: "body_post ctx1 ctx2" using k b g by (simp_all add: good_post_def body_post_def)
  have g2: "good ctx2" using g1 b2 by (simp add: body_post_def)
  let ?q = "ctx2\<lparr>gx_piece := q\<rparr>"
  have bq: "body_post ctx2 ?q" and n: "imm_cell n q"
    using open_imm_cell_emits(2) [OF j] body_post_piece by auto
  have gq: "good ?q" using g2 bq by (simp add: body_post_def)
  have "imm_cell r (gx_piece ctx2)" using g1 b2 k(2) by (simp add: body_post_def)
  then have "imm_cell r (gx_piece ?q)" using g2 bq by (simp add: body_post_def)
  then have b3: "body_post ?q ctx3" by (rule gen_fix_jump_post(1) [OF f])
  have g3: "good ctx3" using b3 gq by (simp add: body_post_def)
  have n3: "imm_cell n (gx_piece ctx3)" using b3 gq n by (simp add: body_post_def)
  have b4: "body_post ctx3 ctx4" using e g3 by (simp add: good_post_def)
  have "imm_cell n (gx_piece ctx4)" using b4 g3 n3 by (simp add: body_post_def)
  then have "body_post ctx4 ctx5" by (rule gen_fix_jump_post(1) [OF f'])
  then show "body_post ctx ctx5" using k(1) b2 bq b3 b4 body_post_trans by blast
qed

lemma statement_post:
  "generateBody env body ctx = Some (ok, ctx') \<Longrightarrow> good_post ctx ctx'"
  "generateStatements env prev ss ctx = Some (ok, ctx') \<Longrightarrow> good_post ctx ctx'"
  "generateStatement env prev st ctx = Some (fl, ctx') \<Longrightarrow> good_post ctx ctx'"
proof (induction env body ctx and env prev ss ctx and env prev st ctx
    arbitrary: ok ctx' and ok ctx' and fl ctx'
    rule: generateBody_generateStatements_generateStatement.induct)
  case (1 env s stmts ctx)
  then obtain c1 where c: "generateStatements env (current_frameOffset ctx) stmts (ctx\<lparr>gx_scope := s\<rparr>) = Some (ok, c1)"
      "ctx' = c1\<lparr>gx_scope := gx_scope ctx\<rparr>"
    by (auto dest!: bind_Some_pair)
  have "good_post ctx c1" using "1.IH" [OF c(1)] by (rule good_post_after_scope)
  then show ?case unfolding c(2) using good_post_trans body_good_post body_post_fields(3) by blast
next
  case (2 env prev ctx)
  then show ?case by (auto intro: body_good_post free_locals_post)
next
  case (3 env prev stmt rest ctx)
  obtain c1 where c1: "debug_line env (stmt_location stmt) ctx = Some c1"
    using "3.prems" by (cases "debug_line env (stmt_location stmt) ctx") auto
  obtain flow c2 where c2: "generateStatement env prev stmt c1 = Some (flow, c2)"
      "(case flow of
          Proceed \<Rightarrow> generateStatements env prev rest c2
        | Halt \<Rightarrow> Some (True, free_locals prev c2)
        | Leave b \<Rightarrow> Some (b, c2)) = Some (ok, ctx')"
    using "3.prems" c1 by (auto dest!: bind_Some_pair)
  have p: "good_post ctx c2"
    using "3.IH"(1) [OF c1 c2(1)] debug_line_post [OF c1] body_good_post good_post_trans by blast
  have "good_post c2 ctx'"
    using c2(2) "3.IH"(2) [OF c1 c2(1) refl] body_good_post free_locals_post body_post_refl
    by (cases flow) auto
  with p show ?case by (rule good_post_trans)
next
  case (11 env prev l c body ctx)
  let ?pc = "int (get_pc (gx_piece ctx))"
  obtain i c1 where c1: "gen_condition c (pushLoop ?pc (current_frameOffset ctx) ctx) = Some (i, c1)"
    using "11.prems" by (cases "gen_condition c (pushLoop ?pc (current_frameOffset ctx) ctx)") (auto simp: Let_def)
  show ?case
  proof (cases i)
    case None
    then have "ctx' = c1" using "11.prems" c1 by (simp add: Let_def)
    then show ?thesis using while_failed_post c1 None by blast
  next
    case (Some r)
    obtain b c2 c3 c4 where g: "generateBody env body c1 = Some (b, c2)"
        "gen_fix_jump r (emits (emit_jmp ?pc) c2) = Some c3"
        "fix_breaks (breaks_to_resolve (loopScopes c3 ! length (loopScopes ctx))) c3 = Some c4"
        "ctx' = popLoop c4"
      using "11.prems" c1 Some by (auto simp: Let_def split: Option.bind_splits)
    have "good_post c1 c2" using "11.IH" [OF refl refl c1 refl Some g(1)] by simp
    then show ?thesis unfolding g(4) using while_post c1 Some g(2,3) by blast
  qed
next
  case (12 env prev l c body eb ctx)
  obtain i c1 where c1: "gen_condition c ctx = Some (i, c1)"
    using "12.prems" by (cases "gen_condition c ctx") auto
  show ?case
  proof (cases i)
    case None
    then have "ctx' = c1" using "12.prems" c1 by simp
    then show ?thesis using gen_condition_post [OF c1] body_good_post by blast
  next
    case (Some r)
    obtain b c2 where c2: "generateBody env body c1 = Some (b, c2)"
      using "12.prems" c1 Some by (auto split: Option.bind_splits)
    have p2: "good_post c1 c2" using "12.IH"(1) [OF c1 refl Some c2] .
    show ?thesis
    proof (cases eb)
      case None
      then obtain c3 where "gen_fix_jump r c2 = Some c3" "ctx' = c3"
        using "12.prems" c1 Some c2 by (auto split: Option.bind_splits)
      then show ?thesis using if_post c1 Some p2 by blast
    next
      case e: (Some e)
      obtain n q where n: "(n, q) = emit_jmp_out (gx_piece c2)" by (metis surj_pair)
      obtain c3 b' c4 c5 where g: "gen_fix_jump r (c2\<lparr>gx_piece := q\<rparr>) = Some c3"
          "generateBody env e c3 = Some (b', c4)" "gen_fix_jump n c4 = Some c5" "ctx' = c5"
        using "12.prems" c1 Some c2 e n [symmetric] by (auto simp: Let_def split: Option.bind_splits)
      have "good_post c3 c4" using "12.IH"(2) [OF c1 refl Some c2 refl e n refl g(1) g(2)] by simp
      then show ?thesis using else_post c1 Some p2 n g by blast
    qed
  qed
qed (auto intro: body_good_post gen_expression_stmt_post gen_global_post gen_const_post gen_var_post
    gen_continue_post gen_break_post gen_return_post)


section \<open>Functions and the linked program\<close>

lemma clear_global_post: "clear_global nm ctx = Some ctx' \<Longrightarrow> body_post ctx ctx'"
  by (auto simp: clear_global_def intro!: body_post_emits keeps_chain intro: keeping body_post_refl
      split: Option.bind_splits option.splits)

lemma clear_globals_post: "clear_globals ss ctx = Some ctx' \<Longrightarrow> body_post ctx ctx'"
  by (induction ss ctx rule: clear_globals.induct)
    (auto intro: body_post_refl body_post_trans dest: clear_global_post split: Option.bind_splits)

lemma clear_bodies_post: "clear_bodies bs ctx = Some ctx' \<Longrightarrow> body_post ctx ctx'"
proof (induction bs ctx rule: clear_bodies.induct)
  case (2 s stmts rest ctx)
  then obtain c1 where c: "clear_globals stmts (ctx\<lparr>gx_scope := s\<rparr>) = Some c1"
      "clear_bodies (rev (child_bodies stmts) @ rest) c1 = Some ctx'"
    by (auto split: Option.bind_splits)
  have "body_post c1 ctx'" using "2.IH" c by blast
  then show ?case using clear_globals_post [OF c(1)] body_post_after_fields(3) body_post_trans by blast
qed (simp add: body_post_refl)

lemma clear_imports_post: "clear_imports imps ctx = Some ctx' \<Longrightarrow> body_post ctx ctx'"
proof (induction imps ctx rule: clear_imports.induct)
  case (2 imp imps ctx)
  then obtain s c1 c2 where c: "imp_body imp = Some s"
      "clear_globals (imp_statements imp) (ctx\<lparr>gx_scope := s\<rparr>) = Some c1"
      "clear_bodies (rev (function_bodies (gx_ast c1) s @ child_bodies (imp_statements imp))) c1 = Some c2"
      "clear_imports imps c2 = Some ctx'"
    by (auto split: Option.bind_splits)
  have "body_post c2 ctx'" using "2.IH" c by blast
  then show ?case
    using clear_globals_post [OF c(2)] clear_bodies_post [OF c(3)] body_post_after_fields(3) body_post_trans
    by blast
qed (simp add: body_post_refl)

lemma main_prologue_post: "main_prologue imps body ctx = Some ctx' \<Longrightarrow> body_post ctx ctx'"
proof -
  assume m: "main_prologue imps body ctx = Some ctx'"
  let ?c = "emits (push_line 0 ''<set-globals>'') (ctx\<lparr>gx_scope := body_scope body\<rparr>)"
  obtain c1 where c1: "clear_imports imps ?c = Some c1" "ctx' = c1\<lparr>gx_scope := gx_scope ctx\<rparr>"
    using m by (auto simp: main_prologue_def split: Option.bind_splits)
  have "body_post (ctx\<lparr>gx_scope := body_scope body\<rparr>) ?c" by (rule body_post_emits) (rule keeping)
  then have "body_post ctx c1"
    using clear_imports_post [OF c1(1)] body_post_after_fields(3) body_post_trans by blast
  then show ?thesis unfolding c1(2) by (rule body_post_then_fields)
qed

lemma reserve_return_post: "reserve_return ctx = Some ctx' \<Longrightarrow> body_post ctx ctx'"
  by (auto simp: reserve_return_def intro!: body_post_then_fields body_post_emits
      intro: keeping body_post_refl split: Option.bind_splits if_splits)

lemma finish_function_post: "body_post ctx (finish_function ctx)"
  by (auto simp: finish_function_def Let_def intro: leave_function_post body_post_refl body_post_report
      body_post_trans)

lemma code_ok_new: "code_ok (p\<lparr>instructions := [], index_of_non_immediates := [], relocations := []\<rparr>)"
  by (simp add: code_ok_def wf_piece_def)

text \<open>Every piece is well formed and knows its place.\<close>

definition pieces_ok :: "Bytecode \<Rightarrow> bool" where
  "pieces_ok bc \<longleftrightarrow>
    (\<forall>i<length (pieces bc). code_ok (pieces bc ! i) \<and> piece_index (pieces bc ! i) = int i)"

lemma GenerateFunction_pieces:
  assumes "GenerateFunction env a imps str f bc errs = Some (a', bc', errs')"
  shows "pieces bc' = pieces bc
    \<or> (\<exists>p. pieces bc' = pieces bc @ [p] \<and> code_ok p \<and> piece_index p = int (length (pieces bc)))"
    and "wf_data bc \<Longrightarrow> wf_data bc'" and "errs \<le> errs'"
proof -
  let ?fn = "ast_functions a ! f"
  have "(bc' = bc \<and> errs' = errs) \<or> ((pieces bc' = pieces bc
      \<or> (\<exists>p. pieces bc' = pieces bc @ [p] \<and> code_ok p \<and> piece_index p = int (length (pieces bc))))
      \<and> (wf_data bc \<longrightarrow> wf_data bc') \<and> errs \<le> errs')"
  proof (cases "is_native ?fn")
    case True
    then show ?thesis using assms by (simp add: GenerateFunction_def Let_def)
  next
    case False
    obtain body where body: "fn_body ?fn = Some body"
      using assms False by (cases "fn_body ?fn") (auto simp: GenerateFunction_def Let_def)
    obtain p bc1 where cp: "createPiece bc = (p, bc1)" by fastforce
    let ?c = "(new_context (upd_function f (\<lambda>fn. fn\<lparr>piece_code_index := piece_index p\<rparr>) a) errs 0 str)
      \<lparr>gx_bytecode := bc1, gx_function := f,
       gx_piece := p\<lparr>piece_name := fn_name ?fn, virtual_sp := 0\<rparr>\<rparr>"
    obtain c1 c2 ok c3 where g:
        "(if fn_name ?fn = ''main'' then main_prologue imps body ?c else Some ?c) = Some c1"
        "reserve_return c1 = Some c2" "generateBody env body c2 = Some (ok, c3)"
        "bc' = store_piece (gx_piece (finish_function c3)) (gx_bytecode (finish_function c3))"
        "errs' = gx_errors (finish_function c3)"
      using assms False body cp unfolding GenerateFunction_def Let_def
      by (simp only: if_False Option.bind.simps prod.case) (auto split: Option.bind_splits)
    have p: "code_ok p" "piece_index p = int (length (pieces bc))" "pieces bc1 = pieces bc @ [p]"
        "wf_data bc \<Longrightarrow> wf_data bc1"
      using cp by (auto simp: createPiece_def Let_def new_piece_def code_ok_def wf_piece_def wf_data_def)
    have gc: "good ?c"
      using p(1) by (simp add: good_def loops_ok_def new_context_def code_ok_def wf_piece_def imm_cell_def)
    have "body_post ?c c1"
      using g(1) main_prologue_post body_post_refl by (auto split: if_splits)
    then have b2: "body_post ?c c2" using reserve_return_post [OF g(2)] body_post_trans by blast
    then have "good c2" using gc by (simp add: body_post_def)
    then have "body_post c2 c3" using statement_post(1) [OF g(3)] by (simp add: good_post_def)
    then have b: "body_post ?c (finish_function c3)"
      using b2 finish_function_post body_post_trans by blast
    let ?e = "finish_function c3"
    have "code_ok (gx_piece ?e)" "piece_index (gx_piece ?e) = int (length (pieces bc))"
        "pieces (gx_bytecode ?e) = pieces bc @ [p]" "wf_data bc \<Longrightarrow> wf_data (gx_bytecode ?e)"
        "errs \<le> gx_errors ?e"
      using b gc p unfolding body_post_def by (simp_all add: good_def new_context_def)
    then show ?thesis unfolding g(4,5) by (simp add: store_piece_def wf_data_def)
  qed
  then show "pieces bc' = pieces bc
    \<or> (\<exists>p. pieces bc' = pieces bc @ [p] \<and> code_ok p \<and> piece_index p = int (length (pieces bc)))"
    "wf_data bc \<Longrightarrow> wf_data bc'" "errs \<le> errs'" by auto
qed

lemma GenerateFunction_pieces_ok:
  assumes "GenerateFunction env a imps str f bc errs = Some (a', bc', errs')" and "pieces_ok bc"
  shows "pieces_ok bc'"
  using GenerateFunction_pieces(1) [OF assms(1)] assms(2)
  by (auto simp: pieces_ok_def nth_append less_Suc_eq)

end
