(* ===== verification/LinkedCode.thy ===== *)
theory LinkedCode
  imports GeneratorCode SchedulerSafety
begin

text \<open>
  The code of a whole compilation: in every state its threads can reach, the pieces stored so far
  are well formed, and linking them keeps every instruction where it was.
\<close>

section \<open>Linking\<close>

lemma relocate_keeps_layout:
  "wf_piece p \<Longrightarrow> \<forall>r\<in>set rs. imm_cell (index_of_immediate r) p \<Longrightarrow>
   \<exists>code. relocate pci rs (instructions p) = Some code
     \<and> inst_layout 0 code (index_of_non_immediates p)"
proof (induction rs arbitrary: p)
  case Nil
  then show ?case by (simp add: wf_piece_def)
next
  case (Cons r rs)
  show ?case
  proof (cases "rel_function r")
    case None
    then show ?thesis using Cons by simp
  next
    case (Some f)
    let ?i = "index_of_immediate r" and ?v = "call_immediate (pci f)"
    have i: "imm_cell ?i p" using Cons.prems by simp
    obtain code where code: "set_cell ?i ?v (instructions p) = Some code"
      using i by (simp add: set_cell_def imm_cell_def)
    let ?q = "p\<lparr>instructions := code\<rparr>"
    have wf: "wf_piece ?q" by (rule wf_piece_set_cell [OF Cons.prems(1) i code])
    have "imm_cell j ?q" if "imm_cell j p" for j
    proof -
      have "?i \<notin> set (index_of_non_immediates p)"
        using layout_next [of 0 "instructions p" "index_of_non_immediates p" "?i - 1"] Cons.prems(1) i
        by (simp add: wf_piece_def imm_cell_def)
      then have "j - 1 \<noteq> ?i" using that by (auto simp: imm_cell_def)
      then show ?thesis using that code by (auto simp: imm_cell_def set_cell_def split: if_splits)
    qed
    then have "\<forall>r\<in>set rs. imm_cell (index_of_immediate r) ?q" using Cons.prems by simp
    from Cons.IH [OF wf this] show ?thesis using Some code by simp
  qed
qed

lemma relocate_pieces_ok:
  "\<forall>p\<in>set ps. code_ok p \<Longrightarrow>
   \<exists>qs. relocate_pieces pci ps = Some qs \<and> length qs = length ps \<and> (\<forall>q\<in>set qs. wf_piece q)"
proof (induction ps)
  case (Cons p ps)
  then obtain code where code: "relocate pci (relocations p) (instructions p) = Some code"
      "inst_layout 0 code (index_of_non_immediates p)"
    using relocate_keeps_layout [of p "relocations p" pci] by (auto simp: code_ok_def)
  obtain qs where qs: "relocate_pieces pci ps = Some qs" "length qs = length ps" "\<forall>q\<in>set qs. wf_piece q"
    using Cons by auto
  have "wf_piece (p\<lparr>instructions := code\<rparr>)" using code(2) by (simp add: wf_piece_def)
  then show ?case using code(1) qs by simp
qed simp

lemma linked_ok:
  assumes "pieces_ok b"
  shows "\<exists>linked. apply_relocations pci b = Some linked \<and> length (pieces linked) = length (pieces b)
    \<and> (\<forall>p\<in>set (pieces linked). wf_piece p)"
proof -
  have "\<forall>p\<in>set (pieces b). code_ok p" using assms by (auto simp: pieces_ok_def in_set_conv_nth)
  from relocate_pieces_ok [OF this, of pci] show ?thesis by (auto simp: apply_relocations_def)
qed

section \<open>The bytecode during a compilation\<close>

definition code_inv :: "Compiler \<Rightarrow> bool" where
  "code_inv c \<longleftrightarrow> pieces_ok (comp_bytecode c) \<and> wf_data (comp_bytecode c)"

lemma gen_global_bytecode:
  assumes "gen_global nm ty ctx = Some (fl, ctx')"
  shows "pieces (gx_bytecode ctx') = pieces (gx_bytecode ctx)"
    "wf_data (gx_bytecode ctx) \<Longrightarrow> wf_data (gx_bytecode ctx')"
  using gen_global_post [OF assms] by (simp_all add: body_post_def)

lemma check_globals_bytecode:
  "check_globals ss ctx = Some (ok, ctx') \<Longrightarrow>
   pieces (gx_bytecode ctx') = pieces (gx_bytecode ctx) \<and> (wf_data (gx_bytecode ctx) \<longrightarrow> wf_data (gx_bytecode ctx'))"
proof (induction ss ctx rule: check_globals.induct)
  case (2 l nm ty rest ctx)
  then obtain fl c1 where g: "gen_global nm ty ctx = Some (fl, c1)"
      "(if fl = Proceed then check_globals rest c1 else Some (False, c1)) = Some (ok, ctx')"
    by (auto dest!: bind_Some_pair)
  then show ?case using "2.IH" [OF g(1) refl] gen_global_bytecode [OF g(1)] by (auto split: if_splits)
qed auto

lemma code_inv_same: "comp_bytecode c' = comp_bytecode c \<Longrightarrow> code_inv c' = code_inv c"
  by (simp add: code_inv_def)

lemma bytecode_updates [simp]:
  "comp_bytecode (upd_import i f c) = comp_bytecode c" "comp_bytecode (push_task t c) = comp_bytecode c"
  "comp_bytecode (signal c) = comp_bytecode c" "comp_bytecode (snd (createImport nm c)) = comp_bytecode c"
  "comp_bytecode (wait_for k j c) = comp_bytecode c" "comp_bytecode (finish_task t q c) = comp_bytecode c"
  "comp_bytecode (fst (take_task c)) = comp_bytecode c"
  by (simp_all add: upd_import_def push_task_def signal_def createImport_def wait_for_def finish_task_def
      take_task_def Let_def split: option.splits)

lemma fix_imports_bytecode: "fix_imports k fs c = Some c' \<Longrightarrow> comp_bytecode c' = comp_bytecode c"
  by (induction k fs c rule: fix_imports.induct) (auto simp: fix_import_def split: Option.bind_splits)

lemma do_fixups_bytecode: "do_fixups k c = Some c' \<Longrightarrow> comp_bytecode c' = comp_bytecode c"
  by (auto simp: do_fixups_def dest: fix_imports_bytecode split: Option.bind_splits)

lemma link_import_bytecode: "link_import k nm f c = Some c' \<Longrightarrow> comp_bytecode c' = comp_bytecode c"
  by (auto simp: link_import_def createImport_def split: Option.bind_splits option.splits)

lemma check_functions_bytecode: "check_functions imp fs c = Some c' \<Longrightarrow> comp_bytecode c' = comp_bytecode c"
  by (induction imp fs c rule: check_functions.induct) (auto dest!: bind_Some_pair)

lemma generate_functions_inv: "generate_functions env i fs c = Some c' \<Longrightarrow> code_inv c \<Longrightarrow> code_inv c'"
proof (induction env i fs c rule: generate_functions.induct)
  case (2 env i f fs c)
  obtain a bc errs where g: "GenerateFunction (ce_lex env) (comp_ast c) (import_list c)
        (imp_stream (import_list c ! i)) f (comp_bytecode c) (comp_errors c) = Some (a, bc, errs)"
      "generate_functions env i fs (c\<lparr>comp_ast := a, comp_bytecode := bc, comp_errors := errs\<rparr>) = Some c'"
    using "2.prems"(1) by (auto split: Option.bind_splits)
  have "pieces_ok bc" "wf_data bc"
    using GenerateFunction_pieces_ok [OF g(1)] GenerateFunction_pieces(2) [OF g(1)] "2.prems"(2)
    by (simp_all add: code_inv_def)
  then show ?case using "2.IH" [OF g(1) refl refl g(2)] by (simp add: code_inv_def)
qed simp

lemma do_lex_bytecode: "do_lex env t c = Some (c', th) \<Longrightarrow> comp_bytecode c' = comp_bytecode c"
  by (auto simp: do_lex_def store_import_def createImport_def Let_def
      split: Option.bind_splits option.splits if_splits prod.splits)

lemma do_structs_bytecode: "do_structs t c = Some (c', th) \<Longrightarrow> comp_bytecode c' = comp_bytecode c"
  by (auto simp: do_structs_def Let_def split: Option.bind_splits if_splits)

lemma do_functions_inv: "do_functions t c = Some (c', th) \<Longrightarrow> code_inv c \<Longrightarrow> code_inv c'"
proof -
  assume d: "do_functions t c = Some (c', th)" and inv: "code_inv c"
  obtain i fs c1 ok a bc errs where g: "check_functions (import_list c ! i) fs c = Some c1"
      "CheckGlobals (comp_ast c1) (import_list c1 ! i) (comp_bytecode c1) (comp_errors c1) = Some (ok, a, bc, errs)"
      "c' = c1\<lparr>comp_ast := a, comp_bytecode := bc, comp_errors := errs\<rparr>"
    using d by (auto simp: do_functions_def Let_def split: Option.bind_splits)
  have "pieces bc = pieces (comp_bytecode c1)" "wf_data (comp_bytecode c1) \<longrightarrow> wf_data bc"
    using g(2) by (auto simp: CheckGlobals_def dest!: check_globals_bytecode bind_Some_pair split: Option.bind_splits)
  then show ?thesis using inv check_functions_bytecode [OF g(1)] g(3) by (simp add: code_inv_def pieces_ok_def)
qed

lemma do_generate_inv: "do_generate env t c = Some (c', th) \<Longrightarrow> code_inv c \<Longrightarrow> code_inv c'"
  by (auto simp: do_generate_def dest: generate_functions_inv split: Option.bind_splits)

lemma do_task_inv:
  assumes "do_task env t c = Some (c', th)" and inv: "code_inv c"
  shows "code_inv c'"
proof (cases "task_type t")
  case TASK_LEX_FILE
  then have "do_lex env t c = Some (c', th)" using assms(1) by (simp add: do_task_def)
  from do_lex_bytecode [OF this] inv show ?thesis by (simp add: code_inv_def)
next
  case TASK_CHECK_STRUCTS
  then have "do_structs t c = Some (c', th)" using assms(1) by (simp add: do_task_def)
  from do_structs_bytecode [OF this] inv show ?thesis by (simp add: code_inv_def)
next
  case TASK_CHECK_FUNCTIONS
  then have "do_functions t c = Some (c', th)" using assms(1) by (simp add: do_task_def)
  then show ?thesis using inv by (rule do_functions_inv)
next
  case TASK_GEN_FUNCTIONS
  then have "do_generate env t c = Some (c', th)" using assms(1) by (simp add: do_task_def)
  then show ?thesis using inv by (rule do_generate_inv)
qed

lemma thread_step_inv:
  assumes s: "thread_step env c th = Some (c', th')" and inv: "code_inv c"
  shows "code_inv c'"
proof (cases "\<exists>t. th = Busy t")
  case True
  then obtain t where "do_task env t c = Some (c', th')" using s by (auto simp: thread_step_def)
  then show ?thesis using inv by (rule do_task_inv)
next
  case False
  have "comp_bytecode c' = comp_bytecode c"
  proof (cases th)
    case Entered
    obtain d u where d: "take_task c = (d, u)" by fastforce
    have "comp_bytecode c' = comp_bytecode d"
      using s Entered d by (cases u) (auto simp: thread_step_def count_exit_def)
    then show ?thesis using bytecode_updates(7) [of c] d by simp
  next
    case (Linking t k nms)
    then show ?thesis using s by (cases nms) (auto simp: thread_step_def)
  next
    case (Parsed t k)
    then obtain d where "do_fixups k c = Some d" "c' = d"
      using s by (cases "do_fixups k c") (auto simp: thread_step_def)
    then show ?thesis using do_fixups_bytecode by blast
  next
    case (Found t k nm f nms)
    then obtain d where "link_import k nm f c = Some d" "c' = d"
      using s by (cases "link_import k nm f c") (auto simp: thread_step_def)
    then show ?thesis using link_import_bytecode by blast
  qed (use s False in \<open>simp_all add: thread_step_def\<close>, use s in \<open>auto simp: thread_step_def\<close>)
  then show ?thesis using inv by (simp add: code_inv_def)
qed

lemma compile_init_inv: "compile_init fl = Some c \<Longrightarrow> code_inv c"
  by (auto simp: compile_init_def createImport_def Let_def code_inv_def new_bytecode_def pieces_ok_def
      wf_data_def split: Option.bind_splits if_splits)

interpretation linked: thread_invariant env "\<lambda>c ths. code_inv c" for env
proof
  fix c ths c' ths' assume inv: "code_inv c" and "sys_step env (c, ths) (c', ths')"
  from this(2) show "code_inv c'" by cases (use inv thread_step_inv in auto)
qed (rule compile_init_inv)

lemma reachable_code_inv: "reachable env s \<Longrightarrow> code_inv (fst s)"
  by (rule linked.holds_when_reachable)

lemma processTasks_inv: "processTasks env c th = Some c' \<Longrightarrow> code_inv c \<Longrightarrow> code_inv c'"
proof (induction rule: processTasks.raw_induct [rotated, consumes 1, case_names step])
  case (step f env c th c')
  have "c' = c \<or> (\<exists>d th'. thread_step env c th = Some (d, th') \<and> f env d th' = Some c')"
    using step.hyps by (auto split: Thread.splits if_splits dest!: bind_Some_pair)
  then show ?case using step.IH step.prems thread_step_inv by blast
qed

section \<open>Properties\<close>

text \<open>
  C8. Whatever function the generator is given, the piece it stores is well formed and linking
  never fails: the earlier pieces stay as they are, every piece decodes to its recorded
  instructions, every relocation is the immediate of an instruction, and after
  \<^verbatim>\<open>apply_relocations\<close>, whatever numbers the functions have, every piece still decodes to whole
  instructions at the same positions.
\<close>

theorem generated_code_links:
  assumes "GenerateFunction env a imps str f bc errs = Some (a', bc', errs')" and "pieces_ok bc"
  shows "pieces_ok bc' \<and> take (length (pieces bc)) (pieces bc') = pieces bc \<and> errs \<le> errs'
    \<and> (\<exists>linked. apply_relocations pci bc' = Some linked \<and> length (pieces linked) = length (pieces bc')
         \<and> filter (Not \<circ> wf_piece) (pieces linked) = [])"
  using GenerateFunction_pieces_ok [OF assms] GenerateFunction_pieces [OF assms(1)] linked_ok [of bc' pci]
  by (auto simp: filter_empty_conv)

text \<open>A function with the body \<^verbatim>\<open>while true { break; }\<close>.\<close>

definition loop_ast :: AST where
  "loop_ast = empty_ast\<lparr>ast_functions := [new_function\<lparr>fn_name := ''f'',
     fn_body := Some (ASTBody 0 [SWhile 0 (ELitTrue 0) (ASTBody 0 [SBreak 0])])\<rparr>]\<rparr>"

definition loop_stream :: TokenStream where
  "loop_stream = \<lparr>path = [], total_lines = 1, non_blank_lines = 1, processed_bytes = 5,
     tokens = [\<lparr>tok_type = TOKEN_WHILE, data_index = 0, tok_flags = 0, tok_line = 1, tok_column = 1\<rparr>],
     strings = [], integers = [], floats = []\<rparr>"

definition no_env :: lex_env where
  "no_env = \<lparr>env_atof = (\<lambda>_. 0), env_atoi_range = (\<lambda>_. 0), env_to_string = (\<lambda>_. [])\<rparr>"

lemma loop_line: "getline no_env loop_stream 0 = Some ''while''"
  by (simp add: getline_def feed_def line_end.simps loop_stream_def get_token_def token_text_def)

lemma loop_generated:
  "\<exists>a bc. GenerateFunction no_env loop_ast [] (Some loop_stream) 0 new_bytecode 0 = Some (a, bc, 0)
     \<and> index_of_non_immediates (pieces bc ! 0) = [0, 2, 4, 6, 8] \<and> length (pieces bc) = 1"
  by (simp add: GenerateFunction_def Let_def loop_ast_def createPiece_def new_bytecode_def new_context_def
      new_function_def empty_ast_def upd_function_def reserve_return_def fun_of_def valid_type_def
      void_type_def debug_line_def loop_line gen_condition_def gen_literal_def pushLoop_def
      performCast_def push_constant_def emits_def gen_break_def unwind_def add_break_def
      free_locals_def gen_fix_jump_def popLoop_def prim_def emit_ops_defs piece_simps get_pc_def
      new_piece_def fix_jump_here_def set_cell_def pop_last_inst_def finish_function_def
      leave_function_def store_piece_def make_type_def emit_imm_def emit_def inst_of_cell_def
      inst_def opcode_byte_def)

theorem generated_code_links_witness:
  "\<exists>a bc linked. GenerateFunction no_env loop_ast [] (Some loop_stream) 0 new_bytecode 0 = Some (a, bc, 0)
     \<and> index_of_non_immediates (pieces bc ! 0) = [0, 2, 4, 6, 8] \<and> pieces_ok bc
     \<and> apply_relocations (\<lambda>f. 0) bc = Some linked \<and> filter (Not \<circ> wf_piece) (pieces linked) = []"
proof -
  obtain a bc where g: "GenerateFunction no_env loop_ast [] (Some loop_stream) 0 new_bytecode 0 = Some (a, bc, 0)"
      "index_of_non_immediates (pieces bc ! 0) = [0, 2, 4, 6, 8]"
    using loop_generated by blast
  have "pieces_ok new_bytecode" by (simp add: pieces_ok_def new_bytecode_def)
  from generated_code_links [OF g(1) this, of "\<lambda>f. 0"] g show ?thesis by blast
qed

text \<open>
  C2. At every moment of a compilation by any number of threads the pieces stored so far are well
  formed, each under its own number, the data section holds every string that was interned, and
  the program could be linked.
\<close>

theorem compiled_code_links:
  assumes "reachable env (c, ths)"
  shows "pieces_ok (comp_bytecode c) \<and> wf_data (comp_bytecode c)
    \<and> (\<exists>linked. apply_relocations pci (comp_bytecode c) = Some linked
         \<and> filter (Not \<circ> wf_piece) (pieces linked) = [])"
  using reachable_code_inv [OF assms] linked_ok [of "comp_bytecode c" pci]
  by (auto simp: code_inv_def filter_empty_conv)

theorem compiled_code_links_witness:
  "pieces_ok (comp_bytecode (fst one_entered)) \<and> snd one_entered = [Entered, Starting]
    \<and> (\<exists>linked. apply_relocations (\<lambda>f. 0) (comp_bytecode (fst one_entered)) = Some linked)"
  using compiled_code_links [of empty_files "fst one_entered" "snd one_entered" "\<lambda>f. 0"]
    one_entered_reachable [of empty_files]
  by (auto simp: one_entered_def)

text \<open>What a compilation by one thread hands to the virtual machine.\<close>

lemma CompileFile_links:
  assumes "CompileFile env fl = Some (Some (bc, a))"
  shows "pieces_ok bc \<and> wf_data bc
    \<and> (\<exists>linked. apply_relocations pci bc = Some linked \<and> filter (Not \<circ> wf_piece) (pieces linked) = [])"
proof -
  obtain c c' where c: "compile_init fl = Some c" "processTasks env c Starting = Some c'" "bc = comp_bytecode c'"
    using assms by (auto simp: CompileFile_def split: if_splits Option.bind_splits)
  have "code_inv c'" using processTasks_inv [OF c(2) compile_init_inv [OF c(1)]] .
  then show ?thesis using linked_ok [of bc pci] c(3) by (auto simp: code_inv_def filter_empty_conv)
qed

end
