(* ===== verification/Layout.thy ===== *)
theory Layout
  imports GeneratorCode SchedulerSafety
begin

text \<open>
  Where values lie: the members of a structure, the parameters and the result of a function; and
  what happens when the layout of a structure is asked for too early or is infinite.
\<close>

section \<open>Layout of structures and parameters\<close>

lemma align_up_facts:
  assumes "a \<in> {1, 2, 4, 8}"
  shows "a dvd align_up a x" "x \<le> align_up a x" "align_up a x < x + a"
proof -
  have "a = 2 ^ 0 \<or> a = 2 ^ 1 \<or> a = 2 ^ 2 \<or> a = 2 ^ 3" using assms by auto
  then obtain k where a: "a = 2 ^ k" by blast
  have pos: "(0 :: int) < 2 ^ k" by simp
  have e: "align_up a x = (x + 2 ^ k - 1) div 2 ^ k * 2 ^ k" unfolding a by (rule align_up_eq)
  show "a dvd align_up a x" unfolding e unfolding a by simp
  have m: "(x + 2 ^ k - 1) div 2 ^ k * 2 ^ k + (x + 2 ^ k - 1) mod 2 ^ k = x + 2 ^ k - 1"
    by (rule div_mult_mod_eq)
  have "0 \<le> (x + 2 ^ k - 1) mod 2 ^ k" "(x + 2 ^ k - 1) mod 2 ^ k < 2 ^ k"
    using pos by simp_all
  then show "x \<le> align_up a x" "align_up a x < x + a" using m e unfolding a by linarith+
qed

lemma member_alignment_range: "member_alignment n \<in> {1, 2, 4, 8}"
  by (simp add: member_alignment_def)

lemma param_alignment_range: "param_alignment n \<in> {1, 2, 4, 8}"
  by (simp add: param_alignment_def)

text \<open>
  Values of types \<open>sz\<close> placed one after the other from \<open>lo\<close> to \<open>hi\<close>, each aligned: \<open>xs\<close> lists
  offset and size.
\<close>

fun packed :: "(int \<Rightarrow> int) \<Rightarrow> int \<Rightarrow> (int \<times> int) list \<Rightarrow> int \<Rightarrow> bool" where
  "packed al lo [] hi \<longleftrightarrow> lo = hi"
| "packed al lo ((off, n) # xs) hi \<longleftrightarrow>
     lo \<le> off \<and> off < lo + al n \<and> al n dvd off \<and> 0 \<le> n \<and> packed al (off + n) xs hi"

lemma packed_bounds: "packed al lo xs hi \<Longrightarrow> lo \<le> hi"
  by (induction al lo xs hi rule: packed.induct) auto

lemma packed_range:
  "packed al lo xs hi \<Longrightarrow> j < length xs \<Longrightarrow>
   al (snd (xs ! j)) dvd fst (xs ! j) \<and> lo \<le> fst (xs ! j) \<and> 0 \<le> snd (xs ! j) \<and> fst (xs ! j) + snd (xs ! j) \<le> hi"
proof (induction al lo xs hi arbitrary: j rule: packed.induct)
  case (2 al lo off n xs hi)
  then show ?case using packed_bounds by (cases j) fastforce+
qed simp

lemma packed_disjoint:
  "packed al lo xs hi \<Longrightarrow> j < length xs \<Longrightarrow> k < j \<Longrightarrow> fst (xs ! k) + snd (xs ! k) \<le> fst (xs ! j)"
proof (induction al lo xs hi arbitrary: j k rule: packed.induct)
  case (2 al lo off n xs hi)
  then obtain j' where j: "j = Suc j'" by (cases j) auto
  show ?case
  proof (cases k)
    case 0
    then show ?thesis using 2 j packed_range [of al "off + n" xs hi j'] by simp
  next
    case (Suc k')
    then show ?thesis using 2 j by simp
  qed
qed simp

definition member_spans :: "AST \<Rightarrow> Member list \<Rightarrow> (int \<times> int) list" where
  "member_spans a ms = map (\<lambda>m. (mem_offset m, the (sizeOfType a (mem_typeId m)))) ms"

lemma layout_members_packed:
  "\<forall>t n. sizeOfType a t = Some n \<longrightarrow> 0 \<le> n \<Longrightarrow>
    layout_members a s ms off al = Some (True, ms', off', al') \<Longrightarrow> al \<in> {1, 2, 4, 8} \<Longrightarrow>
    packed member_alignment off (member_spans a ms') off' \<and> al' \<in> {1, 2, 4, 8} \<and> al \<le> al'
    \<and> map mem_name ms' = map mem_name ms
    \<and> (\<forall>m\<in>set ms'. valid_type (mem_typeId m) \<and> sizeOfType a (mem_typeId m) \<noteq> None
         \<and> member_alignment (the (sizeOfType a (mem_typeId m))) \<le> al')"
proof (induction a s ms off al arbitrary: ms' off' al' rule: layout_members.induct)
  case (1 a s off al)
  then show ?case by (simp add: member_spans_def)
next
  case (2 a s m ms off al)
  obtain t where t: "convertFullType a (mem_typeString m) s = Some t"
    using 2(3) by (cases "convertFullType a (mem_typeString m) s") auto
  have v: "valid_type t" using 2(3) t by (auto split: if_splits)
  obtain sz where sz: "sizeOfType a t = Some sz"
    using 2(3) t v by (cases "sizeOfType a t") auto
  let ?off1 = "align_up (member_alignment sz) off"
  obtain ms1 where r: "layout_members a s ms (?off1 + sz) (max al (member_alignment sz)) = Some (True, ms1, off', al')"
      "ms' = m\<lparr>mem_typeId := t, mem_offset := ?off1\<rparr> # ms1"
    using 2(3) t v sz by (auto simp: Let_def dest!: bind_Some_pair split: Option.bind_splits)
  have "max al (member_alignment sz) \<in> {1, 2, 4, 8}"
    using 2(4) member_alignment_range [of sz] by (auto simp: max_def)
  from 2(1) [OF t _ sz refl refl 2(2) r(1) this] v
  have ih: "packed member_alignment (?off1 + sz) (member_spans a ms1) off'" "al' \<in> {1, 2, 4, 8}"
      "max al (member_alignment sz) \<le> al'" "map mem_name ms1 = map mem_name ms"
      "\<forall>m\<in>set ms1. valid_type (mem_typeId m) \<and> sizeOfType a (mem_typeId m) \<noteq> None
         \<and> member_alignment (the (sizeOfType a (mem_typeId m))) \<le> al'"
    by auto
  show ?case
    unfolding r(2) using ih t v sz 2(2) align_up_facts [OF member_alignment_range [of sz], of off]
    by (simp add: member_spans_def)
qed


text \<open>No type has a negative size.\<close>

definition types_sized :: "AST \<Rightarrow> bool" where
  "types_sized a \<longleftrightarrow> (\<forall>info\<in>set (typeInfos a). 0 \<le> type_size info)"

lemma sizeOfType_nonneg: "types_sized a \<Longrightarrow> sizeOfType a t = Some n \<Longrightarrow> 0 \<le> n"
  by (auto simp: types_sized_def sizeOfType_def getType_def Let_def default_type_info_def
      split: if_splits)

lemma create_struct_type_result:
  assumes "create_struct_type i s a = Some a1"
  shows "length (ast_structures a1) = length (ast_structures a)"
    "i < length (ast_structures a) \<Longrightarrow> members (ast_structures a1 ! i) = members (ast_structures a ! i)
      \<and> complete (ast_structures a1 ! i) = complete (ast_structures a ! i)"
    "j \<noteq> i \<Longrightarrow> ast_structures a1 ! j = ast_structures a ! j"
    "types_sized a \<Longrightarrow> types_sized a1"
proof -
  have "types_sized (set_type_struct n i b)" if "types_sized b" for n b
    using that unfolding types_sized_def set_type_struct_def
    by (cases "n < length (typeInfos b)") (auto simp: set_conv_nth nth_list_update)
  then show "types_sized a \<Longrightarrow> types_sized a1"
    using assms
    by (auto simp: create_struct_type_def createType_def Let_def types_sized_def upd_struct_def
        set_type_struct_def default_type_info_def split: if_splits Option.bind_splits)
qed (use assms in \<open>auto simp: create_struct_type_def createType_def Let_def upd_struct_def upd_scope_def
    set_type_struct_def split: if_splits Option.bind_splits\<close>)

lemma generateStruct_parts:
  assumes "generateStruct i ctx = Some (True, ctx')" "\<not> complete (ast_structures (gx_ast ctx) ! i)"
  obtains a ms off al n where "create_struct_type i (gx_scope ctx) (gx_ast ctx) = Some a"
    "layout_members a (gx_scope ctx) (members (ast_structures a ! i)) 0 1 = Some (True, ms, off, al)"
    "typeInfo (ast_structures (upd_struct i (\<lambda>st. st\<lparr>members := ms\<rparr>) a) ! i) = Some n"
    "ctx' = ctx\<lparr>gx_ast := upd_struct i (\<lambda>st. st\<lparr>complete := True\<rparr>)
       (set_type_size n (align_up al off) (upd_struct i (\<lambda>st. st\<lparr>members := ms\<rparr>) a))\<rparr>"
  using assms
  by (auto simp: generateStruct_def Let_def split: if_splits Option.bind_splits)

lemma dvd_powers: "a \<in> {1, 2, 4, 8} \<Longrightarrow> b \<in> {1, 2, 4, 8} \<Longrightarrow> (a :: int) \<le> b \<Longrightarrow> a dvd b"
  by auto



section \<open>Parameters\<close>

lemma addVariable_types: "addVariable k nm s t off a = Some (v, a') \<Longrightarrow> typeInfos a' = typeInfos a
    \<and> ast_functions a' = ast_functions a \<and> ast_structures a' = ast_structures a"
  by (auto simp: addVariable_def Let_def split: Option.bind_splits option.splits)

lemma sizeOfType_cong: "typeInfos a' = typeInfos a \<Longrightarrow> sizeOfType a' t = sizeOfType a t"
  by (simp add: sizeOfType_def getType_def Let_def)

lemma declare_param_types:
  assumes "declare_param body p ctx = Some ctx'"
  shows "typeInfos (gx_ast ctx') = typeInfos (gx_ast ctx) \<and> gx_scope ctx' = gx_scope ctx
    \<and> ast_functions (gx_ast ctx') = ast_functions (gx_ast ctx) \<and> gx_errors ctx \<le> gx_errors ctx'"
proof (cases body)
  case None
  then show ?thesis using assms by (simp add: declare_param_def)
next
  case (Some b)
  then obtain v a where v: "addVariable LOCAL_ID (param_name p) (body_scope b) (param_typeId p)
      (param_offset p) (gx_ast ctx) = Some (v, a)"
      "ctx' = (if v = None then gen_report (ctx\<lparr>gx_ast := a\<rparr>) else ctx\<lparr>gx_ast := a\<rparr>)"
    using assms by (auto simp: declare_param_def dest!: bind_Some_pair)
  then show ?thesis using addVariable_types [OF v(1)] by (auto simp: gen_report_def)
qed

definition param_spans :: "AST \<Rightarrow> Parameter list \<Rightarrow> (int \<times> int) list" where
  "param_spans a ps = map (\<lambda>p. (param_offset p, the (sizeOfType a (param_typeId p)))) ps"

lemma layout_params_packed:
  "layout_params body ps off ctx = Some (ps', off', ctx') \<Longrightarrow> types_sized (gx_ast ctx) \<Longrightarrow>
   packed param_alignment off (param_spans (gx_ast ctx) ps') off'
   \<and> map param_name ps' = map param_name ps
   \<and> typeInfos (gx_ast ctx') = typeInfos (gx_ast ctx)
   \<and> ast_functions (gx_ast ctx') = ast_functions (gx_ast ctx) \<and> gx_errors ctx \<le> gx_errors ctx'"
proof (induction body ps off ctx arbitrary: ps' off' ctx' rule: layout_params.induct)
  case (1 body off ctx)
  then show ?case by (simp add: param_spans_def)
next
  case (2 body p ps off ctx)
  obtain t where t: "convertFullType (gx_ast ctx) (param_typeString p) (gx_scope ctx) = Some t"
    using 2(2) by (cases "convertFullType (gx_ast ctx) (param_typeString p) (gx_scope ctx)") auto
  let ?c1 = "if valid_type t then ctx else gen_report ctx"
  have c1: "gx_ast ?c1 = gx_ast ctx" "gx_errors ctx \<le> gx_errors ?c1" by (simp_all add: gen_report_def)
  obtain sz where sz: "sizeOfType (gx_ast ?c1) t = Some sz"
    using 2(2) t by (cases "sizeOfType (gx_ast ?c1) t") (auto simp: Let_def)
  let ?off1 = "align_up (param_alignment sz) off"
  let ?p1 = "p\<lparr>param_typeId := t, param_offset := ?off1\<rparr>"
  obtain c2 where c2: "declare_param body ?p1 ?c1 = Some c2"
    using 2(2) t sz by (cases "declare_param body ?p1 ?c1") (auto simp: Let_def)
  obtain ps1 where r: "layout_params body ps (?off1 + sz) c2 = Some (ps1, off', ctx')" "ps' = ?p1 # ps1"
    using 2(2) t sz c2 by (auto simp: Let_def dest!: bind_Some_pair split: Option.bind_splits)
  note d = declare_param_types [OF c2]
  have ty: "typeInfos (gx_ast c2) = typeInfos (gx_ast ctx)" using d c1 by simp
  then have "types_sized (gx_ast c2)" using 2(3) by (simp add: types_sized_def)
  from 2(1) [OF t refl sz refl refl c2 r(1) this]
  have ih: "packed param_alignment (?off1 + sz) (param_spans (gx_ast c2) ps1) off'"
      "map param_name ps1 = map param_name ps" "typeInfos (gx_ast ctx') = typeInfos (gx_ast c2)"
      "ast_functions (gx_ast ctx') = ast_functions (gx_ast c2)" "gx_errors c2 \<le> gx_errors ctx'"
    by auto
  have s: "param_spans (gx_ast c2) ps1 = param_spans (gx_ast ctx) ps1"
    using sizeOfType_cong [OF ty] by (simp add: param_spans_def)
  have c: "param_spans (gx_ast ctx) (?p1 # ps1) = (?off1, sz) # param_spans (gx_ast ctx) ps1"
    using sz c1 by (simp add: param_spans_def)
  have "0 \<le> sz" using sizeOfType_nonneg [OF 2(3)] sz c1 by simp
  then have "packed param_alignment off (param_spans (gx_ast ctx) (?p1 # ps1)) off'"
    using ih(1) s align_up_facts [OF param_alignment_range [of sz], of off] unfolding c by simp
  moreover have "gx_errors ctx \<le> gx_errors ctx'" using ih(5) d c1(2) by linarith
  ultimately show ?case
    unfolding r(2) using ih(2-4) ty d c1(1) by simp
qed

lemma layout_return_result:
  assumes "layout_return f ctx = Some ctx'" and "f < length (ast_functions (gx_ast ctx))"
  shows "typeInfos (gx_ast ctx') = typeInfos (gx_ast ctx) \<and> gx_errors ctx \<le> gx_errors ctx'
    \<and> fn_parameters (ast_functions (gx_ast ctx') ! f) = fn_parameters (ast_functions (gx_ast ctx) ! f)
    \<and> parameters_size (ast_functions (gx_ast ctx') ! f) = parameters_size (ast_functions (gx_ast ctx) ! f)
    \<and> (return_typeString (ast_functions (gx_ast ctx) ! f) \<noteq> [] \<and> gx_errors ctx' = gx_errors ctx \<longrightarrow>
         (\<exists>n. sizeOfType (gx_ast ctx) (return_type (ast_functions (gx_ast ctx') ! f)) = Some n
            \<and> return_offset (ast_functions (gx_ast ctx') ! f) = - align_up 8 n))"
proof (cases "return_typeString (ast_functions (gx_ast ctx) ! f) = []")
  case True
  then show ?thesis using assms by (simp add: layout_return_def Let_def)
next
  case False
  obtain t where t: "convertFullType (gx_ast ctx) (return_typeString (ast_functions (gx_ast ctx) ! f)) (gx_scope ctx) = Some t"
    using assms False by (auto simp: layout_return_def Let_def split: Option.bind_splits)
  let ?a = "upd_function f (\<lambda>fn. fn\<lparr>return_type := t\<rparr>) (gx_ast ctx)"
  have s: "sizeOfType ?a t = sizeOfType (gx_ast ctx) t" by (rule sizeOfType_cong) (simp add: upd_function_def)
  show ?thesis
  proof (cases "valid_type t")
    case True
    then obtain n where n: "sizeOfType (gx_ast ctx) t = Some n"
        "ctx' = ctx\<lparr>gx_ast := upd_function f (\<lambda>fn. fn\<lparr>return_offset := - align_up 8 n\<rparr>) ?a\<rparr>"
      using assms False t s by (auto simp: layout_return_def Let_def split: Option.bind_splits)
    then show ?thesis using assms(2) by (simp add: upd_function_def)
  next
    case F: False
    then have "ctx' = gen_report (ctx\<lparr>gx_ast := ?a\<rparr>)"
      using assms False t by (simp add: layout_return_def Let_def)
    then show ?thesis using assms(2) by (simp add: upd_function_def gen_report_def)
  qed
qed

text \<open>
  C13. The layout of a call frame: \<^verbatim>\<open>CheckFunction\<close> places the parameters in order from offset 16 on
  (behind the saved base pointer and return address), aligned and apart from each other, inside
  \<^verbatim>\<open>parameters_size\<close> bytes, a multiple of 8; the returned value lies in the last bytes below
  offset 0, with less than 8 bytes of padding.
\<close>

theorem parameter_layout:
  assumes "CheckFunction a imp f errs = Some (a', errs')"
    and "f < length (ast_functions a)" and "types_sized a"
  shows "let fn = ast_functions a' ! f; spans = param_spans a (fn_parameters fn) in
    map param_name (fn_parameters fn) = map param_name (fn_parameters (ast_functions a ! f))
    \<and> 8 dvd parameters_size fn \<and> errs \<le> errs'
    \<and> (\<forall>j<length spans. let (off, sz) = spans ! j in
         16 \<le> off \<and> 0 \<le> sz \<and> off + sz \<le> 16 + parameters_size fn \<and> param_alignment sz dvd off
         \<and> (\<forall>k<j. let (off', sz') = spans ! k in off' + sz' \<le> off))
    \<and> (return_typeString (ast_functions a ! f) \<noteq> [] \<and> errs' = errs \<longrightarrow>
         (\<exists>n. sizeOfType a (return_type fn) = Some n \<and> 8 dvd return_offset fn
            \<and> return_offset fn + n \<le> 0 \<and> - 8 < return_offset fn + n))"
proof -
  let ?fn = "ast_functions a ! f"
  obtain s where s: "imp_body imp = Some s" using assms(1) by (auto simp: CheckFunction_def split: Option.bind_splits)
  let ?c = "new_context a errs s (imp_stream imp)"
  obtain ps off c1 where p: "layout_params (fn_body ?fn) (fn_parameters ?fn) 16 ?c = Some (ps, off, c1)"
    using assms(1) s by (auto simp: CheckFunction_def Let_def dest!: bind_Some_pair split: Option.bind_splits)
  let ?a1 = "upd_function f (\<lambda>fn. fn\<lparr>fn_parameters := ps, parameters_size := align_up 8 off - 16\<rparr>) (gx_ast c1)"
  obtain c2 where c2: "layout_return f (c1\<lparr>gx_ast := ?a1\<rparr>) = Some c2" "a' = gx_ast c2" "errs' = gx_errors c2"
    using assms(1) s p by (auto simp: CheckFunction_def Let_def split: Option.bind_splits)
  have c: "gx_ast ?c = a" "gx_errors ?c = errs" by (simp_all add: new_context_def)
  have l: "packed param_alignment 16 (param_spans a ps) off" "map param_name ps = map param_name (fn_parameters ?fn)"
      "typeInfos (gx_ast c1) = typeInfos a" "ast_functions (gx_ast c1) = ast_functions a" "errs \<le> gx_errors c1"
    using layout_params_packed [OF p] assms(3) c by auto
  have f1: "f < length (ast_functions ?a1)" using l(4) assms(2) by (simp add: upd_function_def)
  have fn1: "ast_functions ?a1 ! f = ?fn\<lparr>fn_parameters := ps, parameters_size := align_up 8 off - 16\<rparr>"
    using l(4) assms(2) by (simp add: upd_function_def)
  have r: "gx_errors c1 \<le> errs'" "fn_parameters (ast_functions a' ! f) = ps"
      "parameters_size (ast_functions a' ! f) = align_up 8 off - 16"
    using layout_return_result [OF c2(1)] f1 fn1 c2(2,3) by simp_all
  have al: "8 dvd align_up 8 off" "off \<le> align_up 8 off" using align_up_facts [of 8 off] by auto
  have sp: "let (off', sz) = param_spans a ps ! j in 16 \<le> off' \<and> 0 \<le> sz \<and> off' + sz \<le> align_up 8 off
       \<and> param_alignment sz dvd off' \<and> (\<forall>k<j. let (off'', sz') = param_spans a ps ! k in off'' + sz' \<le> off')"
    if j: "j < length (param_spans a ps)" for j
    using packed_range [OF l(1) j] packed_disjoint [OF l(1) j] al(2) by (auto simp: Let_def split_beta)
  have d: "8 dvd align_up 8 off - 16" using al(1) by (simp add: dvd_diff_right_iff)
  have ret: "\<exists>n. sizeOfType a (return_type (ast_functions a' ! f)) = Some n \<and> 8 dvd return_offset (ast_functions a' ! f)
      \<and> return_offset (ast_functions a' ! f) + n \<le> 0 \<and> - 8 < return_offset (ast_functions a' ! f) + n"
    if q: "return_typeString ?fn \<noteq> []" "errs' = errs"
  proof -
    have e: "gx_errors c2 = gx_errors c1" using r(1) l(5) q(2) c2(3) by simp
    have sz: "sizeOfType ?a1 t = sizeOfType a t" for t
      by (rule sizeOfType_cong) (simp add: upd_function_def l(3))
    obtain n where n: "sizeOfType a (return_type (ast_functions a' ! f)) = Some n"
        "return_offset (ast_functions a' ! f) = - align_up 8 n"
      using layout_return_result [OF c2(1)] f1 fn1 q(1) e c2(2) sz by auto
    then show ?thesis using align_up_facts [of 8 n] by simp
  qed
  show ?thesis
    unfolding Let_def r(2,3) using l(2,5) r(1) d sp ret by (auto simp: Let_def)
qed


section \<open>Structures that contain themselves\<close>

lemma member_items_types: "snd ` set (member_items off ms) = mem_typeId ` set ms"
  by (force simp: member_items_def)

lemma push_items_loops:
  "push_items a r items p = Some q \<Longrightarrow>
   struct_members a t = Some (Some ms) \<and> t \<in> mem_typeId ` set ms \<and> t \<in> snd ` set items \<Longrightarrow> False"
proof (induction rule: push_items.raw_induct [rotated, consumes 1, case_names step])
  case (step f a r items p q)
  then obtain off u rest where i: "items = (off, u) # rest" by (cases items) auto
  from step.hyps i consider "struct_members a u = Some None" "\<exists>p'. f a r rest p' = Some q"
    | mems where "struct_members a u = Some (Some mems)" "f a r (member_items off mems @ rest) p = Some q"
    by (auto split: Option.bind_splits option.splits)
  then show ?case
  proof cases
    case 1
    then have "t \<in> snd ` set rest" using step.prems i by auto
    then show ?thesis using step.IH 1(2) step.prems by blast
  next
    case 2
    then have "t \<in> snd ` set (member_items off mems @ rest)"
      using step.prems i by (auto simp: member_items_types image_Un)
    then show ?thesis using step.IH 2(2) step.prems by blast
  qed
qed

lemma pop_items_loops:
  "pop_items a r items p = Some q \<Longrightarrow>
   t \<noteq> prim TYPE_VOID \<and> struct_members a t = Some (Some ms) \<and> t \<in> mem_typeId ` set ms \<and> t \<in> snd ` set items \<Longrightarrow> False"
proof (induction rule: pop_items.raw_induct [rotated, consumes 1, case_names step])
  case (step f a r items p q)
  then obtain off u rest where i: "items = (off, u) # rest" by (cases items) auto
  from step.hyps i consider "u = prim TYPE_VOID" "\<exists>p'. f a r rest p' = Some q"
    | "struct_members a u = Some None" "\<exists>p'. f a r rest p' = Some q"
    | mems where "struct_members a u = Some (Some mems)" "f a r (rev (member_items off mems) @ rest) p = Some q"
    by (auto split: if_splits Option.bind_splits option.splits)
  then show ?case
  proof cases
    case 3
    then have "t \<in> snd ` set (rev (member_items off mems) @ rest)"
      using step.prems i by (auto simp: member_items_types image_Un)
    then show ?thesis using step.IH 3(2) step.prems by blast
  next
    case 1
    then have "t \<in> snd ` set rest" using step.prems i by auto
    then show ?thesis using step.IH 1(2) step.prems by blast
  next
    case 2
    then have "t \<in> snd ` set rest" using step.prems i by auto
    then show ?thesis using step.IH 2(2) step.prems by blast
  qed
qed

text \<open>
  C34. Code for a value of a structure that is a member of itself is never finished: neither
  \<^verbatim>\<open>generatePush\<close> nor \<^verbatim>\<open>generatePop\<close> returns, so the compiler recurses until its stack ends.
\<close>

theorem self_member_never_returns:
  assumes "struct_members (gx_ast ctx) t = Some (Some ms)" and "t \<in> mem_typeId ` set ms"
    and "t \<noteq> prim TYPE_VOID"
  shows "generatePush r off t ctx = None \<and> generatePop r off t ctx = None"
proof
  have "push_items (gx_ast ctx) r [(off, t)] p = None" for p
    using push_items_loops [of "gx_ast ctx" r "[(off, t)]" p] assms
    by (cases "push_items (gx_ast ctx) r [(off, t)] p") auto
  then show "generatePush r off t ctx = None" by (simp add: generatePush_def)
  have "pop_items (gx_ast ctx) r [(off, t)] p = None" for p
    using pop_items_loops [of "gx_ast ctx" r "[(off, t)]" p] assms
    by (cases "pop_items (gx_ast ctx) r [(off, t)] p") auto
  then show "generatePop r off t ctx = None" by (simp add: generatePop_def)
qed

text \<open>The structure \<^verbatim>\<open>struct S { x: S, }\<close> in the first scope.\<close>

definition self_struct :: ASTStructure where
  "self_struct = new_structure\<lparr>st_name := ''S'', members := [\<lparr>mem_name = ''x'', mem_typeString = ''S'',
     mem_typeId = void_type, mem_offset = 0, mem_location = 0\<rparr>]\<rparr>"

definition self_context :: GenCtx where
  "self_context = new_context (initial_ast\<lparr>ast_structures := [self_struct]\<rparr>) 0 0 None"

lemma find_scope_first:
  assumes "scopes a \<noteq> []" and "getScope a 0 = Some sc" "scopeId sc = parent sc" "shared_scopes sc = []"
  shows "find_scope a p 0 = Some (if p sc then Some 0 else None)"
  using assms by (simp add: find_scope_def createScopeIterator_def search_scopes.simps iterate_def getScope_def)

lemma self_struct_complete:
  "\<exists>ctx. generateStruct 0 self_context = Some (True, ctx)
     \<and> struct_members (gx_ast ctx) (make_type 5 0) = Some (Some (members (ast_structures (gx_ast ctx) ! 0)))
     \<and> map mem_typeId (members (ast_structures (gx_ast ctx) ! 0)) = [make_type 5 0]
     \<and> gx_errors ctx = 0"
  apply (simp add: generateStruct_def self_context_def new_context_def self_struct_def new_structure_def
      create_struct_type_def createType_def Let_def types_max_def init_types_def upd_scope_def
      set_type_struct_def upd_struct_def convertFullType_def split_stars_def findType_def find_scope_first getScope_def init_scope_def
      make_type_def valid_type_def set_pointer_level_def sizeOfType_def getType_def default_type_info_def set_type_size_def struct_members_def)
  done

lemmas struct_eval =
  generateStruct_def new_context_def new_structure_def create_struct_type_def createType_def Let_def
  types_max_def init_types_def upd_scope_def set_type_struct_def upd_struct_def convertFullType_def
  split_stars_def findType_def find_scope_first getScope_def init_scope_def make_type_def
  valid_type_def set_pointer_level_def sizeOfType_def getType_def default_type_info_def
  set_type_size_def struct_members_def void_type_def

definition member_of :: "string \<Rightarrow> string \<Rightarrow> Member" where
  "member_of nm ty = \<lparr>mem_name = nm, mem_typeString = ty, mem_typeId = void_type, mem_offset = 0,
     mem_location = 0\<rparr>"

text \<open>\<^verbatim>\<open>struct P { x: char, y: int*, z: int, }\<close>\<close>

definition plain_context :: GenCtx where
  "plain_context = new_context (initial_ast\<lparr>ast_structures := [new_structure\<lparr>st_name := ''P'',
     members := [member_of ''x'' ''char'', member_of ''y'' ''int*'', member_of ''z'' ''int'']\<rparr>]\<rparr>) 0 0 None"

lemma plain_struct:
  "\<exists>ctx a. generateStruct 0 plain_context = Some (True, ctx)
     \<and> create_struct_type 0 (gx_scope plain_context) (gx_ast plain_context) = Some a
     \<and> map mem_offset (members (ast_structures (gx_ast ctx) ! 0)) = [0, 8, 16]
     \<and> \<not> complete (ast_structures (gx_ast plain_context) ! 0) \<and> 0 < length (ast_structures (gx_ast plain_context))
     \<and> types_sized (gx_ast plain_context)"
  by (simp add: struct_eval plain_context_def member_of_def types_sized_def primitive_size_def
      prim_def member_alignment_def align_up_def)

text \<open>\<^verbatim>\<open>struct A { b: B, } struct B { c: C, } struct C { x: int*, }\<close>\<close>

definition chain_context :: GenCtx where
  "chain_context = (new_context (initial_ast\<lparr>ast_structures :=
     [new_structure\<lparr>st_name := ''A'', members := [member_of ''b'' ''B'']\<rparr>,
      new_structure\<lparr>st_name := ''B'', members := [member_of ''c'' ''C'']\<rparr>,
      new_structure\<lparr>st_name := ''C'', members := [member_of ''x'' ''int*'']\<rparr>]\<rparr>) 0 0 None)
     \<lparr>gx_ignore_errors := True\<rparr>"

lemma forward_struct_checked:
  "\<exists>ctx1 ctx2. check_structs [0, 1, 2] chain_context = Some (False, True, ctx1)
    \<and> check_structs [0, 1, 2] ctx1 = Some (True, True, ctx2) \<and> gx_errors ctx2 = 0
    \<and> map type_name (drop 5 (typeInfos (gx_ast ctx2))) = [''A'', ''B'', ''C'']
    \<and> map type_size (drop 5 (typeInfos (gx_ast ctx2))) = [0, 8, 8]"
  by (simp add: struct_eval chain_context_def member_of_def primitive_size_def prim_def
      member_alignment_def align_up_def)


section \<open>Trying the structures of a file again\<close>

lemma map_update_id: "g y = g (xs ! i) \<Longrightarrow> map g (xs[i := y]) = map g xs"
  by (cases "i < length xs") (simp_all add: map_update list_update_same_conv not_less list_update_beyond)

lemma create_struct_type_complete:
  "create_struct_type i s a = Some a1 \<Longrightarrow>
   map complete (ast_structures a1) = map complete (ast_structures a)"
  by (auto simp: create_struct_type_def createType_def Let_def upd_struct_def upd_scope_def set_type_struct_def
      map_update_id split: if_splits Option.bind_splits simp del: map_update)

lemma upd_struct_complete:
  "(\<And>st. complete (f st) = complete st) \<Longrightarrow>
   map complete (ast_structures (upd_struct i f a)) = map complete (ast_structures a)"
  by (simp add: upd_struct_def map_update_id del: map_update)

lemma generateStruct_complete:
  assumes "generateStruct i ctx = Some (ok, ctx')"
  shows "map complete (ast_structures (gx_ast ctx')) =
    (if ok then (map complete (ast_structures (gx_ast ctx)))[i := True]
     else map complete (ast_structures (gx_ast ctx)))"
proof (cases "complete (ast_structures (gx_ast ctx) ! i)")
  case True
  then have "ctx' = ctx" "ok" using assms by (auto simp: generateStruct_def)
  moreover have "(map complete (ast_structures (gx_ast ctx)))[i := True] = map complete (ast_structures (gx_ast ctx))"
    using True by (cases "i < length (ast_structures (gx_ast ctx))") (simp_all add: list_update_same_conv not_less list_update_beyond)
  ultimately show ?thesis by simp
next
  case False
  obtain a1 ok1 ms off al where g: "create_struct_type i (gx_scope ctx) (gx_ast ctx) = Some a1"
      "layout_members a1 (gx_scope ctx) (members (ast_structures a1 ! i)) 0 1 = Some (ok1, ms, off, al)"
    using assms False by (auto simp: generateStruct_def split: Option.bind_splits)
  let ?a2 = "upd_struct i (\<lambda>st. st\<lparr>members := ms\<rparr>) a1"
  have c2: "map complete (ast_structures ?a2) = map complete (ast_structures (gx_ast ctx))"
    using create_struct_type_complete [OF g(1)] upd_struct_complete by auto
  show ?thesis
  proof (cases ok1)
    case False
    then have "ok = False" "gx_ast ctx' = ?a2"
      using assms g \<open>\<not> complete _\<close> by (auto simp: generateStruct_def Let_def gen_report_def split: if_splits)
    then show ?thesis using c2 by simp
  next
    case True
    then obtain n where "ok" "gx_ast ctx' = upd_struct i (\<lambda>st. st\<lparr>complete := True\<rparr>) (set_type_size n (align_up al off) ?a2)"
      using assms g \<open>\<not> complete _\<close> by (auto simp: generateStruct_def Let_def split: if_splits Option.bind_splits)
    moreover have "map complete (ast_structures (upd_struct i (\<lambda>st. st\<lparr>complete := True\<rparr>) b))
        = (map complete (ast_structures b))[i := True]" for b
      by (simp add: upd_struct_def map_update)
    moreover have "ast_structures (set_type_size n (align_up al off) ?a2) = ast_structures ?a2"
      by (simp add: set_type_size_def)
    ultimately show ?thesis using c2 by simp
  qed
qed

definition incomplete :: "AST \<Rightarrow> nat list \<Rightarrow> nat" where
  "incomplete a is = card {i \<in> set is. \<not> complete (ast_structures a ! i)}"

lemma complete_update:
  assumes "map complete (ast_structures a') = (map complete (ast_structures a))[i := True]" and "i < length (ast_structures a)"
    and "j < length (ast_structures a)"
  shows "complete (ast_structures a' ! j) \<longleftrightarrow> j = i \<or> complete (ast_structures a ! j)"
proof -
  have l: "length (ast_structures a') = length (ast_structures a)" using assms(1) by (metis length_list_update length_map)
  have "complete (ast_structures a' ! j) = ((map complete (ast_structures a))[i := True]) ! j"
    using assms(1,3) l by (metis nth_map)
  then show ?thesis using assms(2,3) by (simp add: nth_list_update)
qed

lemma check_structs_monotone:
  "check_structs is ctx = Some (ok, changed, ctx') \<Longrightarrow> set is \<subseteq> {..<length (ast_structures (gx_ast ctx))} \<Longrightarrow>
   length (ast_structures (gx_ast ctx')) = length (ast_structures (gx_ast ctx))
   \<and> (\<forall>j<length (ast_structures (gx_ast ctx)). complete (ast_structures (gx_ast ctx) ! j) \<longrightarrow> complete (ast_structures (gx_ast ctx') ! j))
   \<and> (changed \<longrightarrow> (\<exists>j\<in>set is. \<not> complete (ast_structures (gx_ast ctx) ! j) \<and> complete (ast_structures (gx_ast ctx') ! j)))"
proof (induction "is" ctx arbitrary: ok changed ctx' rule: check_structs.induct)
  case (2 i "is" ctx)
  show ?case
  proof (cases "complete (ast_structures (gx_ast ctx) ! i)")
    case True
    then have e: "check_structs is ctx = Some (ok, changed, ctx')" using "2.prems"(1) by simp
    show ?thesis using "2.IH"(1) [OF True e] "2.prems"(2) by auto
  next
    case False
    obtain yes c1 ok2 ch where g: "generateStruct i ctx = Some (yes, c1)" "check_structs is c1 = Some (ok2, ch, ctx')"
        "changed = (yes \<or> ch)"
    proof -
      have e: "generateStruct i ctx \<bind> (\<lambda>(yes, ctx1). check_structs is ctx1 \<bind>
          (\<lambda>(ok, changed, ctx2). Some (yes \<and> ok, yes \<or> changed, ctx2))) = Some (ok, changed, ctx')"
        using "2.prems"(1) False by simp
      from bind_Some_pair [OF e] obtain yes c1 where g: "generateStruct i ctx = Some (yes, c1)"
          "check_structs is c1 \<bind> (\<lambda>(ok, changed, ctx2). Some (yes \<and> ok, yes \<or> changed, ctx2)) = Some (ok, changed, ctx')"
        by blast
      from bind_Some_pair [OF g(2)] show thesis using g(1) that by auto
    qed
    note m = generateStruct_complete [OF g(1)]
    have l: "length (ast_structures (gx_ast c1)) = length (ast_structures (gx_ast ctx))"
      using m by (metis length_list_update length_map)
    have i: "i < length (ast_structures (gx_ast ctx))" using "2.prems"(2) by simp
    have up: "complete (ast_structures (gx_ast c1) ! j) \<longleftrightarrow> (yes \<and> j = i) \<or> complete (ast_structures (gx_ast ctx) ! j)"
      if "j < length (ast_structures (gx_ast ctx))" for j
    proof (cases yes)
      case True
      then show ?thesis using complete_update [OF _ i that] m by auto
    next
      case False
      then show ?thesis using m that l by (metis nth_map)
    qed
    have "set is \<subseteq> {..<length (ast_structures (gx_ast c1))}" using "2.prems"(2) l by auto
    note ih = "2.IH"(2) [OF False g(1) refl g(2) this]
    have mono: "complete (ast_structures (gx_ast ctx') ! j)"
      if "j < length (ast_structures (gx_ast ctx))" "complete (ast_structures (gx_ast c1) ! j)" for j
      using ih that l by simp
    have "\<exists>j\<in>set (i # is). \<not> complete (ast_structures (gx_ast ctx) ! j) \<and> complete (ast_structures (gx_ast ctx') ! j)"
      if now: changed
    proof (cases yes)
      case True
      then have "complete (ast_structures (gx_ast ctx') ! i)" using mono up i by blast
      then show ?thesis using False by auto
    next
      case no: False
      then obtain j where j: "j \<in> set is" "\<not> complete (ast_structures (gx_ast c1) ! j)"
          "complete (ast_structures (gx_ast ctx') ! j)"
        using now g(3) no ih by blast
      then have "\<not> complete (ast_structures (gx_ast ctx) ! j)" using up "2.prems"(2) by auto
      then show ?thesis using j by auto
    qed
    then show ?thesis
    proof (intro conjI impI)
      show "length (ast_structures (gx_ast ctx')) = length (ast_structures (gx_ast ctx))" using ih l by (elim conjE) (rule trans)
      show "\<forall>j<length (ast_structures (gx_ast ctx)). complete (ast_structures (gx_ast ctx) ! j) \<longrightarrow> complete (ast_structures (gx_ast ctx') ! j)"
        using mono up by blast
    qed
  qed
qed auto

text \<open>
  C20. The structures of a file are not tried forever: each time the task is put back to try again,
  twice the number of incomplete structures, plus one while the last try completed some, has
  become smaller.
\<close>

theorem struct_retries_end:
  assumes "do_structs t c = Some (c', Finishing t' True)" and "task_type t' = TASK_CHECK_STRUCTS"
    and "task_imp t = Some i"
    and "set (imp_structures (import_list c ! i)) \<subseteq> {..<length (ast_structures (comp_ast c))}"
  shows "2 * incomplete (comp_ast c') (imp_structures (import_list c ! i)) + (if no_change t' then 0 else 1)
    < 2 * incomplete (comp_ast c) (imp_structures (import_list c ! i)) + (if no_change t then 0 else 1)"
proof -
  let ?is = "imp_structures (import_list c ! i)"
  obtain ok changed a errs where s: "CheckStructs (comp_ast c) (import_list c ! i) (comp_errors c) True = Some (ok, changed, a, errs)"
    using assms(1,3) by (auto simp: do_structs_def split: Option.bind_splits)
  then obtain b ctx where ctx: "check_structs ?is ((new_context (comp_ast c) (comp_errors c) b (imp_stream (import_list c ! i)))
      \<lparr>gx_ignore_errors := True\<rparr>) = Some (ok, changed, ctx)" "a = gx_ast ctx"
    by (auto simp: CheckStructs_def dest!: bind_Some_pair split: Option.bind_splits)
  have r: "c' = c\<lparr>comp_ast := a, comp_errors := errs\<rparr>" "\<not> ok" "no_change t' = (\<not> changed)" "changed \<or> \<not> no_change t"
    using assms(1-3) s by (auto simp: do_structs_def Let_def split: if_splits Option.bind_splits)
  let ?S = "{j \<in> set ?is. \<not> complete (ast_structures (comp_ast c) ! j)}"
  let ?T = "{j \<in> set ?is. \<not> complete (ast_structures a ! j)}"
  have m: "\<forall>j<length (ast_structures (comp_ast c)). complete (ast_structures (comp_ast c) ! j) \<longrightarrow> complete (ast_structures a ! j)"
      "changed \<longrightarrow> (\<exists>j\<in>set ?is. \<not> complete (ast_structures (comp_ast c) ! j) \<and> complete (ast_structures a ! j))"
    using check_structs_monotone [OF ctx(1)] assms(4) ctx(2) by (simp_all add: new_context_def)
  have sub: "?T \<subseteq> ?S" using m(1) assms(4) by auto
  have "card ?T \<le> card ?S" using sub by (intro card_mono) auto
  moreover have "card ?T < card ?S" if changed
    using that m(2) sub by (intro psubset_card_mono) auto
  ultimately show ?thesis using r by (auto simp: incomplete_def)
qed

section \<open>Witnesses\<close>


definition root_import :: Import where
  "root_import = (new_import ''preload'')\<lparr>imp_body := Some 0\<rparr>"

text \<open>\<^verbatim>\<open>fun f(c: char, p: int*, n: int): bool\<close>, without a body.\<close>

definition frame_ast :: AST where
  "frame_ast = initial_ast\<lparr>ast_functions := [new_function\<lparr>fn_name := ''f'', return_typeString := ''bool'',
     fn_parameters := [native_param ''c'' ''char'', native_param ''p'' ''int*'', native_param ''n'' ''int'']\<rparr>]\<rparr>"

lemma frame_checked:
  "\<exists>a. CheckFunction frame_ast root_import 0 0 = Some (a, 0) \<and> 0 < length (ast_functions frame_ast)
     \<and> types_sized frame_ast
     \<and> map param_offset (fn_parameters (ast_functions a ! 0)) = [16, 24, 32]"
  by (simp add: CheckFunction_def root_import_def new_import_def struct_eval layout_return_def upd_function_def
      frame_ast_def new_function_def native_param_def declare_param_def
      param_alignment_def align_up_def types_sized_def primitive_size_def prim_def)

theorem parameter_layout_witness:
  "\<exists>a. CheckFunction frame_ast root_import 0 0 = Some (a, 0) \<and> 8 dvd parameters_size (ast_functions a ! 0)
     \<and> map param_offset (fn_parameters (ast_functions a ! 0)) = [16, 24, 32]"
proof -
  from frame_checked obtain a where g: "CheckFunction frame_ast root_import 0 0 = Some (a, 0)"
      "0 < length (ast_functions frame_ast)" "types_sized frame_ast"
      "map param_offset (fn_parameters (ast_functions a ! 0)) = [16, 24, 32]"
    by (elim exE conjE)
  have "8 dvd parameters_size (ast_functions a ! 0)"
    using parameter_layout [OF g(1-3)] unfolding Let_def by (elim conjE)
  then show ?thesis using g(1,4) by (intro exI conjI)
qed

theorem self_member_never_returns_witness:
  "\<exists>ctx. generateStruct 0 self_context = Some (True, ctx) \<and> gx_errors ctx = 0
     \<and> generatePush REG_B 0 (make_type 5 0) ctx = None \<and> generatePop REG_B 0 (make_type 5 0) ctx = None"
proof -
  from self_struct_complete obtain ctx where g: "generateStruct 0 self_context = Some (True, ctx)" "gx_errors ctx = 0"
      "struct_members (gx_ast ctx) (make_type 5 0) = Some (Some (members (ast_structures (gx_ast ctx) ! 0)))"
      "map mem_typeId (members (ast_structures (gx_ast ctx) ! 0)) = [make_type 5 0]"
    by (elim exE conjE)
  have "make_type 5 0 \<in> mem_typeId ` set (members (ast_structures (gx_ast ctx) ! 0))"
    using g(4) by (metis list.set_intros(1) list.set_map)
  moreover have "make_type 5 0 \<noteq> prim TYPE_VOID" by (simp add: make_type_def prim_def)
  ultimately have "generatePush REG_B 0 (make_type 5 0) ctx = None \<and> generatePop REG_B 0 (make_type 5 0) ctx = None"
    by (rule self_member_never_returns [OF g(3)])
  then show ?thesis using g(1,2) by (elim conjE) (intro exI conjI)
qed

text \<open>The three structures above as the only file of a compilation.\<close>

definition chain_compiler :: Compiler where
  "chain_compiler = (the (compile_init ''a''))\<lparr>comp_ast := gx_ast chain_context,
     import_list := [root_import\<lparr>imp_structures := [0, 1, 2]\<rparr>]\<rparr>"

definition chain_task :: Task where
  "chain_task = \<lparr>task_type = TASK_CHECK_STRUCTS, task_name = ''a'', task_imp = Some 0, no_change = False\<rparr>"

lemma chain_structs:
  "\<exists>ctx. check_structs [0, 1, 2] chain_context = Some (False, True, ctx)"
  using forward_struct_checked by (elim exE conjE) (intro exI)

lemma chain_compiler_sel:
  "comp_ast chain_compiler = gx_ast chain_context" "comp_errors chain_compiler = 0"
  "import_list chain_compiler ! 0 = root_import\<lparr>imp_structures := [0, 1, 2]\<rparr>"
proof -
  obtain c where c: "compile_init ''a'' = Some c"
    by (simp add: compile_init_def ast_init_eq Let_def split_beta)
  then show "comp_ast chain_compiler = gx_ast chain_context" "comp_errors chain_compiler = 0"
    "import_list chain_compiler ! 0 = root_import\<lparr>imp_structures := [0, 1, 2]\<rparr>"
    using compile_init_eq [OF c] by (simp_all add: chain_compiler_def)
qed

lemma chain_step:
  "\<exists>c. do_structs chain_task chain_compiler = Some (c, Finishing chain_task True)"
proof -
  obtain ctx where ctx: "check_structs [0, 1, 2] chain_context = Some (False, True, ctx)"
    using chain_structs by blast
  have "(new_context (gx_ast chain_context) 0 0 None)\<lparr>gx_ignore_errors := True\<rparr> = chain_context"
    by (simp add: chain_context_def new_context_def)
  then have "CheckStructs (gx_ast chain_context) (root_import\<lparr>imp_structures := [0, 1, 2]\<rparr>) 0 True
      = Some (False, True, gx_ast ctx, gx_errors ctx)"
    using ctx by (simp add: CheckStructs_def root_import_def new_import_def del: check_structs.simps)
  then show ?thesis
    by (simp add: do_structs_def chain_task_def chain_compiler_sel)
qed

theorem struct_retries_end_witness:
  "\<exists>c. do_structs chain_task chain_compiler = Some (c, Finishing chain_task True)
     \<and> incomplete (comp_ast c) [0, 1, 2] < incomplete (comp_ast chain_compiler) [0, 1, 2]"
proof -
  obtain c where c: "do_structs chain_task chain_compiler = Some (c, Finishing chain_task True)"
    using chain_step by blast
  have i: "imp_structures (import_list chain_compiler ! 0) = [0, 1, 2]" by (simp add: chain_compiler_sel)
  have "set (imp_structures (import_list chain_compiler ! 0)) \<subseteq> {..<length (ast_structures (comp_ast chain_compiler))}"
    unfolding i by (simp add: chain_compiler_sel chain_context_def new_context_def)
  from struct_retries_end [OF c _ _ this] c show ?thesis unfolding i by (simp add: chain_task_def)
qed

end
