(* ===== verification/ExprRefine.thy ===== *)
theory ExprRefine
  imports GeneratorCode VirtualMachine
begin

text \<open>
  The generator and the machine together.  Expressions on numbers and truth values are given a
  meaning of their own (\<^verbatim>\<open>eval\<close>), and the code \<^verbatim>\<open>generateExpression\<close> emits for them is shown to
  compute it when \<^verbatim>\<open>VirtualMachine::execute\<close> runs it: \<^verbatim>\<open>computes\<close> says it of a list of instructions,
  with the part of the stack it may use, \<^verbatim>\<open>refines\<close> of the code of an expression, and
  \<^verbatim>\<open>scalar_expression\<close> is the induction over the generator.
\<close>

section \<open>The expressions and their meaning\<close>

text \<open>
  Expressions on numbers and truth values: literals, local variables of type \<^verbatim>\<open>int\<close>, and the
  operators on them.
\<close>

definition scalar_operator :: "ExprKind \<Rightarrow> bool" where
  "scalar_operator k \<longleftrightarrow> arithmetic_kind k \<or> logical_kind k \<or> comparison_kind k"

definition int_local :: "AST \<Rightarrow> nat \<Rightarrow> string \<Rightarrow> int option" where
  "int_local a s nm =
    (case findVariable a nm s of
       Some (Some i) \<Rightarrow>
         if id_kind i = LOCAL_ID \<and> id_type i = prim TYPE_INT \<and> fits_i32 (id_offset i)
         then Some (id_offset i) else None
     | _ \<Rightarrow> None)"

fun scalar :: "AST \<Rightarrow> nat \<Rightarrow> ASTExpression \<Rightarrow> bool" where
  "scalar a s (ELitInt l v) = True"
| "scalar a s (ELitTrue l) = True"
| "scalar a s (ELitFalse l) = True"
| "scalar a s (EIdentifier l nm) = (int_local a s nm \<noteq> None)"
| "scalar a s (EUnary k l e) = (k = NOT' \<and> scalar a s e)"
| "scalar a s (EBinary k l e1 e2) = (scalar_operator k \<and> scalar a s e1 \<and> scalar a s e2)"
| "scalar a s e = False"

text \<open>
  The value, in 64 bits with wrap-around, given the values of the local variables by offset.
  Comparisons are signed.  A division without a result has no value.
\<close>

fun operation :: "ExprKind \<Rightarrow> i64 \<Rightarrow> i64 \<Rightarrow> i64 option" where
  "operation ADD x y = Some (x + y)"
| "operation SUB x y = Some (x - y)"
| "operation MUL x y = Some (x * y)"
| "operation DIV x y = signed_div x y"
| "operation AND' x y = Some (bool_reg (x \<noteq> 0 \<and> y \<noteq> 0))"
| "operation OR' x y = Some (bool_reg (x \<noteq> 0 \<or> y \<noteq> 0))"
| "operation EQUAL x y = Some (bool_reg (sint x = sint y))"
| "operation NOT_EQUAL x y = Some (bool_reg (sint x \<noteq> sint y))"
| "operation LESS x y = Some (bool_reg (sint x < sint y))"
| "operation GREATER x y = Some (bool_reg (sint x > sint y))"
| "operation LESS_EQUAL x y = Some (bool_reg (sint x \<le> sint y))"
| "operation GREATER_EQUAL x y = Some (bool_reg (sint x \<ge> sint y))"
| "operation k x y = None"

fun eval :: "AST \<Rightarrow> nat \<Rightarrow> (int \<Rightarrow> i64) \<Rightarrow> ASTExpression \<Rightarrow> i64 option" where
  "eval a s rd (ELitInt l v) = Some (scast v)"
| "eval a s rd (ELitTrue l) = Some 1"
| "eval a s rd (ELitFalse l) = Some 0"
| "eval a s rd (EIdentifier l nm) = map_option rd (int_local a s nm)"
| "eval a s rd (EUnary k l e) = do { x \<leftarrow> eval a s rd e; Some (bool_reg (x = 0)) }"
| "eval a s rd (EBinary k l e1 e2) =
     do { x \<leftarrow> eval a s rd e1; y \<leftarrow> eval a s rd e2; operation k x y }"
| "eval a s rd e = None"

text \<open>How many values the code of an expression has on the stack at once.\<close>

fun slots :: "ASTExpression \<Rightarrow> nat" where
  "slots (EUnary k l e) = slots e"
| "slots (EBinary k l e1 e2) = max (slots e1) (1 + slots e2)"
| "slots e = 1"

section \<open>Code at a position\<close>

definition code_at :: "BytecodePiece \<Rightarrow> nat \<Rightarrow> Instruction list \<Rightarrow> bool" where
  "code_at q n xs \<longleftrightarrow>
    n + length xs \<le> length (instructions q) \<and> (\<forall>j<length xs. instructions q ! (n + j) = xs ! j)"

lemma code_at_append: "code_at q n (xs @ ys) \<longleftrightarrow> code_at q n xs \<and> code_at q (n + length xs) ys"
proof
  assume c: "code_at q n (xs @ ys)"
  then have "\<forall>j<length xs. instructions q ! (n + j) = xs ! j"
    by (auto simp: code_at_def nth_append dest: spec)
  moreover have "instructions q ! (n + length xs + j) = ys ! j" if "j < length ys" for j
    using c that by (auto simp: code_at_def nth_append add.assoc dest!: spec [of _ "length xs + j"])
  ultimately show "code_at q n xs \<and> code_at q (n + length xs) ys" using c by (simp add: code_at_def)
next
  assume c: "code_at q n xs \<and> code_at q (n + length xs) ys"
  show "code_at q n (xs @ ys)"
    unfolding code_at_def
  proof (intro conjI allI impI)
    fix j assume j: "j < length (xs @ ys)"
    show "instructions q ! (n + j) = (xs @ ys) ! j"
    proof (cases "j < length xs")
      case True
      then show ?thesis using c by (simp add: code_at_def nth_append)
    next
      case False
      then obtain i where i: "j = length xs + i" using le_Suc_ex not_less by metis
      then show ?thesis using c j by (simp add: code_at_def nth_append add.assoc)
    qed
  qed (use c in \<open>simp add: code_at_def\<close>)
qed

lemma code_at_Cons: "code_at q n (x # xs) \<longleftrightarrow> code_at q n [x] \<and> code_at q (Suc n) xs"
  using code_at_append [of q n "[x]" xs] by simp

text \<open>The machine runs piece \<open>q\<close> and stands at position \<open>n\<close>.\<close>

definition runs_at :: "Bytecode \<Rightarrow> BytecodePiece \<Rightarrow> nat \<Rightarrow> VM \<Rightarrow> bool" where
  "runs_at bc q n vm \<longleftrightarrow>
    getPiece (vm_piece vm) bc = Some q \<and> registers vm REG_PC = of_nat n
    \<and> length (instructions q) < 2 ^ 63"

definition reaches :: "vm_env \<Rightarrow> Bytecode \<Rightarrow> VM \<Rightarrow> VM \<Rightarrow> bool" where
  "reaches env bc vm vm' \<longleftrightarrow> (\<exists>n. vm_steps n env bc vm = go vm')"

lemma reaches_refl: "reaches env bc vm vm"
  unfolding reaches_def by (rule exI [of _ 0]) simp

lemma vm_steps_add:
  "vm_steps m env bc vm = go vm1 \<Longrightarrow> vm_steps n env bc vm1 = r \<Longrightarrow> vm_steps (m + n) env bc vm = r"
  by (induction m arbitrary: vm) (auto split: Option.bind_splits option.splits)

lemma reaches_trans: "reaches env bc a b \<Longrightarrow> reaches env bc b c \<Longrightarrow> reaches env bc a c"
  unfolding reaches_def using vm_steps_add by blast

lemma reaches_step: "vm_step env bc a = go b \<Longrightarrow> reaches env bc a b"
  unfolding reaches_def by (rule exI [of _ 1]) simp

lemma reg_of_byte_byte [simp]: "reg_of_byte (reg_byte r) = Some r"
  using reg_num_less [of r] by (simp add: reg_of_byte_def all_registers_nth REG_COUNT_def all_registers_def)
    (cases r; simp add: all_registers_def)

lemma step_plain:
  assumes "runs_at bc q n vm" and "code_at q n [inst c x y z]" and "c < INST_LI"
  shows "vm_step env bc vm = exec_inst env (inst c x y z) 0 (set_reg REG_PC (of_nat (Suc n)) vm)"
proof -
  have n: "n < length (instructions q)" "instructions q ! n = inst c x y z"
    using assms(2) by (auto simp: code_at_def)
  then have "n < 2 ^ 64" using assms(1) by (simp add: runs_at_def)
  then have "unat (of_nat n :: i64) = n" by (simp add: unat_of_nat take_bit_nat_eq_self)
  moreover have "\<not> INST_LI \<le> c" using assms(3) by (simp add: less_le_not_le)
  ultimately show ?thesis
    using assms n by (simp add: vm_step_def runs_at_def Let_def add.commute)
qed

lemma step_imm:
  assumes "runs_at bc q n vm" and "code_at q n [inst c x y z, inst_of_cell (word_of_int v)]"
    and "INST_LI \<le> c" and "fits_i32 v"
  shows "vm_step env bc vm = exec_inst env (inst c x y z) v (set_reg REG_PC (of_nat (n + 2)) vm)"
proof -
  have n: "Suc n < length (instructions q)" "instructions q ! n = inst c x y z"
      "instructions q ! Suc n = inst_of_cell (word_of_int v)"
    using assms(2) by (auto simp: code_at_def less_Suc_eq)
  then have "n < 2 ^ 64" using assms(1) by (simp add: runs_at_def)
  then have u: "unat (of_nat n :: i64) = n" by (simp add: unat_of_nat take_bit_nat_eq_self)
  have "sint (cell_of_inst (inst_of_cell (word_of_int v))) = v"
    using int_of_i32_word_of_int [OF assms(4)] by (simp add: cell_of_inst_of_cell int_of_i32_def)
  then show ?thesis
    using assms n u by (simp add: vm_step_def runs_at_def Let_def not_le add.commute)
qed

section \<open>What the evaluation of an expression keeps\<close>

text \<open>Everything but registers \<open>A\<close>, \<open>D\<close> and the program counter, and memory below the stack pointer.\<close>

definition keeps_frame :: "nat \<Rightarrow> VM \<Rightarrow> VM \<Rightarrow> bool" where
  "keeps_frame k vm vm' \<longleftrightarrow>
    stack_base vm' = stack_base vm \<and> stack_max vm' = stack_max vm
    \<and> global_base vm' = global_base vm \<and> global_size vm' = global_size vm
    \<and> allocations vm' = allocations vm \<and> vm_piece vm' = vm_piece vm
    \<and> vm_output vm' = vm_output vm \<and> vm_files vm' = vm_files vm
    \<and> (\<forall>r. r \<notin> {REG_A, REG_D, REG_PC} \<longrightarrow> registers vm' r = registers vm r)
    \<and> (\<forall>x. k \<le> unat (x - stack_base vm) \<longrightarrow> vm_mem vm' x = vm_mem vm x)"

lemma keeps_frame_refl: "keeps_frame k vm vm"
  by (simp add: keeps_frame_def)

lemma keeps_frame_trans: "keeps_frame k a b \<Longrightarrow> keeps_frame k b c \<Longrightarrow> keeps_frame k a c"
  by (simp add: keeps_frame_def)

lemma keeps_frame_reg: "r \<in> {REG_A, REG_D, REG_PC} \<Longrightarrow> keeps_frame k vm (set_reg r v vm)"
  by (auto simp: keeps_frame_def)

lemma keeps_frame_sp_at: "keeps_frame k vm vm' \<Longrightarrow> sp_at vm' j = sp_at vm j"
  by (simp add: keeps_frame_def sp_at_def)

lemma keeps_frame_wf: "keeps_frame k vm vm' \<Longrightarrow> wf_vm vm' = wf_vm vm"
  by (simp add: keeps_frame_def wf_vm_def)

lemma keeps_frame_runs: "keeps_frame k vm vm' \<Longrightarrow> runs_at bc q n vm \<Longrightarrow> registers vm' REG_PC = of_nat m \<Longrightarrow>
   runs_at bc q m vm'"
  by (simp add: keeps_frame_def runs_at_def)


section \<open>Single instructions\<close>

abbreviation move_pc :: "nat \<Rightarrow> VM \<Rightarrow> VM" where
  "move_pc n vm \<equiv> set_reg REG_PC (of_nat n) vm"

lemma run_li:
  assumes "runs_at bc q n vm" and "code_at q n [inst INST_LI (reg_byte r) 0 0, inst_of_cell (word_of_int v)]" "fits_i32 v"
  shows "reaches env bc vm (set_reg r (word_of_int v) (move_pc (n + 2) vm))"
  by (rule reaches_step, subst step_imm [OF assms(1,2) _ assms(3)])
    (simp_all add: exec_inst_def)

lemma run_push:
  assumes "runs_at bc q n vm" and "code_at q n [inst INST_PUSH (reg_byte r) 0 0]"
    and "wf_vm vm" and "sp_at vm k" and "8 \<le> k"
  shows "reaches env bc vm (pushed 8 (\<lambda>s. registers s r) (move_pc (Suc n) vm))"
proof (rule reaches_step)
  have "wf_vm (move_pc (Suc n) vm)" "sp_at (move_pc (Suc n) vm) k"
    using assms(3,4) by (simp_all add: wf_vm_def sp_at_def)
  from push_value_eq(1) [OF this assms(5)]
  show "vm_step env bc vm = go (pushed 8 (\<lambda>s. registers s r) (move_pc (Suc n) vm))"
    by (subst step_plain [OF assms(1,2)]) (simp_all add: exec_inst_def less_Opcode_def)
qed

lemma run_pop:
  assumes "runs_at bc q n vm" and "code_at q n [inst INST_POP (reg_byte r) 0 0]"
    and "wf_vm vm" and "sp_at vm k" and "k + 8 \<le> stack_max vm" and "r \<noteq> REG_SP"
  shows "reaches env bc vm (move_sp 8 (set_reg r (load (vm_mem vm) (registers vm REG_SP) 8) (move_pc (Suc n) vm)))"
proof (rule reaches_step)
  have w: "wf_vm (move_pc (Suc n) vm)" "sp_at (move_pc (Suc n) vm) k" "k + 8 \<le> stack_max (move_pc (Suc n) vm)"
    using assms(3-5) by (simp_all add: wf_vm_def sp_at_def)
  from pop_value_eq(1) [OF w, of "set_reg r"] assms(6)
  show "vm_step env bc vm = go (move_sp 8 (set_reg r (load (vm_mem vm) (registers vm REG_SP) 8) (move_pc (Suc n) vm)))"
    by (subst step_plain [OF assms(1,2)]) (simp_all add: exec_inst_def less_Opcode_def)
qed

lemma run_two:
  assumes "runs_at bc q n vm" and "code_at q n [inst c (reg_byte r) (reg_byte r') z]"
    and "c \<in> {INST_ADD, INST_SUB, INST_MUL, INST_DIV, INST_AND, INST_OR, INST_NOT, INST_EQUAL,
      INST_NOT_EQUAL, INST_LESS, INST_GREATER, INST_LESS_EQUAL, INST_GREATER_EQUAL}"
    and "exec_two env c z r r' (move_pc (Suc n) vm) = go vm'"
  shows "reaches env bc vm vm'"
proof (rule reaches_step)
  have "c < INST_LI" using assms(3) by (auto simp: less_Opcode_def)
  from step_plain [OF assms(1,2) this]
  have "vm_step env bc vm = exec_inst env (inst c (reg_byte r) (reg_byte r') z) 0 (move_pc (Suc n) vm)" .
  also have "\<dots> = exec_two env c z r r' (move_pc (Suc n) vm)"
    using assms(3) by (elim insertE emptyE; simp add: exec_inst_def)
  finally show "vm_step env bc vm = go vm'" using assms(4) by simp
qed

text \<open>Where a local variable lies, and what it holds.\<close>

definition local_holds :: "VM \<Rightarrow> nat \<Rightarrow> (int \<Rightarrow> i64) \<Rightarrow> int \<Rightarrow> bool" where
  "local_holds vm k rd off \<longleftrightarrow>
    (\<exists>j. registers vm REG_BP + word_of_int off = stack_base vm + of_nat j
       \<and> k \<le> j \<and> j + 4 \<le> stack_max vm)
    \<and> load (vm_mem vm) (registers vm REG_BP + word_of_int off) 4 = rd off"

lemma local_holds_less: "local_holds vm k rd off \<Longrightarrow> j \<le> k \<Longrightarrow> local_holds vm j rd off"
  by (auto simp: local_holds_def intro: order_trans)

lemma unat_stack: "j \<le> stack_max vm \<Longrightarrow> wf_vm vm \<Longrightarrow> unat (of_nat j :: i64) = j"
  by (auto simp: wf_vm_def unat_of_nat take_bit_nat_eq_self)

lemma local_holds_kept:
  assumes "local_holds vm k rd off" and "keeps_frame k vm vm'" and "wf_vm vm"
  shows "local_holds vm' k rd off"
proof -
  obtain j where j: "registers vm REG_BP + word_of_int off = stack_base vm + of_nat j" "k \<le> j" "j + 4 \<le> stack_max vm"
    using assms(1) by (auto simp: local_holds_def)
  have r: "registers vm' REG_BP = registers vm REG_BP" "stack_base vm' = stack_base vm" "stack_max vm' = stack_max vm"
    using assms(2) by (simp_all add: keeps_frame_def)
  have "load (vm_mem vm') (stack_base vm + of_nat j) 4 = load (vm_mem vm) (stack_base vm + of_nat j) 4"
  proof (rule load_cong)
    fix i assume i: "i < (4 :: nat)"
    have e: "stack_base vm + of_nat j + of_nat i - stack_base vm = (of_nat (j + i) :: i64)" by simp
    have "unat (of_nat (j + i) :: i64) = j + i" using i j(3) assms(3) by (intro unat_stack) auto
    then have "k \<le> unat (stack_base vm + of_nat j + of_nat i - stack_base vm)" unfolding e using j(2) by linarith
    then show "vm_mem vm' (stack_base vm + of_nat j + of_nat i) = vm_mem vm (stack_base vm + of_nat j + of_nat i)"
      using assms(2) unfolding keeps_frame_def by blast
  qed
  then show ?thesis using assms(1) r j unfolding local_holds_def by auto
qed

lemma can_access_stack:
  assumes "wf_vm vm" and "j + n \<le> stack_max vm"
  shows "can_access_memory vm (stack_base vm + of_nat j) (int n)"
proof -
  have "(of_nat j :: i64) + of_nat n \<le> of_nat (stack_max vm)"
    using unat_stack [OF assms(2,1)] unat_stack [of "stack_max vm" vm] assms
    by (simp add: word_le_nat_alt flip: of_nat_add)
  then show ?thesis by (simp add: can_access_memory_def region_check_def)
qed

lemma exec_load_local:
  assumes "wf_vm vm" and "local_holds vm k rd off" and "registers vm' = (registers vm)(REG_PC := p)"
    and "vm_mem vm' = vm_mem vm" "stack_base vm' = stack_base vm" "stack_max vm' = stack_max vm"
    "wf_vm vm'"
  shows "exec_load REG_A REG_BP 4 off vm' = go (set_reg REG_A (rd off) (set_reg REG_A 0 vm'))"
proof -
  obtain j where j: "registers vm REG_BP + word_of_int off = stack_base vm + of_nat j" "j + 4 \<le> stack_max vm"
      "load (vm_mem vm) (registers vm REG_BP + word_of_int off) 4 = rd off"
    using assms(2) by (auto simp: local_holds_def)
  have "can_access_memory vm' (stack_base vm' + of_nat j) (int 4)" "mapped vm' (stack_base vm' + of_nat j) 4"
    using can_access_stack [of vm' j 4] mapped_stack [of j 4 vm'] assms j(2) by auto
  then show ?thesis using assms j by (simp add: exec_load_def Let_def raw_load_def mov_sizes_def)
qed

lemma run_load:
  assumes "runs_at bc q n vm" and "wf_vm vm" and "local_holds vm k rd off" and "fits_i32 off"
    and "code_at q n (if off = 0 then [inst INST_MOV_RM (reg_byte REG_A) (reg_byte REG_BP) 4]
      else [inst INST_MOV_RM_DISP (reg_byte REG_A) (reg_byte REG_BP) 4, inst_of_cell (word_of_int off)])"
  shows "reaches env bc vm (set_reg REG_A (rd off) (set_reg REG_A 0 (move_pc (n + (if off = 0 then 1 else 2)) vm)))"
proof (rule reaches_step)
  have l: "exec_load REG_A REG_BP 4 off (move_pc m vm) = go (set_reg REG_A (rd off) (set_reg REG_A 0 (move_pc m vm)))" for m
    using assms(2,3) by (intro exec_load_local) (simp_all add: wf_vm_def)
  show "vm_step env bc vm = go (set_reg REG_A (rd off) (set_reg REG_A 0 (move_pc (n + (if off = 0 then 1 else 2)) vm)))"
  proof (cases "off = 0")
    case True
    then have c: "code_at q n [inst INST_MOV_RM (reg_byte REG_A) (reg_byte REG_BP) 4]" using assms(5) by simp
    show ?thesis
      using l [of "Suc n"] True by (subst step_plain [OF assms(1) c]) (simp_all add: exec_inst_def less_Opcode_def)
  next
    case False
    then have c: "code_at q n [inst INST_MOV_RM_DISP (reg_byte REG_A) (reg_byte REG_BP) 4, inst_of_cell (word_of_int off)]"
      using assms(5) by simp
    show ?thesis
      using l [of "n + 2"] False by (subst step_imm [OF assms(1) c _ assms(4)]) (simp_all add: exec_inst_def less_eq_Opcode_def)
  qed
qed


section \<open>The code of an expression\<close>

definition push_A :: Instruction where "push_A = inst INST_PUSH (reg_byte REG_A) 0 0"

text \<open>\<open>xs\<close> is what was added, but for the push of \<open>A\<close> that ends it and that a pop may remove.\<close>

definition grows :: "BytecodePiece \<Rightarrow> Instruction list \<Rightarrow> BytecodePiece \<Rightarrow> bool" where
  "grows p xs p' \<longleftrightarrow>
    instructions p' = instructions p @ xs @ [push_A] \<and> index_of_non_immediates p' \<noteq> []
    \<and> last (index_of_non_immediates p') = length (instructions p) + length xs"

definition load_code :: "int \<Rightarrow> Instruction list" where
  "load_code off = (if off = 0 then [inst INST_MOV_RM (reg_byte REG_A) (reg_byte REG_BP) 4]
      else [inst INST_MOV_RM_DISP (reg_byte REG_A) (reg_byte REG_BP) 4, inst_of_cell (word_of_int off)])"

fun op_code :: "ExprKind \<Rightarrow> Opcode" where
  "op_code ADD = INST_ADD" | "op_code SUB = INST_SUB" | "op_code MUL = INST_MUL" | "op_code DIV = INST_DIV"
| "op_code AND' = INST_AND" | "op_code OR' = INST_OR" | "op_code EQUAL = INST_EQUAL"
| "op_code NOT_EQUAL = INST_NOT_EQUAL" | "op_code LESS = INST_LESS" | "op_code GREATER = INST_GREATER"
| "op_code LESS_EQUAL = INST_LESS_EQUAL" | "op_code GREATER_EQUAL = INST_GREATER_EQUAL"
| "op_code k = INST_NOP"

definition op_inst :: "ExprKind \<Rightarrow> Instruction" where
  "op_inst k = inst (op_code k) (reg_byte REG_A) (reg_byte REG_D) (if comparison_kind k then 4 else 0)"

lemma scalar_operator_cases:
  assumes "scalar_operator k"
  obtains "k = ADD" | "k = SUB" | "k = MUL" | "k = DIV" | "k = AND'" | "k = OR'" | "k = EQUAL" | "k = NOT_EQUAL"
    | "k = LESS" | "k = GREATER" | "k = LESS_EQUAL" | "k = GREATER_EQUAL"
  using assms by (auto simp: scalar_operator_def arithmetic_kind_def logical_kind_def comparison_kind_def)

lemma emit_operation_inst:
  assumes "scalar_operator k" and "comparison_kind k \<Longrightarrow> sz = 4"
  shows "emit_operation k sz False p = emit (op_inst k) p"
  using assms(1)
  by (rule scalar_operator_cases)
    (use assms(2) in \<open>simp_all add: emit_operation_def op_inst_def comparison_kind_def emit_add_def emit_mul_def
      emit2f_def emit2_def emit2c_def CONTROL_NONE_def\<close>)

lemma op_code_neq_push: "opcode (op_inst k) \<noteq> opcode_byte INST_PUSH"
  by (cases k) (simp_all add: op_inst_def)

lemma grows_push:
  "instructions p1 = instructions p @ xs \<Longrightarrow> grows p xs (emit_push REG_A p1)"
  by (simp add: grows_def emit_push_def Let_def piece_simps push_A_def)

lemma grows_constant: "grows p [inst INST_LI (reg_byte REG_A) 0 0, inst_of_cell (word_of_int v)] (push_constant v p)"
  unfolding push_constant_def by (rule grows_push) (simp add: emit_li_def piece_simps)

lemma grows_load: "grows p (load_code off) (push_value_at REG_BP off 4 p)"
  unfolding push_value_at_def
  by (rule grows_push) (simp add: emit_mov_rm_disp_def emit_mov_rm_def piece_simps load_code_def)

lemma grows_pop_A:
  assumes "grows p xs p1"
  shows "instructions (emit_pop REG_A p1) = instructions p @ xs"
  using assms by (simp add: grows_def emit_pop_def Let_def pop_last_inst_def push_A_def nth_append)

lemma grows_pop_D:
  assumes "grows p xs p1"
  shows "instructions (emit_pop REG_D p1) = instructions p1 @ [inst INST_POP (reg_byte REG_D) 0 0]
    \<and> last (index_of_non_immediates (emit_pop REG_D p1)) = length (instructions p1)
    \<and> index_of_non_immediates (emit_pop REG_D p1) \<noteq> []"
proof -
  have "reg_byte REG_A \<noteq> reg_byte REG_D" by (simp add: reg_byte_def)
  then show ?thesis
    using assms by (simp add: grows_def emit_pop_def Let_def push_A_def nth_append piece_simps)
qed

lemma grows_not: "grows p xs p1 \<Longrightarrow> grows p (xs @ [inst INST_NOT (reg_byte REG_A) (reg_byte REG_A) 0]) (negate_top p1)"
  unfolding negate_top_def
  by (rule grows_push) (simp add: emit_not_def emit2_def piece_simps grows_pop_A)

definition binary_code :: "ExprKind \<Rightarrow> Instruction list" where
  "binary_code k = [push_A, inst INST_POP (reg_byte REG_D) 0 0, inst INST_POP (reg_byte REG_A) 0 0, op_inst k]"

lemma grows_binary:
  assumes "grows p xs p1" and "grows p1 ys p2" and "scalar_operator k" and "comparison_kind k \<Longrightarrow> sz = 4"
  shows "grows p (xs @ [push_A] @ ys @ binary_code k)
    (emit_push REG_A (emit_operation k sz False (pop_operand REG_A False t (pop_operand REG_D False t' p2))))"
proof (rule grows_push)
  let ?p3 = "emit_pop REG_D p2"
  have p3: "instructions ?p3 = instructions p @ xs @ [push_A] @ ys @ [push_A, inst INST_POP (reg_byte REG_D) 0 0]"
    using grows_pop_D [OF assms(2)] assms(1,2) by (simp add: grows_def)
  have l: "instructions ?p3 ! last (index_of_non_immediates ?p3) = inst INST_POP (reg_byte REG_D) 0 0"
    using grows_pop_D [OF assms(2)] by simp
  have "instructions (emit_pop REG_A ?p3) = instructions ?p3 @ [inst INST_POP (reg_byte REG_A) 0 0]"
    using l by (subst emit_pop_def) (simp add: Let_def piece_simps)
  then show "instructions (emit_operation k sz False (pop_operand REG_A False t (pop_operand REG_D False t' p2)))
      = instructions p @ xs @ [push_A] @ ys @ binary_code k"
    using p3 emit_operation_inst [OF assms(3,4)]
    by (simp add: pop_operand_def piece_simps binary_code_def)
qed


section \<open>Executing the code\<close>

text \<open>The same without the stack pointer, for the states in between.\<close>

definition near :: "nat \<Rightarrow> VM \<Rightarrow> VM \<Rightarrow> bool" where
  "near k vm vm' \<longleftrightarrow> keeps_frame k vm (set_reg REG_SP (registers vm REG_SP) vm')"

lemma near_iff: "near k vm vm' \<longleftrightarrow>
    stack_base vm' = stack_base vm \<and> stack_max vm' = stack_max vm
    \<and> global_base vm' = global_base vm \<and> global_size vm' = global_size vm
    \<and> allocations vm' = allocations vm \<and> vm_piece vm' = vm_piece vm
    \<and> vm_output vm' = vm_output vm \<and> vm_files vm' = vm_files vm
    \<and> (\<forall>r. r \<in> {REG_A, REG_D, REG_PC, REG_SP} \<or> registers vm' r = registers vm r)
    \<and> (\<forall>x. k \<le> unat (x - stack_base vm) \<longrightarrow> vm_mem vm' x = vm_mem vm x)"
  by (auto simp: near_def keeps_frame_def)

lemma near_keeps: "near k vm vm' \<Longrightarrow> registers vm' REG_SP = registers vm REG_SP \<Longrightarrow> keeps_frame k vm vm'"
  unfolding near_iff keeps_frame_def by (metis insertE insertI1 insertI2 singletonD)

lemma near_trans: "near k a b \<Longrightarrow> near k b c \<Longrightarrow> near k a c"
  unfolding near_iff by metis

lemma keeps_near: "keeps_frame j vm vm' \<Longrightarrow> j \<le> k \<Longrightarrow> near k vm vm'"
  unfolding near_def keeps_frame_def by auto

lemma near_pushed:
  assumes "wf_vm vm" and "sp_at vm j" and "8 \<le> j" and "j \<le> k"
  shows "near k vm (pushed 8 f vm)"
proof -
  have "vm_mem (pushed 8 f vm) x = vm_mem vm x" if x: "k \<le> unat (x - stack_base vm)" for x
  proof -
    have "x \<noteq> registers vm REG_SP - 8 + of_nat i" if "i < 8" for i
    proof
      assume e: "x = registers vm REG_SP - 8 + of_nat i"
      have "x - stack_base vm = of_nat (j - 8 + i)" using e assms(2,3) by (simp add: sp_at_def)
      moreover have "unat (of_nat (j - 8 + i) :: i64) = j - 8 + i"
        using assms that by (intro unat_stack [of _ vm]) (auto simp: sp_at_def)
      ultimately show False using x assms(3,4) that by simp
    qed
    then show ?thesis by (simp add: store_other)
  qed
  then show ?thesis
    unfolding near_def keeps_frame_def
    by (simp add: pushed_def move_sp_def Let_def)
qed

lemma near_set: "r \<in> {REG_A, REG_D, REG_PC, REG_SP} \<Longrightarrow> near k vm (set_reg r v vm)"
  by (auto simp: near_def keeps_frame_def)

lemma near_move_sp: "near k vm (move_sp d vm)"
  by (simp add: move_sp_def near_set)

definition computes ::
  "vm_env \<Rightarrow> Bytecode \<Rightarrow> BytecodePiece \<Rightarrow> nat \<Rightarrow> Instruction list \<Rightarrow> nat \<Rightarrow> int set \<Rightarrow> (int \<Rightarrow> i64) \<Rightarrow> i64 \<Rightarrow> bool"
where
  "computes env bc q n xs m offs rd w \<longleftrightarrow>
    (\<forall>vm k. runs_at bc q n vm \<and> wf_vm vm \<and> sp_at vm k \<and> 8 * m \<le> k \<and> (\<forall>off\<in>offs. local_holds vm k rd off) \<longrightarrow>
      (\<exists>vm'. reaches env bc vm vm' \<and> runs_at bc q (n + length xs) vm' \<and> registers vm' REG_A = w
         \<and> keeps_frame k vm vm'))"

lemma computesD:
  assumes "computes env bc q n xs m offs rd w" and "runs_at bc q n vm" "wf_vm vm" "sp_at vm k" "8 * m \<le> k"
    "\<forall>off\<in>offs. local_holds vm k rd off"
  obtains vm' where "reaches env bc vm vm'" "runs_at bc q (n + length xs) vm'" "registers vm' REG_A = w"
    "keeps_frame k vm vm'"
  using assms unfolding computes_def by blast

lemma computes_mono: "computes env bc q n xs m offs rd w \<Longrightarrow> m \<le> m' \<Longrightarrow> offs \<subseteq> offs' \<Longrightarrow> computes env bc q n xs m' offs' rd w"
  unfolding computes_def by (meson le_trans mult_le_mono2 subsetD)

lemma computes_constant:
  assumes "code_at q n [inst INST_LI (reg_byte REG_A) 0 0, inst_of_cell (word_of_int v)]" and "fits_i32 v"
  shows "computes env bc q n [inst INST_LI (reg_byte REG_A) 0 0, inst_of_cell (word_of_int v)] m offs rd (word_of_int v)"
  unfolding computes_def
proof (intro allI impI, elim conjE)
  fix vm k assume r: "runs_at bc q n vm"
  let ?v = "set_reg REG_A (word_of_int v) (move_pc (n + 2) vm)"
  have k: "keeps_frame k vm ?v" by (auto simp: keeps_frame_def)
  have "runs_at bc q (n + 2) ?v" by (rule keeps_frame_runs [OF k r]) simp
  then show "\<exists>vm'. reaches env bc vm vm'
      \<and> runs_at bc q (n + length [inst INST_LI (reg_byte REG_A) 0 0, inst_of_cell (word_of_int v)]) vm'
      \<and> registers vm' REG_A = word_of_int v \<and> keeps_frame k vm vm'"
    using run_li [OF r assms] k by (intro exI [of _ ?v]) (simp add: numeral_2_eq_2)
qed

lemma computes_load:
  assumes "code_at q n (load_code off)" and "fits_i32 off"
  shows "computes env bc q n (load_code off) m {off} rd (rd off)"
  unfolding computes_def
proof (intro allI impI, elim conjE)
  fix vm k assume r: "runs_at bc q n vm" and w: "wf_vm vm" and l: "\<forall>off\<in>{off}. local_holds vm k rd off"
  let ?v = "set_reg REG_A (rd off) (set_reg REG_A 0 (move_pc (n + (if off = 0 then 1 else 2)) vm))"
  have k: "keeps_frame k vm ?v" by (auto simp: keeps_frame_def)
  have "runs_at bc q (n + (if off = 0 then 1 else 2)) ?v" by (rule keeps_frame_runs [OF k r]) simp
  moreover have "length (load_code off) = (if off = 0 then 1 else 2)" by (simp add: load_code_def)
  ultimately have "runs_at bc q (n + length (load_code off)) ?v" by (simp only:)
  moreover have "reaches env bc vm ?v" using run_load [OF r w _ assms(2)] l assms(1) by (simp add: load_code_def)
  ultimately show "\<exists>vm'. reaches env bc vm vm' \<and> runs_at bc q (n + length (load_code off)) vm'
      \<and> registers vm' REG_A = rd off \<and> keeps_frame k vm vm'"
    using k by (intro exI [of _ ?v]) simp
qed

lemma computes_not:
  assumes "computes env bc q n xs m offs rd x"
    and "code_at q n (xs @ [inst INST_NOT (reg_byte REG_A) (reg_byte REG_A) 0])"
  shows "computes env bc q n (xs @ [inst INST_NOT (reg_byte REG_A) (reg_byte REG_A) 0]) m offs rd (bool_reg (x = 0))"
  unfolding computes_def
proof (intro allI impI, elim conjE)
  fix vm k assume h: "runs_at bc q n vm" "wf_vm vm" "sp_at vm k" "8 * m \<le> k" "\<forall>off\<in>offs. local_holds vm k rd off"
  obtain v1 where v1: "reaches env bc vm v1" "runs_at bc q (n + length xs) v1" "registers v1 REG_A = x"
    "keeps_frame k vm v1" by (rule computesD [OF assms(1) h])
  let ?v = "set_reg REG_A (bool_reg (x = 0)) (move_pc (Suc (n + length xs)) v1)"
  have c: "code_at q (n + length xs) [inst INST_NOT (reg_byte REG_A) (reg_byte REG_A) 0]"
    using assms(2) by (simp add: code_at_append)
  have "reaches env bc v1 ?v"
    by (rule run_two [OF v1(2) c]) (use v1(3) in \<open>simp_all add: exec_two_def\<close>)
  then have r: "reaches env bc vm ?v" using v1(1) reaches_trans by blast
  have "keeps_frame k v1 ?v" by (auto simp: keeps_frame_def)
  then have k: "keeps_frame k vm ?v" using v1(4) keeps_frame_trans by blast
  have "runs_at bc q (n + length (xs @ [inst INST_NOT (reg_byte REG_A) (reg_byte REG_A) 0])) ?v"
    by (rule keeps_frame_runs [OF k h(1)]) simp
  then show "\<exists>vm'. reaches env bc vm vm'
      \<and> runs_at bc q (n + length (xs @ [inst INST_NOT (reg_byte REG_A) (reg_byte REG_A) 0])) vm'
      \<and> registers vm' REG_A = bool_reg (x = 0) \<and> keeps_frame k vm vm'"
    using r k by (intro exI [of _ ?v]) simp
qed

lemma op_inst_executes:
  assumes "scalar_operator k" and "operation k (registers vm REG_A) (registers vm REG_D) = Some w"
  shows "exec_two env (op_code k) (if comparison_kind k then 4 else 0) REG_A REG_D vm = go (set_reg REG_A w vm)"
  using assms(1)
  by (rule scalar_operator_cases)
    (use assms(2) in \<open>simp_all add: exec_two_def exec_arith_def exec_compare_def is_float_op_def comparison_kind_def
      CONTROL_FLOAT_def CONTROL_1B_def Let_def\<close>)


text \<open>A push and what is known after it.\<close>

lemma push_A_step:
  assumes "runs_at bc q n vm" and "code_at q n [push_A]" and "wf_vm vm" and "sp_at vm k" and "8 \<le> k"
  obtains vm' where "reaches env bc vm vm'" "runs_at bc q (Suc n) vm'" "wf_vm vm'" "sp_at vm' (k - 8)"
    "near k vm vm'" "registers vm' = (registers vm)(REG_PC := of_nat (Suc n), REG_SP := registers vm REG_SP - 8)"
    "load (vm_mem vm') (registers vm' REG_SP) 8 = registers vm REG_A"
proof -
  let ?v = "move_pc (Suc n) vm" let ?p = "pushed 8 (\<lambda>s. registers s REG_A) ?v"
  have w: "wf_vm ?v" "sp_at ?v k" using assms(3,4) by (simp_all add: wf_vm_def sp_at_def)
  have n1: "near k vm ?v" by (rule near_set) simp
  have n2: "near k ?v ?p" by (rule near_pushed [OF w assms(5)]) simp
  have r: "registers ?p = (registers vm)(REG_PC := of_nat (Suc n), REG_SP := registers vm REG_SP - 8)"
    by (simp add: fun_eq_iff)
  show thesis
  proof (rule that)
    show "reaches env bc vm ?p" using run_push [OF assms(1) _ assms(3-5)] assms(2) by (simp add: push_A_def)
    show "runs_at bc q (Suc n) ?p" using assms(1) by (simp add: runs_at_def)
    show "wf_vm ?p" using assms(3) by (simp add: wf_vm_def)
    show "sp_at ?p (k - 8)" by (rule push_value_eq(2) [OF w assms(5)])
    show "near k vm ?p" using n1 n2 by (rule near_trans)
    show "registers ?p = (registers vm)(REG_PC := of_nat (Suc n), REG_SP := registers vm REG_SP - 8)" by (rule r)
    show "load (vm_mem ?p) (registers ?p REG_SP) 8 = registers vm REG_A"
      by (simp add: load_store_same move_sp_def take_bit_word_eq_self)
  qed
qed

lemma pop_step:
  assumes "runs_at bc q n vm" and "code_at q n [inst INST_POP (reg_byte r) 0 0]" and "wf_vm vm" and "sp_at vm k"
    and "k + 8 \<le> stack_max vm" and "r \<in> {REG_A, REG_D}"
  obtains vm' where "reaches env bc vm vm'" "runs_at bc q (Suc n) vm'" "wf_vm vm'" "sp_at vm' (k + 8)"
    "near j vm vm'" "vm_mem vm' = vm_mem vm"
    "registers vm' = (registers vm)(REG_PC := of_nat (Suc n), r := load (vm_mem vm) (registers vm REG_SP) 8,
       REG_SP := registers vm REG_SP + 8)"
proof -
  let ?v = "move_sp 8 (set_reg r (load (vm_mem vm) (registers vm REG_SP) 8) (move_pc (Suc n) vm))"
  have rn: "r \<noteq> REG_SP" "r \<noteq> REG_PC" using assms(6) by auto
  show thesis
  proof (rule that)
    show "reaches env bc vm ?v" by (rule run_pop [OF assms(1-5) rn(1)])
    show "runs_at bc q (Suc n) ?v" using assms(1) rn by (simp add: runs_at_def move_sp_def)
    show "wf_vm ?v" using assms(3) by (simp add: wf_vm_def move_sp_def)
    show "sp_at ?v (k + 8)" using assms(4,5) rn by (simp add: sp_at_def move_sp_def)
    have "near j vm (move_pc (Suc n) vm)" by (rule near_set) simp
    moreover have "near j (move_pc (Suc n) vm) (set_reg r (load (vm_mem vm) (registers vm REG_SP) 8) (move_pc (Suc n) vm))"
      by (rule near_set) (use assms(6) in auto)
    ultimately show "near j vm ?v" using near_move_sp near_trans by blast
    show "registers ?v = (registers vm)(REG_PC := of_nat (Suc n), r := load (vm_mem vm) (registers vm REG_SP) 8,
       REG_SP := registers vm REG_SP + 8)"
      using rn by (simp add: fun_eq_iff move_sp_def)
  qed (simp add: move_sp_def)
qed

lemma computes_binary:
  assumes A: "computes env bc q n xs m1 offs rd x" and B: "computes env bc q (Suc (n + length xs)) ys m2 offs rd y"
    and code: "code_at q n (xs @ [push_A] @ ys @ binary_code k)" and k: "scalar_operator k"
    and w: "operation k x y = Some w" and m: "1 \<le> m2"
  shows "computes env bc q n (xs @ [push_A] @ ys @ binary_code k) (max m1 (1 + m2)) offs rd w"
  unfolding computes_def
proof (intro allI impI, elim conjE)
  fix vm j
  assume h: "runs_at bc q n vm" "wf_vm vm" "sp_at vm j" "8 * max m1 (1 + m2) \<le> j" "\<forall>off\<in>offs. local_holds vm j rd off"
  let ?n1 = "n + length xs" let ?n3 = "Suc ?n1 + length ys"
  have c: "code_at q ?n1 [push_A]" "code_at q ?n3 [push_A]" "code_at q (Suc ?n3) [inst INST_POP (reg_byte REG_D) 0 0]"
      "code_at q (Suc (Suc ?n3)) [inst INST_POP (reg_byte REG_A) 0 0]" "code_at q (Suc (Suc (Suc ?n3))) [op_inst k]"
  proof -
    have e: "xs @ [push_A] @ ys @ binary_code k = xs @ [push_A] @ ys @ [push_A]
        @ [inst INST_POP (reg_byte REG_D) 0 0] @ [inst INST_POP (reg_byte REG_A) 0 0] @ [op_inst k]"
      by (simp add: binary_code_def)
    show "code_at q ?n1 [push_A]" "code_at q ?n3 [push_A]" "code_at q (Suc ?n3) [inst INST_POP (reg_byte REG_D) 0 0]"
      "code_at q (Suc (Suc ?n3)) [inst INST_POP (reg_byte REG_A) 0 0]" "code_at q (Suc (Suc (Suc ?n3))) [op_inst k]"
      using code unfolding e code_at_append by simp_all
  qed
  have "8 * m1 \<le> j" "8 + 8 * m2 \<le> j" using h(4) by (simp_all add: nat_mult_max_right)
  then have hm: "8 * m1 \<le> j" "8 * m2 \<le> j - 8" by linarith+
  obtain v1 where v1: "reaches env bc vm v1" "runs_at bc q ?n1 v1" "registers v1 REG_A = x" "keeps_frame j vm v1"
    by (rule computesD [OF A h(1-3) hm(1) h(5)])
  have s1: "wf_vm v1" "sp_at v1 j" using keeps_frame_wf [OF v1(4)] keeps_frame_sp_at [OF v1(4)] h(2,3) by simp_all
  have j8: "16 \<le> j" "8 \<le> j" using hm m by linarith+
  obtain v2 where v2: "reaches env bc v1 v2" "runs_at bc q (Suc ?n1) v2" "wf_vm v2" "sp_at v2 (j - 8)" "near j v1 v2"
      "registers v2 = (registers v1)(REG_PC := of_nat (Suc ?n1), REG_SP := registers v1 REG_SP - 8)"
      "load (vm_mem v2) (registers v2 REG_SP) 8 = registers v1 REG_A"
    by (rule push_A_step [OF v1(2) c(1) s1 j8(2)])
  have near2: "near j vm v2" using keeps_near [OF v1(4)] v2(5) near_trans by blast
  have l2: "\<forall>off\<in>offs. local_holds v2 (j - 8) rd off"
  proof
    fix off assume "off \<in> offs"
    then have "local_holds (set_reg REG_SP (registers vm REG_SP) v2) j rd off"
      using local_holds_kept [OF _ near2 [unfolded near_def] h(2)] h(5) by blast
    then have "local_holds v2 j rd off" by (simp add: local_holds_def)
    then show "local_holds v2 (j - 8) rd off" by (rule local_holds_less) simp
  qed
  obtain v3 where v3: "reaches env bc v2 v3" "runs_at bc q ?n3 v3" "registers v3 REG_A = y" "keeps_frame (j - 8) v2 v3"
    by (rule computesD [OF B v2(2-4) hm(2) l2])
  have s3: "wf_vm v3" "sp_at v3 (j - 8)" using keeps_frame_wf [OF v3(4)] keeps_frame_sp_at [OF v3(4)] v2(3,4) by simp_all
  have sp: "registers v3 REG_SP = registers v2 REG_SP" using v3(4) by (simp add: keeps_frame_def)
  have max2: "stack_max v2 = stack_max vm" "stack_max v3 = stack_max vm" "stack_base v3 = stack_base vm" "stack_base v2 = stack_base vm"
    using near2 v3(4) by (simp_all add: near_iff keeps_frame_def)
  have top: "j \<le> stack_max vm" using h(3) by (simp add: sp_at_def)
  have above: "load mem' (registers v2 REG_SP) 8 = load mem (registers v2 REG_SP) 8"
    if "\<And>a. j - 8 \<le> unat (a - stack_base vm) \<Longrightarrow> mem' a = mem a" for mem mem'
  proof (rule load_cong)
    fix i assume i: "i < (8 :: nat)"
    have e: "registers v2 REG_SP + of_nat i - stack_base vm = (of_nat (j - 8 + i) :: i64)"
      using v2(4) max2 by (simp add: sp_at_def)
    have "unat (of_nat (j - 8 + i) :: i64) = j - 8 + i"
      using top i j8 h(2) by (intro unat_stack [of _ vm]) auto
    then have "j - 8 \<le> unat (registers v2 REG_SP + of_nat i - stack_base vm)" unfolding e by simp
    then show "mem' (registers v2 REG_SP + of_nat i) = mem (registers v2 REG_SP + of_nat i)" by (rule that)
  qed
  have keep3: "vm_mem v3 a = vm_mem v2 a" if "j - 8 \<le> unat (a - stack_base vm)" for a
    using v3(4) that max2 by (simp add: keeps_frame_def)
  have x3: "load (vm_mem v3) (registers v2 REG_SP) 8 = x"
    using above [OF keep3] v2(7) v1(3) by simp
  obtain v4 where v4: "reaches env bc v3 v4" "runs_at bc q (Suc ?n3) v4" "wf_vm v4" "sp_at v4 (j - 8 - 8)" "near (j - 8) v3 v4"
      "registers v4 = (registers v3)(REG_PC := of_nat (Suc ?n3), REG_SP := registers v3 REG_SP - 8)"
      "load (vm_mem v4) (registers v4 REG_SP) 8 = registers v3 REG_A"
    by (rule push_A_step [OF v3(2) c(2) s3]) (use j8 in auto)
  have max4: "stack_max v4 = stack_max vm" "stack_base v4 = stack_base vm" using v4(5) max2 by (simp_all add: near_iff)
  have keep4: "vm_mem v4 a = vm_mem v3 a" if "j - 8 \<le> unat (a - stack_base vm)" for a
    using v4(5) that max2 by (simp add: near_iff)
  have x4: "load (vm_mem v4) (registers v2 REG_SP) 8 = x" using above [OF keep4] x3 by simp
  obtain v5 where v5: "reaches env bc v4 v5" "runs_at bc q (Suc (Suc ?n3)) v5" "wf_vm v5" "sp_at v5 (j - 8 - 8 + 8)"
      "near j v4 v5" "vm_mem v5 = vm_mem v4"
      "registers v5 = (registers v4)(REG_PC := of_nat (Suc (Suc ?n3)), REG_D := load (vm_mem v4) (registers v4 REG_SP) 8,
         REG_SP := registers v4 REG_SP + 8)"
    by (rule pop_step [OF v4(2) c(3) v4(3,4), where j = j]) (use max4 top j8 in auto)
  have max5: "stack_max v5 = stack_max vm" using v5(5) max4 by (simp add: near_iff)
  have sp5: "registers v5 REG_SP = registers v2 REG_SP" using v5(7) v4(6) sp by simp
  obtain v6 where v6: "reaches env bc v5 v6" "runs_at bc q (Suc (Suc (Suc ?n3))) v6" "wf_vm v6" "sp_at v6 (j - 8 - 8 + 8 + 8)"
      "near j v5 v6" "vm_mem v6 = vm_mem v5"
      "registers v6 = (registers v5)(REG_PC := of_nat (Suc (Suc (Suc ?n3))), REG_A := load (vm_mem v5) (registers v5 REG_SP) 8,
         REG_SP := registers v5 REG_SP + 8)"
    by (rule pop_step [OF v5(2) c(4) v5(3,4), where j = j]) (use max5 top j8 in auto)
  have ad: "registers v6 REG_A = x" "registers v6 REG_D = y"
    using v6(7) v5(6,7) v4(7) v3(3) x4 sp5 by simp_all
  let ?v = "set_reg REG_A w (move_pc (Suc (Suc (Suc (Suc ?n3)))) v6)"
  have "exec_two env (op_code k) (if comparison_kind k then 4 else 0) REG_A REG_D (move_pc (Suc (Suc (Suc (Suc ?n3)))) v6) = go ?v"
    using op_inst_executes [OF k, of "move_pc (Suc (Suc (Suc (Suc ?n3)))) v6" w env] ad w by simp
  then have r7: "reaches env bc v6 ?v"
  proof (rule run_two [rotated 3])
    show "code_at q (Suc (Suc (Suc ?n3))) [inst (op_code k) (reg_byte REG_A) (reg_byte REG_D) (if comparison_kind k then 4 else 0)]"
      using c(5) by (simp add: op_inst_def)
  qed (use v6(2) in simp, rule scalar_operator_cases [OF k], simp_all)
  have "near j v6 ?v"
    using near_trans [OF near_set [of REG_PC] near_set [of REG_A]] by simp
  moreover have "near j v3 v4" using v4(5) by (auto simp: near_iff)
  moreover have "near j v2 v3" using keeps_near [OF v3(4)] by simp
  ultimately have "near j vm ?v" using near2 v5(5) v6(5) near_trans by blast
  moreover have "registers ?v REG_SP = registers vm REG_SP"
  proof -
    have "sp_at ?v j" using v6(4) j8 by (simp add: sp_at_def)
    then show ?thesis using h(3) \<open>near j vm ?v\<close> by (simp add: sp_at_def near_iff)
  qed
  ultimately have f: "keeps_frame j vm ?v" by (rule near_keeps)
  have "reaches env bc vm ?v"
    using v1(1) v2(1) v3(1) v4(1) v5(1) v6(1) r7 by (blast intro: reaches_trans)
  moreover have "runs_at bc q (n + length (xs @ [push_A] @ ys @ binary_code k)) ?v"
    by (rule keeps_frame_runs [OF f h(1)]) (simp add: binary_code_def add.assoc)
  ultimately show "\<exists>vm'. reaches env bc vm vm' \<and> runs_at bc q (n + length (xs @ [push_A] @ ys @ binary_code k)) vm'
      \<and> registers vm' REG_A = w \<and> keeps_frame j vm vm'"
    using f by (intro exI [of _ ?v]) simp
qed


section \<open>The generator and the meaning\<close>

fun locals_of :: "AST \<Rightarrow> nat \<Rightarrow> ASTExpression \<Rightarrow> int set" where
  "locals_of a s (EIdentifier l nm) = set_option (int_local a s nm)"
| "locals_of a s (EUnary k l e) = locals_of a s e"
| "locals_of a s (EBinary k l e1 e2) = locals_of a s e1 \<union> locals_of a s e2"
| "locals_of a s e = {}"

text \<open>The first types of the table are the primitive ones.\<close>

definition has_ints :: "AST \<Rightarrow> bool" where
  "has_ints a \<longleftrightarrow> 1 < length (typeInfos a) \<and> type_size (typeInfos a ! 1) = 4 \<and> ast_struct (typeInfos a ! 1) = None"

lemma slots_pos: "1 \<le> slots e"
  by (induction e) auto

lemma int_type_index: "unat (type_index (prim TYPE_INT)) = 1" "pointer_level (prim TYPE_INT) = 0"
  by (simp_all add: prim_def make_type_def)

lemma push_int:
  assumes "has_ints (gx_ast ctx)" and "push_typed REG_BP off (prim TYPE_INT) t ctx = Some (u, ctx')"
  shows "u = t \<and> ctx' = emits (push_value_at REG_BP off 4) ctx"
proof -
  have "sizeOfType (gx_ast ctx) (prim TYPE_INT) = Some 4" "struct_members (gx_ast ctx) (prim TYPE_INT) = Some None"
    using assms(1) by (simp_all add: has_ints_def sizeOfType_def struct_members_def getType_def int_type_index)
  then have "push_items (gx_ast ctx) REG_BP [(off, prim TYPE_INT)] p = Some (push_value_at REG_BP off 4 p)" for p
    by (simp add: push_items.simps)
  then show ?thesis using assms(2) by (auto simp: push_typed_def generatePush_def emits_def)
qed

definition refines :: "vm_env \<Rightarrow> AST \<Rightarrow> nat \<Rightarrow> ASTExpression \<Rightarrow> BytecodePiece \<Rightarrow> BytecodePiece \<Rightarrow> bool" where
  "refines env a s e p p' \<longleftrightarrow>
    (\<exists>xs. grows p xs p' \<and> (\<forall>bc q rd w. code_at q (length (instructions p)) xs \<and> eval a s rd e = Some w \<longrightarrow>
       computes env bc q (length (instructions p)) xs (slots e) (locals_of a s e) rd w))"

lemma refines_constant:
  assumes "p' = push_constant v p" and "fits_i32 v" and "\<And>rd. eval a s rd e = Some (word_of_int v)"
  shows "refines env a s e p p'"
  unfolding refines_def
  using grows_constant [of p v] computes_constant [OF _ assms(2)] assms(1,3)
  by (intro exI [of _ "[inst INST_LI (reg_byte REG_A) 0 0, inst_of_cell (word_of_int v)]"]) auto

lemma binary_scalar:
  assumes "gen_binary k t t' ctx = Some (u, ctx')" and "scalar_operator k" and "gx_errors ctx' = gx_errors ctx"
    and "t \<in> {prim TYPE_INT, prim TYPE_BOOL}" "t' \<in> {prim TYPE_INT, prim TYPE_BOOL}" and "has_ints (gx_ast ctx)"
  obtains sz where "u \<in> {prim TYPE_INT, prim TYPE_BOOL}" "comparison_kind k \<Longrightarrow> sz = 4"
    "ctx' = emits (emit_push REG_A \<circ> emit_operation k sz False \<circ> pop_operand REG_A False t \<circ> pop_operand REG_D False t') ctx"
proof -
  have p: "prim TYPE_INT \<noteq> prim TYPE_BOOL" "prim TYPE_INT \<noteq> prim TYPE_VOID" "prim TYPE_BOOL \<noteq> prim TYPE_VOID"
      "prim TYPE_BOOL \<noteq> prim TYPE_CHAR" "prim TYPE_BOOL \<noteq> prim TYPE_FLOAT" "prim TYPE_INT \<noteq> prim TYPE_CHAR"
      "pointer_level (prim TYPE_BOOL) = 0" "pointer_level (prim TYPE_INT) = 0"
    by (simp_all add: prim_def make_type_def)
  have "binary_type k t t' \<noteq> None"
  proof
    assume "binary_type k t t' = None"
    then have "gx_errors ctx' = gx_errors ctx + 1"
      using assms(1,4,5) p by (auto simp: gen_binary_def report_operands_def gen_report_def)
    then show False using assms(3) by simp
  qed
  then obtain r f where b: "binary_type k t t' = Some (r, f)" by auto
  then have o: "r \<in> {prim TYPE_INT, prim TYPE_BOOL}" "\<not> f"
    using assms(4,5) p by (auto simp: binary_type_def split: if_splits)
  have c: "t = prim TYPE_INT" if "comparison_kind k"
    using b that assms(4) p by (auto simp: binary_type_def arithmetic_kind_def logical_kind_def comparison_kind_def split: if_splits)
  obtain info where i: "getType (gx_ast ctx) t = Some info"
      "ctx' = emits (emit_push REG_A \<circ> emit_operation k (type_size info) False \<circ> pop_operand REG_A False t \<circ> pop_operand REG_D False t') ctx"
      "u = r"
    using assms(1) b o by (auto simp: gen_binary_def split: Option.bind_splits)
  have "type_size info = 4" if "comparison_kind k"
    using i(1) c [OF that] assms(6) by (simp add: getType_def has_ints_def int_type_index)
  then show thesis using that [of "type_size info"] i o by blast
qed

lemma fits_sint: "fits_i32 (sint (v :: i32))"
  using sint_greater_eq [of v] sint_less [of v] by (simp add: fits_i32_def)

lemma int_local_found:
  assumes "int_local a s nm = Some off"
  obtains i where "findVariable a nm s = Some (Some i)" "id_kind i = LOCAL_ID" "id_type i = prim TYPE_INT"
    "id_offset i = off" "fits_i32 off"
  using assms by (auto simp: int_local_def split: option.splits if_splits)

lemma refines_binary:
  assumes "refines env a s e1 p p1" and "refines env a s e2 p1 p2" and "scalar_operator k"
    and "comparison_kind k \<Longrightarrow> sz = 4"
    and "p' = emit_push REG_A (emit_operation k sz False (pop_operand REG_A False t (pop_operand REG_D False t' p2)))"
  shows "refines env a s (EBinary k l e1 e2) p p'"
proof -
  obtain xs where xs: "grows p xs p1" "\<And>bc q rd w. code_at q (length (instructions p)) xs \<Longrightarrow> eval a s rd e1 = Some w \<Longrightarrow>
       computes env bc q (length (instructions p)) xs (slots e1) (locals_of a s e1) rd w"
    using assms(1) unfolding refines_def by blast
  obtain ys where ys: "grows p1 ys p2" "\<And>bc q rd w. code_at q (length (instructions p1)) ys \<Longrightarrow> eval a s rd e2 = Some w \<Longrightarrow>
       computes env bc q (length (instructions p1)) ys (slots e2) (locals_of a s e2) rd w"
    using assms(2) unfolding refines_def by blast
  let ?n = "length (instructions p)"
  have n1: "length (instructions p1) = Suc (?n + length xs)" using xs(1) by (simp add: grows_def)
  have "computes env bc q ?n (xs @ [push_A] @ ys @ binary_code k) (slots (EBinary k l e1 e2)) (locals_of a s (EBinary k l e1 e2)) rd w"
    if c: "code_at q ?n (xs @ [push_A] @ ys @ binary_code k)" and w: "eval a s rd (EBinary k l e1 e2) = Some w" for bc q rd w
  proof -
    obtain x y where v: "eval a s rd e1 = Some x" "eval a s rd e2 = Some y" "operation k x y = Some w"
      using w by (auto split: Option.bind_splits)
    have c1: "code_at q ?n xs" "code_at q (length (instructions p1)) ys"
      using c by (simp_all add: code_at_append n1 del: append_Cons append_Nil)
    have "computes env bc q ?n xs (slots e1) (locals_of a s e1 \<union> locals_of a s e2) rd x"
      using xs(2) [OF c1(1) v(1)] by (rule computes_mono) auto
    moreover have "computes env bc q (Suc (?n + length xs)) ys (slots e2) (locals_of a s e1 \<union> locals_of a s e2) rd y"
      using ys(2) [OF c1(2) v(2)] unfolding n1 by (rule computes_mono) auto
    ultimately show ?thesis
      using computes_binary [OF _ _ c assms(3) v(3) slots_pos] by simp
  qed
  then show ?thesis
    unfolding refines_def assms(5) using grows_binary [OF xs(1) ys(1) assms(3,4)] by blast
qed

lemma refines_not:
  assumes "refines env a s e p p1"
  shows "refines env a s (EUnary NOT' l e) p (negate_top p1)"
proof -
  obtain xs where xs: "grows p xs p1" "\<And>bc q rd w. code_at q (length (instructions p)) xs \<Longrightarrow> eval a s rd e = Some w \<Longrightarrow>
       computes env bc q (length (instructions p)) xs (slots e) (locals_of a s e) rd w"
    using assms unfolding refines_def by blast
  let ?xs = "xs @ [inst INST_NOT (reg_byte REG_A) (reg_byte REG_A) 0]"
  have "computes env bc q (length (instructions p)) ?xs (slots (EUnary NOT' l e)) (locals_of a s (EUnary NOT' l e)) rd w"
    if "code_at q (length (instructions p)) ?xs" "eval a s rd (EUnary NOT' l e) = Some w" for bc q rd w
    using that xs(2) computes_not by (auto simp: code_at_append split: Option.bind_splits)
  then show ?thesis unfolding refines_def using grows_not [OF xs(1)] by blast
qed

lemma scalar_expression:
  "scalar a s e \<Longrightarrow> generateExpression e ctx = Some (t, ctx') \<Longrightarrow> gx_errors ctx' = gx_errors ctx \<Longrightarrow>
   gx_ast ctx = a \<Longrightarrow> gx_scope ctx = s \<Longrightarrow> has_ints a \<Longrightarrow>
   t \<in> {prim TYPE_INT, prim TYPE_BOOL} \<and> refines env a s e (gx_piece ctx) (gx_piece ctx')"
proof (induction a s e arbitrary: ctx t ctx' rule: scalar.induct)
  case (1 a s l v)
  then have "gx_piece ctx' = push_constant (sint v) (gx_piece ctx)" "t = prim TYPE_INT"
    by (auto simp: gen_literal_def emits_def int_of_i32_def)
  moreover from this(1) have "refines env a s (ELitInt l v) (gx_piece ctx) (gx_piece ctx')"
    by (rule refines_constant [OF _ fits_sint]) (simp only: eval.simps scast_eq)
  ultimately show ?case by blast
next
  case (4 a s l nm)
  then obtain off where o: "int_local a s nm = Some off" by auto
  then obtain i where i: "findVariable a nm s = Some (Some i)" "id_kind i = LOCAL_ID" "id_type i = prim TYPE_INT"
    "id_offset i = off" "fits_i32 off" by (rule int_local_found)
  have "push_typed REG_BP off (prim TYPE_INT) (prim TYPE_INT) ctx = Some (t, ctx')"
    using 4 i by (simp add: gen_identifier_def)
  moreover have "has_ints (gx_ast ctx)" using 4 by simp
  ultimately have "t = prim TYPE_INT \<and> ctx' = emits (push_value_at REG_BP off 4) ctx"
    by (intro push_int)
  then have g: "t = prim TYPE_INT" "gx_piece ctx' = push_value_at REG_BP off 4 (gx_piece ctx)"
    by (simp_all add: emits_def)
  have "refines env a s (EIdentifier l nm) (gx_piece ctx) (gx_piece ctx')"
    unfolding refines_def g using grows_load computes_load o i(5)
    by (intro exI [of _ "load_code off"]) auto
  then show ?case using g(1) by simp
next
  case (5 a s k l e)
  then obtain c1 where g: "generateExpression e ctx = Some (t, c1)" "ctx' = emits negate_top c1"
    by (auto dest!: bind_Some_pair)
  have "t \<in> {prim TYPE_INT, prim TYPE_BOOL} \<and> refines env a s e (gx_piece ctx) (gx_piece c1)"
    using 5 g by (simp add: emits_def)
  then show ?case using refines_not 5 g by (simp add: emits_def)
next
  case (6 a s k l e1 e2)
  then have k: "scalar_operator k" "k \<noteq> ASSIGN" by (auto simp: scalar_operator_def arithmetic_kind_def logical_kind_def comparison_kind_def)
  then obtain t1 c1 t2 c2 where g: "generateExpression e1 ctx = Some (t1, c1)"
      "generateExpression e2 c1 = Some (t2, c2)" "gen_binary k t1 t2 c2 = Some (t, ctx')"
    using 6 by (auto simp: scalar_operator_def dest!: bind_Some_pair)
  note p1 = expression_post(1) [OF g(1), unfolded expr_post_def] and p2 = expression_post(1) [OF g(2), unfolded expr_post_def]
    and p3 = gen_binary_post [OF g(3), unfolded expr_post_def]
  have e: "gx_errors c1 = gx_errors ctx" "gx_errors c2 = gx_errors c1" "gx_errors ctx' = gx_errors c2"
    using p1 p2 p3 6 by linarith+
  have i1: "t1 \<in> {prim TYPE_INT, prim TYPE_BOOL} \<and> refines env a s e1 (gx_piece ctx) (gx_piece c1)"
    using "6.IH"(1) g(1) e(1) 6 by simp
  have i2: "t2 \<in> {prim TYPE_INT, prim TYPE_BOOL} \<and> refines env a s e2 (gx_piece c1) (gx_piece c2)"
    using "6.IH"(2) g(2) e(2) 6 p1 by simp
  have "has_ints (gx_ast c2)" using 6 p1 p2 by simp
  then obtain sz where sz: "t \<in> {prim TYPE_INT, prim TYPE_BOOL}" "comparison_kind k \<Longrightarrow> sz = 4"
    "ctx' = emits (emit_push REG_A \<circ> emit_operation k sz False \<circ> pop_operand REG_A False t1 \<circ> pop_operand REG_D False t2) c2"
    using binary_scalar [OF g(3) k(1) e(3)] i1 i2 by blast
  have "refines env a s (EBinary k l e1 e2) (gx_piece ctx) (gx_piece ctx')"
    by (rule refines_binary [OF conjunct2 [OF i1] conjunct2 [OF i2] k(1) sz(2)]) (simp_all add: sz(3) emits_def)
  then show ?case using sz(1) by simp
qed (auto simp: gen_literal_def emits_def fits_i32_def intro: refines_constant)


lemma compiled_value:
  assumes "scalar (gx_ast ctx) (gx_scope ctx) e" and "generateExpression e ctx = Some (t, ctx')"
    and "gx_errors ctx' = gx_errors ctx" and "has_ints (gx_ast ctx)"
    and "eval (gx_ast ctx) (gx_scope ctx) rd e = Some w"
    and "runs_at bc q (length (instructions (gx_piece ctx))) vm"
    and "code_at q (length (instructions (gx_piece ctx)))
      (drop (length (instructions (gx_piece ctx))) (instructions (gx_piece ctx')))"
    and "wf_vm vm" and "sp_at vm k" and "8 * slots e \<le> k"
    and "\<forall>off\<in>locals_of (gx_ast ctx) (gx_scope ctx) e. local_holds vm k rd off"
  shows "t \<in> {prim TYPE_INT, prim TYPE_BOOL} \<and> (\<exists>vm'. reaches env bc vm vm'
    \<and> runs_at bc q (length (instructions (gx_piece ctx'))) vm' \<and> sp_at vm' (k - 8)
    \<and> load (vm_mem vm') (registers vm' REG_SP) 8 = w \<and> registers vm' REG_BP = registers vm REG_BP
    \<and> (\<forall>x. k \<le> unat (x - stack_base vm) \<longrightarrow> vm_mem vm' x = vm_mem vm x))"
proof -
  let ?n = "length (instructions (gx_piece ctx))"
  from scalar_expression [OF assms(1-3) refl refl assms(4), of env]
  have t: "t \<in> {prim TYPE_INT, prim TYPE_BOOL}" and
    r: "refines env (gx_ast ctx) (gx_scope ctx) e (gx_piece ctx) (gx_piece ctx')" by blast+
  obtain xs where xs: "grows (gx_piece ctx) xs (gx_piece ctx')"
      "code_at q ?n xs \<Longrightarrow> computes env bc q ?n xs (slots e) (locals_of (gx_ast ctx) (gx_scope ctx) e) rd w"
    using r assms(5) unfolding refines_def by blast
  have c: "code_at q ?n xs" "code_at q (?n + length xs) [push_A]"
    using assms(7) xs(1) by (simp_all add: grows_def code_at_append)
  obtain v1 where v1: "reaches env bc vm v1" "runs_at bc q (?n + length xs) v1" "registers v1 REG_A = w" "keeps_frame k vm v1"
    by (rule computesD [OF xs(2) [OF c(1)] assms(6,8,9,10,11)])
  have s: "wf_vm v1" "sp_at v1 k" using keeps_frame_wf [OF v1(4)] keeps_frame_sp_at [OF v1(4)] assms(8,9) by simp_all
  have k: "8 \<le> k" using assms(10) slots_pos [of e] by linarith
  obtain v2 where v2: "reaches env bc v1 v2" "runs_at bc q (Suc (?n + length xs)) v2" "sp_at v2 (k - 8)" "near k v1 v2"
      "registers v2 = (registers v1)(REG_PC := of_nat (Suc (?n + length xs)), REG_SP := registers v1 REG_SP - 8)"
      "load (vm_mem v2) (registers v2 REG_SP) 8 = registers v1 REG_A"
    by (rule push_A_step [OF v1(2) c(2) s k])
  have "length (instructions (gx_piece ctx')) = Suc (?n + length xs)" using xs(1) by (simp add: grows_def)
  moreover have "registers v2 REG_BP = registers vm REG_BP" using v2(5) v1(4) by (simp add: keeps_frame_def)
  moreover have "\<forall>x. k \<le> unat (x - stack_base vm) \<longrightarrow> vm_mem v2 x = vm_mem vm x"
    using v2(4) v1(4) by (simp add: near_iff keeps_frame_def)
  ultimately show ?thesis
    using t reaches_trans [OF v1(1) v2(1)] v2(2,3,6) v1(3) by (intro conjI exI [of _ v2]) simp_all
qed

section \<open>Properties\<close>

text \<open>
  C1. Compiled expressions compute what they mean.  If code for an expression of literals, local
  variables of type \<^verbatim>\<open>int\<close> and the arithmetic, logical and comparison operators is generated without
  an error, and the machine comes to that code with enough stack for its values and the local
  variables above the stack pointer, then it runs to the end of the code, the value of the
  expression is the only thing it has pushed, and neither the base pointer nor any byte outside
  of the free part of the stack has changed.  The type of the expression is \<^verbatim>\<open>int\<close> or \<^verbatim>\<open>bool\<close>.
\<close>

theorem compiled_expression:
  assumes "scalar (gx_ast ctx) (gx_scope ctx) e" and "generateExpression e ctx = Some (t, ctx')"
    and "gx_errors ctx' = gx_errors ctx" and "has_ints (gx_ast ctx)"
    and "eval (gx_ast ctx) (gx_scope ctx) rd e = Some w"
    and "runs_at bc q (length (instructions (gx_piece ctx))) vm"
    and "code_at q (length (instructions (gx_piece ctx)))
      (drop (length (instructions (gx_piece ctx))) (instructions (gx_piece ctx')))"
    and "wf_vm vm" and "sp_at vm k" and "8 * slots e \<le> k"
    and "\<forall>off\<in>locals_of (gx_ast ctx) (gx_scope ctx) e. local_holds vm k rd off"
  shows "t \<in> {prim TYPE_INT, prim TYPE_BOOL} \<and> (\<exists>vm'. reaches env bc vm vm'
    \<and> runs_at bc q (length (instructions (gx_piece ctx'))) vm' \<and> sp_at vm' (k - 8)
    \<and> load (vm_mem vm') (registers vm' REG_SP) 8 = w \<and> registers vm' REG_BP = registers vm REG_BP
    \<and> (\<forall>x. k \<le> unat (x - stack_base vm) \<longrightarrow> vm_mem vm' x = vm_mem vm x))"
  using compiled_value [OF assms, of env] by (intro conjI) (erule conjunct1, erule conjunct2)

text \<open>\<^verbatim>\<open>(2 - 7) * 3\<close>, by a machine with a stack of 64 bytes at address 4096.\<close>

definition product :: ASTExpression where
  "product = EBinary MUL 0 (EBinary SUB 0 (ELitInt 0 2) (ELitInt 0 7)) (ELitInt 0 3)"

definition product_piece :: BytecodePiece where
  "product_piece = gx_piece (snd (the (generateExpression product (new_context initial_ast 0 0 None))))"

definition product_vm :: VM where
  "product_vm = \<lparr>vm_mem = (\<lambda>_. 0), stack_base = 4096, stack_max = 64, global_base = 0, global_size = 0,
     registers = (\<lambda>r. if r = REG_SP then 4160 else 0), vm_piece = 0, allocations = [], vm_output = [], vm_files = []\<rparr>"

lemma product_generated:
  "\<exists>ctx. generateExpression product (new_context initial_ast 0 0 None) = Some (prim TYPE_INT, ctx)
     \<and> gx_errors ctx = 0 \<and> length (instructions (gx_piece ctx)) = 17"
  by (simp add: product_def new_context_def gen_literal_def push_constant_def emits_def gen_binary_def binary_type_def
      arithmetic_kind_def logical_kind_def comparison_kind_def getType_def Let_def init_types_def prim_def
      make_type_def pop_operand_def emit_ops_defs emit_operation_def emit_mul_def piece_simps new_piece_def pop_last_inst_def)

theorem compiled_expression_witness:
  "\<exists>ctx vm'. generateExpression product (new_context initial_ast 0 0 None) = Some (prim TYPE_INT, ctx)
     \<and> reaches sample_env (new_bytecode\<lparr>pieces := [gx_piece ctx]\<rparr>) product_vm vm'
     \<and> sp_at vm' 56 \<and> load (vm_mem vm') (registers vm' REG_SP) 8 = - 15"
proof -
  obtain ctx where g: "generateExpression product (new_context initial_ast 0 0 None) = Some (prim TYPE_INT, ctx)"
      "gx_errors ctx = 0" "length (instructions (gx_piece ctx)) = 17"
    using product_generated by blast
  let ?c = "new_context initial_ast 0 0 None" and ?bc = "new_bytecode\<lparr>pieces := [gx_piece ctx]\<rparr>"
  have n: "length (instructions (gx_piece ?c)) = 0" by (simp add: new_context_def new_piece_def)
  have s: "scalar (gx_ast ?c) (gx_scope ?c) product" "locals_of (gx_ast ?c) (gx_scope ?c) product = {}" "8 * slots product \<le> 64"
    by (simp_all add: product_def scalar_operator_def arithmetic_kind_def)
  have h: "has_ints (gx_ast ?c)" by (simp add: has_ints_def new_context_def init_types_def primitive_size_def)
  have v: "eval (gx_ast ?c) (gx_scope ?c) (\<lambda>_. 0) product = Some (- 15)" by (simp add: product_def)
  have r: "runs_at ?bc (gx_piece ctx) (length (instructions (gx_piece ?c))) product_vm"
    using g(3) n by (simp add: runs_at_def getPiece_def new_bytecode_def product_vm_def)
  have c: "code_at (gx_piece ctx) (length (instructions (gx_piece ?c)))
      (drop (length (instructions (gx_piece ?c))) (instructions (gx_piece ctx)))"
    using n by (simp add: code_at_def)
  have w: "wf_vm product_vm" "sp_at product_vm 64" by (simp_all add: wf_vm_def sp_at_def product_vm_def)
  have e: "gx_errors ctx = gx_errors ?c" using g(2) by (simp add: new_context_def)
  have l: "\<forall>off\<in>locals_of (gx_ast ?c) (gx_scope ?c) product. local_holds product_vm 64 (\<lambda>_. 0) off"
    using s(2) by simp
  from compiled_expression [OF s(1) g(1) e h v r c w s(3) l, of sample_env]
  obtain vm' where "reaches sample_env ?bc product_vm vm'" "sp_at vm' (64 - 8)" "load (vm_mem vm') (registers vm' REG_SP) 8 = - 15"
    by blast
  then show ?thesis using g(1) by (intro exI conjI) simp_all
qed

text \<open>A scope with a local variable \<^verbatim>\<open>x\<close> of type \<^verbatim>\<open>int\<close>, at offset -8 of the frame.\<close>

definition x_ast :: AST where
  "x_ast = snd (the (addVariable LOCAL_ID ''x'' 0 (prim TYPE_INT) (- 8) initial_ast))"

definition x_less_zero :: ASTExpression where
  "x_less_zero = EBinary LESS 0 (EIdentifier 0 ''x'') (ELitInt 0 0)"

definition ones_vm :: VM where
  "ones_vm = \<lparr>vm_mem = (\<lambda>_. 255), stack_base = 4096, stack_max = 96, global_base = 0, global_size = 0,
     registers = (\<lambda>r. if r = REG_SP then 4160 else if r = REG_BP then 4176 else 0),
     vm_piece = 0, allocations = [], vm_output = [], vm_files = []\<rparr>"

lemma x_found: "findVariable x_ast ''x'' 0 =
  Some (Some \<lparr>id_kind = LOCAL_ID, id_type = prim TYPE_INT, id_offset = - 8, id_statement = None\<rparr>)"
  by (simp add: findVariable_def find_scope_def search_scopes.simps x_ast_def addVariable_def getScope_def
      upd_scope_def initial_ast_def init_scope_def createScopeIterator_def iterate_def Let_def nth_opt_def)

lemma x_local: "int_local x_ast 0 ''x'' = Some (- 8)"
  by (simp add: int_local_def x_found fits_i32_def)

lemma x_ints: "has_ints x_ast"
  by (simp add: has_ints_def x_ast_def addVariable_def getScope_def upd_scope_def initial_ast_def
      init_scope_def init_types_def primitive_size_def Let_def nth_opt_def)

text \<open>
  C36. A negative \<^verbatim>\<open>int\<close> variable is not less than zero.  The code generated for \<^verbatim>\<open>x < 0\<close>, for a
  local variable \<^verbatim>\<open>x\<close> of type \<^verbatim>\<open>int\<close>, runs to its end and pushes 0 whatever the four bytes of the
  variable are: they are loaded without their sign, and the comparison is on the whole register.
\<close>

theorem negative_variable_is_positive:
  assumes "generateExpression (EBinary LESS l (EIdentifier l1 nm) (ELitInt l2 0)) ctx = Some (t, ctx')"
    and "gx_errors ctx' = gx_errors ctx" and "has_ints (gx_ast ctx)"
    and "int_local (gx_ast ctx) (gx_scope ctx) nm = Some off"
    and "runs_at bc q (length (instructions (gx_piece ctx))) vm"
    and "code_at q (length (instructions (gx_piece ctx)))
      (drop (length (instructions (gx_piece ctx))) (instructions (gx_piece ctx')))"
    and "wf_vm vm" and "sp_at vm k" and "16 \<le> k" and "k \<le> j" and "j + 4 \<le> stack_max vm"
    and "registers vm REG_BP + word_of_int off = stack_base vm + of_nat j"
  shows "\<exists>vm'. reaches env bc vm vm' \<and> runs_at bc q (length (instructions (gx_piece ctx'))) vm'
    \<and> sp_at vm' (k - 8) \<and> load (vm_mem vm') (registers vm' REG_SP) 8 = 0"
proof -
  let ?e = "EBinary LESS l (EIdentifier l1 nm) (ELitInt l2 0)"
    and ?rd = "\<lambda>z. load (vm_mem vm) (registers vm REG_BP + word_of_int z) 4"
  have "\<not> bit (?rd off) 63" by (simp add: bit_load)
  then have "0 \<le> sint (?rd off)" using bit_last_iff [of "?rd off"] by simp
  then have v: "eval (gx_ast ctx) (gx_scope ctx) ?rd ?e = Some 0"
    using assms(4) by (simp add: bool_reg_def)
  have s: "scalar (gx_ast ctx) (gx_scope ctx) ?e" "8 * slots ?e \<le> k"
    using assms(4,9) by (simp_all add: scalar_operator_def comparison_kind_def)
  have l: "\<forall>z\<in>locals_of (gx_ast ctx) (gx_scope ctx) ?e. local_holds vm k ?rd z"
    using assms(4,10,11,12) by (auto simp: local_holds_def)
  from compiled_value [OF s(1) assms(1-3) v assms(5-8) s(2) l] show ?thesis by blast
qed

lemma x_sizes: "sizeOfType x_ast (prim TYPE_INT) = Some 4" "struct_members x_ast (prim TYPE_INT) = Some None"
    "getType x_ast (prim TYPE_INT) = Some (typeInfos x_ast ! 1)"
  using x_ints by (simp_all add: has_ints_def sizeOfType_def struct_members_def getType_def int_type_index)

lemma x_less_zero_generated:
  "\<exists>t ctx. generateExpression x_less_zero (new_context x_ast 0 0 None) = Some (t, ctx)
     \<and> gx_errors ctx = 0 \<and> length (instructions (gx_piece ctx)) < 100"
  by (simp add: x_less_zero_def new_context_def x_found gen_identifier_def push_typed_def generatePush_def push_items.simps
      x_sizes emit_imm_def emit_def push_value_at_def gen_literal_def push_constant_def emits_def gen_binary_def binary_type_def
      arithmetic_kind_def logical_kind_def comparison_kind_def Let_def pop_operand_def emit_ops_defs emit_operation_def
      piece_simps new_piece_def pop_last_inst_def)

theorem negative_variable_is_positive_witness:
  "\<exists>t ctx vm'. generateExpression x_less_zero (new_context x_ast 0 0 None) = Some (t, ctx)
     \<and> reaches sample_env (new_bytecode\<lparr>pieces := [gx_piece ctx]\<rparr>) ones_vm vm'
     \<and> load (vm_mem ones_vm) 4168 4 = 0xFFFFFFFF
     \<and> sp_at vm' 56 \<and> load (vm_mem vm') (registers vm' REG_SP) 8 = 0"
proof -
  obtain t ctx where g: "generateExpression x_less_zero (new_context x_ast 0 0 None) = Some (t, ctx)"
      "gx_errors ctx = 0" "length (instructions (gx_piece ctx)) < 100"
    using x_less_zero_generated by blast
  let ?c = "new_context x_ast 0 0 None" and ?bc = "new_bytecode\<lparr>pieces := [gx_piece ctx]\<rparr>"
  have n: "length (instructions (gx_piece ?c)) = 0" by (simp add: new_context_def new_piece_def)
  have a: "gx_ast ?c = x_ast" "gx_scope ?c = 0" by (simp_all add: new_context_def)
  have r: "runs_at ?bc (gx_piece ctx) (length (instructions (gx_piece ?c))) ones_vm"
    using g(3) n by (simp add: runs_at_def getPiece_def new_bytecode_def ones_vm_def)
  have c: "code_at (gx_piece ctx) (length (instructions (gx_piece ?c)))
      (drop (length (instructions (gx_piece ?c))) (instructions (gx_piece ctx)))"
    using n by (simp add: code_at_def)
  have w: "wf_vm ones_vm" "sp_at ones_vm 64" by (simp_all add: wf_vm_def sp_at_def ones_vm_def)
  have e: "gx_errors ctx = gx_errors ?c" using g(2) by (simp add: new_context_def)
  have b: "registers ones_vm REG_BP + word_of_int (- 8) = stack_base ones_vm + of_nat 72"
    "72 + 4 \<le> stack_max ones_vm" by (simp_all add: ones_vm_def)
  have m: "load (vm_mem ones_vm) 4168 4 = 0xFFFFFFFF" by (simp add: ones_vm_def load_def)
  from negative_variable_is_positive [OF g(1) [unfolded x_less_zero_def] e _ _ r c w _ _ b(2,1), of sample_env]
  obtain vm' where "reaches sample_env ?bc ones_vm vm'" "sp_at vm' (64 - 8)" "load (vm_mem vm') (registers vm' REG_SP) 8 = 0"
    using x_ints x_local a by auto
  then show ?thesis using g(1) m by (intro exI conjI) simp_all
qed

end
