(* ===== verification/GeneratorTypes.thy ===== *)
theory GeneratorTypes
  imports GeneratorCode
begin

text \<open>
  The types the generator works with.  A type is an index into the table \<^verbatim>\<open>typeInfos\<close> of the AST;
  \<^verbatim>\<open>types_ok\<close> says that every type held by a variable, a parameter, a function or a member has
  its entry there.  The type of an expression then has one (\<^verbatim>\<open>expression_types\<close>, an induction over
  the generator), and the four operations of the scheduler on the tables keep it so.
\<close>

section \<open>Tables whose types refer to the table of types\<close>

definition in_table :: "AST \<Rightarrow> TypeId \<Rightarrow> bool" where
  "in_table a t \<longleftrightarrow> unat (type_index t) < length (typeInfos a)"

definition scope_types_ok :: "AST \<Rightarrow> ScopeInfo \<Rightarrow> bool" where
  "scope_types_ok a sc \<longleftrightarrow>
    (\<forall>nm i. identifiers sc nm = Some i \<longrightarrow> in_table a (id_type i))
    \<and> set (scope_functions sc) \<subseteq> {..<length (ast_functions a)}"

definition function_types_ok :: "AST \<Rightarrow> ASTFunction \<Rightarrow> bool" where
  "function_types_ok a fn \<longleftrightarrow>
    in_table a (return_type fn) \<and> (\<forall>p\<in>set (fn_parameters fn). in_table a (param_typeId p))"

definition struct_types_ok :: "AST \<Rightarrow> ASTStructure \<Rightarrow> bool" where
  "struct_types_ok a st \<longleftrightarrow>
    (\<forall>m\<in>set (members st). in_table a (mem_typeId m))
    \<and> (\<forall>n. typeInfo st = Some n \<longrightarrow> n < length (typeInfos a))"

definition types_ok :: "AST \<Rightarrow> bool" where
  "types_ok a \<longleftrightarrow> wf_scopes a \<and> wf_types a \<and> 5 \<le> length (typeInfos a)
    \<and> (\<forall>sc\<in>set (scopes a). scope_types_ok a sc)
    \<and> (\<forall>fn\<in>set (ast_functions a). function_types_ok a fn)
    \<and> (\<forall>st\<in>set (ast_structures a). struct_types_ok a st)
    \<and> (\<forall>info\<in>set (typeInfos a). \<forall>i. ast_struct info = Some i \<longrightarrow> i < length (ast_structures a))"

lemma in_table_level [simp]:
  "in_table a (set_pointer_level n t) = in_table a t" "in_table a (base_type t) = in_table a t"
  "in_table a (level_up t) = in_table a t" "in_table a (level_down t) = in_table a t"
  by (simp_all add: in_table_def set_pointer_level_def base_type_def level_up_def level_down_def)

lemma in_table_basic [simp]: "types_ok a \<Longrightarrow> in_table a (prim t)" "types_ok a \<Longrightarrow> in_table a void_type"
proof -
  assume "types_ok a"
  then have "5 \<le> length (typeInfos a)" by (simp add: types_ok_def)
  moreover have "primitive_num t < 5" by (cases t) simp_all
  ultimately have "0 < length (typeInfos a)" "primitive_num t < length (typeInfos a)" by linarith+
  moreover have "unat (of_nat (primitive_num t) :: 24 word) = primitive_num t" by (cases t) simp_all
  ultimately show "in_table a (prim t)" "in_table a void_type"
    by (simp_all add: in_table_def prim_def make_type_def void_type_def)
qed

lemma find_scope_range:
  assumes "types_ok a" and "s < length (scopes a)" and "find_scope a p s = Some (Some k)"
  shows "k < length (scopes a) \<and> scope_types_ok a (scopes a ! k) \<and> p (scopes a ! k)"
proof -
  have w: "wf_scopes a" using assms(1) by (simp add: types_ok_def)
  have "k < length (scopes a) \<and> p (scopes a ! k)"
    by (rule find_scope_cases [OF w assms(2), of p]) (use assms(3) visible_range [OF w assms(2)] in auto)
  then show ?thesis using assms(1) by (simp add: types_ok_def)
qed

lemma findVariable_types:
  assumes "types_ok a" and "s < length (scopes a)" and "findVariable a nm s = Some (Some i)"
  shows "in_table a (id_type i)"
proof -
  obtain k where k: "find_scope a (\<lambda>sc. identifiers sc nm \<noteq> None) s = Some (Some k)" "identifiers (scopes a ! k) nm = Some i"
    using assms(3) by (auto simp: findVariable_def split: Option.bind_splits option.splits)
  with find_scope_range [OF assms(1,2) k(1)] show ?thesis by (auto simp: scope_types_ok_def)
qed

lemma findFunction_types:
  assumes "types_ok a" and "s < length (scopes a)" and "findFunction a nm s = Some (Some f)"
  shows "function_types_ok a (ast_functions a ! f)"
proof -
  obtain k where k: "find_scope a (\<lambda>sc. scope_function a nm sc \<noteq> None) s = Some (Some k)"
      "scope_function a nm (scopes a ! k) = Some f"
    using assms(3) by (auto simp: findFunction_def split: Option.bind_splits option.splits)
  from k(2) have "f \<in> set (scope_functions (scopes a ! k))"
    by (auto simp: scope_function_def find_Some_iff)
  then have "f < length (ast_functions a)"
    using find_scope_range [OF assms(1,2) k(1)] by (auto simp: scope_types_ok_def)
  then show ?thesis using assms(1) by (simp add: types_ok_def)
qed

lemma convertFullType_types:
  assumes "types_ok a" and "s < length (scopes a)" and "convertFullType a str s = Some t"
  shows "in_table a t"
proof -
  obtain b n where b: "split_stars str = (b, n)" by (cases "split_stars str")
  obtain r where r: "findType a b s = Some r"
    using assms(3) b by (auto simp: convertFullType_def split: Option.bind_splits)
  show ?thesis
  proof (cases r)
    case None
    then show ?thesis using assms r b by (simp add: convertFullType_def)
  next
    case (Some i)
    have w: "wf_scopes a" "wf_types a" using assms(1) by (simp_all add: types_ok_def)
    have i: "i < length (typeInfos a)" "typeId (typeInfos a ! i) = make_type i 0"
      using findType_in_table [OF w assms(2) r [unfolded Some]] by simp_all
    have "length (typeInfos a) \<le> types_max" using w(2) by (simp add: wf_types_def)
    with i(1) have "unat (of_nat i :: 24 word) = i"
      by (simp add: unat_of_nat take_bit_nat_eq_self types_max_def)
    then have "in_table a (make_type i 0)"
      using i(1) by (simp add: in_table_def make_type_def)
    then show ?thesis using assms(3) r b Some i by (auto simp: convertFullType_def)
  qed
qed

lemma find_member_types:
  assumes "types_ok a" and "find_member a t nm = Some (Some m)"
  shows "in_table a (mem_typeId m)"
proof -
  obtain info i where g: "getType a t = Some info" "ast_struct info = Some i" "findMember nm (ast_structures a ! i) = Some m"
    using assms(2) by (auto simp: find_member_def split: Option.bind_splits option.splits)
  have "info \<in> set (typeInfos a)"
    using g(1,2) by (auto simp: getType_def Let_def default_type_info_def split: if_splits)
  then have "i < length (ast_structures a)" using assms(1) g(2) by (simp add: types_ok_def)
  then have "struct_types_ok a (ast_structures a ! i)" using assms(1) by (simp add: types_ok_def)
  moreover have "m \<in> set (members (ast_structures a ! i))"
    using g(3) by (auto simp: findMember_def find_Some_iff)
  ultimately show ?thesis by (simp add: struct_types_ok_def)
qed

section \<open>The type of an expression\<close>

definition ctx_ok :: "GenCtx \<Rightarrow> bool" where
  "ctx_ok ctx \<longleftrightarrow> types_ok (gx_ast ctx) \<and> gx_scope ctx < length (scopes (gx_ast ctx))"

definition place_ok :: "AST \<Rightarrow> place option \<Rightarrow> bool" where
  "place_ok a r \<longleftrightarrow> (\<forall>k t off. r = Some (k, t, off) \<longrightarrow> in_table a t)"

lemma ctx_ok_post: "expr_post ctx ctx' \<Longrightarrow> ctx_ok ctx \<Longrightarrow> ctx_ok ctx'"
  by (simp add: ctx_ok_def expr_post_def)

lemma ctx_ok_basic: "ctx_ok ctx \<Longrightarrow> in_table (gx_ast ctx) (prim t) \<and> in_table (gx_ast ctx) void_type"
  by (simp add: ctx_ok_def)

lemma push_typed_types: "push_typed r off t u ctx = Some (v, ctx') \<Longrightarrow> v = u"
  by (auto simp: push_typed_def split: Option.bind_splits)

lemma ref_identifier_types: "ctx_ok ctx \<Longrightarrow> ref_identifier nm ctx = Some (r, ctx') \<Longrightarrow> place_ok (gx_ast ctx) r"
  by (auto simp: ref_identifier_def place_ok_def ctx_ok_def dest: findVariable_types
      split: Option.bind_splits option.splits IdentifierKind.splits)

lemma ref_member_types:
  "ctx_ok ctx \<Longrightarrow> ref_member nm pl ctx = Some (r, ctx') \<Longrightarrow> place_ok (gx_ast ctx) r"
  by (auto simp: ref_member_def place_ok_def ctx_ok_def dest: find_member_types
      split: Option.bind_splits option.splits if_splits prod.splits)

lemma ref_index_types:
  "ref_index t u ctx = Some (r, ctx') \<Longrightarrow> in_table (gx_ast ctx) t \<Longrightarrow> place_ok (gx_ast ctx) r"
  by (auto simp: ref_index_def place_ok_def split: Option.bind_splits if_splits)

lemma ref_finish_types:
  "ctx_ok ctx \<Longrightarrow> ref_finish r ctx = Some (t, ctx') \<Longrightarrow> place_ok (gx_ast ctx) r \<Longrightarrow> in_table (gx_ast ctx) t"
  by (auto simp: ref_finish_def place_ok_def ctx_ok_def split: option.splits prod.splits)

lemma gen_literal_types: "ctx_ok ctx \<Longrightarrow> gen_literal e ctx = Some (t, ctx') \<Longrightarrow> in_table (gx_ast ctx) t"
  by (auto simp: gen_literal_def gen_string_def gen_sizeof_def ctx_ok_def Let_def
      split: ASTExpression.splits prod.splits Option.bind_splits if_splits)

lemma gen_identifier_types: "ctx_ok ctx \<Longrightarrow> gen_identifier nm ctx = Some (t, ctx') \<Longrightarrow> in_table (gx_ast ctx) t"
  using gen_literal_types [of ctx]
  by (auto simp: gen_identifier_def gen_constant_def ctx_ok_def dest!: push_typed_types
      dest: findVariable_types
      split: Option.bind_splits option.splits IdentifierKind.splits ASTStatement.splits if_splits)

lemma gen_call_types:
  assumes "ctx_ok ctx" and "gen_call f off ts ctx = Some (t, ctx')" and "function_types_ok (gx_ast ctx) (ast_functions (gx_ast ctx) ! f)"
  shows "in_table (gx_ast ctx) t"
  using assms
  by (auto simp: gen_call_def Let_def ctx_ok_def function_types_ok_def dest!: push_typed_types
      split: prod.splits bool.splits Option.bind_splits if_splits)

lemma gen_binary_types:
  assumes "ctx_ok ctx" and "gen_binary k l r ctx = Some (t, ctx')" and "in_table (gx_ast ctx) l" and "in_table (gx_ast ctx) r"
  shows "in_table (gx_ast ctx) t"
  using assms
  by (auto simp: gen_binary_def binary_type_def Let_def ctx_ok_def
      split: option.splits prod.splits Option.bind_splits if_splits)

lemma gen_deref_types: "ctx_ok ctx \<Longrightarrow> gen_deref u ctx = Some (t, ctx') \<Longrightarrow> in_table (gx_ast ctx) u \<Longrightarrow> in_table (gx_ast ctx) t"
  by (auto simp: gen_deref_def ctx_ok_def dest!: push_typed_types split: if_splits)

lemma gen_member_types: "ctx_ok ctx \<Longrightarrow> gen_member u ctx = Some (t, ctx') \<Longrightarrow> in_table (gx_ast ctx) u \<Longrightarrow> in_table (gx_ast ctx) t"
  by (auto simp: gen_member_def ctx_ok_def dest!: push_typed_types split: if_splits)

lemma gen_index_types: "ctx_ok ctx \<Longrightarrow> gen_index l r ctx = Some (t, ctx') \<Longrightarrow> in_table (gx_ast ctx) l \<Longrightarrow> in_table (gx_ast ctx) t"
  by (auto simp: gen_index_def ctx_ok_def dest!: push_typed_types split: if_splits Option.bind_splits)

lemma gen_cast_types: "ctx_ok ctx \<Longrightarrow> gen_cast nm u ctx = Some (t, ctx') \<Longrightarrow> in_table (gx_ast ctx) t"
  by (auto simp: gen_cast_def ctx_ok_def dest: convertFullType_types split: if_splits Option.bind_splits)

lemma gen_assign_types: "ctx_ok ctx \<Longrightarrow> gen_assign l r ctx = Some (t, ctx') \<Longrightarrow> in_table (gx_ast ctx) l \<Longrightarrow> in_table (gx_ast ctx) t"
  by (auto simp: gen_assign_def ctx_ok_def dest!: push_typed_types split: if_splits Option.bind_splits)

lemma gen_incdec_types: "ctx_ok ctx \<Longrightarrow> gen_incdec k u ctx = Some (t, ctx') \<Longrightarrow> in_table (gx_ast ctx) u \<Longrightarrow> in_table (gx_ast ctx) t"
  by (auto simp: gen_incdec_def ctx_ok_def split: if_splits)

lemmas gen_types = gen_literal_types gen_identifier_types gen_cast_types

text \<open>The context after a piece of code has the same tables.\<close>

lemma post_ok:
  assumes "expr_post ctx ctx'" and "ctx_ok ctx"
  shows "ctx_ok ctx'" and "gx_ast ctx' = gx_ast ctx"
  using assms by (simp_all add: ctx_ok_def expr_post_def)

lemma expression_types:
  "generateExpression e ctx = Some (t, ctx1) \<Longrightarrow> ctx_ok ctx \<Longrightarrow> in_table (gx_ast ctx) t"
  "generateReference e ctx = Some (t, ctx1) \<Longrightarrow> ctx_ok ctx \<Longrightarrow> in_table (gx_ast ctx) t"
  "generateChain e ctx = Some (r, ctx1) \<Longrightarrow> ctx_ok ctx \<Longrightarrow> place_ok (gx_ast ctx) r"
  "generateArguments es ctx = Some (ts, ctx1) \<Longrightarrow> ctx_ok ctx \<Longrightarrow> \<forall>t\<in>set ts. in_table (gx_ast ctx) t"
proof (induction e ctx and e ctx and e ctx and es ctx arbitrary: t ctx1 and t ctx1 and r ctx1 and ts ctx1
    rule: generateExpression_generateReference_generateChain_generateArguments.induct)
  case (2 l nm args ctx)
  have w: "types_ok (gx_ast ctx)" "gx_scope ctx < length (scopes (gx_ast ctx))"
    using "2.prems"(2) by (simp_all add: ctx_ok_def)
  obtain r where r: "findFunction (gx_ast ctx) nm (gx_scope ctx) = Some r"
    using "2.prems"(1) by (auto split: Option.bind_splits)
  show ?case
  proof (cases r)
    case None
    then show ?thesis using "2.prems"(1) r w by simp
  next
    case f: (Some i)
    let ?c = "emits (emit_incr REG_SP (- parameters_size (ast_functions (gx_ast ctx) ! i))) ctx"
    obtain ts c2 where g: "generateArguments args ?c = Some (ts, c2)"
        "gen_call i (virtual_sp (gx_piece ?c)) ts c2 = Some (t, ctx1)"
      using "2.prems" r f by (auto simp: Let_def split: Option.bind_splits)
    have p: "expr_post ctx c2"
      using expression_post(4) [OF g(1)] by (rule emits_then) (rule keeping)
    note k = post_ok [OF p "2.prems"(2)]
    have "function_types_ok (gx_ast c2) (ast_functions (gx_ast c2) ! i)"
      using findFunction_types [OF w] r f k(2) by simp
    from gen_call_types [OF k(1) g(2) this] show ?thesis using k(2) by simp
  qed
next
  case (3 k l a b ctx)
  show ?case
  proof (cases "k = ASSIGN")
    case True
    then obtain u c1 v c2 where g: "generateExpression b ctx = Some (u, c1)"
        "generateReference a c1 = Some (v, c2)" "gen_assign v u c2 = Some (t, ctx1)"
      using "3.prems" by (auto dest!: bind_Some_pair)
    note k1 = post_ok [OF expression_post(1) [OF g(1)] "3.prems"(2)]
    note k2 = post_ok [OF expression_post(2) [OF g(2)] k1(1)]
    have "in_table (gx_ast c1) v" using "3.IH"(2) True g(1,2) k1(1) by auto
    then show ?thesis using gen_assign_types [OF k2(1) g(3)] k1(2) k2(2) by simp
  next
    case False
    show ?thesis
    proof (cases "arithmetic_kind k \<or> logical_kind k \<or> comparison_kind k")
      case True
      then obtain u c1 v c2 where g: "generateExpression a ctx = Some (u, c1)"
          "generateExpression b c1 = Some (v, c2)" "gen_binary k u v c2 = Some (t, ctx1)"
        using "3.prems" False by (auto dest!: bind_Some_pair)
      note k1 = post_ok [OF expression_post(1) [OF g(1)] "3.prems"(2)]
      note k2 = post_ok [OF expression_post(1) [OF g(2)] k1(1)]
      have "in_table (gx_ast ctx) u" "in_table (gx_ast c1) v" using "3.IH"(3,4) True False g(1,2) k1(1) "3.prems"(2) by auto
      then show ?thesis using gen_binary_types [OF k2(1) g(3)] k1(2) k2(2) by simp
    qed (use "3.prems" False in \<open>auto simp: ctx_ok_def\<close>)
  qed
next
  case (4 k l a ctx)
  consider "k = NOT'" | "k = REFER" | "k = DEREF" | "incdec_kind k"
    | "k \<noteq> NOT'" "k \<noteq> REFER" "k \<noteq> DEREF" "\<not> incdec_kind k" by blast
  then show ?case
  proof cases
    case 3
    then obtain u c where g: "generateExpression a ctx = Some (u, c)" "gen_deref u c = Some (t, ctx1)"
      using "4.prems" by (auto dest!: bind_Some_pair)
    note k1 = post_ok [OF expression_post(1) [OF g(1)] "4.prems"(2)]
    have "in_table (gx_ast ctx) u" using "4.IH"(3) 3 g(1) "4.prems"(2) by auto
    then show ?thesis using gen_deref_types [OF k1(1) g(2)] k1(2) by simp
  next
    case 4
    then have k: "k \<noteq> NOT'" "k \<noteq> REFER" "k \<noteq> DEREF" by (auto simp: incdec_kind_def)
    then obtain u c where g: "generateReference a ctx = Some (u, c)" "gen_incdec k u c = Some (t, ctx1)"
      using "4.prems" 4 by (auto dest!: bind_Some_pair)
    note k1 = post_ok [OF expression_post(2) [OF g(1)] "4.prems"(2)]
    have "in_table (gx_ast ctx) u" using "4.IH"(4) 4 k g(1) "4.prems"(2) by auto
    then show ?thesis using gen_incdec_types [OF k1(1) g(2)] k1(2) by simp
  qed (use 4 in \<open>auto simp: ctx_ok_def dest!: bind_Some_pair\<close>)
next
  case (5 l a nm ctx)
  then obtain u c where g: "generateReference (EMember l a nm) ctx = Some (u, c)" "gen_member u c = Some (t, ctx1)"
    by (auto dest!: bind_Some_pair)
  note k1 = post_ok [OF expression_post(2) [OF g(1)] "5.prems"(2)]
  show ?case using "5.IH" [OF g(1) "5.prems"(2)] gen_member_types [OF k1(1) g(2)] k1(2) by simp
next
  case (6 l a b ctx)
  then obtain i u c1 v c2 where g: "b = Some i" "generateExpression i ctx = Some (u, c1)"
      "generateExpression a c1 = Some (v, c2)" "gen_index v u c2 = Some (t, ctx1)"
    by (cases b) (auto dest!: bind_Some_pair)
  note k1 = post_ok [OF expression_post(1) [OF g(2)] "6.prems"(2)]
  note k2 = post_ok [OF expression_post(1) [OF g(3)] k1(1)]
  have "in_table (gx_ast c1) v" using "6.IH"(2) g k1(1) by auto
  then show ?case using gen_index_types [OF k2(1) g(4)] k1(2) k2(2) by simp
next
  case (7 l a ty ctx)
  then obtain u c where g: "generateExpression a ctx = Some (u, c)" "gen_cast ty u c = Some (t, ctx1)"
    by (auto dest!: bind_Some_pair)
  note k1 = post_ok [OF expression_post(1) [OF g(1)] "7.prems"(2)]
  show ?case using gen_cast_types [OF k1(1) g(2)] k1(2) by simp
next
  case (16 e ctx)
  show ?case
  proof (cases "\<exists>k l a. e = EUnary k l a")
    case True
    then show ?thesis using "16"
      by (auto simp: generateReference.simps ctx_ok_def split: if_splits dest!: bind_Some_pair)
  next
    case False
    then have eq: "generateReference e ctx =
        (if \<not> is_chain e then Some (void_type, gen_report ctx)
         else do { (r, ctx1) \<leftarrow> generateChain e ctx; ref_finish r ctx1 })"
      by (cases e) (simp_all add: generateReference.simps)
    show ?thesis
    proof (cases "is_chain e")
      case True
      then obtain r c where g: "generateChain e ctx = Some (r, c)" "ref_finish r c = Some (t, ctx1)"
        using "16.prems" unfolding eq by (auto dest!: bind_Some_pair)
      note k1 = post_ok [OF expression_post(3) [OF g(1)] "16.prems"(2)]
      have "place_ok (gx_ast ctx) r" using "16" False True g(1) by (cases e) auto
      then show ?thesis using ref_finish_types [OF k1(1) g(2)] k1(2) by simp
    qed (use "16.prems" eq in \<open>auto simp: ctx_ok_def\<close>)
  qed
next
  case (17 e ctx)
  note prems = "17.prems"(1) [unfolded generateChain.simps [of e ctx]]
  show ?case
  proof (cases e)
    case (EIdentifier l nm)
    then show ?thesis using prems ref_identifier_types [OF "17.prems"(2)] by auto
  next
    case (EMember l a nm)
    then obtain r1 c1 where g: "generateChain a ctx = Some (r1, c1)"
        "(case r1 of None \<Rightarrow> Some (None, c1) | Some pl \<Rightarrow> ref_member nm pl c1) = Some (r, ctx1)"
      using prems by (auto dest!: bind_Some_pair)
    note k1 = post_ok [OF expression_post(3) [OF g(1)] "17.prems"(2)]
    show ?thesis using g(2) ref_member_types [OF k1(1)] k1(2)
      by (cases r1) (auto simp: place_ok_def)
  next
    case (EIndex l a b)
    obtain r1 c1 where g: "generateChain a ctx = Some (r1, c1)"
      using prems EIndex by (cases "generateChain a ctx") auto
    note k1 = post_ok [OF expression_post(3) [OF g(1)] "17.prems"(2)]
    have o: "place_ok (gx_ast ctx) r1" using "17.IH"(1) [OF EIndex g "17.prems"(2)] .
    show ?thesis
    proof (cases r1)
      case None
      then show ?thesis using prems EIndex g by (simp add: place_ok_def)
    next
      case (Some pl)
      obtain k t off where pl: "pl = (k, t, off)" by (cases pl)
      show ?thesis
      proof (cases "pointer_level t = 0")
        case True
        then show ?thesis using prems EIndex g Some pl by (simp add: place_ok_def)
      next
        case False
        then obtain i where i: "b = Some i" using prems EIndex g Some pl by (cases b) auto
        let ?c = "emits (emit_push REG_B \<circ> load_pointer k off) c1"
        obtain u c2 where g2: "generateExpression i ?c = Some (u, c2)" "ref_index t u c2 = Some (r, ctx1)"
          using prems EIndex g Some pl False i by (auto dest!: bind_Some_pair)
        have "gx_ast c2 = gx_ast ctx"
          using expression_post(1) [OF g2(1)] k1(2) by (simp add: expr_post_def emits_def)
        then show ?thesis using ref_index_types [OF g2(2)] o Some pl by (simp add: place_ok_def)
      qed
    qed
  qed (use prems in \<open>auto simp: place_ok_def\<close>)
next
  case (19 e es ctx)
  then obtain u c1 vs where g: "generateExpression e ctx = Some (u, c1)" "generateArguments es c1 = Some (vs, ctx1)" "ts = u # vs"
    by (auto dest!: bind_Some_pair)
  note k1 = post_ok [OF expression_post(1) [OF g(1)] "19.prems"(2)]
  show ?case using "19.IH"(1) [OF g(1) "19.prems"(2)] "19.IH"(2) [OF g(1) refl g(2) k1(1)] k1(2) g(3) by simp
qed (auto dest: gen_types)

section \<open>What keeps the tables right\<close>

lemma ok_same_size:
  assumes "length (typeInfos b) = length (typeInfos a)" and "length (ast_functions b) = length (ast_functions a)"
  shows "in_table b = in_table a" and "scope_types_ok b = scope_types_ok a"
    and "function_types_ok b = function_types_ok a" and "struct_types_ok b = struct_types_ok a"
  using assms by (simp_all add: in_table_def scope_types_ok_def function_types_ok_def struct_types_ok_def fun_eq_iff)

lemma set_update_all: "\<forall>x\<in>set xs. P x \<Longrightarrow> (\<And>x. P x \<Longrightarrow> P (f x)) \<Longrightarrow> \<forall>x\<in>set (xs[i := f (xs ! i)]). P x"
  by (cases "i < length xs") (auto simp: list_update_beyond dest!: set_update_subset_insert [THEN subsetD])

lemma types_ok_upd_scope:
  assumes ok: "types_ok a" and wf: "wf_scopes (upd_scope s f a)"
    and f: "\<And>sc. type_map (f sc) = type_map sc" "\<And>sc. scope_types_ok a sc \<Longrightarrow> scope_types_ok a (f sc)"
  shows "types_ok (upd_scope s f a)"
proof -
  note same = ok_same_size [of "upd_scope s f a" a, simplified]
  have "wf_types (upd_scope s f a)"
    using ok f(1) by (auto simp: types_ok_def wf_types_def upd_scope_nth split: if_splits)
  moreover have "\<forall>sc\<in>set (scopes (upd_scope s f a)). scope_types_ok a sc"
    unfolding upd_scope_def using ok set_update_all [of "scopes a" "scope_types_ok a" f] f(2)
    by (simp add: types_ok_def)
  ultimately show ?thesis
    using ok wf by (simp add: types_ok_def same)
qed

lemma types_ok_addVariable:
  assumes "types_ok a" and "addVariable k nm s t off a = Some (v, b)" and "in_table a t"
  shows "types_ok b \<and> length (scopes b) = length (scopes a) \<and> typeInfos b = typeInfos a"
proof (cases "\<exists>sc. getScope a s = Some sc \<and> identifiers sc nm = None")
  case True
  then obtain sc i where b: "b = upd_scope s (\<lambda>sc. sc\<lparr>identifiers := (identifiers sc)(nm \<mapsto> i)\<rparr>) a" "id_type i = t"
    using assms(2) by (auto simp: addVariable_def Let_def)
  have "wf_scopes b" using assms(1,2) by (auto simp: types_ok_def intro: wf_scopes_addVariable)
  then have "types_ok b" unfolding b(1)
    by (intro types_ok_upd_scope [OF assms(1)]) (use assms(3) b(2) in \<open>auto simp: scope_types_ok_def\<close>)
  then show ?thesis using b(1) by simp
next
  case False
  then have "b = a" using assms(2) by (auto simp: addVariable_def Let_def split: Option.bind_splits option.splits)
  then show ?thesis using assms(1) by simp
qed

lemma types_ok_set_statement:
  assumes "types_ok a"
  shows "types_ok (set_statement nm s st a) \<and> length (scopes (set_statement nm s st a)) = length (scopes a)"
proof -
  have "wf_scopes (set_statement nm s st a)" using assms by (simp add: types_ok_def wf_scopes_set_statement)
  then have "types_ok (set_statement nm s st a)" unfolding set_statement_def
    by (intro types_ok_upd_scope [OF assms]) (auto simp: scope_types_ok_def split: if_splits)
  then show ?thesis by (simp add: set_statement_def)
qed

lemma types_ok_upd_function:
  assumes "types_ok a" and "\<And>fn. function_types_ok a fn \<Longrightarrow> function_types_ok a (g fn)"
  shows "types_ok (upd_function f g a)" and "scopes (upd_function f g a) = scopes a"
    and "typeInfos (upd_function f g a) = typeInfos a"
proof -
  note same = ok_same_size [of "upd_function f g a" a]
  show t: "scopes (upd_function f g a) = scopes a" "typeInfos (upd_function f g a) = typeInfos a"
    by (simp_all add: upd_function_def)
  have n: "length (ast_functions (upd_function f g a)) = length (ast_functions a)"
    "ast_structures (upd_function f g a) = ast_structures a" by (simp_all add: upd_function_def)
  have "\<forall>fn\<in>set (ast_functions (upd_function f g a)). function_types_ok a fn"
    unfolding upd_function_def using assms set_update_all [of "ast_functions a" "function_types_ok a" g]
    by (simp add: types_ok_def)
  then show "types_ok (upd_function f g a)"
    using assms(1) by (simp add: types_ok_def same t n wf_types_def wf_scopes_def)
qed

lemma types_ok_upd_struct:
  assumes "types_ok a" and "i < length (ast_structures a) \<Longrightarrow> struct_types_ok a (g (ast_structures a ! i))"
  shows "types_ok (upd_struct i g a)"
proof -
  note same = ok_same_size [of "upd_struct i g a" a]
  have t: "scopes (upd_struct i g a) = scopes a" "typeInfos (upd_struct i g a) = typeInfos a"
    "ast_functions (upd_struct i g a) = ast_functions a"
    "length (ast_structures (upd_struct i g a)) = length (ast_structures a)"
    by (simp_all add: upd_struct_def)
  have "\<forall>st\<in>set (ast_structures (upd_struct i g a)). struct_types_ok a st"
    using assms by (cases "i < length (ast_structures a)")
      (auto simp: upd_struct_def types_ok_def list_update_beyond dest!: set_update_subset_insert [THEN subsetD])
  then show ?thesis
    using assms(1) by (simp add: types_ok_def same t wf_types_def wf_scopes_def)
qed

section \<open>Statements\<close>

text \<open>The scopes of a body and of the bodies in it are in the table of scopes.\<close>

fun body_within :: "nat \<Rightarrow> ASTBody \<Rightarrow> bool" and statement_within :: "nat \<Rightarrow> ASTStatement \<Rightarrow> bool" where
  "body_within n (ASTBody s ss) = (s < n \<and> (\<forall>st\<in>set ss. statement_within n st))"
| "statement_within n (SIf l c b e) = (body_within n b \<and> (\<forall>b'\<in>set_option e. body_within n b'))"
| "statement_within n (SWhile l c b) = body_within n b"
| "statement_within n st = True"

text \<open>
  The generator fills in what the parser has made: there are the same scopes with the same
  functions, the same bodies and the same number of structures.
\<close>

definition same_objects :: "AST \<Rightarrow> AST \<Rightarrow> bool" where
  "same_objects a b \<longleftrightarrow>
    map scope_functions (scopes b) = map scope_functions (scopes a)
    \<and> map fn_body (ast_functions b) = map fn_body (ast_functions a)
    \<and> length (ast_structures b) = length (ast_structures a)"

named_theorems objects

lemma same_objects_refl [objects]: "same_objects a a"
  by (simp add: same_objects_def)

lemma same_objects_trans: "same_objects a b \<Longrightarrow> same_objects b c \<Longrightarrow> same_objects a c"
  by (simp add: same_objects_def)

lemma map_same_update: "(\<And>x. g (f x) = g x) \<Longrightarrow> map g (xs[i := f (xs ! i)]) = map g xs"
  by (cases "i < length xs") (simp_all add: map_update list_update_same_conv list_update_beyond)

lemma objects_upd_scope [objects]:
  "(\<And>sc. scope_functions (f sc) = scope_functions sc) \<Longrightarrow> same_objects a (upd_scope s f a)"
  by (simp add: same_objects_def upd_scope_def map_same_update)

lemma objects_upd_function [objects]:
  "(\<And>fn. fn_body (g fn) = fn_body fn) \<Longrightarrow> same_objects a (upd_function f g a)"
  by (simp add: same_objects_def upd_function_def map_same_update)

lemma objects_tables [objects]:
  "same_objects a (upd_struct i h a)" "same_objects a (set_type_size n z a)" "same_objects a (set_type_struct n i a)"
  "same_objects a (a\<lparr>typeInfos := ts\<rparr>)" "same_objects a (set_statement nm s st a)"
  by (simp_all add: same_objects_def upd_struct_def set_type_size_def set_type_struct_def)
    (simp add: set_statement_def upd_scope_def map_same_update)

lemma addVariable_objects: "addVariable k nm s t off a = Some (v, b) \<Longrightarrow> same_objects a b"
  by (auto simp: addVariable_def Let_def intro!: objects split: Option.bind_splits option.splits)

lemma createType_objects: "createType nm s a = Some (n, b) \<Longrightarrow> same_objects a b"
  by (auto simp: createType_def Let_def intro!: same_objects_trans [OF objects_tables(4) objects_upd_scope] split: if_splits)

definition type_post :: "GenCtx \<Rightarrow> GenCtx \<Rightarrow> bool" where
  "type_post ctx ctx' \<longleftrightarrow>
    gx_scope ctx' = gx_scope ctx \<and> length (scopes (gx_ast ctx')) = length (scopes (gx_ast ctx))
    \<and> same_objects (gx_ast ctx) (gx_ast ctx') \<and> (ctx_ok ctx \<longrightarrow> ctx_ok ctx')"

lemma type_post_refl: "type_post ctx ctx"
  by (simp add: type_post_def same_objects_refl)

lemma type_post_trans: "type_post a b \<Longrightarrow> type_post b c \<Longrightarrow> type_post a c"
  unfolding type_post_def using same_objects_trans by fastforce

lemma expr_type_post: "expr_post ctx ctx' \<Longrightarrow> type_post ctx ctx'"
  by (simp add: type_post_def expr_post_def ctx_ok_def same_objects_refl)

lemma type_post_same: "gx_ast ctx' = gx_ast ctx \<Longrightarrow> gx_scope ctx' = gx_scope ctx \<Longrightarrow> type_post ctx ctx'"
  by (simp add: type_post_def ctx_ok_def same_objects_refl)

lemma same_simps [simp]:
  "gx_ast (emits f ctx) = gx_ast ctx" "gx_scope (emits f ctx) = gx_scope ctx"
  "gx_ast (gen_report ctx) = gx_ast ctx" "gx_scope (gen_report ctx) = gx_scope ctx"
  "gx_ast (free_locals prev ctx) = gx_ast ctx" "gx_scope (free_locals prev ctx) = gx_scope ctx"
  "gx_ast (unwind n ctx) = gx_ast ctx" "gx_scope (unwind n ctx) = gx_scope ctx"
  "gx_ast (leave_function ctx) = gx_ast ctx" "gx_scope (leave_function ctx) = gx_scope ctx"
  "gx_ast (pushLoop pc n ctx) = gx_ast ctx" "gx_scope (pushLoop pc n ctx) = gx_scope ctx"
  "gx_ast (popLoop ctx) = gx_ast ctx" "gx_scope (popLoop ctx) = gx_scope ctx"
  "gx_ast (add_break i ctx) = gx_ast ctx" "gx_scope (add_break i ctx) = gx_scope ctx"
  by (simp_all add: emits_def gen_report_def free_locals_def unwind_def leave_function_def pushLoop_def
      popLoop_def add_break_def Let_def)

lemma generate_moves_same:
  "generatePop r off t ctx = Some ctx' \<Longrightarrow> gx_ast ctx' = gx_ast ctx \<and> gx_scope ctx' = gx_scope ctx"
  "debug_line env l ctx = Some ctx' \<Longrightarrow> gx_ast ctx' = gx_ast ctx \<and> gx_scope ctx' = gx_scope ctx"
  "gen_fix_jump i ctx = Some ctx' \<Longrightarrow> gx_ast ctx' = gx_ast ctx \<and> gx_scope ctx' = gx_scope ctx"
  by (auto simp: generatePop_def debug_line_def gen_fix_jump_def split: Option.bind_splits)

lemma fix_breaks_same:
  "fix_breaks is ctx = Some ctx' \<Longrightarrow> gx_ast ctx' = gx_ast ctx \<and> gx_scope ctx' = gx_scope ctx"
  by (induction "is" ctx rule: fix_breaks.induct) (auto dest!: generate_moves_same(3) split: Option.bind_splits)

lemma performCast_same:
  "performCast l r ctx = (b, ctx') \<Longrightarrow> gx_ast ctx' = gx_ast ctx \<and> gx_scope ctx' = gx_scope ctx"
  by (auto simp: performCast_def split: if_splits)

lemma expression_same:
  "generateExpression e ctx = Some (t, ctx') \<Longrightarrow> gx_ast ctx' = gx_ast ctx \<and> gx_scope ctx' = gx_scope ctx"
  using expression_post(1) by (auto simp: expr_post_def)

lemma declared_types:
  assumes "ctx_ok ctx" and "convertFullType (gx_ast ctx) ty (gx_scope ctx) = Some t"
    and "addVariable k nm (gx_scope ctx) t off (gx_ast ctx) = Some (v, a)"
  shows "types_ok a \<and> length (scopes a) = length (scopes (gx_ast ctx))"
  using types_ok_addVariable [OF _ assms(3) convertFullType_types [OF _ _ assms(2)]] assms(1)
  by (simp add: ctx_ok_def)

lemma addVariable_length: "addVariable k nm s t off a = Some (v, b) \<Longrightarrow> length (scopes b) = length (scopes a)"
  by (auto simp: addVariable_def Let_def split: Option.bind_splits option.splits)

lemma gen_global_types:
  assumes "gen_global nm ty ctx = Some (fl, ctx')"
  shows "type_post ctx ctx'"
proof -
  obtain t where t: "convertFullType (gx_ast ctx) ty (gx_scope ctx) = Some t"
    using assms by (auto simp: gen_global_def split: Option.bind_splits)
  show ?thesis
  proof (cases "valid_type t")
    case True
    then obtain v a off where a: "addVariable GLOBAL_ID nm (gx_scope ctx) t off (gx_ast ctx) = Some (v, a)"
        "gx_ast ctx' = a" "gx_scope ctx' = gx_scope ctx"
      using assms t by (auto simp: gen_global_def Let_def split: Option.bind_splits prod.splits if_splits)
    then show ?thesis using declared_types [OF _ t a(1)] addVariable_length [OF a(1)] addVariable_objects [OF a(1)]
      by (auto simp: type_post_def ctx_ok_def)
  qed (use assms t in \<open>auto simp: gen_global_def intro: type_post_same\<close>)
qed

lemma gen_const_types:
  assumes "gen_const st nm ty ctx = Some (fl, ctx')"
  shows "type_post ctx ctx'"
proof -
  obtain t where t: "convertFullType (gx_ast ctx) ty (gx_scope ctx) = Some t"
    using assms by (auto simp: gen_const_def split: Option.bind_splits)
  show ?thesis
  proof (cases "valid_type t")
    case True
    then obtain v a where a: "addVariable CONST_ID nm (gx_scope ctx) t 0 (gx_ast ctx) = Some (v, a)"
        "gx_ast ctx' = a \<or> gx_ast ctx' = set_statement nm (gx_scope ctx) st a" "gx_scope ctx' = gx_scope ctx"
      using assms t by (auto simp: gen_const_def Let_def split: Option.bind_splits prod.splits if_splits)
    then show ?thesis using declared_types [OF _ t a(1)] addVariable_length [OF a(1)] addVariable_objects [OF a(1)] types_ok_set_statement [of a]
      by (auto simp: type_post_def ctx_ok_def set_statement_def [THEN arg_cong, of "\<lambda>b. length (scopes b)"]
          intro: same_objects_trans [OF _ objects_tables(5)])
  qed (use assms t in \<open>auto simp: gen_const_def intro: type_post_same\<close>)
qed

lemma init_local_same:
  "init_local off t e ctx = Some (fl, ctx') \<Longrightarrow> gx_ast ctx' = gx_ast ctx \<and> gx_scope ctx' = gx_scope ctx"
  by (auto simp: init_local_def dest!: expression_same performCast_same generate_moves_same
      split: option.splits Option.bind_splits prod.splits bool.splits if_splits)

lemma gen_var_types:
  assumes "gen_var nm ty e ctx = Some (fl, ctx')"
  shows "type_post ctx ctx'"
proof -
  obtain t where t: "convertFullType (gx_ast ctx) ty (gx_scope ctx) = Some t"
    using assms by (auto simp: gen_var_def split: Option.bind_splits)
  show ?thesis
  proof (cases "valid_type t")
    case True
    then obtain v a off where a: "addVariable LOCAL_ID nm (gx_scope ctx) t off (gx_ast ctx) = Some (v, a)"
        "gx_ast ctx' = a" "gx_scope ctx' = gx_scope ctx"
      using assms t by (auto simp: gen_var_def Let_def dest!: init_local_same split: Option.bind_splits prod.splits option.splits)
    then show ?thesis using declared_types [OF _ t a(1)] addVariable_length [OF a(1)] addVariable_objects [OF a(1)]
      by (auto simp: type_post_def ctx_ok_def)
  qed (use assms t in \<open>auto simp: gen_var_def intro: type_post_same\<close>)
qed

lemma gen_condition_same:
  "gen_condition e ctx = Some (i, ctx') \<Longrightarrow> gx_ast ctx' = gx_ast ctx \<and> gx_scope ctx' = gx_scope ctx"
  by (auto simp: gen_condition_def Let_def dest!: expression_same performCast_same
      split: Option.bind_splits prod.splits bool.splits)

lemma gen_leave_same:
  "gen_expression_stmt e ctx = Some (fl, ctx') \<Longrightarrow> gx_ast ctx' = gx_ast ctx \<and> gx_scope ctx' = gx_scope ctx"
  "gen_continue prev ctx = Some (fl, ctx') \<Longrightarrow> gx_ast ctx' = gx_ast ctx \<and> gx_scope ctx' = gx_scope ctx"
  "gen_break prev ctx = Some (fl, ctx') \<Longrightarrow> gx_ast ctx' = gx_ast ctx \<and> gx_scope ctx' = gx_scope ctx"
  "gen_return prev r ctx = Some (fl, ctx') \<Longrightarrow> gx_ast ctx' = gx_ast ctx \<and> gx_scope ctx' = gx_scope ctx"
  by (auto simp: gen_expression_stmt_def gen_continue_def gen_break_def gen_return_def Let_def
      dest!: expression_same performCast_same generate_moves_same
      split: Option.bind_splits prod.splits bool.splits option.splits if_splits)

lemma gen_leave_types:
  "gen_expression_stmt e ctx = Some (fl, ctx') \<Longrightarrow> type_post ctx ctx'"
  "gen_continue prev ctx = Some (fl, ctx') \<Longrightarrow> type_post ctx ctx'"
  "gen_break prev ctx = Some (fl, ctx') \<Longrightarrow> type_post ctx ctx'"
  "gen_return prev r ctx = Some (fl, ctx') \<Longrightarrow> type_post ctx ctx'"
  using gen_leave_same type_post_same by blast+

lemma free_locals_types: "type_post ctx (free_locals prev ctx)"
  by (simp add: type_post_same)

lemma statement_types:
  "generateBody env body ctx = Some (ok, ctx') \<Longrightarrow> body_within (length (scopes (gx_ast ctx))) body \<Longrightarrow> type_post ctx ctx'"
  "generateStatements env prev ss ctx = Some (ok, ctx') \<Longrightarrow>
    \<forall>st\<in>set ss. statement_within (length (scopes (gx_ast ctx))) st \<Longrightarrow> type_post ctx ctx'"
  "generateStatement env prev st ctx = Some (fl, ctx') \<Longrightarrow> statement_within (length (scopes (gx_ast ctx))) st \<Longrightarrow> type_post ctx ctx'"
proof (induction env body ctx and env prev ss ctx and env prev st ctx
    arbitrary: ok ctx' and ok ctx' and fl ctx'
    rule: generateBody_generateStatements_generateStatement.induct)
  case (1 env s stmts ctx)
  then obtain c1 where c: "generateStatements env (current_frameOffset ctx) stmts (ctx\<lparr>gx_scope := s\<rparr>) = Some (ok, c1)"
      "ctx' = c1\<lparr>gx_scope := gx_scope ctx\<rparr>"
    by (auto dest!: bind_Some_pair)
  have "type_post (ctx\<lparr>gx_scope := s\<rparr>) c1" using "1.IH" [OF c(1)] "1.prems"(2) by simp
  then show ?case using c(2) "1.prems"(2) by (simp add: type_post_def ctx_ok_def)
next
  case (2 env prev ctx)
  then have "ctx' = free_locals prev ctx" by simp
  then show ?case by (simp add: type_post_same)
next
  case (3 env prev stmt rest ctx)
  obtain c1 where c1: "debug_line env (stmt_location stmt) ctx = Some c1"
    using "3.prems" by (cases "debug_line env (stmt_location stmt) ctx") auto
  obtain flow c2 where c2: "generateStatement env prev stmt c1 = Some (flow, c2)"
      "(case flow of
          Proceed \<Rightarrow> generateStatements env prev rest c2
        | Halt \<Rightarrow> Some (True, free_locals prev c2)
        | Leave b \<Rightarrow> Some (b, c2)) = Some (ok, ctx')"
    using "3.prems"(1) c1 by (auto dest!: bind_Some_pair)
  have s: "gx_ast c1 = gx_ast ctx" "gx_scope c1 = gx_scope ctx"
    using generate_moves_same(2) [OF c1] by simp_all
  have "type_post c1 c2" using "3.IH"(1) [OF c1 c2(1)] "3.prems"(2) s by simp
  with type_post_same [OF s] have p: "type_post ctx c2" by (rule type_post_trans)
  then have "length (scopes (gx_ast c2)) = length (scopes (gx_ast ctx))" by (simp add: type_post_def)
  then have "type_post c2 ctx'"
    using c2(2) "3.IH"(2) [OF c1 c2(1) refl] "3.prems"(2)
    by (cases flow) (auto simp: type_post_refl free_locals_types)
  with p show ?case by (rule type_post_trans)
next
  case (11 env prev l c body ctx)
  let ?pc = "int (get_pc (gx_piece ctx))"
  obtain i c1 where c1: "gen_condition c (pushLoop ?pc (current_frameOffset ctx) ctx) = Some (i, c1)"
    using "11.prems" by (cases "gen_condition c (pushLoop ?pc (current_frameOffset ctx) ctx)") (auto simp: Let_def)
  have s: "gx_ast c1 = gx_ast ctx" "gx_scope c1 = gx_scope ctx" using gen_condition_same [OF c1] by simp_all
  show ?case
  proof (cases i)
    case None
    then show ?thesis using "11.prems" c1 s by (simp add: Let_def type_post_same)
  next
    case (Some r)
    obtain b c2 c3 c4 where g: "generateBody env body c1 = Some (b, c2)"
        "gen_fix_jump r (emits (emit_jmp ?pc) c2) = Some c3"
        "fix_breaks (breaks_to_resolve (loopScopes c3 ! length (loopScopes ctx))) c3 = Some c4"
        "ctx' = popLoop c4"
      using "11.prems" c1 Some by (auto simp: Let_def split: Option.bind_splits)
    have "type_post c1 c2" using "11.IH" [OF refl refl c1 refl Some g(1)] "11.prems"(2) s by simp
    moreover have "type_post c2 ctx'"
      using generate_moves_same(3) [OF g(2)] fix_breaks_same [OF g(3)] g(4) by (simp add: type_post_same)
    ultimately have "type_post c1 ctx'" by (rule type_post_trans)
    with type_post_same [OF s] show ?thesis by (rule type_post_trans)
  qed
next
  case (12 env prev l c body eb ctx)
  obtain i c1 where c1: "gen_condition c ctx = Some (i, c1)"
    using "12.prems" by (cases "gen_condition c ctx") auto
  have s: "gx_ast c1 = gx_ast ctx" "gx_scope c1 = gx_scope ctx" using gen_condition_same [OF c1] by simp_all
  show ?case
  proof (cases i)
    case None
    then show ?thesis using "12.prems" c1 s by (simp add: type_post_same)
  next
    case (Some r)
    obtain b c2 where c2: "generateBody env body c1 = Some (b, c2)"
      using "12.prems" c1 Some by (auto split: Option.bind_splits)
    have "type_post c1 c2" using "12.IH"(1) [OF c1 refl Some c2] "12.prems"(2) s by simp
    with type_post_same [OF s] have p2: "type_post ctx c2" by (rule type_post_trans)
    show ?thesis
    proof (cases eb)
      case None
      then have j: "gen_fix_jump r c2 = Some ctx'"
        using "12.prems" c1 Some c2 by (auto split: Option.bind_splits)
      have "type_post c2 ctx'" using generate_moves_same(3) [OF j] by (simp add: type_post_same)
      with p2 show ?thesis by (rule type_post_trans)
    next
      case e: (Some e)
      obtain n q where n: "(n, q) = emit_jmp_out (gx_piece c2)" by (metis surj_pair)
      obtain c3 b' c4 c5 where g: "gen_fix_jump r (c2\<lparr>gx_piece := q\<rparr>) = Some c3"
          "generateBody env e c3 = Some (b', c4)" "gen_fix_jump n c4 = Some c5" "ctx' = c5"
        using "12.prems" c1 Some c2 e n [symmetric] by (auto simp: Let_def split: Option.bind_splits)
      have s3: "gx_ast c3 = gx_ast c2" "gx_scope c3 = gx_scope c2"
        using generate_moves_same(3) [OF g(1)] by simp_all
      have "type_post c3 c4"
        using "12.IH"(2) [OF c1 refl Some c2 refl e n refl g(1) g(2)] "12.prems"(2) e s3 p2
        by (simp add: type_post_def)
      moreover have "type_post c4 ctx'" using generate_moves_same(3) [OF g(3)] g(4) by (simp add: type_post_same)
      ultimately have "type_post c3 ctx'" by (rule type_post_trans)
      with type_post_same [OF s3] have "type_post c2 ctx'" by (rule type_post_trans)
      with p2 show ?thesis by (rule type_post_trans)
    qed
  qed
qed (simp_all add: gen_leave_types gen_global_types gen_const_types gen_var_types)

section \<open>Declarations\<close>

lemma types_ok_createType:
  assumes ok: "types_ok a" and new: "createType nm s a = Some (n, b)"
  shows "types_ok b \<and> length (scopes b) = length (scopes a) \<and> ast_structures b = ast_structures a
    \<and> n < length (typeInfos b)"
proof -
  have b: "b = upd_scope s (\<lambda>sc. sc\<lparr>type_map := (type_map sc)(nm \<mapsto> n)\<rparr>)
      (a\<lparr>typeInfos := typeInfos a @ [default_type_info\<lparr>type_name := nm, typeId := make_type n 0\<rparr>]\<rparr>)"
    and n: "n = length (typeInfos a)" and s: "s < length (scopes a)"
    using new by (auto simp: createType_def Let_def split: if_splits)
  have t: "length (typeInfos b) = Suc (length (typeInfos a))" "ast_functions b = ast_functions a"
    "ast_structures b = ast_structures a" by (simp_all add: b)
  have mono: "in_table a t \<Longrightarrow> in_table b t" for t by (simp add: in_table_def t)
  have sc: "scope_types_ok a x \<Longrightarrow> scope_types_ok b x" "function_types_ok a f \<Longrightarrow> function_types_ok b f"
    "struct_types_ok a st \<Longrightarrow> struct_types_ok b st" for x f st
    using mono by (auto simp: scope_types_ok_def function_types_ok_def struct_types_ok_def t)
  have "scope_types_ok b x" if x: "x \<in> set (scopes b)" for x
  proof -
    obtain k where k: "k < length (scopes a)" "x = scopes b ! k" using x by (auto simp: b in_set_conv_nth)
    then have "identifiers x = identifiers (scopes a ! k)" "scope_functions x = scope_functions (scopes a ! k)"
      by (simp_all add: b upd_scope_nth)
    moreover have "scope_types_ok a (scopes a ! k)" using ok k(1) by (simp add: types_ok_def)
    ultimately show ?thesis using mono by (simp add: scope_types_ok_def t)
  qed
  moreover have "wf_scopes b" "wf_types b"
    using ok wf_scopes_createType [OF _ new] wf_types_createType [OF _ new] by (simp_all add: types_ok_def)
  ultimately have "types_ok b"
    using ok sc by (auto simp: types_ok_def t) (auto simp: b default_type_info_def types_ok_def)
  then show ?thesis by (simp add: t n) (simp add: b)
qed

lemma types_ok_type_infos:
  assumes "types_ok a" and "n < length (typeInfos a)" and "\<And>x. type_name (g x) = type_name x" "\<And>x. typeId (g x) = typeId x"
    and "\<And>x i. ast_struct (g x) = Some i \<Longrightarrow> ast_struct x = Some i \<or> i < length (ast_structures a)"
  shows "types_ok (a\<lparr>typeInfos := (typeInfos a)[n := g (typeInfos a ! n)]\<rparr>)"
proof -
  let ?b = "a\<lparr>typeInfos := (typeInfos a)[n := g (typeInfos a ! n)]\<rparr>"
  note same = ok_same_size [of ?b a, simplified]
  have "\<forall>x\<in>set (typeInfos ?b). \<forall>i. ast_struct x = Some i \<longrightarrow> i < length (ast_structures a)"
    using assms(1,5) set_update_all [of "typeInfos a" "\<lambda>x. \<forall>i. ast_struct x = Some i \<longrightarrow> i < length (ast_structures a)" g n]
    by (auto simp: types_ok_def)
  moreover have "type_name (typeInfos ?b ! i) = type_name (typeInfos a ! i)" "typeId (typeInfos ?b ! i) = typeId (typeInfos a ! i)" for i
    using assms(2) by (cases "i = n"; simp add: assms(3,4))+
  then have "wf_types ?b" using assms(1) by (simp add: types_ok_def wf_types_def)
  ultimately show ?thesis using assms(1) by (simp add: types_ok_def same wf_scopes_cong)
qed

lemma types_ok_set_type_size: "types_ok a \<Longrightarrow> n < length (typeInfos a) \<Longrightarrow> types_ok (set_type_size n z a)"
  unfolding set_type_size_def by (intro types_ok_type_infos) auto

lemma types_ok_set_type_struct:
  "types_ok a \<Longrightarrow> n < length (typeInfos a) \<Longrightarrow> i < length (ast_structures a) \<Longrightarrow> types_ok (set_type_struct n i a)"
  unfolding set_type_struct_def by (intro types_ok_type_infos) auto

lemma layout_members_types:
  "layout_members a s ms off al = Some (ok, ms', off', al') \<Longrightarrow> types_ok a \<Longrightarrow> s < length (scopes a) \<Longrightarrow>
   \<forall>m\<in>set ms. in_table a (mem_typeId m) \<Longrightarrow> \<forall>m\<in>set ms'. in_table a (mem_typeId m)"
proof (induction a s ms off al arbitrary: ok ms' off' al' rule: layout_members.induct)
  case (2 a s m ms off al)
  obtain t where t: "convertFullType a (mem_typeString m) s = Some t"
    using "2.prems" by (auto split: Option.bind_splits)
  show ?case
  proof (cases "valid_type t")
    case True
    then obtain sz ok2 ms2 off2 al2 where g: "sizeOfType a t = Some sz"
        "layout_members a s ms (align_up (member_alignment sz) off + sz) (max al (member_alignment sz)) = Some (ok2, ms2, off2, al2)"
        "ms' = m\<lparr>mem_typeId := t, mem_offset := align_up (member_alignment sz) off\<rparr> # ms2"
      using "2.prems"(1) t by (auto simp: Let_def split: Option.bind_splits prod.splits)
    have "\<forall>m\<in>set ms2. in_table a (mem_typeId m)"
      using "2.IH" [OF t _ g(1) refl refl] g(2) True "2.prems" by simp
    then show ?thesis using g(3) convertFullType_types [OF "2.prems"(2,3) t] by simp
  qed (use 2 t in auto)
qed auto

definition struct_post :: "GenCtx \<Rightarrow> GenCtx \<Rightarrow> bool" where
  "struct_post ctx ctx' \<longleftrightarrow> type_post ctx ctx'
    \<and> length (ast_structures (gx_ast ctx')) = length (ast_structures (gx_ast ctx))"

lemma create_struct_type_types:
  assumes "types_ok a" and "i < length (ast_structures a)" and "create_struct_type i s a = Some b"
  shows "types_ok b \<and> length (scopes b) = length (scopes a) \<and> length (ast_structures b) = length (ast_structures a)"
proof (cases "created_type (ast_structures a ! i)")
  case False
  then obtain n c where c: "createType (st_name (ast_structures a ! i)) s a = Some (n, c)"
      "b = upd_struct i (\<lambda>st. st\<lparr>created_type := True, typeInfo := Some n\<rparr>) (set_type_struct n i c)"
    using assms(3) by (auto simp: create_struct_type_def split: Option.bind_splits)
  note k = types_ok_createType [OF assms(1) c(1)]
  then have d: "types_ok (set_type_struct n i c)" using assms(2) by (simp add: types_ok_set_type_struct)
  have e: "ast_structures (set_type_struct n i c) = ast_structures a" "scopes (set_type_struct n i c) = scopes c"
    "length (typeInfos (set_type_struct n i c)) = length (typeInfos c)"
    using k by (simp_all add: set_type_struct_def)
  have "types_ok b" unfolding c(2)
    by (rule types_ok_upd_struct [OF d]) (use d e k in \<open>auto simp: struct_types_ok_def types_ok_def\<close>)
  moreover have "scopes b = scopes c" "length (ast_structures b) = length (ast_structures a)"
    using e by (simp_all add: c(2) upd_struct_def)
  ultimately show ?thesis using k by simp
qed (use assms in \<open>simp add: create_struct_type_def\<close>)

lemma create_struct_type_objects: "create_struct_type i s a = Some b \<Longrightarrow> same_objects a b"
  by (auto simp: create_struct_type_def dest!: createType_objects split: Option.bind_splits if_splits
      intro: objects same_objects_trans [OF _ same_objects_trans [OF objects_tables(3) objects_tables(1)]])

lemma generateStruct_types:
  assumes ok: "ctx_ok ctx" and i: "i < length (ast_structures (gx_ast ctx))" and gen: "generateStruct i ctx = Some (yes, ctx')"
  shows "struct_post ctx ctx' \<and> ctx_ok ctx'"
proof (cases "complete (ast_structures (gx_ast ctx) ! i)")
  case False
  let ?s = "gx_scope ctx"
  obtain a1 where a1: "create_struct_type i ?s (gx_ast ctx) = Some a1"
    using gen False by (auto simp: generateStruct_def split: Option.bind_splits)
  obtain good ms off al where m: "layout_members a1 ?s (members (ast_structures a1 ! i)) 0 1 = Some (good, ms, off, al)"
    using gen False a1 by (auto simp: generateStruct_def split: Option.bind_splits)
  let ?a2 = "upd_struct i (\<lambda>st. st\<lparr>members := ms\<rparr>) a1"
  have k: "types_ok a1" "length (scopes a1) = length (scopes (gx_ast ctx))"
    "length (ast_structures a1) = length (ast_structures (gx_ast ctx))"
    using create_struct_type_types [OF _ i a1] ok by (simp_all add: ctx_ok_def)
  have st: "struct_types_ok a1 (ast_structures a1 ! i)" using k i by (simp add: types_ok_def)
  have "\<forall>m\<in>set ms. in_table a1 (mem_typeId m)"
    using layout_members_types [OF m k(1)] ok k(2) st by (simp add: ctx_ok_def struct_types_ok_def)
  then have t2: "types_ok ?a2" using st
    by (intro types_ok_upd_struct [OF k(1)]) (simp add: struct_types_ok_def)
  have e2: "scopes ?a2 = scopes a1" "length (ast_structures ?a2) = length (ast_structures a1)"
    by (simp_all add: upd_struct_def)
  have o: "same_objects (gx_ast ctx) ?a2"
    by (rule same_objects_trans [OF create_struct_type_objects [OF a1] objects_tables(1)])
  show ?thesis
  proof (cases good)
    case False
    then have "gx_ast ctx' = ?a2" "gx_scope ctx' = ?s"
      using gen \<open>\<not> complete _\<close> a1 m by (auto simp: generateStruct_def Let_def split: if_splits)
    then show ?thesis using t2 e2 k ok o by (simp add: struct_post_def type_post_def ctx_ok_def)
  next
    case True
    then obtain n where n: "typeInfo (ast_structures ?a2 ! i) = Some n"
        "gx_ast ctx' = upd_struct i (\<lambda>st. st\<lparr>complete := True\<rparr>) (set_type_size n (align_up al off) ?a2)"
        "gx_scope ctx' = ?s"
      using gen \<open>\<not> complete _\<close> a1 m by (auto simp: generateStruct_def Let_def split: Option.bind_splits)
    have i2: "i < length (ast_structures ?a2)" using e2 k(3) i by simp
    then have "n < length (typeInfos ?a2)" using t2 n(1) by (auto simp: types_ok_def struct_types_ok_def)
    then have t3: "types_ok (set_type_size n (align_up al off) ?a2)" using t2 by (rule types_ok_set_type_size [rotated])
    have "types_ok (gx_ast ctx')" unfolding n(2)
      by (rule types_ok_upd_struct [OF t3]) (use t3 in \<open>auto simp: types_ok_def struct_types_ok_def\<close>)
    moreover have "scopes (gx_ast ctx') = scopes a1" "length (ast_structures (gx_ast ctx')) = length (ast_structures a1)"
      by (simp_all add: n(2) upd_struct_def set_type_size_def)
    moreover have "same_objects (gx_ast ctx) (gx_ast ctx')"
      unfolding n(2) by (intro same_objects_trans [OF o] same_objects_trans [OF objects_tables(2) objects_tables(1)])
    ultimately show ?thesis using k ok n(3) by (simp add: struct_post_def type_post_def ctx_ok_def)
  qed
qed (use ok gen in \<open>simp add: generateStruct_def struct_post_def type_post_def same_objects_refl\<close>)

lemma check_structs_types:
  "check_structs is ctx = Some (ok, changed, ctx') \<Longrightarrow> ctx_ok ctx \<Longrightarrow> set is \<subseteq> {..<length (ast_structures (gx_ast ctx))} \<Longrightarrow>
   ctx_ok ctx'"
proof (induction "is" ctx arbitrary: ok changed ctx' rule: check_structs.induct)
  case (2 i "is" ctx)
  show ?case
  proof (cases "complete (ast_structures (gx_ast ctx) ! i)")
    case False
    then obtain yes c1 where g1: "generateStruct i ctx = Some (yes, c1)"
      using "2.prems"(1) by (cases "generateStruct i ctx") auto
    then obtain r where r: "check_structs is c1 = Some r" "snd (snd r) = ctx'"
      using "2.prems"(1) False by (cases "check_structs is c1") auto
    obtain ok2 ch2 where g: "generateStruct i ctx = Some (yes, c1)" "check_structs is c1 = Some (ok2, ch2, ctx')"
      using g1 r by (cases r) auto
    have "struct_post ctx c1 \<and> ctx_ok c1" using generateStruct_types [OF "2.prems"(2) _ g(1)] "2.prems"(3) by simp
    then show ?thesis using "2.IH"(2) [OF False g(1) refl g(2)] "2.prems"(3) by (simp add: struct_post_def)
  qed (use 2 in auto)
qed auto

lemma declare_param_in_table:
  assumes "declare_param b p ctx = Some ctx'" and "in_table (gx_ast ctx) (param_typeId p)"
  shows "type_post ctx ctx' \<and> (ctx_ok ctx \<longrightarrow> typeInfos (gx_ast ctx') = typeInfos (gx_ast ctx))"
proof (cases b)
  case (Some body)
  then obtain v a where a: "addVariable LOCAL_ID (param_name p) (body_scope body) (param_typeId p) (param_offset p) (gx_ast ctx) = Some (v, a)"
      "gx_ast ctx' = a" "gx_scope ctx' = gx_scope ctx"
    using assms(1) by (auto simp: declare_param_def split: Option.bind_splits if_splits)
  show ?thesis using types_ok_addVariable [OF _ a(1) assms(2)] addVariable_length [OF a(1)] addVariable_objects [OF a(1)] a(2,3)
    by (auto simp: type_post_def ctx_ok_def)
qed (use assms(1) in \<open>simp add: declare_param_def type_post_refl\<close>)

lemma layout_params_types:
  "layout_params b ps off ctx = Some (ps', off', ctx') \<Longrightarrow> ctx_ok ctx \<Longrightarrow>
   ctx_ok ctx' \<and> type_post ctx ctx' \<and> typeInfos (gx_ast ctx') = typeInfos (gx_ast ctx)
   \<and> (\<forall>p\<in>set ps'. in_table (gx_ast ctx) (param_typeId p))"
proof (induction ps arbitrary: off ctx ps' off' ctx')
  case (Cons p ps)
  obtain t where t: "convertFullType (gx_ast ctx) (param_typeString p) (gx_scope ctx) = Some t"
    using Cons.prems(1) by (auto split: Option.bind_splits)
  let ?c1 = "if valid_type t then ctx else gen_report ctx"
  obtain sz where sz: "sizeOfType (gx_ast ?c1) t = Some sz"
    using Cons.prems(1) t by (auto simp: Let_def split: Option.bind_splits)
  let ?p1 = "p\<lparr>param_typeId := t, param_offset := align_up (param_alignment sz) off\<rparr>"
  obtain c2 where c2: "declare_param b ?p1 ?c1 = Some c2"
    using Cons.prems(1) t sz by (auto simp: Let_def split: Option.bind_splits)
  obtain qs where q: "layout_params b ps (align_up (param_alignment sz) off + sz) c2 = Some (qs, off', ctx')" "ps' = ?p1 # qs"
    using Cons.prems(1) t sz c2 by (auto simp: Let_def split: Option.bind_splits)
  have i: "in_table (gx_ast ctx) t" using convertFullType_types [OF _ _ t] Cons.prems(2) by (simp add: ctx_ok_def)
  have c1: "ctx_ok ?c1" "gx_ast ?c1 = gx_ast ctx" "gx_scope ?c1 = gx_scope ctx" using Cons.prems(2) by (simp_all add: ctx_ok_def)
  have d: "type_post ?c1 c2" "typeInfos (gx_ast c2) = typeInfos (gx_ast ctx)"
    using declare_param_in_table [OF c2] i c1 by simp_all
  then have p: "type_post ctx c2" "ctx_ok c2" using c1 type_post_same [of ?c1 ctx] by (auto simp: type_post_def)
  with Cons.IH [OF q(1)] d(2) q(2) i show ?case by (auto simp: in_table_def intro: type_post_trans)
qed (simp add: type_post_refl)

lemma check_globals_types: "check_globals ss ctx = Some (ok, ctx') \<Longrightarrow> type_post ctx ctx'"
proof (induction ss ctx arbitrary: ok ctx' rule: check_globals.induct)
  case (2 l nm ty rest ctx)
  then obtain fl c1 where g: "gen_global nm ty ctx = Some (fl, c1)"
      "(if fl = Proceed then check_globals rest c1 else Some (False, c1)) = Some (ok, ctx')"
    by (auto dest!: bind_Some_pair)
  have "type_post c1 ctx'" using g(2) "2.IH" [OF g(1) refl] by (auto simp: type_post_refl split: if_splits)
  with gen_global_types [OF g(1)] show ?case by (rule type_post_trans)
qed (auto simp: type_post_refl)

section \<open>Functions\<close>

lemma layout_return_types:
  assumes "layout_return f ctx = Some ctx'" and "ctx_ok ctx"
  shows "ctx_ok ctx'"
proof (cases "return_typeString (ast_functions (gx_ast ctx) ! f) = []")
  case False
  then obtain t where t: "convertFullType (gx_ast ctx) (return_typeString (ast_functions (gx_ast ctx) ! f)) (gx_scope ctx) = Some t"
    using assms(1) by (auto simp: layout_return_def Let_def split: Option.bind_splits)
  let ?a1 = "upd_function f (\<lambda>fn. fn\<lparr>return_type := t\<rparr>) (gx_ast ctx)"
  have ok: "types_ok (gx_ast ctx)" using assms(2) by (simp add: ctx_ok_def)
  have "in_table (gx_ast ctx) t" using convertFullType_types [OF _ _ t] assms(2) by (simp add: ctx_ok_def)
  then have a1: "types_ok ?a1" by (intro types_ok_upd_function(1) [OF ok]) (simp add: function_types_ok_def)
  then have a2: "types_ok (upd_function f (\<lambda>fn. fn\<lparr>return_offset := z\<rparr>) ?a1)" for z
    by (rule types_ok_upd_function(1)) (simp add: function_types_ok_def)
  have "(\<exists>z. gx_ast ctx' = upd_function f (\<lambda>fn. fn\<lparr>return_offset := z\<rparr>) ?a1) \<or> gx_ast ctx' = ?a1" "gx_scope ctx' = gx_scope ctx"
    using assms(1) False t by (auto simp: layout_return_def Let_def split: Option.bind_splits if_splits)
  then show ?thesis using a1 a2 assms(2) by (auto simp: ctx_ok_def types_ok_upd_function(2) [OF a1] types_ok_upd_function(2) [OF ok] upd_function_def)
qed (use assms in \<open>simp add: layout_return_def\<close>)

lemma clear_same:
  "clear_globals ss ctx = Some ctx' \<Longrightarrow> gx_ast ctx' = gx_ast ctx"
proof (induction ss ctx arbitrary: ctx' rule: clear_globals.induct)
  case (2 l nm ty rest ctx)
  obtain c1 where c1: "clear_global nm ctx = Some c1" "clear_globals rest c1 = Some ctx'"
    using "2.prems" by (auto split: Option.bind_splits)
  have "gx_ast c1 = gx_ast ctx" using c1(1) by (auto simp: clear_global_def split: Option.bind_splits option.splits)
  then show ?case using "2.IH" [OF c1] by simp
qed auto

lemma clear_bodies_same: "clear_bodies bs ctx = Some ctx' \<Longrightarrow> gx_ast ctx' = gx_ast ctx"
proof (induction bs ctx arbitrary: ctx' rule: clear_bodies.induct)
  case (2 s stmts rest ctx)
  obtain c1 where c1: "clear_globals stmts (ctx\<lparr>gx_scope := s\<rparr>) = Some c1"
      "clear_bodies (rev (child_bodies stmts) @ rest) c1 = Some ctx'"
    using "2.prems" by (auto split: Option.bind_splits)
  show ?case using clear_same [OF c1(1)] "2.IH" [OF c1] by simp
qed auto

lemma clear_imports_same: "clear_imports imps ctx = Some ctx' \<Longrightarrow> gx_ast ctx' = gx_ast ctx"
proof (induction imps ctx arbitrary: ctx' rule: clear_imports.induct)
  case (2 imp imps ctx)
  obtain s c1 c2 where c: "imp_body imp = Some s" "clear_globals (imp_statements imp) (ctx\<lparr>gx_scope := s\<rparr>) = Some c1"
      "clear_bodies (rev (function_bodies (gx_ast c1) s @ child_bodies (imp_statements imp))) c1 = Some c2"
      "clear_imports imps c2 = Some ctx'"
    using "2.prems" by (auto split: Option.bind_splits)
  show ?case using clear_same [OF c(2)] clear_bodies_same [OF c(3)] "2.IH" [OF c] by simp
qed auto

lemma main_prologue_same:
  assumes "main_prologue imps body ctx = Some ctx'"
  shows "gx_ast ctx' = gx_ast ctx \<and> gx_scope ctx' = gx_scope ctx"
proof -
  obtain c where "clear_imports imps (emits (push_line 0 ''<set-globals>'') (ctx\<lparr>gx_scope := body_scope body\<rparr>)) = Some c"
      "ctx' = c\<lparr>gx_scope := gx_scope ctx\<rparr>"
    using assms by (auto simp: main_prologue_def split: Option.bind_splits)
  then show ?thesis using clear_imports_same by fastforce
qed

lemma reserve_return_same:
  "reserve_return ctx = Some ctx' \<Longrightarrow> gx_ast ctx' = gx_ast ctx \<and> gx_scope ctx' = gx_scope ctx"
  by (auto simp: reserve_return_def split: Option.bind_splits if_splits)

lemma finish_function_same: "gx_ast (finish_function ctx) = gx_ast ctx"
  by (simp add: finish_function_def Let_def)

lemma GenerateFunction_types:
  assumes gen: "GenerateFunction env a imps str f bc errs = Some (b, bc', n)" and ok: "types_ok a"
    and within: "\<And>body. fn_body (ast_functions a ! f) = Some body \<Longrightarrow> body_within (length (scopes a)) body"
  shows "types_ok b \<and> same_objects a b"
proof (cases "is_native (ast_functions a ! f)")
  case False
  obtain body where body: "fn_body (ast_functions a ! f) = Some body"
    using gen False by (auto simp: GenerateFunction_def Let_def split: Option.bind_splits)
  obtain p bc1 where p: "createPiece bc = (p, bc1)" by (cases "createPiece bc")
  let ?a = "upd_function f (\<lambda>fn. fn\<lparr>piece_code_index := piece_index p\<rparr>) a"
  let ?ctx = "(new_context ?a errs 0 str)\<lparr>gx_bytecode := bc1, gx_function := f,
      gx_piece := p\<lparr>piece_name := fn_name (ast_functions a ! f), virtual_sp := 0\<rparr>\<rparr>"
  obtain c1 where c1: "(if fn_name (ast_functions a ! f) = ''main'' then main_prologue imps body ?ctx else Some ?ctx) = Some c1"
    using gen False body p by (auto simp: GenerateFunction_def Let_def split: Option.bind_splits)
  obtain c2 where c2: "reserve_return c1 = Some c2"
    using gen False body p c1 by (auto simp: GenerateFunction_def Let_def split: Option.bind_splits)
  obtain good c3 where c3: "generateBody env body c2 = Some (good, c3)" "b = gx_ast (finish_function c3)"
    using gen False body p c1 c2 by (auto simp: GenerateFunction_def Let_def split: Option.bind_splits)
  have a: "types_ok ?a" "scopes ?a = scopes a"
    using types_ok_upd_function [OF ok] by (auto simp: function_types_ok_def)
  have "gx_ast c1 = ?a" "gx_scope c1 = 0"
    using c1 main_prologue_same [of imps body ?ctx c1] by (auto simp: new_context_def split: if_splits)
  then have s: "gx_ast c2 = ?a" "gx_scope c2 = 0" using reserve_return_same [OF c2] by simp_all
  have w: "body_within (length (scopes a)) body" using within [OF body] .
  then have "0 < length (scopes a)" by (cases body) auto
  then have "ctx_ok c2" using a s by (simp add: ctx_ok_def)
  moreover have "type_post c2 c3" using statement_types(1) [OF c3(1)] w s a by simp
  moreover have "same_objects a ?a" by (rule objects_upd_function) simp
  ultimately show ?thesis using c3(2) s(1)
    by (auto simp: type_post_def ctx_ok_def finish_function_same intro: same_objects_trans)
qed (use gen ok in \<open>simp add: GenerateFunction_def same_objects_refl\<close>)

section \<open>The operations of the scheduler on the tables\<close>

definition import_within :: "AST \<Rightarrow> Import \<Rightarrow> bool" where
  "import_within a imp \<longleftrightarrow>
    (\<forall>s. imp_body imp = Some s \<longrightarrow> s < length (scopes a))
    \<and> set (imp_structures imp) \<subseteq> {..<length (ast_structures a)}"

text \<open>One task of the generator, on files and functions whose scopes are in the table.\<close>

inductive generator_step :: "AST \<Rightarrow> AST \<Rightarrow> bool" where
  structs: "CheckStructs a imp errs ignored = Some (ok, changed, b, n) \<Longrightarrow> import_within a imp \<Longrightarrow> generator_step a b"
| header: "CheckFunction a imp f errs = Some (b, n) \<Longrightarrow> import_within a imp \<Longrightarrow> generator_step a b"
| globals: "CheckGlobals a imp bc errs = Some (ok, b, bc', n) \<Longrightarrow> import_within a imp \<Longrightarrow> generator_step a b"
| body: "GenerateFunction env a imps str f bc errs = Some (b, bc', n) \<Longrightarrow>
    (\<And>body. fn_body (ast_functions a ! f) = Some body \<Longrightarrow> body_within (length (scopes a)) body) \<Longrightarrow>
    generator_step a b"

lemma new_context_ok:
  "types_ok a \<Longrightarrow> s < length (scopes a) \<Longrightarrow> ctx_ok (new_context a errs s str)"
  "gx_ast (new_context a errs s str) = a" "gx_scope (new_context a errs s str) = s"
  by (simp_all add: ctx_ok_def new_context_def)

lemma CheckFunction_types:
  assumes "CheckFunction a imp f errs = Some (b, n)" and "types_ok a" and "import_within a imp"
  shows "types_ok b"
proof -
  obtain s where s: "imp_body imp = Some s"
    using assms(1) by (auto simp: CheckFunction_def split: Option.bind_splits)
  let ?c = "new_context a errs s (imp_stream imp)"
  have c: "ctx_ok ?c" using assms(2,3) s by (simp add: new_context_ok import_within_def)
  obtain ps off c1 where c1: "layout_params (fn_body (ast_functions a ! f)) (fn_parameters (ast_functions a ! f)) 16 ?c = Some (ps, off, c1)"
    using assms(1) s by (auto simp: CheckFunction_def Let_def split: Option.bind_splits)
  let ?c1 = "c1\<lparr>gx_ast := upd_function f
      (\<lambda>fn. fn\<lparr>fn_parameters := ps, parameters_size := align_up 8 off - 16\<rparr>) (gx_ast c1)\<rparr>"
  obtain c2 where c2: "layout_return f ?c1 = Some c2" "b = gx_ast c2"
    using assms(1) s c1 by (auto simp: CheckFunction_def Let_def split: Option.bind_splits)
  note l = layout_params_types [OF c1 c]
  then have t: "types_ok (gx_ast c1)" "\<forall>p\<in>set ps. in_table (gx_ast c1) (param_typeId p)"
    by (simp_all add: ctx_ok_def in_table_def)
  have "types_ok (gx_ast ?c1)" using types_ok_upd_function(1) [OF t(1)] t(2) by (simp add: function_types_ok_def)
  then have "ctx_ok ?c1" using l types_ok_upd_function(2) [OF t(1)] by (simp add: ctx_ok_def upd_function_def)
  then show ?thesis using layout_return_types [OF c2(1)] c2(2) by (simp add: ctx_ok_def)
qed

lemma generator_step_types: "generator_step a b \<Longrightarrow> types_ok a \<Longrightarrow> types_ok b"
proof (induction rule: generator_step.induct)
  case (structs a imp errs ignored ok changed b n)
  then obtain s ctx where s: "imp_body imp = Some s" "b = gx_ast ctx"
      "check_structs (imp_structures imp) ((new_context a errs s (imp_stream imp))\<lparr>gx_ignore_errors := ignored\<rparr>) = Some (ok, changed, ctx)"
    by (auto simp: CheckStructs_def split: Option.bind_splits)
  have "ctx_ok ctx"
    by (rule check_structs_types [OF s(3)]) (use structs s(1) in \<open>auto simp: import_within_def ctx_ok_def new_context_def\<close>)
  then show ?case using s(2) by (simp add: ctx_ok_def)
next
  case (header a imp f errs b n)
  then show ?case using CheckFunction_types by blast
next
  case (globals a imp bc errs ok b bc' n)
  then obtain s ctx where s: "imp_body imp = Some s" "b = gx_ast ctx"
      "check_globals (imp_statements imp) ((new_context a errs s (imp_stream imp))\<lparr>gx_bytecode := bc\<rparr>) = Some (ok, ctx)"
    by (auto simp: CheckGlobals_def split: Option.bind_splits)
  have "type_post ((new_context a errs s (imp_stream imp))\<lparr>gx_bytecode := bc\<rparr>) ctx"
    by (rule check_globals_types [OF s(3)])
  then show ?case using globals s(1,2) by (auto simp: import_within_def type_post_def ctx_ok_def new_context_def)
next
  case (body env a imps str f bc errs b bc' n)
  then show ?case using GenerateFunction_types by blast
qed

lemma check_structs_objects: "check_structs is ctx = Some (ok, changed, ctx') \<Longrightarrow> ctx_ok ctx \<Longrightarrow>
   set is \<subseteq> {..<length (ast_structures (gx_ast ctx))} \<Longrightarrow> same_objects (gx_ast ctx) (gx_ast ctx')"
proof (induction "is" ctx arbitrary: ok changed ctx' rule: check_structs.induct)
  case (2 i "is" ctx)
  show ?case
  proof (cases "complete (ast_structures (gx_ast ctx) ! i)")
    case False
    then obtain yes c1 where g1: "generateStruct i ctx = Some (yes, c1)"
      using "2.prems"(1) by (cases "generateStruct i ctx") auto
    then obtain r where r: "check_structs is c1 = Some r" "snd (snd r) = ctx'"
      using "2.prems"(1) False by (cases "check_structs is c1") auto
    obtain ok2 ch2 where g: "generateStruct i ctx = Some (yes, c1)" "check_structs is c1 = Some (ok2, ch2, ctx')"
      using g1 r by (cases r) auto
    have p: "struct_post ctx c1 \<and> ctx_ok c1" using generateStruct_types [OF "2.prems"(2) _ g(1)] "2.prems"(3) by simp
    then have "same_objects (gx_ast c1) (gx_ast ctx')"
      using "2.IH"(2) [OF False g(1) refl g(2)] "2.prems"(3) by (simp add: struct_post_def)
    with p show ?thesis by (auto simp: struct_post_def type_post_def intro: same_objects_trans)
  qed (use 2 in auto)
qed (simp add: same_objects_refl)

lemma layout_return_objects: "layout_return f ctx = Some ctx' \<Longrightarrow> same_objects (gx_ast ctx) (gx_ast ctx')"
  by (auto simp: layout_return_def Let_def split: Option.bind_splits if_splits
      intro!: same_objects_refl objects_upd_function same_objects_trans [OF objects_upd_function objects_upd_function])

lemma generator_step_objects: "generator_step a b \<Longrightarrow> types_ok a \<Longrightarrow> same_objects a b"
proof (induction rule: generator_step.induct)
  case (structs a imp errs ignored ok changed b n)
  then obtain s ctx where s: "imp_body imp = Some s" "b = gx_ast ctx"
      "check_structs (imp_structures imp) ((new_context a errs s (imp_stream imp))\<lparr>gx_ignore_errors := ignored\<rparr>) = Some (ok, changed, ctx)"
    by (auto simp: CheckStructs_def split: Option.bind_splits)
  show ?case
    using check_structs_objects [OF s(3)] structs s(1,2) by (auto simp: import_within_def ctx_ok_def new_context_def)
next
  case (header a imp f errs b n)
  then obtain s where s: "imp_body imp = Some s" "s < length (scopes a)"
    by (auto simp: CheckFunction_def import_within_def split: Option.bind_splits)
  let ?c = "new_context a errs s (imp_stream imp)"
  obtain ps off c1 where c1: "layout_params (fn_body (ast_functions a ! f)) (fn_parameters (ast_functions a ! f)) 16 ?c = Some (ps, off, c1)"
    using header(1) s by (auto simp: CheckFunction_def Let_def split: Option.bind_splits)
  let ?a1 = "upd_function f (\<lambda>fn. fn\<lparr>fn_parameters := ps, parameters_size := align_up 8 off - 16\<rparr>) (gx_ast c1)"
  have "layout_return f (c1\<lparr>gx_ast := ?a1\<rparr>) = Some c2 \<Longrightarrow> same_objects ?a1 (gx_ast c2)" for c2
    using layout_return_objects by fastforce
  then have "same_objects ?a1 b"
    using header(1) s c1 by (auto simp: CheckFunction_def Let_def split: Option.bind_splits)
  moreover have "same_objects (gx_ast c1) ?a1" by (rule objects_upd_function) simp
  moreover have "same_objects a (gx_ast c1)"
    using layout_params_types [OF c1] header(3) s by (simp add: new_context_ok type_post_def)
  ultimately show ?case by (blast intro: same_objects_trans)
next
  case (globals a imp bc errs ok b bc' n)
  then obtain s ctx where s: "imp_body imp = Some s" "b = gx_ast ctx"
      "check_globals (imp_statements imp) ((new_context a errs s (imp_stream imp))\<lparr>gx_bytecode := bc\<rparr>) = Some (ok, ctx)"
    by (auto simp: CheckGlobals_def split: Option.bind_splits)
  show ?case using check_globals_types [OF s(3)] s(2) by (simp add: type_post_def new_context_def)
next
  case (body env a imps str f bc errs b bc' n)
  then show ?case using GenerateFunction_types by blast
qed

section \<open>Properties\<close>

text \<open>
  C12. The type of an expression is one of the table.  In tables whose types refer to the table of
  types, from a scope of the table, whatever type the generator gives an expression has its entry
  in the table: looking up its description and its size read neither beyond the types that exist
  nor beyond the array, and the tables are as they were.
\<close>

theorem expression_type_in_table:
  assumes "types_ok (gx_ast ctx)" and "gx_scope ctx < length (scopes (gx_ast ctx))"
    and "generateExpression e ctx = Some (t, ctx')"
  shows "gx_ast ctx' = gx_ast ctx
    \<and> (\<exists>i < length (typeInfos (gx_ast ctx)). getType (gx_ast ctx) t = Some (typeInfos (gx_ast ctx) ! i))
    \<and> sizeOfType (gx_ast ctx) t \<noteq> None"
proof -
  have c: "ctx_ok ctx" using assms(1,2) by (simp add: ctx_ok_def)
  have i: "in_table (gx_ast ctx) t" by (rule expression_types(1) [OF assms(3) c])
  then have g: "getType (gx_ast ctx) t = Some (typeInfos (gx_ast ctx) ! unat (type_index t))"
    by (simp add: in_table_def getType_def)
  then show ?thesis
    using i post_ok(2) [OF expression_post(1) [OF assms(3)] c] by (auto simp: in_table_def sizeOfType_def)
qed

text \<open>The tables of the constructor, and \<^verbatim>\<open>(char**) null\<close>.\<close>

lemma initial_ast_types: "types_ok initial_ast"
proof -
  have "\<forall>sc\<in>set (scopes initial_ast). scope_types_ok initial_ast sc"
    by (simp add: initial_ast_def scope_types_ok_def init_scope_def length_native_functions atLeast0LessThan)
  moreover have "\<forall>fn\<in>set (ast_functions initial_ast). function_types_ok initial_ast fn"
    by (simp add: initial_ast_def native_functions_def function_types_ok_def native_function_def native_param_def
        new_function_def in_table_def void_type_def init_types_def)
  moreover have "5 \<le> length (typeInfos initial_ast)" "ast_structures initial_ast = []"
      "\<forall>info\<in>set (typeInfos initial_ast). ast_struct info = None"
    by (simp_all add: initial_ast_def init_types_def)
  ultimately show ?thesis using initial_ast_wf by (simp add: types_ok_def)
qed

lemma initial_scope: "0 < length (scopes initial_ast)"
  by (simp add: initial_ast_def)

lemma char_pp: "convertFullType initial_ast ''char**'' 0 = Some (set_pointer_level 2 (prim TYPE_CHAR))"
  by (simp add: convertFullType_def split_stars_def findType_def find_scope_def search_scopes.simps
      createScopeIterator_def iterate_def getScope_def nth_opt_def initial_ast_def init_scope_def init_types_def Let_def)

theorem expression_type_in_table_witness:
  "\<exists>ctx. generateExpression (ECast 0 (ELitNull 0) ''char**'') (new_context initial_ast 0 0 None)
      = Some (set_pointer_level 2 (prim TYPE_CHAR), ctx)
    \<and> (\<exists>i < length (typeInfos initial_ast).
         getType initial_ast (set_pointer_level 2 (prim TYPE_CHAR)) = Some (typeInfos initial_ast ! i))"
proof -
  let ?c = "new_context initial_ast 0 0 None"
  obtain ctx where g: "generateExpression (ECast 0 (ELitNull 0) ''char**'') ?c = Some (set_pointer_level 2 (prim TYPE_CHAR), ctx)"
    by (simp add: gen_literal_def gen_cast_def char_pp new_context_ok emits_def)
      (simp add: new_context_def char_pp set_pointer_level_def prim_def make_type_def)
  from expression_type_in_table [OF _ _ g] g show ?thesis
    by (intro exI [of _ ctx] conjI) (simp_all add: new_context_ok initial_ast_types initial_scope)
qed

text \<open>
  The tasks of the generator keep the types in the table.  Laying out the structures of a file,
  the header of a function, the globals of a file and generating a function body, in any order
  and number, on files whose scopes and structures are in the tables, lead from tables whose types
  refer to the table of types (every variable, parameter, return type and member) to such tables.
\<close>

theorem tasks_keep_types:
  assumes "generator_step\<^sup>*\<^sup>* a b" and "types_ok a"
  shows "types_ok b"
  using assms by (induction rule: rtranclp_induct) (auto intro: generator_step_types)

definition int_header_import :: Import where
  "int_header_import = (new_import ''main'')\<lparr>imp_body := Some 0\<rparr>"

lemma int_found: "convertFullType initial_ast ''int'' 0 = Some (prim TYPE_INT)"
  by (simp add: convertFullType_def split_stars_def findType_def find_scope_def search_scopes.simps
      createScopeIterator_def iterate_def getScope_def nth_opt_def initial_ast_def init_scope_def init_types_def Let_def
      set_pointer_level_def prim_def make_type_def)

lemma int_size: "sizeOfType initial_ast (prim TYPE_INT) = Some 4" "valid_type (prim TYPE_INT)"
  by (simp_all add: sizeOfType_def getType_def initial_ast_def init_types_def prim_def make_type_def valid_type_def
      primitive_size_def)

text \<open>The header of \<^verbatim>\<open>printi\<close>.\<close>

lemma printi_function:
  "native_functions ! 0 = native_function NATIVE_printi [(''v'', ''int'')] []"
  "native_functions \<noteq> []"
  by (simp_all add: native_functions_def)

theorem tasks_keep_types_witness:
  "\<exists>b n. CheckFunction initial_ast int_header_import 0 0 = Some (b, n) \<and> types_ok b
    \<and> map param_typeId (fn_parameters (ast_functions b ! 0)) = [prim TYPE_INT]"
proof -
  obtain b n where b: "CheckFunction initial_ast int_header_import 0 0 = Some (b, n)"
      "map param_typeId (fn_parameters (ast_functions b ! 0)) = [prim TYPE_INT]"
    by (simp add: CheckFunction_def int_header_import_def new_import_def printi_function native_function_def
        new_function_def native_param_def new_context_ok int_found int_size declare_param_def layout_return_def
        upd_function_def Let_def)
  have "import_within initial_ast int_header_import"
    by (simp add: import_within_def int_header_import_def new_import_def initial_scope)
  then have "generator_step\<^sup>*\<^sup>* initial_ast b" using generator_step.header [OF b(1)] by blast
  from tasks_keep_types [OF this initial_ast_types] show ?thesis using b by (intro exI conjI)
qed

end
