(* ===== verification/TinGenerator.thy ===== *)
theory TinGenerator
  imports AST
begin

text \<open>
  include/TinGenerator.h and src/TinGenerator.cpp: the generator of random programs that the
  compiler is tested and timed with.  The random numbers are a parameter, numbered in the order
  in which they are drawn; what is written to the disk is a list of paths and texts.
\<close>

section \<open>Data\<close>

text \<open>
  Types, functions and identifiers are objects of the C++ heap that scopes, variables and types
  point to: a pointer is an index, a null pointer \<open>None\<close>, and a deleted object a \<open>None\<close> in its heap.
\<close>

record ComplexType =
  ct_type :: "nat option"
  ct_level :: int

definition no_type :: ComplexType where
  "no_type = \<lparr>ct_type = None, ct_level = 0\<rparr>"

definition plain_type :: "nat option \<Rightarrow> ComplexType" where
  "plain_type t = \<lparr>ct_type = t, ct_level = 0\<rparr>"

record TinType =
  ty_name :: string
  ty_members :: "(string \<times> ComplexType) list"

record TinFunction =
  fu_name :: string
  fu_args :: "(string \<times> ComplexType) list"
  fu_return :: ComplexType

datatype TinVarKind = GLOBAL_VAR | LOCAL_VAR | CONSTANT_VAR

record TinIdentifier =
  va_kind :: TinVarKind
  va_name :: string
  va_type :: ComplexType

record TinScope =
  sc_types :: "nat list"
  sc_functions :: "nat list"
  sc_variables :: "nat list"
  sc_shared :: "nat list"

text \<open>The scopes that were popped to be kept are numbered in the order they were popped.\<close>

record TinContext =
  tx_output :: string
  indent_level :: int
  in_loop :: bool
  expr_count :: nat
  var_counter :: int
  fun_counter :: int
  type_counter :: int
  type_heap :: "TinType option list"
  fun_heap :: "TinFunction option list"
  var_heap :: "TinIdentifier option list"
  current_function :: "nat option"
  tx_scopes :: "TinScope list"
  kept_scopes :: "TinScope list"
  type_int :: "nat option"
  type_float :: "nat option"
  type_char :: "nat option"
  type_bool :: "nat option"
  draws :: nat

definition new_tin_context :: TinContext where
  "new_tin_context =
    \<lparr>tx_output = [], indent_level = 0, in_loop = False, expr_count = 0, var_counter = 0,
     fun_counter = 0, type_counter = 0, type_heap = [], fun_heap = [], var_heap = [],
     current_function = None, tx_scopes = [], kept_scopes = [], type_int = None, type_float = None,
     type_char = None, type_bool = None, draws = 0\<rparr>"

record TinRange =
  range_min :: int
  range_max :: int

record TinConfig =
  struct_frequency :: TinRange
  member_frequency :: TinRange
  function_frequency :: TinRange
  argument_frequency :: TinRange
  statement_frequency :: TinRange
  file_count :: TinRange

text \<open>
  The random numbers after \<^verbatim>\<open>SetRandomSeed\<close>, by the number of the draw, and the decimal text of
  \<^verbatim>\<open>RandomFloat() * 200 - 100\<close>, given by the C++ library.
\<close>

record random_env =
  random_int :: "nat \<Rightarrow> int \<Rightarrow> int \<Rightarrow> int"
  random_float :: "nat \<Rightarrow> f32"
  float_text :: "f32 \<Rightarrow> string"

section \<open>Random numbers and text\<close>

text \<open>With equal bounds nothing is drawn; with crossed bounds the distribution is undefined.\<close>

definition RandomInt :: "random_env \<Rightarrow> int \<Rightarrow> int \<Rightarrow> TinContext \<Rightarrow> (int \<times> TinContext) option" where
  "RandomInt env lo hi ctx =
    (if lo = hi then Some (lo, ctx)
     else if lo \<le> hi then Some (random_int env (draws ctx) lo hi, ctx\<lparr>draws := Suc (draws ctx)\<rparr>)
     else None)"

definition RandomFloat :: "random_env \<Rightarrow> TinContext \<Rightarrow> f32 \<times> TinContext" where
  "RandomFloat env ctx = (random_float env (draws ctx), ctx\<lparr>draws := Suc (draws ctx)\<rparr>)"

definition random_range :: "random_env \<Rightarrow> TinRange \<Rightarrow> TinContext \<Rightarrow> (int \<times> TinContext) option" where
  "random_range env r ctx =
    (if range_min r = range_max r then Some (range_min r, ctx)
     else RandomInt env (range_min r) (range_max r) ctx)"

definition frequency :: "random_env \<Rightarrow> TinRange \<Rightarrow> TinContext \<Rightarrow> (int \<times> TinContext) option" where
  "frequency env r ctx = RandomInt env (range_min r) (range_max r) ctx"

fun nat_text :: "nat \<Rightarrow> string" where
  "nat_text n =
    (if n < 10 then [char_of (48 + n)] else nat_text (n div 10) @ [char_of (48 + n mod 10)])"

declare nat_text.simps [simp del]

text \<open>\<^verbatim>\<open>std::to_string\<close> of an \<^verbatim>\<open>int\<close>.\<close>

definition to_string :: "int \<Rightarrow> string" where
  "to_string i = (if i < 0 then CHR ''-'' # nat_text (nat (- i)) else nat_text (nat i))"

definition out :: "string \<Rightarrow> TinContext \<Rightarrow> TinContext" where
  "out s ctx = ctx\<lparr>tx_output := tx_output ctx @ s\<rparr>"

definition newline :: string where
  "newline = [CHR 0x0A]"

definition indent :: "TinContext \<Rightarrow> TinContext" where
  "indent ctx = out (concat (replicate (nat (indent_level ctx)) ''    '')) ctx"

definition indent_by :: "int \<Rightarrow> TinContext \<Rightarrow> TinContext" where
  "indent_by n ctx = ctx\<lparr>indent_level := indent_level ctx + n\<rparr>"

section \<open>Scopes\<close>

definition pushScope :: "TinContext \<Rightarrow> TinContext" where
  "pushScope ctx = ctx\<lparr>tx_scopes := tx_scopes ctx @
    [\<lparr>sc_types = [], sc_functions = [], sc_variables = [], sc_shared = []\<rparr>]\<rparr>"

definition delete_all :: "nat list \<Rightarrow> 'a option list \<Rightarrow> 'a option list" where
  "delete_all is h = fold (\<lambda>i h. h[i := None]) is h"

definition popScope :: "bool \<Rightarrow> TinContext \<Rightarrow> TinContext option" where
  "popScope keep_scope ctx =
    (if tx_scopes ctx = [] then None
     else
       (let s = last (tx_scopes ctx); ctx1 = ctx\<lparr>tx_scopes := butlast (tx_scopes ctx)\<rparr> in
        Some (if keep_scope then ctx1\<lparr>kept_scopes := kept_scopes ctx1 @ [s]\<rparr>
          else ctx1\<lparr>type_heap := delete_all (sc_types s) (type_heap ctx1),
                    fun_heap := delete_all (sc_functions s) (fun_heap ctx1),
                    var_heap := delete_all (sc_variables s) (var_heap ctx1)\<rparr>)))"

definition upd_back :: "(TinScope \<Rightarrow> TinScope) \<Rightarrow> TinContext \<Rightarrow> TinContext option" where
  "upd_back f ctx =
    (if tx_scopes ctx = [] then None
     else Some (ctx\<lparr>tx_scopes := butlast (tx_scopes ctx) @ [f (last (tx_scopes ctx))]\<rparr>))"

definition newType :: "string \<Rightarrow> TinContext \<Rightarrow> nat \<times> TinContext" where
  "newType name ctx =
    (length (type_heap ctx), ctx\<lparr>type_heap := type_heap ctx @ [Some \<lparr>ty_name = name, ty_members = []\<rparr>]\<rparr>)"

definition addType :: "nat \<Rightarrow> TinContext \<Rightarrow> TinContext option" where
  "addType t = upd_back (\<lambda>s. s\<lparr>sc_types := sc_types s @ [t]\<rparr>)"

definition addFunc :: "string \<Rightarrow> TinContext \<Rightarrow> (nat \<times> TinContext) option" where
  "addFunc name ctx =
    do {
      let i = length (fun_heap ctx);
      ctx1 \<leftarrow> upd_back (\<lambda>s. s\<lparr>sc_functions := sc_functions s @ [i]\<rparr>) ctx;
      Some (i, ctx1\<lparr>fun_heap := fun_heap ctx1 @ [Some \<lparr>fu_name = name, fu_args = [], fu_return = no_type\<rparr>]\<rparr>)
    }"

text \<open>\<^verbatim>\<open>addVar\<close> and the assignment of the type that follows each of its calls.\<close>

definition addVar :: "string \<Rightarrow> TinVarKind \<Rightarrow> ComplexType \<Rightarrow> TinContext \<Rightarrow> TinContext option" where
  "addVar name kind t ctx =
    do {
      ctx1 \<leftarrow> upd_back (\<lambda>s. s\<lparr>sc_variables := sc_variables s @ [length (var_heap ctx)]\<rparr>) ctx;
      Some (ctx1\<lparr>var_heap := var_heap ctx1 @ [Some \<lparr>va_kind = kind, va_name = name, va_type = t\<rparr>]\<rparr>)
    }"

definition deref :: "'a option list \<Rightarrow> nat \<Rightarrow> 'a option" where
  "deref h i = (case nth_opt h i of Some x \<Rightarrow> x | None \<Rightarrow> None)"

definition type_text :: "ComplexType \<Rightarrow> TinContext \<Rightarrow> string option" where
  "type_text t ctx =
    do {
      i \<leftarrow> ct_type t;
      ty \<leftarrow> deref (type_heap ctx) i;
      Some (ty_name ty @ replicate (nat (ct_level t)) CHR ''*'')
    }"

section \<open>Requests\<close>

text \<open>
  The first object from a random place on, around the end, that satisfies the test.
\<close>

fun first_alive :: "('a \<Rightarrow> bool) \<Rightarrow> 'a option list \<Rightarrow> nat list \<Rightarrow> 'a option option" where
  "first_alive p h [] = Some None"
| "first_alive p h (i # is) =
     do { x \<leftarrow> deref h i; if p x then Some (Some x) else first_alive p h is }"

definition pick :: "random_env \<Rightarrow> ('a \<Rightarrow> bool) \<Rightarrow> 'a option list \<Rightarrow> nat list \<Rightarrow> TinContext \<Rightarrow>
  ('a option \<times> TinContext) option" where
  "pick env p h is ctx =
    (if is = [] then Some (None, ctx)
     else do {
       (start, ctx1) \<leftarrow> RandomInt env 0 (int (length is) - 1) ctx;
       r \<leftarrow> first_alive p h (drop (nat start) is @ take (nat start) is);
       Some (r, ctx1)
     })"

text \<open>Through lists of objects in order, until one has what is looked for.\<close>

fun pick_any :: "random_env \<Rightarrow> ('a \<Rightarrow> bool) \<Rightarrow> 'a option list \<Rightarrow> nat list list \<Rightarrow> TinContext \<Rightarrow>
  ('a option \<times> TinContext) option" where
  "pick_any env p h [] ctx = Some (None, ctx)"
| "pick_any env p h (is # iss) ctx =
     do {
       (r, ctx1) \<leftarrow> pick env p h is ctx;
       (case r of Some x \<Rightarrow> Some (Some x, ctx1) | None \<Rightarrow> pick_any env p h iss ctx1)
     }"

definition shared_of_back :: "TinContext \<Rightarrow> TinScope list" where
  "shared_of_back ctx = map (\<lambda>i. kept_scopes ctx ! i) (sc_shared (last (tx_scopes ctx)))"

definition wanted :: "ComplexType \<Rightarrow> ComplexType \<Rightarrow> bool" where
  "wanted expected t \<longleftrightarrow> ct_type expected = None \<or> t = expected"

text \<open>In the shared scopes the test for a constant is the other way round.\<close>

definition requestVariable :: "random_env \<Rightarrow> ComplexType \<Rightarrow> bool \<Rightarrow> TinContext \<Rightarrow>
  (TinIdentifier option \<times> TinContext) option" where
  "requestVariable env expected can_be_const ctx =
    (if tx_scopes ctx = [] then Some (None, ctx)
     else do {
       (r, ctx1) \<leftarrow> pick_any env
         (\<lambda>v. (can_be_const \<or> va_kind v \<noteq> CONSTANT_VAR) \<and> wanted expected (va_type v))
         (var_heap ctx) (map sc_variables (rev (tx_scopes ctx))) ctx;
       (case r of
          Some v \<Rightarrow> Some (Some v, ctx1)
        | None \<Rightarrow> pick_any env
            (\<lambda>v. (can_be_const \<or> va_kind v = CONSTANT_VAR) \<and> wanted expected (va_type v))
            (var_heap ctx1) (map sc_variables (shared_of_back ctx1)) ctx1)
     })"

definition requestFunction :: "random_env \<Rightarrow> ComplexType \<Rightarrow> TinContext \<Rightarrow>
  (TinFunction option \<times> TinContext) option" where
  "requestFunction env expected ctx =
    (if tx_scopes ctx = [] then Some (None, ctx)
     else pick_any env (\<lambda>f. wanted expected (fu_return f)) (fun_heap ctx)
       (map sc_functions (rev (tx_scopes ctx) @ shared_of_back ctx)) ctx)"

text \<open>A shared scope is taken when it has variables, and the index is one of its variables.\<close>

definition requestType :: "random_env \<Rightarrow> TinContext \<Rightarrow> (ComplexType \<times> TinContext) option" where
  "requestType env ctx =
    (if tx_scopes ctx = [] then Some (no_type, ctx)
     else (case find (\<lambda>s. sc_types s \<noteq> []) (rev (tx_scopes ctx)) of
       Some s \<Rightarrow>
         do {
           (j, ctx1) \<leftarrow> RandomInt env 0 (int (length (sc_types s)) - 1) ctx;
           t \<leftarrow> nth_opt (sc_types s) (nat j);
           Some (plain_type (Some t), ctx1)
         }
     | None \<Rightarrow>
         (case find (\<lambda>s. sc_variables s \<noteq> []) (shared_of_back ctx) of
            Some s \<Rightarrow>
              do {
                (j, ctx1) \<leftarrow> RandomInt env 0 (int (length (sc_variables s)) - 1) ctx;
                t \<leftarrow> nth_opt (sc_types s) (nat j);
                Some (plain_type (Some t), ctx1)
              }
          | None \<Rightarrow> Some (no_type, ctx))))"

definition requestPrimitive :: "random_env \<Rightarrow> TinContext \<Rightarrow> (ComplexType \<times> TinContext) option" where
  "requestPrimitive env ctx =
    do {
      (j, ctx1) \<leftarrow> RandomInt env 0 3 ctx;
      Some (plain_type (if j = 0 then type_int ctx1 else if j = 1 then type_float ctx1
                        else if j = 2 then type_bool ctx1 else type_char ctx1), ctx1)
    }"

section \<open>Expressions\<close>

definition any_binary_kinds :: "ExprKind list" where
  "any_binary_kinds = [ADD, SUB, DIV, MUL, AND', OR', EQUAL, NOT_EQUAL, LESS, GREATER, LESS_EQUAL,
     GREATER_EQUAL, ASSIGN, NOT']"

definition binary_kinds_int :: "ExprKind list" where
  "binary_kinds_int = [ADD, SUB, DIV, MUL]"

definition binary_kinds_bool :: "ExprKind list" where
  "binary_kinds_bool = [AND', OR', NOT', EQUAL, NOT_EQUAL, LESS, GREATER, LESS_EQUAL, GREATER_EQUAL]"

definition value_kinds :: "ExprKind list" where
  "value_kinds = [IDENTIFIER, SIZEOF, LITERAL_INT, LITERAL_FLOAT, LITERAL_STR, LITERAL_NULL,
     LITERAL_TRUE, LITERAL_FALSE]"

definition value_kinds_int :: "ExprKind list" where
  "value_kinds_int = [IDENTIFIER, SIZEOF, LITERAL_INT]"

text \<open>\<^verbatim>\<open>kinds[RandomInt(0, ARR_LEN(kinds) - 1)]\<close>.\<close>

definition random_kind :: "random_env \<Rightarrow> ExprKind list \<Rightarrow> TinContext \<Rightarrow> (ExprKind \<times> TinContext) option" where
  "random_kind env kinds ctx =
    do {
      (j, ctx1) \<leftarrow> RandomInt env 0 (int (length kinds) - 1) ctx;
      k \<leftarrow> nth_opt kinds (nat j);
      Some (k, ctx1)
    }"

text \<open>
  The sign of \<^verbatim>\<open>(1 - expr_count/20 - expr_depth/5) * RandomFloat()\<close> for a random number that is
  not negative.  Where the exact first factor is zero, at 4 and 4, 8 and 3, 12 and 2, 16 and 1,
  the one computed in single precision is not positive either; elsewhere it differs from zero by
  at least a twentieth.
\<close>

definition exponential_chance :: "nat \<Rightarrow> nat \<Rightarrow> f32 \<Rightarrow> bool" where
  "exponential_chance count depth r \<longleftrightarrow> count + 4 * depth < 20 \<and> r \<noteq> 0"

definition operator_choice :: "random_env \<Rightarrow> ComplexType \<Rightarrow> TinContext \<Rightarrow> (ExprKind \<times> TinContext) option" where
  "operator_choice env t ctx =
    (if ct_type t = None then random_kind env any_binary_kinds ctx
     else if ct_type t = type_int ctx then random_kind env binary_kinds_int ctx
     else if ct_type t = type_float ctx then random_kind env binary_kinds_int ctx
     else if ct_type t = type_bool ctx then random_kind env binary_kinds_bool ctx
     else Some (IDENTIFIER, ctx))"

definition value_choice :: "random_env \<Rightarrow> ComplexType \<Rightarrow> TinContext \<Rightarrow> (ExprKind \<times> TinContext) option" where
  "value_choice env t ctx =
    (if ct_type t = None then random_kind env value_kinds ctx
     else if ct_type t = type_char ctx \<and> 0 < ct_level t then random_kind env [IDENTIFIER, LITERAL_STR] ctx
     else if 0 < ct_level t then random_kind env [IDENTIFIER, LITERAL_NULL] ctx
     else if ct_type t = type_int ctx then random_kind env value_kinds_int ctx
     else if ct_type t = type_bool ctx then random_kind env [IDENTIFIER, LITERAL_TRUE, LITERAL_FALSE] ctx
     else if ct_type t = type_char ctx then random_kind env [IDENTIFIER, LITERAL_CHAR] ctx
     else if ct_type t = type_float ctx then random_kind env [IDENTIFIER, LITERAL_FLOAT] ctx
     else Some (IDENTIFIER, ctx))"

definition choose_kind :: "random_env \<Rightarrow> ComplexType \<Rightarrow> nat \<Rightarrow> TinContext \<Rightarrow> (ExprKind \<times> TinContext) option" where
  "choose_kind env t depth ctx =
    (let (r, ctx1) = RandomFloat env ctx in
     if exponential_chance (expr_count ctx1) depth r then operator_choice env t ctx1
     else value_choice env t ctx1)"

definition comparison_operator :: "ExprKind \<Rightarrow> bool" where
  "comparison_operator k \<longleftrightarrow> k \<in> {EQUAL, NOT_EQUAL, LESS, GREATER, LESS_EQUAL, GREATER_EQUAL}"

definition binary_operator :: "ExprKind \<Rightarrow> bool" where
  "binary_operator k \<longleftrightarrow> k \<in> {ADD, SUB, DIV, MUL, AND', OR'} \<or> comparison_operator k"

definition operator_text :: "ExprKind \<Rightarrow> string" where
  "operator_text k =
    (case k of ADD \<Rightarrow> '' + '' | SUB \<Rightarrow> '' - '' | DIV \<Rightarrow> '' / '' | MUL \<Rightarrow> '' * ''
     | AND' \<Rightarrow> '' && '' | OR' \<Rightarrow> '' || '' | EQUAL \<Rightarrow> '' == '' | NOT_EQUAL \<Rightarrow> '' != '' | LESS \<Rightarrow> '' < ''
     | GREATER \<Rightarrow> '' > '' | LESS_EQUAL \<Rightarrow> '' <= '' | GREATER_EQUAL \<Rightarrow> '' >= '' | _ \<Rightarrow> [])"

text \<open>The type of both operands.\<close>

definition operand_type :: "random_env \<Rightarrow> ExprKind \<Rightarrow> ComplexType \<Rightarrow> TinContext \<Rightarrow> (ComplexType \<times> TinContext) option" where
  "operand_type env k t ctx =
    (if k = AND' \<or> k = OR' then Some (t\<lparr>ct_type := type_bool ctx\<rparr>, ctx)
     else if comparison_operator k then
       do {
         (n, ctx1) \<leftarrow> RandomInt env 0 1 ctx;
         Some (t\<lparr>ct_type := if n = 0 then type_float ctx1 else type_int ctx1\<rparr>, ctx1)
       }
     else if ct_type t \<noteq> None then Some (t, ctx)
     else do {
       (n, ctx1) \<leftarrow> RandomInt env 0 1 ctx;
       Some (plain_type (if n = 0 then type_float ctx1 else type_int ctx1), ctx1)
     })"

definition default_text :: "ComplexType \<Rightarrow> TinContext \<Rightarrow> string" where
  "default_text t ctx =
    (if ct_level t \<noteq> 0 then ''null'' else if ct_type t = type_bool ctx then ''true''
     else if ct_type t = type_int ctx then ''5''
     else if ct_type t = type_char ctx then [CHR 0x27, CHR ''j'', CHR 0x27]
     else if ct_type t = type_float ctx then ''0.2'' else ''null'')"

text \<open>The kinds without an operand that is an expression.  Texts around the name of a variable.\<close>

definition gen_name :: "random_env \<Rightarrow> ComplexType \<Rightarrow> (string \<Rightarrow> string) \<Rightarrow> string \<Rightarrow> TinContext \<Rightarrow> TinContext option" where
  "gen_name env t f missing ctx =
    do {
      (r, ctx1) \<leftarrow> requestVariable env t True ctx;
      Some (case r of Some v \<Rightarrow> out (f (va_name v)) ctx1 | None \<Rightarrow> out missing ctx1)
    }"

definition gen_indexed :: "random_env \<Rightarrow> ComplexType \<Rightarrow> TinContext \<Rightarrow> TinContext option" where
  "gen_indexed env t ctx =
    do {
      (r, ctx1) \<leftarrow> requestVariable env t True ctx;
      (case r of
         Some v \<Rightarrow>
           do { (n, ctx2) \<leftarrow> RandomInt env 0 50 ctx1; Some (out (va_name v @ ''['' @ to_string n @ '']'') ctx2) }
       | None \<Rightarrow> Some (out ''null'' ctx1))
    }"

definition gen_size :: "random_env \<Rightarrow> TinContext \<Rightarrow> TinContext option" where
  "gen_size env ctx =
    do {
      (t, ctx1) \<leftarrow> requestType env ctx;
      if ct_type t = None then Some (out ''1'' ctx1)
      else do { s \<leftarrow> type_text t ctx1; Some (out (''sizeof '' @ s) ctx1) }
    }"

definition gen_value :: "random_env \<Rightarrow> ExprKind \<Rightarrow> ComplexType \<Rightarrow> TinContext \<Rightarrow> TinContext option" where
  "gen_value env k t ctx =
    (case k of
       IDENTIFIER \<Rightarrow> gen_name env t id (default_text t ctx) ctx
     | INDEX \<Rightarrow> gen_indexed env t ctx
     | REFER \<Rightarrow> gen_name env t (\<lambda>s. ''&'' @ s) ''null'' ctx
     | MEMBER \<Rightarrow> gen_name env t (\<lambda>s. s @ ''.member0'') ''null'' ctx
     | PRE_INCREMENT \<Rightarrow> gen_name env (plain_type (type_int ctx)) (\<lambda>s. ''++'' @ s) ''0'' ctx
     | POST_INCREMENT \<Rightarrow> gen_name env (plain_type (type_int ctx)) (\<lambda>s. s @ ''++'') ''0'' ctx
     | PRE_DECREMENT \<Rightarrow> gen_name env (plain_type (type_int ctx)) (\<lambda>s. ''--'' @ s) ''0'' ctx
     | POST_DECREMENT \<Rightarrow> gen_name env (plain_type (type_int ctx)) (\<lambda>s. s @ ''--'') ''0'' ctx
     | SIZEOF \<Rightarrow> gen_size env ctx
     | LITERAL_INT \<Rightarrow> do { (n, ctx1) \<leftarrow> RandomInt env (- 1000) 1000 ctx; Some (out (to_string n) ctx1) }
     | LITERAL_FLOAT \<Rightarrow> (let (r, ctx1) = RandomFloat env ctx in Some (out (float_text env r) ctx1))
     | LITERAL_STR \<Rightarrow> Some (out ([CHR 0x22] @ ''My string'' @ [CHR 0x22]) ctx)
     | LITERAL_CHAR \<Rightarrow> Some (out [CHR 0x27, CHR ''c'', CHR 0x27] ctx)
     | LITERAL_NULL \<Rightarrow> Some (out ''null'' ctx)
     | LITERAL_TRUE \<Rightarrow> Some (out ''true'' ctx)
     | LITERAL_FALSE \<Rightarrow> Some (out ''false'' ctx)
     | _ \<Rightarrow> None)"

definition count_expression :: "nat \<Rightarrow> TinContext \<Rightarrow> TinContext" where
  "count_expression depth ctx =
    ctx\<lparr>expr_count := Suc (if depth = 0 then 0 else expr_count ctx)\<rparr>"

text \<open>Only an operator, which the numbers allow at small depths, has expressions in it.\<close>

lemma random_kind_in: "random_kind env ks ctx = Some (k, ctx') \<Longrightarrow> k \<in> set ks"
  by (auto simp: random_kind_def split: Option.bind_splits)

lemma value_choice_kind:
  "value_choice env t ctx = Some (k, ctx') \<Longrightarrow>
   k \<in> {IDENTIFIER, SIZEOF, LITERAL_INT, LITERAL_FLOAT, LITERAL_STR, LITERAL_CHAR, LITERAL_NULL, LITERAL_TRUE, LITERAL_FALSE}"
  by (auto simp: value_choice_def value_kinds_def value_kinds_int_def dest!: random_kind_in split: if_splits)

lemma operator_choice_kind:
  "operator_choice env t ctx = Some (k, ctx') \<Longrightarrow> binary_operator k \<or> k = ASSIGN \<or> k = NOT' \<or> k = IDENTIFIER"
  by (auto simp: operator_choice_def any_binary_kinds_def binary_kinds_int_def binary_kinds_bool_def
      binary_operator_def comparison_operator_def dest!: random_kind_in split: if_splits)

lemma choose_kind_cases:
  assumes "choose_kind env t depth ctx = Some (k, ctx')"
  shows "k \<noteq> FUNCTION_CALL \<and> k \<noteq> DEREF \<and> k \<noteq> CAST
    \<and> (binary_operator k \<or> k = ASSIGN \<or> k = NOT' \<longrightarrow> depth < 5)"
  using assms
  by (auto simp: choose_kind_def RandomFloat_def exponential_chance_def Let_def binary_operator_def comparison_operator_def
      dest: value_choice_kind operator_choice_kind split: if_splits)

function genExpression :: "random_env \<Rightarrow> ComplexType \<Rightarrow> nat \<Rightarrow> TinContext \<Rightarrow> TinContext option"
and genArguments :: "random_env \<Rightarrow> ComplexType list \<Rightarrow> bool \<Rightarrow> nat \<Rightarrow> TinContext \<Rightarrow> TinContext option"
where
  "genExpression env t depth0 ctx0 =
    do {
      let depth = Suc depth0;
      (k, ctx) \<leftarrow> choose_kind env t depth (count_expression depth0 ctx0);
      if k = FUNCTION_CALL then
        do {
          (f, ctx1) \<leftarrow> requestFunction env t ctx;
          (case f of
             None \<Rightarrow> Some (out ''null'' ctx1)
           | Some fu \<Rightarrow>
               do {
                 ctx2 \<leftarrow> genArguments env (map snd (fu_args fu)) True depth (out (fu_name fu @ ''('') ctx1);
                 Some (out '')'' ctx2)
               })
        }
      else if binary_operator k then
        do {
          (u, ctx1) \<leftarrow> operand_type env k t (out ''('' ctx);
          ctx2 \<leftarrow> genExpression env u depth ctx1;
          ctx3 \<leftarrow> genExpression env u depth (out (operator_text k) ctx2);
          Some (out '')'' ctx3)
        }
      else if k = NOT' then
        do {
          (v, ctx1) \<leftarrow> requestVariable env t True ctx;
          (if v = None then Some (out ''false'' ctx1)
           else genExpression env (plain_type (type_bool ctx1)) depth (out ''!'' ctx1))
        }
      else if k = DEREF then
        genExpression env (t\<lparr>ct_level := ct_level t + 1\<rparr>) depth (out ''*'' ctx)
      else if k = ASSIGN then
        do {
          (v, ctx1) \<leftarrow> requestVariable env t False ctx;
          (case v of
             None \<Rightarrow> Some (out ''null'' ctx1)
           | Some x \<Rightarrow> genExpression env (va_type x) depth (out (va_name x @ '' = '') ctx1))
        }
      else if k = CAST then
        genExpression env (plain_type (type_float ctx)) depth (out ''cast int '' ctx)
      else gen_value env k t ctx
    }"
| "genArguments env [] first depth ctx = Some ctx"
| "genArguments env (t # ts) first depth ctx =
     do {
       ctx1 \<leftarrow> genExpression env t depth (if first then ctx else out '', '' ctx);
       genArguments env ts False depth ctx1
     }"
  by pat_completeness auto
termination
  by (relation "measures
      [\<lambda>x. case x of Inl (_, _, d, _) \<Rightarrow> 5 - d | Inr (_, ts, _, d, _) \<Rightarrow> 5 - d,
       \<lambda>x. case x of Inl _ \<Rightarrow> 0 | Inr (_, ts, _, _, _) \<Rightarrow> Suc (length ts)]")
    (auto dest!: choose_kind_cases)

section \<open>Statements\<close>

datatype StatementKind =
    VAR_DECLARATION | GLOBAL_DECLARATION | CONST_DECLARATION | EXPRESSION | IF_STATEMENT
  | WHILE_STATEMENT | BREAK_STATEMENT | CONTINUE_STATEMENT | RETURN_STATEMENT

definition statement_kinds :: "StatementKind list" where
  "statement_kinds = [VAR_DECLARATION, GLOBAL_DECLARATION, CONST_DECLARATION, EXPRESSION, IF_STATEMENT,
     WHILE_STATEMENT, BREAK_STATEMENT, CONTINUE_STATEMENT, RETURN_STATEMENT]"

text \<open>\<^verbatim>\<open>(Kind)RandomInt(KIND_BEGIN, KIND_END-1)\<close>, with the first kind at 1.\<close>

definition random_statement :: "random_env \<Rightarrow> TinContext \<Rightarrow> (StatementKind \<times> TinContext) option" where
  "random_statement env ctx =
    do {
      (j, ctx1) \<leftarrow> RandomInt env 1 9 ctx;
      k \<leftarrow> nth_opt statement_kinds (nat j - 1);
      Some (k, ctx1)
    }"

definition next_var :: "string \<Rightarrow> TinContext \<Rightarrow> string \<times> TinContext" where
  "next_var prefix ctx = (prefix @ to_string (var_counter ctx), ctx\<lparr>var_counter := var_counter ctx + 1\<rparr>)"

definition gen_declaration :: "random_env \<Rightarrow> string \<Rightarrow> string \<Rightarrow> TinVarKind \<Rightarrow> TinContext \<Rightarrow> TinContext option" where
  "gen_declaration env lead prefix kind ctx =
    do {
      (t, ctx1) \<leftarrow> requestType env (indent ctx);
      let (name, ctx2) = next_var prefix ctx1;
      s \<leftarrow> type_text t ctx2;
      addVar name kind t (out (lead @ name @ '': '' @ s @ '';'' @ newline) ctx2)
    }"

definition gen_constant_declaration :: "random_env \<Rightarrow> TinContext \<Rightarrow> TinContext option" where
  "gen_constant_declaration env ctx =
    do {
      let (name, ctx1) = next_var ''CONST'' (indent ctx);
      (num, ctx2) \<leftarrow> RandomInt env (- 1000) 1000 ctx1;
      s \<leftarrow> type_text (plain_type (type_int ctx2)) ctx2;
      addVar name CONSTANT_VAR (plain_type (type_int ctx2))
        (out (''const '' @ name @ '': '' @ s @ '' = '' @ to_string num @ '';'' @ newline) ctx2)
    }"

definition gen_return_statement :: "random_env \<Rightarrow> TinContext \<Rightarrow> TinContext option" where
  "gen_return_statement env ctx =
    do {
      f \<leftarrow> current_function ctx;
      fu \<leftarrow> deref (fun_heap ctx) f;
      ctx1 \<leftarrow> genExpression env (fu_return fu) 0 (out ''return '' (indent ctx));
      Some (out ('';'' @ newline) ctx1)
    }"

definition gen_simple :: "random_env \<Rightarrow> StatementKind \<Rightarrow> TinContext \<Rightarrow> TinContext option" where
  "gen_simple env k ctx =
    (case k of
       VAR_DECLARATION \<Rightarrow> gen_declaration env [] ''var'' LOCAL_VAR ctx
     | GLOBAL_DECLARATION \<Rightarrow> gen_declaration env ''global '' ''g_var'' GLOBAL_VAR ctx
     | CONST_DECLARATION \<Rightarrow> gen_constant_declaration env ctx
     | EXPRESSION \<Rightarrow>
         do {
           ctx1 \<leftarrow> genExpression env no_type 0 (indent ctx);
           Some (out ('';'' @ newline) ctx1)
         }
     | BREAK_STATEMENT \<Rightarrow> Some (if in_loop ctx then out (''break;'' @ newline) (indent ctx) else ctx)
     | CONTINUE_STATEMENT \<Rightarrow> Some (if in_loop ctx then out (''continue;'' @ newline) (indent ctx) else ctx)
     | RETURN_STATEMENT \<Rightarrow> gen_return_statement env ctx
     | _ \<Rightarrow> None)"

definition open_block :: "string \<Rightarrow> TinContext \<Rightarrow> TinContext" where
  "open_block s ctx = indent_by 1 (out (s @ ''{'' @ newline) ctx)"

definition close_block :: "TinContext \<Rightarrow> TinContext" where
  "close_block ctx = out (''}'' @ newline) (indent (indent_by (- 1) ctx))"

text \<open>
  The first number bounds the nesting of blocks; a statement after a \<^verbatim>\<open>return\<close> is not generated.
\<close>

function genStatements :: "nat \<Rightarrow> random_env \<Rightarrow> TinConfig \<Rightarrow> bool \<Rightarrow> TinContext \<Rightarrow> TinContext option"
and statement_loop :: "nat \<Rightarrow> random_env \<Rightarrow> TinConfig \<Rightarrow> nat \<Rightarrow> TinContext \<Rightarrow> TinContext option"
and genStatement :: "nat \<Rightarrow> random_env \<Rightarrow> TinConfig \<Rightarrow> StatementKind \<Rightarrow> TinContext \<Rightarrow> TinContext option"
where
  "genStatements 0 env cfg inherit_scope ctx = None"
| "genStatements (Suc n) env cfg inherit_scope ctx =
     do {
       (count, ctx1) \<leftarrow> frequency env (statement_frequency cfg) (if inherit_scope then ctx else pushScope ctx);
       ctx2 \<leftarrow> statement_loop n env cfg (nat count) ctx1;
       (if inherit_scope then Some ctx2 else popScope False ctx2)
     }"
| "statement_loop n env cfg 0 ctx = Some ctx"
| "statement_loop n env cfg (Suc m) ctx =
     do {
       (k, ctx1) \<leftarrow> random_statement env ctx;
       if 5 < indent_level ctx1 \<and> (k = IF_STATEMENT \<or> k = WHILE_STATEMENT)
       then statement_loop n env cfg m ctx1
       else do {
         ctx2 \<leftarrow> genStatement n env cfg k ctx1;
         (if k = RETURN_STATEMENT then Some ctx2 else statement_loop n env cfg m ctx2)
       }
     }"
| "genStatement n env cfg k ctx =
     (if k = IF_STATEMENT then
        do {
          ctx1 \<leftarrow> genExpression env (plain_type (type_bool ctx)) 0 (out ''if '' (indent ctx));
          ctx2 \<leftarrow> genStatements n env cfg False (open_block '' '' ctx1);
          ctx3 \<leftarrow> genStatements n env cfg False (open_block ''else '' (indent (close_block ctx2)));
          Some (close_block ctx3)
        }
      else if k = WHILE_STATEMENT then
        do {
          ctx1 \<leftarrow> genExpression env (plain_type (type_bool ctx)) 0 (out ''while '' (indent ctx));
          ctx2 \<leftarrow> genStatements n env cfg False ((open_block '' '' ctx1)\<lparr>in_loop := True\<rparr>);
          Some (close_block (ctx2\<lparr>in_loop := in_loop ctx1\<rparr>))
        }
      else gen_simple env k ctx)"
  by pat_completeness auto
termination
  by (relation "measures
      [\<lambda>x. case x of Inl (n, _) \<Rightarrow> 2 * n | Inr (Inl (n, _)) \<Rightarrow> Suc (2 * n) | Inr (Inr (n, _)) \<Rightarrow> Suc (2 * n),
       \<lambda>x. case x of Inl _ \<Rightarrow> 0 | Inr (Inl (_, _, _, m, _)) \<Rightarrow> Suc m | Inr (Inr _) \<Rightarrow> 0]") auto

section \<open>Files\<close>

definition new_primitive :: "string \<Rightarrow> TinContext \<Rightarrow> (nat \<times> TinContext) option" where
  "new_primitive name ctx =
    do { let (i, ctx1) = newType name ctx; ctx2 \<leftarrow> addType i ctx1; Some (i, ctx2) }"

definition gen_primitives :: "TinContext \<Rightarrow> TinContext option" where
  "gen_primitives ctx =
    do {
      (i, ctx1) \<leftarrow> new_primitive ''int'' ctx;
      (f, ctx2) \<leftarrow> new_primitive ''float'' (ctx1\<lparr>type_int := Some i\<rparr>);
      (c, ctx3) \<leftarrow> new_primitive ''char'' (ctx2\<lparr>type_float := Some f\<rparr>);
      (b, ctx4) \<leftarrow> new_primitive ''bool'' (ctx3\<lparr>type_char := Some c\<rparr>);
      Some (ctx4\<lparr>type_bool := Some b\<rparr>)
    }"

definition upd_heap :: "nat \<Rightarrow> ('a \<Rightarrow> 'a) \<Rightarrow> 'a option list \<Rightarrow> 'a option list" where
  "upd_heap i f h = h[i := map_option f (h ! i)]"

text \<open>\<open>n\<close> more members or arguments, from number \<open>j\<close> on.\<close>

fun gen_members :: "random_env \<Rightarrow> nat \<Rightarrow> nat \<Rightarrow> nat \<Rightarrow> TinContext \<Rightarrow> TinContext option" where
  "gen_members env ty j 0 ctx = Some ctx"
| "gen_members env ty j (Suc n) ctx =
     do {
       let name = ''mem'' @ to_string (int j);
       (t, ctx1) \<leftarrow> requestType env ctx;
       s \<leftarrow> type_text t ctx1;
       let ctx2 = out (name @ '': '' @ s @ '','' @ newline) (indent ctx1);
       gen_members env ty (Suc j) n
         (ctx2\<lparr>type_heap := upd_heap ty (\<lambda>x. x\<lparr>ty_members := ty_members x @ [(name, t)]\<rparr>) (type_heap ctx2)\<rparr>)
     }"

definition gen_struct :: "random_env \<Rightarrow> TinConfig \<Rightarrow> TinContext \<Rightarrow> TinContext option" where
  "gen_struct env cfg ctx =
    do {
      let name = ''Type'' @ to_string (type_counter ctx);
      let (ty, ctx1) = newType name
        (out (''struct '' @ name @ '' {'' @ newline) (ctx\<lparr>type_counter := type_counter ctx + 1\<rparr>));
      (count, ctx2) \<leftarrow> frequency env (member_frequency cfg) (indent_by 1 ctx1);
      ctx3 \<leftarrow> gen_members env ty 0 (nat count) ctx2;
      ctx4 \<leftarrow> addType ty ctx3;
      Some (out (''}'' @ newline) (indent_by (- 1) ctx4))
    }"

fun gen_arguments :: "random_env \<Rightarrow> nat \<Rightarrow> nat \<Rightarrow> nat \<Rightarrow> TinContext \<Rightarrow> TinContext option" where
  "gen_arguments env f j 0 ctx = Some ctx"
| "gen_arguments env f j (Suc n) ctx =
     do {
       let name = ''arg'' @ to_string (int j);
       (t, ctx1) \<leftarrow> requestType env (if j \<noteq> 0 then out '', '' ctx else ctx);
       s \<leftarrow> type_text t ctx1;
       ctx2 \<leftarrow> addVar name LOCAL_VAR t (out (name @ '': '' @ s) ctx1);
       gen_arguments env f (Suc j) n
         (ctx2\<lparr>fun_heap := upd_heap f (\<lambda>fu. fu\<lparr>fu_args := fu_args fu @ [(name, t)]\<rparr>) (fun_heap ctx2)\<rparr>)
     }"

text \<open>
  Statements of a function are at indent level 1, blocks are only opened up to level 5: six
  levels of statements.
\<close>

definition block_levels :: nat where
  "block_levels = 6"

definition gen_function :: "random_env \<Rightarrow> TinConfig \<Rightarrow> TinContext \<Rightarrow> TinContext option" where
  "gen_function env cfg ctx =
    do {
      let name = ''Func'' @ to_string (fun_counter ctx);
      (f, ctx1) \<leftarrow> addFunc name (out (''fun '' @ name @ ''('') (ctx\<lparr>fun_counter := fun_counter ctx + 1\<rparr>));
      (count, ctx2) \<leftarrow> frequency env (argument_frequency cfg) (pushScope ctx1);
      ctx3 \<leftarrow> gen_arguments env f 0 (nat count) ctx2;
      (t, ctx4) \<leftarrow> requestPrimitive env (out ('')'' @ '': '') ctx3);
      s \<leftarrow> type_text t ctx4;
      let ctx5 = indent_by 1 (out (s @ '' {'' @ newline)
        (ctx4\<lparr>fun_heap := upd_heap f (\<lambda>fu. fu\<lparr>fu_return := t\<rparr>) (fun_heap ctx4)\<rparr>));
      ctx6 \<leftarrow> genStatements block_levels env cfg True (ctx5\<lparr>current_function := Some f\<rparr>);
      ctx7 \<leftarrow> popScope False ctx6;
      ctx8 \<leftarrow> genExpression env t 0 (out ''return '' (indent ctx7));
      Some (out (''}'' @ newline) (indent_by (- 1) (out ('';'' @ newline) ctx8)))
    }"

fun repeat_gen :: "(TinContext \<Rightarrow> TinContext option) \<Rightarrow> nat \<Rightarrow> TinContext \<Rightarrow> TinContext option" where
  "repeat_gen g 0 ctx = Some ctx"
| "repeat_gen g (Suc n) ctx = do { ctx1 \<leftarrow> g ctx; repeat_gen g n ctx1 }"

definition genProgram :: "random_env \<Rightarrow> TinConfig \<Rightarrow> bool \<Rightarrow> TinContext \<Rightarrow> TinContext option" where
  "genProgram env cfg inherit_scope ctx =
    do {
      ctx1 \<leftarrow> gen_primitives (if inherit_scope then ctx else pushScope ctx);
      (structs, ctx2) \<leftarrow> frequency env (struct_frequency cfg) ctx1;
      ctx3 \<leftarrow> repeat_gen (gen_struct env cfg) (nat structs) ctx2;
      (funs, ctx4) \<leftarrow> frequency env (function_frequency cfg) ctx3;
      ctx5 \<leftarrow> repeat_gen (gen_function env cfg) (nat funs) ctx4;
      (if inherit_scope then Some ctx5 else popScope False ctx5)
    }"

definition file_path :: "nat \<Rightarrow> string" where
  "file_path i = (if i = 0 then ''generated/main.tin'' else ''generated/file'' @ to_string (int i) @ ''.tin'')"

definition import_line :: "nat \<Rightarrow> string" where
  "import_line i = ''import '' @ [CHR 0x22] @ file_path i @ [CHR 0x22] @ newline"

text \<open>
  Imports of later files, by chance, from file \<open>j\<close> on.  File \<open>i\<close> of \<open>n\<close> was popped as number
  \<open>n - 1 - i\<close>.
\<close>

fun gen_imports :: "random_env \<Rightarrow> nat \<Rightarrow> nat \<Rightarrow> TinContext \<Rightarrow> TinContext option" where
  "gen_imports env n 0 ctx = Some ctx"
| "gen_imports env n (Suc m) ctx =
     do {
       let j = n - Suc m;
       (c, ctx1) \<leftarrow> RandomInt env 0 1 ctx;
       if c = 0 then
         do {
           ctx2 \<leftarrow> upd_back (\<lambda>s. s\<lparr>sc_shared := sc_shared s @ [n - 1 - j]\<rparr>) ctx1;
           gen_imports env n m (out (import_line j) ctx2)
         }
       else gen_imports env n m ctx1
     }"

definition gen_file :: "random_env \<Rightarrow> TinConfig \<Rightarrow> nat \<Rightarrow> nat \<Rightarrow> TinContext \<Rightarrow> TinContext option" where
  "gen_file env cfg n i ctx =
    do {
      let ctx1 = pushScope (ctx\<lparr>tx_output := []\<rparr>);
      ctx2 \<leftarrow> gen_imports env n (n - (i + 2)) (if i + 1 < n then out (import_line (i + 1)) ctx1 else ctx1);
      ctx3 \<leftarrow> genProgram env cfg True ctx2;
      popScope True ctx3
    }"

text \<open>
  The files from number \<open>i - 1\<close> down to the first.  A file that cannot be opened ends the
  generation; the files are returned in the order in which they were written.
\<close>

fun gen_files :: "random_env \<Rightarrow> (string \<Rightarrow> bool) \<Rightarrow> TinConfig \<Rightarrow> nat \<Rightarrow> nat \<Rightarrow> TinContext \<Rightarrow>
  ((string \<times> string) list \<times> TinContext) option" where
  "gen_files env is_open cfg n 0 ctx = Some ([], ctx)"
| "gen_files env is_open cfg n (Suc i) ctx =
     do {
       ctx1 \<leftarrow> gen_file env cfg n i ctx;
       if \<not> is_open (file_path i) then Some ([], ctx1)
       else do {
         (rest, ctx2) \<leftarrow> gen_files env is_open cfg n i ctx1;
         Some ((file_path i, tx_output ctx1) # rest, ctx2)
       }
     }"

definition GenerateTin :: "random_env \<Rightarrow> (string \<Rightarrow> bool) \<Rightarrow> TinConfig \<Rightarrow> (string \<times> string) list option" where
  "GenerateTin env is_open cfg =
    do {
      (n, ctx) \<leftarrow> random_range env (file_count cfg) new_tin_context;
      if n < 0 then None
      else do { (fs, ctx1) \<leftarrow> gen_files env is_open cfg (nat n) (nat n) ctx; Some fs }
    }"

end
