(* ===== verification/TinGeneratorFiles.thy ===== *)
theory TinGeneratorFiles
  imports TinGenerator
begin

text \<open>
  The generator of random programs always ends.  Expressions only add text (\<^verbatim>\<open>writes\<close>), statements
  also variables of the innermost scope (\<^verbatim>\<open>statement_post\<close>), declarations objects of the heaps
  (\<^verbatim>\<open>inner_post\<close>, \<^verbatim>\<open>declared_post\<close>); no object that a scope still lists is ever deleted (\<^verbatim>\<open>all_alive\<close>).
\<close>

section \<open>What an expression changes\<close>

text \<open>The random numbers are in their bounds, as the C++ library promises.\<close>

definition random_ok :: "random_env \<Rightarrow> bool" where
  "random_ok env \<longleftrightarrow> (\<forall>n lo hi. lo < hi \<longrightarrow> lo \<le> random_int env n lo hi \<and> random_int env n lo hi \<le> hi)"

text \<open>Only text is added, and numbers are drawn.\<close>

definition writes :: "TinContext \<Rightarrow> TinContext \<Rightarrow> bool" where
  "writes ctx ctx' \<longleftrightarrow>
    (\<exists>w n d. ctx' = ctx\<lparr>tx_output := tx_output ctx @ w, expr_count := n, draws := d\<rparr>)"

named_theorems writing

lemma writes_refl [writing]: "writes ctx ctx"
  unfolding writes_def by (intro exI [of _ "[]"] exI [of _ "expr_count ctx"] exI [of _ "draws ctx"]) simp

lemma writes_trans: "writes a b \<Longrightarrow> writes b c \<Longrightarrow> writes a c"
  unfolding writes_def by (elim exE) force

lemma writes_out [writing]: "writes ctx (out s ctx)"
  unfolding writes_def out_def by (intro exI [of _ s] exI [of _ "expr_count ctx"] exI [of _ "draws ctx"]) simp

lemma writes_count [writing]: "writes ctx (count_expression d ctx)"
  unfolding writes_def count_expression_def
  by (intro exI [of _ "[]"] exI [of _ "Suc (if d = 0 then 0 else expr_count ctx)"] exI [of _ "draws ctx"]) simp

lemma writes_draws [writing]: "writes ctx (ctx\<lparr>draws := n\<rparr>)"
  unfolding writes_def by (intro exI [of _ "[]"] exI [of _ "expr_count ctx"] exI [of _ n]) simp

lemma writes_indent [writing]: "writes ctx (indent ctx)"
  unfolding indent_def by (rule writes_out)

lemma RandomInt_total:
  assumes "random_ok env" and "lo \<le> hi"
  obtains r ctx' where "RandomInt env lo hi ctx = Some (r, ctx')" "lo \<le> r" "r \<le> hi" "writes ctx ctx'"
proof (cases "lo = hi")
  case True
  then show thesis using that [of lo ctx] by (simp add: RandomInt_def writing)
next
  case False
  then show thesis
    using that [of "random_int env (draws ctx) lo hi" "ctx\<lparr>draws := Suc (draws ctx)\<rparr>"] assms
    by (simp add: RandomInt_def random_ok_def writing)
qed

text \<open>Nothing that a scope lists has been deleted.\<close>

definition scope_alive :: "TinContext \<Rightarrow> TinScope \<Rightarrow> bool" where
  "scope_alive ctx s \<longleftrightarrow>
    (\<forall>i\<in>set (sc_types s). deref (type_heap ctx) i \<noteq> None)
    \<and> (\<forall>i\<in>set (sc_functions s). deref (fun_heap ctx) i \<noteq> None)
    \<and> (\<forall>i\<in>set (sc_variables s). deref (var_heap ctx) i \<noteq> None)"

definition all_alive :: "TinContext \<Rightarrow> bool" where
  "all_alive ctx \<longleftrightarrow>
    (\<forall>s\<in>set (tx_scopes ctx @ kept_scopes ctx). scope_alive ctx s)
    \<and> (\<forall>s\<in>set (tx_scopes ctx). set (sc_shared s) \<subseteq> {..<length (kept_scopes ctx)})
    \<and> (\<exists>s\<in>set (tx_scopes ctx). sc_types s \<noteq> [])"

lemma aliveD:
  assumes "all_alive ctx" and "s \<in> set (tx_scopes ctx)"
  shows "\<And>i. i \<in> set (sc_types s) \<Longrightarrow> deref (type_heap ctx) i \<noteq> None"
    and "\<And>i. i \<in> set (sc_functions s) \<Longrightarrow> deref (fun_heap ctx) i \<noteq> None"
    and "\<And>i. i \<in> set (sc_variables s) \<Longrightarrow> deref (var_heap ctx) i \<noteq> None"
proof -
  have "scope_alive ctx s" using assms by (simp add: all_alive_def)
  then show "\<And>i. i \<in> set (sc_types s) \<Longrightarrow> deref (type_heap ctx) i \<noteq> None"
    "\<And>i. i \<in> set (sc_functions s) \<Longrightarrow> deref (fun_heap ctx) i \<noteq> None"
    "\<And>i. i \<in> set (sc_variables s) \<Longrightarrow> deref (var_heap ctx) i \<noteq> None"
    unfolding scope_alive_def by blast+
qed

lemma writes_fields:
  "writes ctx ctx' \<Longrightarrow> tx_scopes ctx' = tx_scopes ctx \<and> kept_scopes ctx' = kept_scopes ctx
    \<and> type_heap ctx' = type_heap ctx \<and> fun_heap ctx' = fun_heap ctx \<and> var_heap ctx' = var_heap ctx
    \<and> indent_level ctx' = indent_level ctx \<and> in_loop ctx' = in_loop ctx
    \<and> current_function ctx' = current_function ctx \<and> type_int ctx' = type_int ctx
    \<and> (\<exists>w. tx_output ctx' = tx_output ctx @ w)"
  by (auto simp: writes_def)

lemma writes_alive: "writes ctx ctx' \<Longrightarrow> all_alive ctx \<Longrightarrow> all_alive ctx'"
  using writes_fields [of ctx ctx'] by (simp add: all_alive_def scope_alive_def)

lemma first_alive_total: "\<forall>i\<in>set is. deref h i \<noteq> None \<Longrightarrow> \<exists>r. first_alive p h is = Some r"
  by (induction "is") auto

lemma pick_total:
  assumes "random_ok env" and "\<forall>i\<in>set is. deref h i \<noteq> None"
  shows "\<exists>r ctx'. pick env p h is ctx = Some (r, ctx') \<and> writes ctx ctx'"
proof (cases "is = []")
  case False
  then have "0 \<le> int (length is) - 1" by (cases "is") auto
  then obtain j c where j: "RandomInt env 0 (int (length is) - 1) ctx = Some (j, c)" "writes ctx c"
    using RandomInt_total [OF assms(1)] by metis
  have "\<forall>i\<in>set (drop (nat j) is @ take (nat j) is). deref h i \<noteq> None"
    using assms(2) by (auto dest: in_set_dropD in_set_takeD)
  then obtain r where "first_alive p h (drop (nat j) is @ take (nat j) is) = Some r"
    using first_alive_total by blast
  then show ?thesis using False j by (simp add: pick_def)
qed (simp add: pick_def writing)

lemma pick_any_total:
  "random_ok env \<Longrightarrow> \<forall>is\<in>set iss. \<forall>i\<in>set is. deref h i \<noteq> None \<Longrightarrow>
   \<exists>r ctx'. pick_any env p h iss ctx = Some (r, ctx') \<and> writes ctx ctx'"
proof (induction iss arbitrary: ctx)
  case (Cons "is" iss)
  obtain r c where r: "pick env p h is ctx = Some (r, c)" "writes ctx c"
    using pick_total [OF Cons.prems(1)] Cons.prems(2) by (metis list.set_intros(1))
  obtain r' c' where r': "pick_any env p h iss c = Some (r', c')" "writes c c'"
    using Cons.IH [OF Cons.prems(1)] Cons.prems(2) by (metis list.set_intros(2))
  show ?case using r r' writes_trans by (cases r) auto
qed (simp add: writing)

lemma shared_alive: "all_alive ctx \<Longrightarrow> s \<in> set (shared_of_back ctx) \<Longrightarrow> tx_scopes ctx \<noteq> [] \<Longrightarrow> scope_alive ctx s"
  by (force simp: shared_of_back_def all_alive_def)

lemma requestVariable_total:
  assumes "random_ok env" and "all_alive ctx"
  obtains r ctx' where "requestVariable env t b ctx = Some (r, ctx')" "writes ctx ctx'"
proof (cases "tx_scopes ctx = []")
  case False
  let ?p = "\<lambda>v. (b \<or> va_kind v \<noteq> CONSTANT_VAR) \<and> wanted t (va_type v)"
    and ?q = "\<lambda>v. (b \<or> va_kind v = CONSTANT_VAR) \<and> wanted t (va_type v)"
  have a1: "\<forall>is\<in>set (map sc_variables (rev (tx_scopes ctx))). \<forall>i\<in>set is. deref (var_heap ctx) i \<noteq> None"
    using aliveD(3) [OF assms(2)] by simp
  obtain r c where r: "pick_any env ?p (var_heap ctx) (map sc_variables (rev (tx_scopes ctx))) ctx = Some (r, c)" "writes ctx c"
    using pick_any_total [OF assms(1) a1, of ?p ctx] by blast
  have c: "all_alive c" "var_heap c = var_heap ctx" "tx_scopes c = tx_scopes ctx"
    using writes_alive [OF r(2) assms(2)] writes_fields [OF r(2)] by simp_all
  have a2: "\<forall>is\<in>set (map sc_variables (shared_of_back c)). \<forall>i\<in>set is. deref (var_heap c) i \<noteq> None"
    using shared_alive [OF c(1)] False c(3) by (simp add: scope_alive_def)
  obtain r' c' where r': "pick_any env ?q (var_heap c) (map sc_variables (shared_of_back c)) c = Some (r', c')" "writes c c'"
    using pick_any_total [OF assms(1) a2, of ?q c] by blast
  have "writes ctx c'" using r(2) r'(2) by (rule writes_trans)
  then show thesis using False r r' that by (cases r) (simp_all add: requestVariable_def)
qed (use that [of None ctx] in \<open>simp add: requestVariable_def writing\<close>)

lemma requestType_total:
  assumes "random_ok env" and "all_alive ctx"
  obtains i ctx' where "requestType env ctx = Some (plain_type (Some i), ctx')" "deref (type_heap ctx) i \<noteq> None" "writes ctx ctx'"
proof -
  obtain s where s: "find (\<lambda>s. sc_types s \<noteq> []) (rev (tx_scopes ctx)) = Some s"
    using assms(2) by (cases "find (\<lambda>s. sc_types s \<noteq> []) (rev (tx_scopes ctx))") (auto simp: all_alive_def find_None_iff)
  then have m: "s \<in> set (tx_scopes ctx)" "sc_types s \<noteq> []"
    by (auto simp: find_Some_iff) (metis length_rev nth_mem set_rev)
  then have "0 \<le> int (length (sc_types s)) - 1" by (cases "sc_types s") auto
  then obtain j c where j: "RandomInt env 0 (int (length (sc_types s)) - 1) ctx = Some (j, c)" "0 \<le> j"
      "j \<le> int (length (sc_types s)) - 1" "writes ctx c"
    using RandomInt_total [OF assms(1)] by metis
  then have n: "nat j < length (sc_types s)" by linarith
  have "requestType env ctx = Some (plain_type (Some (sc_types s ! nat j)), c)"
    using s m j n by (auto simp: requestType_def)
  moreover have "deref (type_heap ctx) (sc_types s ! nat j) \<noteq> None"
    using aliveD(1) [OF assms(2) m(1)] n by simp
  ultimately show thesis using that j(4) by blast
qed

lemma type_text_alive: "deref (type_heap ctx) i \<noteq> None \<Longrightarrow> \<exists>s. type_text (plain_type (Some i)) ctx = Some s"
  by (auto simp: type_text_def plain_type_def)

section \<open>Expressions end\<close>

lemma random_kind_total:
  assumes "random_ok env" and "ks \<noteq> []"
  obtains k ctx' where "random_kind env ks ctx = Some (k, ctx')" "writes ctx ctx'"
proof -
  have "0 \<le> int (length ks) - 1" using assms(2) by (cases ks) auto
  then obtain j c where j: "RandomInt env 0 (int (length ks) - 1) ctx = Some (j, c)" "0 \<le> j" "j \<le> int (length ks) - 1" "writes ctx c"
    using RandomInt_total [OF assms(1)] by metis
  then have "nat j < length ks" by linarith
  then show thesis using that j by (simp add: random_kind_def)
qed

lemma random_kind_some: "random_ok env \<Longrightarrow> ks \<noteq> [] \<Longrightarrow> \<exists>k ctx'. random_kind env ks ctx = Some (k, ctx') \<and> writes ctx ctx'"
  using random_kind_total by metis

lemma choose_kind_total:
  assumes "random_ok env"
  obtains k ctx' where "choose_kind env t depth ctx = Some (k, ctx')" "writes ctx ctx'"
    "binary_operator k \<or> k = ASSIGN \<or> k = NOT' \<or> k \<in> {IDENTIFIER, SIZEOF, LITERAL_INT, LITERAL_FLOAT, LITERAL_STR,
       LITERAL_CHAR, LITERAL_NULL, LITERAL_TRUE, LITERAL_FALSE}"
    "binary_operator k \<or> k = ASSIGN \<or> k = NOT' \<longrightarrow> depth < 5"
proof -
  let ?c = "ctx\<lparr>draws := Suc (draws ctx)\<rparr>"
  have l: "\<exists>k c. operator_choice env t ?c = Some (k, c) \<and> writes ?c c" "\<exists>k c. value_choice env t ?c = Some (k, c) \<and> writes ?c c"
    using random_kind_some [OF assms]
    by (simp_all add: operator_choice_def value_choice_def any_binary_kinds_def binary_kinds_int_def
        binary_kinds_bool_def value_kinds_def value_kinds_int_def writing)
  then obtain k c where k: "choose_kind env t depth ctx = Some (k, c)" "writes ?c c"
    by (simp add: choose_kind_def RandomFloat_def) metis
  have "writes ctx c" using writes_trans [OF writes_draws k(2)] .
  moreover have "binary_operator k \<or> k = ASSIGN \<or> k = NOT' \<or> k \<in> {IDENTIFIER, SIZEOF, LITERAL_INT, LITERAL_FLOAT, LITERAL_STR,
       LITERAL_CHAR, LITERAL_NULL, LITERAL_TRUE, LITERAL_FALSE}"
    using k(1) by (auto simp: choose_kind_def RandomFloat_def dest: value_choice_kind operator_choice_kind split: if_splits)
  ultimately show thesis using that k(1) choose_kind_cases [OF k(1)] by blast
qed

lemma gen_name_total:
  assumes "random_ok env" and "all_alive ctx"
  shows "\<exists>ctx'. gen_name env t f m ctx = Some ctx' \<and> writes ctx ctx'"
proof -
  obtain r c where r: "requestVariable env t True ctx = Some (r, c)" "writes ctx c"
    by (rule requestVariable_total [OF assms])
  then show ?thesis using writes_trans [OF r(2) writes_out] by (cases r) (simp_all add: gen_name_def)
qed

lemma gen_size_total:
  assumes "random_ok env" and "all_alive ctx"
  shows "\<exists>ctx'. gen_size env ctx = Some ctx' \<and> writes ctx ctx'"
proof -
  obtain i c where r: "requestType env ctx = Some (plain_type (Some i), c)" "deref (type_heap ctx) i \<noteq> None" "writes ctx c"
    by (rule requestType_total [OF assms])
  then obtain s where "type_text (plain_type (Some i)) c = Some s"
    using type_text_alive writes_fields [OF r(3)] by metis
  then show ?thesis using r writes_trans [OF r(3) writes_out] by (simp add: gen_size_def plain_type_def)
qed

lemma gen_value_total:
  assumes "random_ok env" and "all_alive ctx"
    and "k \<in> {IDENTIFIER, SIZEOF, LITERAL_INT, LITERAL_FLOAT, LITERAL_STR, LITERAL_CHAR, LITERAL_NULL, LITERAL_TRUE, LITERAL_FALSE}"
  shows "\<exists>ctx'. gen_value env k t ctx = Some ctx' \<and> writes ctx ctx'"
proof -
  obtain j c where j: "RandomInt env (- 1000) 1000 ctx = Some (j, c)" "writes ctx c"
    by (rule RandomInt_total [OF assms(1), of "- 1000" 1000 ctx]) simp_all
  show ?thesis
    using assms(3) gen_name_total [OF assms(1,2)] gen_size_total [OF assms(1,2)] j
      writes_trans [OF j(2) writes_out] writes_trans [OF writes_draws writes_out]
    by (auto simp: gen_value_def RandomFloat_def writing)
qed

lemma operand_type_total:
  assumes "random_ok env"
  obtains u ctx' where "operand_type env k t ctx = Some (u, ctx')" "writes ctx ctx'"
proof -
  obtain j c where j: "RandomInt env 0 1 ctx = Some (j, c)" "writes ctx c"
    by (rule RandomInt_total [OF assms, of 0 1 ctx]) simp_all
  then have "\<exists>u c. operand_type env k t ctx = Some (u, c) \<and> writes ctx c"
    by (simp add: operand_type_def writing)
  then show thesis using that by blast
qed

declare genExpression.simps [simp del]

lemma genExpression_total:
  assumes "random_ok env"
  shows "all_alive ctx \<Longrightarrow> \<exists>ctx'. genExpression env t d ctx = Some ctx' \<and> writes ctx ctx'"
proof (induction "5 - d" arbitrary: t d ctx rule: less_induct)
  case less
  let ?c0 = "count_expression d ctx"
  obtain k c where k: "choose_kind env t (Suc d) ?c0 = Some (k, c)" "writes ?c0 c"
      "binary_operator k \<or> k = ASSIGN \<or> k = NOT' \<or> k \<in> {IDENTIFIER, SIZEOF, LITERAL_INT, LITERAL_FLOAT, LITERAL_STR,
         LITERAL_CHAR, LITERAL_NULL, LITERAL_TRUE, LITERAL_FALSE}"
      "binary_operator k \<or> k = ASSIGN \<or> k = NOT' \<longrightarrow> Suc d < 5"
    by (rule choose_kind_total [OF assms])
  have w: "writes ctx c" using writes_trans [OF writes_count k(2)] .
  have a: "all_alive x" if "writes ctx x" for x using writes_alive [OF that less.prems] .
  have sub: "\<exists>y. genExpression env u (Suc d) x = Some y \<and> writes ctx y" if near: "writes ctx x" "Suc d < 5" for u x
  proof -
    have "5 - Suc d < 5 - d" using near(2) by simp
    then obtain y where y: "genExpression env u (Suc d) x = Some y" "writes x y"
      using less.hyps [of "Suc d" x u] a [OF near(1)] by blast
    show ?thesis using y(1) writes_trans [OF near(1) y(2)] by blast
  qed
  note eq = genExpression.simps [of env t d ctx]
  consider "binary_operator k" | "k = NOT'" | "k = ASSIGN" |
    "k \<in> {IDENTIFIER, SIZEOF, LITERAL_INT, LITERAL_FLOAT, LITERAL_STR, LITERAL_CHAR, LITERAL_NULL, LITERAL_TRUE, LITERAL_FALSE}"
    using k(3) by blast
  then show ?case
  proof cases
    case 1
    then have f: "k \<noteq> FUNCTION_CALL" by (auto simp: binary_operator_def comparison_operator_def)
    obtain u c1 where c1: "operand_type env k t (out ''('' c) = Some (u, c1)" "writes (out ''('' c) c1"
      by (rule operand_type_total [OF assms])
    have "writes ctx c1" using w writes_out c1(2) writes_trans by blast
    then obtain c2 where c2: "genExpression env u (Suc d) c1 = Some c2" "writes ctx c2" using sub k(4) 1 by blast
    then have "writes ctx (out (operator_text k) c2)" using writes_out writes_trans by blast
    then obtain c3 where c3: "genExpression env u (Suc d) (out (operator_text k) c2) = Some c3" "writes ctx c3"
      using sub k(4) 1 by blast
    then show ?thesis using eq k(1) 1 f c1(1) c2(1) writes_trans [OF c3(2) writes_out] by simp
  next
    case 2
    then have f: "\<not> binary_operator k" by (simp add: binary_operator_def comparison_operator_def)
    obtain v c1 where c1: "requestVariable env t True c = Some (v, c1)" "writes c c1"
      by (rule requestVariable_total [OF assms a [OF w]])
    have w1: "writes ctx c1" using writes_trans [OF w c1(2)] .
    have w2: "writes ctx (out s c1)" for s using writes_trans [OF w1 writes_out] .
    show ?thesis using eq k(1,4) 2 f c1(1) w2 sub [OF w2] by simp
  next
    case 3
    then have f: "\<not> binary_operator k" by (simp add: binary_operator_def comparison_operator_def)
    obtain v c1 where c1: "requestVariable env t False c = Some (v, c1)" "writes c c1"
      by (rule requestVariable_total [OF assms a [OF w]])
    have w1: "writes ctx c1" using writes_trans [OF w c1(2)] .
    have w2: "writes ctx (out s c1)" for s using writes_trans [OF w1 writes_out] .
    show ?thesis using eq k(1,4) 3 f c1(1) w2 sub [OF w2] by (cases v) simp_all
  next
    case 4
    then have f: "\<not> binary_operator k" "k \<notin> {FUNCTION_CALL, NOT', DEREF, ASSIGN, CAST}"
      by (auto simp: binary_operator_def comparison_operator_def)
    obtain y where "gen_value env k t c = Some y" "writes c y" using gen_value_total [OF assms a [OF w] 4] by blast
    then show ?thesis using eq k(1) f writes_trans [OF w] by simp
  qed
qed

section \<open>Statements end\<close>

definition prims_alive :: "TinContext \<Rightarrow> bool" where
  "prims_alive ctx \<longleftrightarrow> (\<forall>t\<in>{type_int ctx, type_float ctx, type_char ctx, type_bool ctx}.
     \<exists>i. t = Some i \<and> deref (type_heap ctx) i \<noteq> None)"

definition scope_vars :: "TinContext \<Rightarrow> nat list" where
  "scope_vars ctx = concat (map sc_variables (tx_scopes ctx @ kept_scopes ctx))"

definition tin_ok :: "TinContext \<Rightarrow> bool" where
  "tin_ok ctx \<longleftrightarrow> all_alive ctx \<and> distinct (scope_vars ctx) \<and> prims_alive ctx"

definition function_alive :: "TinContext \<Rightarrow> bool" where
  "function_alive ctx \<longleftrightarrow> (\<exists>f. current_function ctx = Some f \<and> deref (fun_heap ctx) f \<noteq> None)"

definition config_ok :: "TinConfig \<Rightarrow> bool" where
  "config_ok cfg \<longleftrightarrow> (\<forall>r\<in>{struct_frequency cfg, member_frequency cfg, function_frequency cfg,
     argument_frequency cfg, statement_frequency cfg, file_count cfg}. range_min r \<le> range_max r)"

text \<open>What statements change: variables of the innermost scope are added, and text.\<close>

definition statement_post :: "TinContext \<Rightarrow> TinContext \<Rightarrow> bool" where
  "statement_post ctx ctx' \<longleftrightarrow>
    tin_ok ctx' \<and> kept_scopes ctx' = kept_scopes ctx \<and> type_heap ctx' = type_heap ctx
    \<and> fun_heap ctx' = fun_heap ctx \<and> indent_level ctx' = indent_level ctx \<and> in_loop ctx' = in_loop ctx
    \<and> current_function ctx' = current_function ctx \<and> tx_scopes ctx' \<noteq> []
    \<and> butlast (tx_scopes ctx') = butlast (tx_scopes ctx)
    \<and> sc_types (last (tx_scopes ctx')) = sc_types (last (tx_scopes ctx))
    \<and> sc_functions (last (tx_scopes ctx')) = sc_functions (last (tx_scopes ctx))
    \<and> (\<exists>w. tx_output ctx' = tx_output ctx @ w)"

lemma writes_ok:
  assumes "writes ctx ctx'" and "tin_ok ctx"
  shows "tin_ok ctx'"
proof -
  have "scope_vars ctx' = scope_vars ctx" "prims_alive ctx' = prims_alive ctx"
    using assms(1) by (auto simp: writes_def scope_vars_def prims_alive_def)
  then show ?thesis using assms writes_alive by (simp add: tin_ok_def)
qed

lemma tin_ok_scopes: "tin_ok ctx \<Longrightarrow> tx_scopes ctx \<noteq> []"
  by (auto simp: tin_ok_def all_alive_def)

lemma writes_post: "writes ctx ctx' \<Longrightarrow> tin_ok ctx \<Longrightarrow> statement_post ctx ctx'"
  using writes_fields [of ctx ctx'] writes_ok [of ctx ctx'] tin_ok_scopes [of ctx]
  by (simp add: statement_post_def)

lemma statement_post_trans: "statement_post a b \<Longrightarrow> statement_post b c \<Longrightarrow> statement_post a c"
  unfolding statement_post_def by (elim conjE exE, intro conjI exI) auto

lemma statement_post_ok: "statement_post a b \<Longrightarrow> tin_ok b"
  by (simp add: statement_post_def)

lemma post_writes: "statement_post a b \<Longrightarrow> writes b c \<Longrightarrow> statement_post a c"
  using writes_post statement_post_ok statement_post_trans by blast

lemma deref_append: "deref h i \<noteq> None \<Longrightarrow> deref (h @ xs) i = deref h i"
  by (auto simp: deref_def nth_append split: option.splits)

lemma deref_less: "deref h i \<noteq> None \<Longrightarrow> i < length h"
  by (auto simp: deref_def split: option.splits)

lemma scope_vars_alive: "all_alive ctx \<Longrightarrow> i \<in> set (scope_vars ctx) \<Longrightarrow> deref (var_heap ctx) i \<noteq> None"
  by (auto simp: all_alive_def scope_vars_def scope_alive_def)

lemma addVar_ok:
  assumes "tin_ok ctx"
  shows "\<exists>ctx'. addVar nm k t ctx = Some ctx' \<and> statement_post ctx ctx'"
proof -
  obtain ss s where ss: "tx_scopes ctx = ss @ [s]"
    using tin_ok_scopes [OF assms] by (cases "tx_scopes ctx" rule: rev_cases) auto
  let ?n = "length (var_heap ctx)"
  let ?s' = "s\<lparr>sc_variables := sc_variables s @ [?n]\<rparr>"
  let ?c = "ctx\<lparr>tx_scopes := ss @ [?s'],
      var_heap := var_heap ctx @ [Some \<lparr>va_kind = k, va_name = nm, va_type = t\<rparr>]\<rparr>"
  have a: "all_alive ctx" "distinct (scope_vars ctx)" "prims_alive ctx" using assms by (simp_all add: tin_ok_def)
  have old: "scope_alive ?c x" if al: "scope_alive ctx x" for x
    using al deref_append [of "var_heap ctx"] unfolding scope_alive_def by simp
  have "deref (var_heap ctx @ [Some x]) ?n \<noteq> None" for x by (simp add: deref_def)
  moreover have "scope_alive ?c s" using old a(1) ss by (simp add: all_alive_def)
  ultimately have "scope_alive ?c ?s'" by (simp add: scope_alive_def)
  moreover have "\<forall>x\<in>set ss \<union> set (kept_scopes ctx). scope_alive ?c x"
    using old a(1) unfolding all_alive_def ss by simp
  ultimately have "all_alive ?c" using a(1) unfolding all_alive_def ss by simp
  moreover have "distinct (scope_vars ?c)"
  proof -
    have "?n \<notin> set (scope_vars ctx)" using deref_less [OF scope_vars_alive [OF a(1)]] by blast
    then show ?thesis using a(2) by (simp add: scope_vars_def ss)
  qed
  moreover have "prims_alive ?c" using a(3) by (simp add: prims_alive_def)
  ultimately have "statement_post ctx ?c" by (simp add: statement_post_def tin_ok_def ss)
  moreover have "addVar nm k t ctx = Some ?c" by (simp add: addVar_def upd_back_def ss)
  ultimately show ?thesis by blast
qed

lemma next_var_ok: "tin_ok ctx \<Longrightarrow> statement_post ctx (snd (next_var p ctx))"
  by (auto simp: next_var_def statement_post_def tin_ok_def all_alive_def scope_alive_def scope_vars_def prims_alive_def)

lemma gen_declaration_total:
  assumes "random_ok env" and "tin_ok ctx"
  shows "\<exists>ctx'. gen_declaration env lead p k ctx = Some ctx' \<and> statement_post ctx ctx'"
proof -
  have i: "tin_ok (indent ctx)" by (rule writes_ok [OF writes_indent assms(2)])
  obtain j c where r: "requestType env (indent ctx) = Some (plain_type (Some j), c)" "deref (type_heap (indent ctx)) j \<noteq> None" "writes (indent ctx) c"
    by (rule requestType_total [OF assms(1), of "indent ctx"]) (use i in \<open>auto simp: tin_ok_def\<close>)
  have c: "statement_post ctx c" using writes_post [OF writes_trans [OF writes_indent r(3)] assms(2)] .
  obtain nm c2 where n: "next_var p c = (nm, c2)" by (cases "next_var p c")
  then have c2: "statement_post ctx c2" using next_var_ok [OF statement_post_ok [OF c], of p] statement_post_trans [OF c] by simp
  have "deref (type_heap c2) j \<noteq> None" using r(2) c2 by (simp add: statement_post_def indent_def out_def)
  then obtain s where s: "type_text (plain_type (Some j)) c2 = Some s" using type_text_alive by blast
  let ?c3 = "out (lead @ nm @ '': '' @ s @ '';'' @ newline) c2"
  have c3: "statement_post ctx ?c3" using post_writes [OF c2 writes_out] .
  obtain c4 where "addVar nm k (plain_type (Some j)) ?c3 = Some c4" "statement_post ?c3 c4"
    using addVar_ok [OF statement_post_ok [OF c3]] by blast
  then show ?thesis using r(1) n s statement_post_trans [OF c3] by (simp add: gen_declaration_def)
qed

lemma gen_constant_declaration_total:
  assumes "random_ok env" and "tin_ok ctx"
  shows "\<exists>ctx'. gen_constant_declaration env ctx = Some ctx' \<and> statement_post ctx ctx'"
proof -
  have c: "statement_post ctx (indent ctx)" by (rule writes_post [OF writes_indent assms(2)])
  obtain nm c2 where n: "next_var ''CONST'' (indent ctx) = (nm, c2)" by (cases "next_var ''CONST'' (indent ctx)")
  then have c2: "statement_post ctx c2"
    using next_var_ok [OF statement_post_ok [OF c], of "''CONST''"] statement_post_trans [OF c] by simp
  obtain v c3 where v: "RandomInt env (- 1000) 1000 c2 = Some (v, c3)" "writes c2 c3"
    by (rule RandomInt_total [OF assms(1), of "- 1000" 1000 c2]) simp_all
  have c3: "statement_post ctx c3" by (rule post_writes [OF c2 v(2)])
  then obtain j where j: "type_int c3 = Some j" "deref (type_heap c3) j \<noteq> None"
    by (auto simp: statement_post_def tin_ok_def prims_alive_def)
  then obtain s where s: "type_text (plain_type (type_int c3)) c3 = Some s" using type_text_alive by metis
  let ?c4 = "out (''const '' @ nm @ '': '' @ s @ '' = '' @ to_string v @ '';'' @ newline) c3"
  have c4: "statement_post ctx ?c4" using post_writes [OF c3 writes_out] .
  obtain c5 where "addVar nm CONSTANT_VAR (plain_type (type_int c3)) ?c4 = Some c5" "statement_post ?c4 c5"
    using addVar_ok [OF statement_post_ok [OF c4]] by blast
  then show ?thesis using v(1) n s statement_post_trans [OF c4] by (simp add: gen_constant_declaration_def)
qed

lemma expression_line:
  assumes "random_ok env" and "tin_ok ctx"
  shows "\<exists>ctx'. genExpression env t 0 (out s (indent ctx)) = Some ctx' \<and> writes ctx ctx'"
proof -
  have w: "writes ctx (out s (indent ctx))" by (rule writes_trans [OF writes_indent writes_out])
  have "all_alive (out s (indent ctx))" using writes_ok [OF w assms(2)] by (simp add: tin_ok_def)
  then show ?thesis using genExpression_total [OF assms(1)] writes_trans [OF w] by blast
qed

lemma gen_simple_total:
  assumes "random_ok env" and "tin_ok ctx" and "function_alive ctx" and "k \<noteq> IF_STATEMENT" and "k \<noteq> WHILE_STATEMENT"
  shows "\<exists>ctx'. gen_simple env k ctx = Some ctx' \<and> statement_post ctx ctx'"
proof (cases k)
  case EXPRESSION
  obtain c where c: "genExpression env no_type 0 (indent ctx) = Some c" "writes ctx c"
    using expression_line [OF assms(1,2), of no_type "[]"] by (auto simp: out_def)
  then show ?thesis using EXPRESSION writes_post [OF writes_trans [OF c(2) writes_out] assms(2)] by (simp add: gen_simple_def)
next
  case RETURN_STATEMENT
  obtain f fu where f: "current_function ctx = Some f" "deref (fun_heap ctx) f = Some fu"
    using assms(3) by (auto simp: function_alive_def)
  obtain c where c: "genExpression env (fu_return fu) 0 (out ''return '' (indent ctx)) = Some c" "writes ctx c"
    using expression_line [OF assms(1,2)] by blast
  then show ?thesis using RETURN_STATEMENT f writes_post [OF writes_trans [OF c(2) writes_out] assms(2)]
    by (simp add: gen_simple_def gen_return_statement_def)
next
  case BREAK_STATEMENT
  then show ?thesis using writes_post [OF writes_trans [OF writes_indent writes_out] assms(2)] writes_post [OF writes_refl assms(2)]
    by (simp add: gen_simple_def)
next
  case CONTINUE_STATEMENT
  then show ?thesis using writes_post [OF writes_trans [OF writes_indent writes_out] assms(2)] writes_post [OF writes_refl assms(2)]
    by (simp add: gen_simple_def)
qed (use assms gen_declaration_total [OF assms(1,2)] gen_constant_declaration_total [OF assms(1,2)] in \<open>simp_all add: gen_simple_def\<close>)

lemma config_ranges: "config_ok cfg \<Longrightarrow> r \<in> {struct_frequency cfg, member_frequency cfg, function_frequency cfg,
     argument_frequency cfg, statement_frequency cfg, file_count cfg} \<Longrightarrow> range_min r \<le> range_max r"
  by (auto simp: config_ok_def)

lemma frequency_total:
  assumes "random_ok env" and "range_min r \<le> range_max r"
  obtains n ctx' where "frequency env r ctx = Some (n, ctx')" "writes ctx ctx'"
  by (rule RandomInt_total [OF assms(1,2), of ctx]) (use that in \<open>auto simp: frequency_def\<close>)

lemma random_statement_total:
  assumes "random_ok env"
  obtains k ctx' where "random_statement env ctx = Some (k, ctx')" "writes ctx ctx'"
proof -
  obtain j c where j: "RandomInt env 1 9 ctx = Some (j, c)" "1 \<le> j" "j \<le> 9" "writes ctx c"
    by (rule RandomInt_total [OF assms, of 1 9 ctx]) simp_all
  then have "nat j - 1 < length statement_kinds" by (simp add: statement_kinds_def)
  then show thesis using that j by (simp add: random_statement_def)
qed

text \<open>A block: a scope of its own that is deleted at its end.\<close>

lemma pushScope_ok:
  assumes "tin_ok ctx"
  shows "tin_ok (pushScope ctx)"
proof -
  have "scope_alive (pushScope ctx) s = scope_alive ctx s" for s by (simp add: scope_alive_def pushScope_def)
  moreover have "scope_alive ctx \<lparr>sc_types = [], sc_functions = [], sc_variables = [], sc_shared = []\<rparr>"
    by (simp add: scope_alive_def)
  ultimately show ?thesis using assms
    by (simp add: tin_ok_def all_alive_def scope_vars_def prims_alive_def)
      (simp add: pushScope_def)
qed

lemma deref_delete_all: "deref (delete_all is h) j = (if j \<in> set is then None else deref h j)"
  unfolding delete_all_def
  by (induction "is" arbitrary: h) (auto simp: deref_def nth_opt_def nth_list_update)

lemma scope_popped:
  assumes ok: "tin_ok ctx" and c: "tin_ok c" and k: "kept_scopes c = kept_scopes ctx"
    and s: "tx_scopes c = tx_scopes ctx @ [s]" "sc_types s = []" "sc_functions s = []"
  obtains d where "popScope False c = Some d" "tin_ok d"
    "d = c\<lparr>tx_scopes := tx_scopes ctx, var_heap := delete_all (sc_variables s) (var_heap c)\<rparr>"
proof -
  let ?d = "c\<lparr>tx_scopes := tx_scopes ctx, var_heap := delete_all (sc_variables s) (var_heap c)\<rparr>"
  have a: "all_alive c" "distinct (scope_vars c)" "prims_alive c" using c by (simp_all add: tin_ok_def)
  have alive: "scope_alive ?d x" if x: "x \<in> set (tx_scopes ctx @ kept_scopes c)" for x
  proof -
    have "scope_alive c x" using a(1) x s(1) by (auto simp: all_alive_def)
    moreover have "set (sc_variables x) \<inter> set (sc_variables s) = {}"
      using a(2) x s(1) by (auto simp: scope_vars_def)
    ultimately show ?thesis by (auto simp: scope_alive_def deref_delete_all)
  qed
  have "all_alive ctx" using ok by (simp add: tin_ok_def)
  then have "all_alive ?d" using alive k by (simp add: all_alive_def)
  moreover have "distinct (scope_vars ?d)" using a(2) s(1) by (auto simp: scope_vars_def)
  moreover have "prims_alive ?d" using a(3) by (simp add: prims_alive_def)
  ultimately have "tin_ok ?d" by (simp add: tin_ok_def)
  moreover have "popScope False c = Some ?d" using s by (simp add: popScope_def Let_def delete_all_def)
  ultimately show thesis using that by blast
qed

lemma block_popped:
  assumes ok: "tin_ok ctx" and post: "statement_post (pushScope ctx) c"
  shows "\<exists>ctx'. popScope False c = Some ctx' \<and> statement_post ctx ctx' \<and> tx_scopes ctx' = tx_scopes ctx"
proof -
  have "butlast (tx_scopes c) = tx_scopes ctx" "tx_scopes c \<noteq> []"
    "sc_types (last (tx_scopes c)) = []" "sc_functions (last (tx_scopes c)) = []"
    using post by (simp_all add: statement_post_def pushScope_def)
  then obtain s where s: "tx_scopes c = tx_scopes ctx @ [s]" "sc_types s = []" "sc_functions s = []"
    by (metis append_butlast_last_id)
  have k: "tin_ok c" "kept_scopes c = kept_scopes ctx" "type_heap c = type_heap ctx" "fun_heap c = fun_heap ctx"
    "indent_level c = indent_level ctx" "in_loop c = in_loop ctx" "current_function c = current_function ctx"
    "\<exists>w. tx_output c = tx_output ctx @ w"
    using post by (simp_all add: statement_post_def pushScope_def)
  obtain d where d: "popScope False c = Some d" "tin_ok d"
      "d = c\<lparr>tx_scopes := tx_scopes ctx, var_heap := delete_all (sc_variables s) (var_heap c)\<rparr>"
    by (rule scope_popped [OF ok k(1,2) s])
  then show ?thesis using k tin_ok_scopes [OF ok] by (simp add: statement_post_def)
qed

lemma indented:
  "tin_ok ctx \<Longrightarrow> tin_ok (indent_by n ctx)" "tin_ok ctx \<Longrightarrow> tin_ok (ctx\<lparr>in_loop := b\<rparr>)"
  by (simp_all add: tin_ok_def indent_by_def all_alive_def scope_alive_def scope_vars_def prims_alive_def)

lemma open_block_ok: "tin_ok ctx \<Longrightarrow> tin_ok (open_block s ctx)"
  unfolding open_block_def by (intro indented(1) writes_ok [OF writes_out])

text \<open>What happens in a block, seen from outside.\<close>

lemma block_post:
  assumes "tin_ok ctx" and "statement_post ((open_block s ctx)\<lparr>in_loop := b\<rparr>) c"
  shows "statement_post ctx (close_block (c\<lparr>in_loop := in_loop ctx\<rparr>))"
proof -
  let ?d = "indent_by (- 1) (c\<lparr>in_loop := in_loop ctx\<rparr>)"
  have "tin_ok ?d" using assms(2) by (intro indented) (simp add: statement_post_def)
  then have "statement_post ctx ?d"
    using assms(2) by (auto simp: statement_post_def open_block_def indent_by_def out_def)
  then show ?thesis unfolding close_block_def by (intro post_writes [OF _ writes_trans [OF writes_indent writes_out]])
qed

lemma block_post_same:
  assumes "tin_ok ctx" and "statement_post (open_block s ctx) c"
  shows "statement_post ctx (close_block c)"
proof -
  have e: "(open_block s ctx)\<lparr>in_loop := in_loop ctx\<rparr> = open_block s ctx"
    by (simp add: open_block_def indent_by_def out_def)
  have "in_loop c = in_loop ctx"
    using assms(2) by (simp add: statement_post_def open_block_def indent_by_def out_def)
  then have "c\<lparr>in_loop := in_loop ctx\<rparr> = c" by simp
  then show ?thesis using block_post [OF assms(1), where s = s and b = "in_loop ctx" and c = c] assms(2) e by simp
qed

declare genStatement.simps [simp del]

lemma function_alive_post: "statement_post a b \<Longrightarrow> function_alive a \<Longrightarrow> function_alive b"
  by (auto simp: function_alive_def statement_post_def)

lemma statements_total:
  assumes env: "random_ok env" and cfg: "config_ok cfg"
  shows "tin_ok ctx \<Longrightarrow> function_alive ctx \<Longrightarrow> 7 \<le> indent_level ctx + int n \<Longrightarrow> 0 < n \<Longrightarrow>
      \<exists>ctx'. genStatements n env cfg inherit_scope ctx = Some ctx' \<and> statement_post ctx ctx'"
    and "tin_ok ctx \<Longrightarrow> function_alive ctx \<Longrightarrow> 6 \<le> indent_level ctx + int n \<Longrightarrow>
      \<exists>ctx'. statement_loop n env cfg m ctx = Some ctx' \<and> statement_post ctx ctx'"
    and "tin_ok ctx \<Longrightarrow> function_alive ctx \<Longrightarrow> 6 \<le> indent_level ctx + int n \<Longrightarrow>
      indent_level ctx \<le> 5 \<or> (k \<noteq> IF_STATEMENT \<and> k \<noteq> WHILE_STATEMENT) \<Longrightarrow>
      \<exists>ctx'. genStatement n env cfg k ctx = Some ctx' \<and> statement_post ctx ctx'"
  using env cfg
proof (induction n env cfg inherit_scope ctx and n env cfg m ctx and n env cfg k ctx
    rule: genStatements_statement_loop_genStatement.induct)
  case (1 env cfg inherit_scope ctx)
  then show ?case by simp
next
  case (2 n env cfg inherit_scope ctx)
  let ?c = "if inherit_scope then ctx else pushScope ctx"
  obtain count c1 where c1: "frequency env (statement_frequency cfg) ?c = Some (count, c1)" "writes ?c c1"
    by (rule frequency_total [OF "2.prems"(5) config_ranges [OF "2.prems"(6)]]) auto
  have ok: "tin_ok ?c" using "2.prems"(1) pushScope_ok by simp
  have p1: "statement_post ?c c1" by (rule writes_post [OF c1(2) ok])
  have f: "function_alive ?c" "indent_level ?c = indent_level ctx"
    using "2.prems"(2) by (simp_all add: function_alive_def pushScope_def)
  have l: "6 \<le> indent_level c1 + int n" using p1 f(2) "2.prems"(3) by (simp add: statement_post_def)
  obtain c2 where c2: "statement_loop n env cfg (nat count) c1 = Some c2" "statement_post c1 c2"
    using "2.IH" [OF c1(1) refl statement_post_ok [OF p1] function_alive_post [OF p1 f(1)] l "2.prems"(5,6)] by blast
  have p2: "statement_post ?c c2" by (rule statement_post_trans [OF p1 c2(2)])
  show ?case
  proof (cases inherit_scope)
    case True
    then show ?thesis using c1(1) c2(1) p2 by simp
  next
    case False
    then have "statement_post (pushScope ctx) c2" using p2 by simp
    from block_popped [OF "2.prems"(1) this] show ?thesis using False c1(1) c2(1) by auto
  qed
next
  case (3 n env cfg ctx)
  then show ?case using writes_post [OF writes_refl] by simp
next
  case (4 n env cfg m ctx)
  obtain k c1 where c1: "random_statement env ctx = Some (k, c1)" "writes ctx c1"
    by (rule random_statement_total [OF "4.prems"(4)])
  have p1: "statement_post ctx c1" by (rule writes_post [OF c1(2) "4.prems"(1)])
  have f: "tin_ok c1" "function_alive c1" "6 \<le> indent_level c1 + int n"
    using statement_post_ok [OF p1] function_alive_post [OF p1 "4.prems"(2)] p1 "4.prems"(3) by (simp_all add: statement_post_def)
  show ?case
  proof (cases "5 < indent_level c1 \<and> (k = IF_STATEMENT \<or> k = WHILE_STATEMENT)")
    case True
    then show ?thesis using "4.IH"(1) [OF c1(1) refl True f "4.prems"(4,5)] c1(1) statement_post_trans [OF p1] by auto
  next
    case False
    then obtain c2 where c2: "genStatement n env cfg k c1 = Some c2" "statement_post c1 c2"
      using "4.IH"(2) [OF c1(1) refl False f _ "4.prems"(4,5)] by auto
    have p2: "statement_post ctx c2" by (rule statement_post_trans [OF p1 c2(2)])
    show ?thesis
    proof (cases "k = RETURN_STATEMENT")
      case True
      then show ?thesis using c1(1) False c2(1) p2 by simp
    next
      case k: False
      have g: "tin_ok c2" "function_alive c2" "6 \<le> indent_level c2 + int n"
        using statement_post_ok [OF p2] function_alive_post [OF p2 "4.prems"(2)] p2 "4.prems"(3) by (simp_all add: statement_post_def)
      obtain c3 where "statement_loop n env cfg m c2 = Some c3" "statement_post c2 c3"
        using "4.IH"(3) [OF c1(1) refl False c2(1) k g "4.prems"(4,5)] by blast
      then show ?thesis using c1(1) False c2(1) k statement_post_trans [OF p2] by auto
    qed
  qed
next
  case (5 n env cfg k ctx)
  note ok = "5.prems"(1)
  have b: "tin_ok (open_block s c) \<and> function_alive (open_block s c) \<and> 7 \<le> indent_level (open_block s c) + int n"
    if p: "statement_post ctx c" for s c
    using open_block_ok [OF statement_post_ok [OF p]] function_alive_post [OF p "5.prems"(2)] p "5.prems"(3)
    by (simp add: statement_post_def open_block_def indent_by_def out_def function_alive_def)
  consider "k = IF_STATEMENT" | "k = WHILE_STATEMENT" | "k \<noteq> IF_STATEMENT" "k \<noteq> WHILE_STATEMENT" by blast
  then show ?case
  proof cases
    case 1
    then have n: "0 < n" using "5.prems"(3,4) by auto
    obtain c1 where c1: "genExpression env (plain_type (type_bool ctx)) 0 (out ''if '' (indent ctx)) = Some c1" "writes ctx c1"
      using expression_line [OF "5.prems"(5) ok] by blast
    have p1: "statement_post ctx c1" by (rule writes_post [OF c1(2) ok])
    obtain c2 where c2: "genStatements n env cfg False (open_block '' '' c1) = Some c2" "statement_post (open_block '' '' c1) c2"
      using "5.IH"(1) [OF 1 c1(1)] b [OF p1, of "'' ''"] n "5.prems"(5,6) by blast
    let ?d = "indent (close_block c2)"
    have p2: "statement_post ctx ?d"
      using statement_post_trans [OF p1 post_writes [OF block_post_same [OF statement_post_ok [OF p1] c2(2)] writes_indent]] .
    obtain c3 where c3: "genStatements n env cfg False (open_block ''else '' ?d) = Some c3" "statement_post (open_block ''else '' ?d) c3"
      using "5.IH"(2) [OF 1 c1(1) c2(1)] b [OF p2, of "''else ''"] n "5.prems"(5,6) by blast
    have "statement_post ctx (close_block c3)"
      using statement_post_trans [OF p2 block_post_same [OF statement_post_ok [OF p2] c3(2)]] .
    then show ?thesis using 1 c1(1) c2(1) c3(1) by (simp add: genStatement.simps)
  next
    case 2
    then have n: "0 < n" using "5.prems"(3,4) by auto
    obtain c1 where c1: "genExpression env (plain_type (type_bool ctx)) 0 (out ''while '' (indent ctx)) = Some c1" "writes ctx c1"
      using expression_line [OF "5.prems"(5) ok] by blast
    have p1: "statement_post ctx c1" by (rule writes_post [OF c1(2) ok])
    let ?o = "(open_block '' '' c1)\<lparr>in_loop := True\<rparr>"
    have o: "tin_ok ?o" "function_alive ?o" "7 \<le> indent_level ?o + int n"
      using b [OF p1, of "'' ''"] indented(2) by (simp_all add: function_alive_def)
    obtain c2 where c2: "genStatements n env cfg False ?o = Some c2" "statement_post ?o c2"
      using "5.IH"(3) [OF _ 2 c1(1) o n "5.prems"(5,6)] 2 by auto
    have "statement_post ctx (close_block (c2\<lparr>in_loop := in_loop c1\<rparr>))"
      using statement_post_trans [OF p1 block_post [OF statement_post_ok [OF p1] c2(2)]] .
    then show ?thesis using 2 c1(1) c2(1) by (simp add: genStatement.simps)
  next
    case 3
    then show ?thesis using gen_simple_total [OF "5.prems"(5) ok "5.prems"(2) 3] 3 by (simp add: genStatement.simps)
  qed
qed

section \<open>Files end\<close>

text \<open>
  What declarations change: objects are added, none of those that are alive is deleted.  The
  number is the change of the indent level.
\<close>

definition inner_post :: "int \<Rightarrow> TinContext \<Rightarrow> TinContext \<Rightarrow> bool" where
  "inner_post k ctx ctx' \<longleftrightarrow>
    tin_ok ctx' \<and> kept_scopes ctx' = kept_scopes ctx \<and> indent_level ctx' = indent_level ctx + k
    \<and> (\<forall>i. deref (type_heap ctx) i \<noteq> None \<longrightarrow> deref (type_heap ctx') i \<noteq> None)
    \<and> (\<forall>i. deref (fun_heap ctx) i \<noteq> None \<longrightarrow> deref (fun_heap ctx') i \<noteq> None)
    \<and> tx_scopes ctx' \<noteq> [] \<and> butlast (tx_scopes ctx') = butlast (tx_scopes ctx)
    \<and> sc_types (last (tx_scopes ctx')) = sc_types (last (tx_scopes ctx))
    \<and> sc_functions (last (tx_scopes ctx')) = sc_functions (last (tx_scopes ctx))
    \<and> (\<exists>w. tx_output ctx' = tx_output ctx @ w)"

definition declared_post :: "int \<Rightarrow> TinContext \<Rightarrow> TinContext \<Rightarrow> bool" where
  "declared_post k ctx ctx' \<longleftrightarrow>
    tin_ok ctx' \<and> kept_scopes ctx' = kept_scopes ctx \<and> indent_level ctx' = indent_level ctx + k
    \<and> (\<forall>i. deref (type_heap ctx) i \<noteq> None \<longrightarrow> deref (type_heap ctx') i \<noteq> None)
    \<and> length (tx_scopes ctx') = length (tx_scopes ctx) \<and> (\<exists>w. tx_output ctx' = tx_output ctx @ w)"

lemma statement_inner: "statement_post a b \<Longrightarrow> inner_post 0 a b"
  by (simp add: inner_post_def statement_post_def)

lemma inner_trans: "inner_post j a b \<Longrightarrow> inner_post k b c \<Longrightarrow> inner_post (j + k) a c"
  unfolding inner_post_def by (elim conjE exE, intro conjI) auto

lemma file_trans: "declared_post j a b \<Longrightarrow> declared_post k b c \<Longrightarrow> declared_post (j + k) a c"
  unfolding declared_post_def by (elim conjE exE, intro conjI) auto

lemma inner_ok: "inner_post k a b \<Longrightarrow> tin_ok b" and file_ok: "declared_post k a b \<Longrightarrow> tin_ok b"
  by (simp_all add: inner_post_def declared_post_def)

lemma inner_writes: "inner_post k a b \<Longrightarrow> writes b c \<Longrightarrow> inner_post k a c"
  using inner_trans [of k a b 0 c] statement_inner [OF writes_post [OF _ inner_ok]] by simp

lemma inner_file:
  assumes "inner_post k a b" and "tx_scopes a \<noteq> []"
  shows "declared_post k a b"
proof -
  have e: "butlast (tx_scopes b) = butlast (tx_scopes a)" "tx_scopes b \<noteq> []"
    using assms(1) by (simp_all add: inner_post_def)
  have "length (tx_scopes x) = Suc (length (butlast (tx_scopes x)))" if "tx_scopes x \<noteq> []" for x
    using that by (cases "tx_scopes x" rule: rev_cases) auto
  then have "length (tx_scopes b) = length (tx_scopes a)" using e assms(2) by metis
  then show ?thesis using assms(1) by (simp add: inner_post_def declared_post_def)
qed

lemma writes_inner: "writes a b \<Longrightarrow> tin_ok a \<Longrightarrow> inner_post 0 a b"
  by (rule statement_inner [OF writes_post])

lemma indent_inner: "tin_ok a \<Longrightarrow> inner_post k a (indent_by k a)"
  using indented(1) [of a k] tin_ok_scopes [of a] by (simp add: inner_post_def indent_by_def)

lemma current_inner: "tin_ok a \<Longrightarrow> inner_post 0 a (a\<lparr>current_function := x\<rparr>)"
  using tin_ok_scopes [of a]
  by (simp add: inner_post_def tin_ok_def all_alive_def scope_alive_def scope_vars_def prims_alive_def)

lemma deref_upd_heap: "deref (upd_heap i f h) j = (if i = j then map_option f (deref h j) else deref h j)"
  by (auto simp: upd_heap_def deref_def nth_opt_def nth_list_update)

text \<open>More objects on the heaps, and objects changed in place.\<close>

lemma tin_ok_heaps:
  assumes "tin_ok ctx" and "\<And>i. deref (type_heap ctx) i \<noteq> None \<Longrightarrow> deref T i \<noteq> None"
    and "\<And>i. deref (fun_heap ctx) i \<noteq> None \<Longrightarrow> deref F i \<noteq> None"
  shows "tin_ok (ctx\<lparr>type_heap := T, fun_heap := F\<rparr>)"
proof -
  have "scope_alive ctx s \<Longrightarrow> scope_alive (ctx\<lparr>type_heap := T, fun_heap := F\<rparr>) s" for s
    using assms(2,3) by (simp add: scope_alive_def)
  moreover have "prims_alive ctx \<Longrightarrow> prims_alive (ctx\<lparr>type_heap := T, fun_heap := F\<rparr>)"
    using assms(2) by (fastforce simp: prims_alive_def)
  ultimately show ?thesis using assms(1) by (simp add: tin_ok_def all_alive_def scope_vars_def)
qed

lemma types_inner:
  assumes "tin_ok ctx" and "\<And>i. deref (type_heap ctx) i \<noteq> None \<Longrightarrow> deref T i \<noteq> None"
  shows "inner_post 0 ctx (ctx\<lparr>type_heap := T\<rparr>)"
proof -
  have "ctx\<lparr>type_heap := T\<rparr> = ctx\<lparr>type_heap := T, fun_heap := fun_heap ctx\<rparr>" by simp
  then have "tin_ok (ctx\<lparr>type_heap := T\<rparr>)" using tin_ok_heaps [OF assms, of "fun_heap ctx"] by simp
  then show ?thesis using assms(2) tin_ok_scopes [OF assms(1)] by (simp add: inner_post_def)
qed

lemma funs_inner:
  assumes "tin_ok ctx" and "\<And>i. deref (fun_heap ctx) i \<noteq> None \<Longrightarrow> deref F i \<noteq> None"
  shows "inner_post 0 ctx (ctx\<lparr>fun_heap := F\<rparr>)"
proof -
  have "ctx\<lparr>fun_heap := F\<rparr> = ctx\<lparr>type_heap := type_heap ctx, fun_heap := F\<rparr>" by simp
  then have "tin_ok (ctx\<lparr>fun_heap := F\<rparr>)" using tin_ok_heaps [OF assms(1) _ assms(2), of "type_heap ctx"] by simp
  then show ?thesis using assms(2) tin_ok_scopes [OF assms(1)] by (simp add: inner_post_def)
qed

lemma requestType_text:
  assumes "random_ok env" and "tin_ok ctx"
  obtains t s c where "requestType env ctx = Some (t, c)" "type_text t c = Some s" "writes ctx c"
proof -
  have "all_alive ctx" using assms(2) by (simp add: tin_ok_def)
  then obtain i c where r: "requestType env ctx = Some (plain_type (Some i), c)" "deref (type_heap ctx) i \<noteq> None" "writes ctx c"
    by (rule requestType_total [OF assms(1)])
  then have "deref (type_heap c) i \<noteq> None" using writes_fields [OF r(3)] by simp
  then show thesis using r(1,3) type_text_alive that by blast
qed

lemma gen_members_total:
  "random_ok env \<Longrightarrow> tin_ok ctx \<Longrightarrow> \<exists>ctx'. gen_members env ty j n ctx = Some ctx' \<and> inner_post 0 ctx ctx'"
proof (induction env ty j n ctx rule: gen_members.induct)
  case (1 env ty j ctx)
  then show ?case using writes_inner [OF writes_refl] by simp
next
  case (2 env ty j n ctx)
  let ?nm = "''mem'' @ to_string (int j)"
  obtain t s c1 where r: "requestType env ctx = Some (t, c1)" "type_text t c1 = Some s" "writes ctx c1"
    by (rule requestType_text [OF "2.prems"])
  let ?c2 = "out (?nm @ '': '' @ s @ '','' @ newline) (indent c1)"
  let ?T = "upd_heap ty (\<lambda>x. x\<lparr>ty_members := ty_members x @ [(?nm, t)]\<rparr>) (type_heap ?c2)"
  have p2: "inner_post 0 ctx ?c2"
    by (intro writes_inner [OF _ "2.prems"(2)] writes_trans [OF r(3)] writes_trans [OF writes_indent writes_out])
  have p3: "inner_post 0 ctx (?c2\<lparr>type_heap := ?T\<rparr>)"
    using inner_trans [OF p2 types_inner [OF inner_ok [OF p2], of ?T]] by (simp add: deref_upd_heap)
  obtain c4 where "gen_members env ty (Suc j) n (?c2\<lparr>type_heap := ?T\<rparr>) = Some c4" "inner_post 0 (?c2\<lparr>type_heap := ?T\<rparr>) c4"
    using "2.IH" [OF refl r(1) refl r(2) refl "2.prems"(1) inner_ok [OF p3]] by blast
  then show ?case using r(1,2) inner_trans [OF p3] by (simp add: Let_def)
qed

lemma upd_back_alive:
  assumes "tin_ok ctx" and "\<And>s. scope_alive ctx s \<Longrightarrow> scope_alive ctx (f s)"
    and "\<And>s. sc_variables (f s) = sc_variables s" "\<And>s. sc_shared (f s) = sc_shared s" "\<And>s. sc_types s \<noteq> [] \<Longrightarrow> sc_types (f s) \<noteq> []"
  shows "\<exists>ctx'. upd_back f ctx = Some ctx' \<and> declared_post 0 ctx ctx' \<and> fun_heap ctx' = fun_heap ctx"
proof -
  obtain ss s where ss: "tx_scopes ctx = ss @ [s]"
    using tin_ok_scopes [OF assms(1)] by (cases "tx_scopes ctx" rule: rev_cases) auto
  let ?c = "ctx\<lparr>tx_scopes := ss @ [f s]\<rparr>"
  have "scope_alive ?c x = scope_alive ctx x" for x by (simp add: scope_alive_def)
  then have "all_alive ?c" using assms(1,2,4,5) by (auto simp: tin_ok_def all_alive_def ss)
  then have "tin_ok ?c" using assms(1,3) by (simp add: tin_ok_def scope_vars_def prims_alive_def ss)
  then show ?thesis by (simp add: upd_back_def ss declared_post_def)
qed

lemma newType_ok:
  assumes "tin_ok ctx" and "newType nm ctx = (i, c)"
  shows "inner_post 0 ctx c \<and> deref (type_heap c) i \<noteq> None"
proof -
  let ?T = "type_heap ctx @ [Some \<lparr>ty_name = nm, ty_members = []\<rparr>]"
  have c: "c = ctx\<lparr>type_heap := ?T\<rparr>" "i = length (type_heap ctx)" using assms(2) by (simp_all add: newType_def)
  have "inner_post 0 ctx (ctx\<lparr>type_heap := ?T\<rparr>)"
    by (rule types_inner [OF assms(1)]) (simp add: deref_append)
  then show ?thesis by (simp add: c) (simp add: deref_def)
qed

lemma addType_ok:
  assumes "tin_ok ctx" and "deref (type_heap ctx) i \<noteq> None"
  shows "\<exists>ctx'. addType i ctx = Some ctx' \<and> declared_post 0 ctx ctx'"
  using upd_back_alive [OF assms(1), of "\<lambda>s. s\<lparr>sc_types := sc_types s @ [i]\<rparr>"] assms(2)
  by (auto simp: addType_def scope_alive_def)

lemma gen_struct_total:
  assumes "random_ok env" and "config_ok cfg" and "tin_ok ctx"
  shows "\<exists>ctx'. gen_struct env cfg ctx = Some ctx' \<and> declared_post 0 ctx ctx'"
proof -
  let ?nm = "''Type'' @ to_string (type_counter ctx)" and ?c = "ctx\<lparr>type_counter := type_counter ctx + 1\<rparr>"
  let ?start = "out (''struct '' @ ?nm @ '' {'' @ newline) ?c"
  have "tin_ok ?c" using assms(3) by (simp add: tin_ok_def all_alive_def scope_alive_def scope_vars_def prims_alive_def)
  then have "inner_post 0 ctx ?c" using tin_ok_scopes [OF assms(3)] by (simp add: inner_post_def)
  then have p0: "inner_post 0 ctx ?start" by (rule inner_writes [OF _ writes_out])
  obtain i c1 where n: "newType ?nm ?start = (i, c1)" by (cases "newType ?nm ?start")
  note c1 = newType_ok [OF inner_ok [OF p0] n]
  have p1: "inner_post 1 ctx (indent_by 1 c1)"
    using inner_trans [OF p0 inner_trans [OF conjunct1 [OF c1] indent_inner [OF inner_ok [OF conjunct1 [OF c1]], of 1]]] by simp
  obtain cnt c2 where c2: "frequency env (member_frequency cfg) (indent_by 1 c1) = Some (cnt, c2)" "writes (indent_by 1 c1) c2"
    by (rule frequency_total [OF assms(1) config_ranges [OF assms(2), of "member_frequency cfg"]]) auto
  have p2: "inner_post 1 ctx c2" by (rule inner_writes [OF p1 c2(2)])
  obtain c3 where c3: "gen_members env i 0 (nat cnt) c2 = Some c3" "inner_post 0 c2 c3"
    using gen_members_total [OF assms(1) inner_ok [OF p2]] by blast
  have p3: "inner_post 1 ctx c3" using inner_trans [OF p2 c3(2)] by simp
  have "deref (type_heap c3) i \<noteq> None"
    using c1 writes_fields [OF c2(2)] c3(2) by (simp add: inner_post_def indent_by_def)
  then obtain c4 where c4: "addType i c3 = Some c4" "declared_post 0 c3 c4" using addType_ok [OF inner_ok [OF p3]] by blast
  have p4: "declared_post 1 ctx c4" using file_trans [OF inner_file [OF p3 tin_ok_scopes [OF assms(3)]] c4(2)] by simp
  let ?c5 = "out (''}'' @ newline) (indent_by (- 1) c4)"
  have "declared_post (- 1) c4 ?c5"
    using inner_writes [OF indent_inner [OF file_ok [OF p4], of "- 1"] writes_out] tin_ok_scopes [OF file_ok [OF p4]]
    by (intro inner_file)
  then have "declared_post 0 ctx ?c5" using file_trans [OF p4, of "- 1"] by simp
  then show ?thesis using n c2(1) c3(1) c4(1) by (simp add: gen_struct_def Let_def)
qed

lemma gen_arguments_total:
  "random_ok env \<Longrightarrow> tin_ok ctx \<Longrightarrow> \<exists>ctx'. gen_arguments env f j n ctx = Some ctx' \<and> inner_post 0 ctx ctx'"
proof (induction env f j n ctx rule: gen_arguments.induct)
  case (1 env f j ctx)
  then show ?case using writes_inner [OF writes_refl] by simp
next
  case (2 env f j n ctx)
  let ?nm = "''arg'' @ to_string (int j)" and ?start = "if j \<noteq> 0 then out '', '' ctx else ctx"
  have w: "writes ctx ?start" by (simp add: writing)
  obtain t s c1 where r: "requestType env ?start = Some (t, c1)" "type_text t c1 = Some s" "writes ?start c1"
    by (rule requestType_text [OF "2.prems"(1) writes_ok [OF w "2.prems"(2)]])
  let ?d = "out (?nm @ '': '' @ s) c1"
  have p1: "inner_post 0 ctx ?d"
    by (intro writes_inner [OF _ "2.prems"(2)] writes_trans [OF w] writes_trans [OF r(3) writes_out])
  obtain c2 where c2: "addVar ?nm LOCAL_VAR t ?d = Some c2" "statement_post ?d c2"
    using addVar_ok [OF inner_ok [OF p1]] by blast
  have p2: "inner_post 0 ctx c2" using inner_trans [OF p1 statement_inner [OF c2(2)]] by simp
  let ?F = "upd_heap f (\<lambda>fu. fu\<lparr>fu_args := fu_args fu @ [(?nm, t)]\<rparr>) (fun_heap c2)"
  have p3: "inner_post 0 ctx (c2\<lparr>fun_heap := ?F\<rparr>)"
    using inner_trans [OF p2 funs_inner [OF inner_ok [OF p2], of ?F]] by (simp add: deref_upd_heap)
  obtain c4 where "gen_arguments env f (Suc j) n (c2\<lparr>fun_heap := ?F\<rparr>) = Some c4" "inner_post 0 (c2\<lparr>fun_heap := ?F\<rparr>) c4"
    using "2.IH" [OF refl r(1) refl r(2) c2(1) "2.prems"(1) inner_ok [OF p3]] by blast
  then show ?case using r(1,2) c2(1) inner_trans [OF p3] by (simp add: Let_def)
qed

lemma addFunc_ok:
  assumes "tin_ok ctx"
  shows "\<exists>f ctx'. addFunc nm ctx = Some (f, ctx') \<and> declared_post 0 ctx ctx' \<and> deref (fun_heap ctx') f \<noteq> None"
proof -
  let ?i = "length (fun_heap ctx)"
  let ?F = "fun_heap ctx @ [Some \<lparr>fu_name = nm, fu_args = [], fu_return = no_type\<rparr>]"
  have alive: "deref ?F ?i \<noteq> None" "\<And>i. deref (fun_heap ctx) i \<noteq> None \<Longrightarrow> deref ?F i \<noteq> None"
    by (simp_all add: deref_append) (simp add: deref_def)
  have p1: "inner_post 0 ctx (ctx\<lparr>fun_heap := ?F\<rparr>)" by (rule funs_inner [OF assms alive(2)])
  obtain c where c: "upd_back (\<lambda>s. s\<lparr>sc_functions := sc_functions s @ [?i]\<rparr>) (ctx\<lparr>fun_heap := ?F\<rparr>) = Some c"
      "declared_post 0 (ctx\<lparr>fun_heap := ?F\<rparr>) c" "fun_heap c = ?F"
    using upd_back_alive [OF inner_ok [OF p1], of "\<lambda>s. s\<lparr>sc_functions := sc_functions s @ [?i]\<rparr>"] alive(1)
    by (auto simp: scope_alive_def)
  have "addFunc nm ctx = Some (?i, c)"
    using c(1) tin_ok_scopes [OF assms] by (auto simp: addFunc_def upd_back_def Let_def)
  moreover have "declared_post 0 ctx c" using file_trans [OF inner_file [OF p1 tin_ok_scopes [OF assms]] c(2)] by simp
  ultimately show ?thesis using c(3) alive(1) by auto
qed

lemma requestPrimitive_text:
  assumes "random_ok env" and "tin_ok ctx"
  obtains t s c where "requestPrimitive env ctx = Some (t, c)" "type_text t c = Some s" "writes ctx c"
proof -
  obtain j c where j: "RandomInt env 0 3 ctx = Some (j, c)" "writes ctx c"
    by (rule RandomInt_total [OF assms(1), of 0 3 ctx]) simp_all
  have p: "prims_alive c" using writes_ok [OF j(2) assms(2)] by (simp add: tin_ok_def)
  then have "\<exists>s. type_text (plain_type (type_int c)) c = Some s" "\<exists>s. type_text (plain_type (type_float c)) c = Some s"
    "\<exists>s. type_text (plain_type (type_bool c)) c = Some s" "\<exists>s. type_text (plain_type (type_char c)) c = Some s"
    unfolding prims_alive_def using type_text_alive by (metis insertI1 insertI2)+
  then show thesis using that j by (simp add: requestPrimitive_def) (metis (full_types))
qed

lemma gen_function_total:
  assumes "random_ok env" and "config_ok cfg" and "tin_ok ctx" and "indent_level ctx = 0"
  shows "\<exists>ctx'. gen_function env cfg ctx = Some ctx' \<and> declared_post 0 ctx ctx'"
proof -
  let ?nm = "''Func'' @ to_string (fun_counter ctx)" and ?k = "ctx\<lparr>fun_counter := fun_counter ctx + 1\<rparr>"
  let ?start = "out (''fun '' @ ?nm @ ''('') ?k"
  have ne: "tx_scopes ctx \<noteq> []" using tin_ok_scopes [OF assms(3)] .
  have "tin_ok ?k" using assms(3) by (simp add: tin_ok_def all_alive_def scope_alive_def scope_vars_def prims_alive_def)
  then have "inner_post 0 ctx ?k" using ne by (simp add: inner_post_def)
  then have p: "inner_post 0 ctx ?start" by (rule inner_writes [OF _ writes_out])
  obtain f c1 where c1: "addFunc ?nm ?start = Some (f, c1)" "declared_post 0 ?start c1" "deref (fun_heap c1) f \<noteq> None"
    using addFunc_ok [OF inner_ok [OF p]] by blast
  have p1: "declared_post 0 ctx c1" using file_trans [OF inner_file [OF p ne] c1(2)] by simp
  have ok: "tin_ok (pushScope c1)" by (rule pushScope_ok [OF file_ok [OF p1]])
  obtain cnt c2 where c2: "frequency env (argument_frequency cfg) (pushScope c1) = Some (cnt, c2)" "writes (pushScope c1) c2"
    by (rule frequency_total [OF assms(1) config_ranges [OF assms(2), of "argument_frequency cfg"]]) auto
  have q2: "inner_post 0 (pushScope c1) c2" by (rule writes_inner [OF c2(2) ok])
  obtain c3 where c3: "gen_arguments env f 0 (nat cnt) c2 = Some c3" "inner_post 0 c2 c3"
    using gen_arguments_total [OF assms(1) inner_ok [OF q2]] by blast
  have q3: "inner_post 0 (pushScope c1) (out ('')'' @ '': '') c3)"
    using inner_writes [OF inner_trans [OF q2 c3(2)] writes_out] by simp
  obtain t s c4 where c4: "requestPrimitive env (out ('')'' @ '': '') c3) = Some (t, c4)" "type_text t c4 = Some s"
      "writes (out ('')'' @ '': '') c3) c4"
    by (rule requestPrimitive_text [OF assms(1) inner_ok [OF q3]])
  let ?F = "upd_heap f (\<lambda>fu. fu\<lparr>fu_return := t\<rparr>) (fun_heap c4)"
  let ?g = "c4\<lparr>fun_heap := ?F\<rparr>"
  have q4: "inner_post 0 (pushScope c1) c4" by (rule inner_writes [OF q3 c4(3)])
  have "inner_post 0 (pushScope c1) ?g"
    using inner_trans [OF q4 funs_inner [OF inner_ok [OF q4], of ?F]] by (simp add: deref_upd_heap)
  then have g: "inner_post 0 (pushScope c1) (out (s @ '' {'' @ newline) ?g)" by (rule inner_writes [OF _ writes_out])
  let ?c5 = "indent_by 1 (out (s @ '' {'' @ newline) ?g)"
  have q5: "inner_post 1 (pushScope c1) ?c5" using inner_trans [OF g indent_inner [OF inner_ok [OF g], of 1]] by simp
  let ?b = "?c5\<lparr>current_function := Some f\<rparr>"
  have q6: "inner_post 1 (pushScope c1) ?b"
    using inner_trans [OF q5 current_inner [OF inner_ok [OF q5]]] by simp
  have i: "indent_level c1 = 0" using p1 assms(4) by (simp add: declared_post_def)
  have "deref (fun_heap (pushScope c1)) f \<noteq> None" using c1(3) by (simp add: pushScope_def)
  then have "deref (fun_heap ?b) f \<noteq> None" using q6 unfolding inner_post_def by blast
  then have fa: "function_alive ?b" by (simp add: function_alive_def)
  have lv: "7 \<le> indent_level ?b + int block_levels"
    using q6 i by (simp add: inner_post_def block_levels_def pushScope_def)
  obtain c6 where c6: "genStatements block_levels env cfg True ?b = Some c6" "statement_post ?b c6"
    using statements_total(1) [OF assms(1,2) inner_ok [OF q6] fa lv] by (auto simp: block_levels_def)
  have q7: "inner_post 1 (pushScope c1) c6" using inner_trans [OF q6 statement_inner [OF c6(2)]] by simp
  then have "butlast (tx_scopes c6) = tx_scopes c1" "tx_scopes c6 \<noteq> []" "sc_types (last (tx_scopes c6)) = []"
      "sc_functions (last (tx_scopes c6)) = []" "kept_scopes c6 = kept_scopes c1"
    by (simp_all add: inner_post_def pushScope_def)
  then obtain z where z: "tx_scopes c6 = tx_scopes c1 @ [z]" "sc_types z = []" "sc_functions z = []" "kept_scopes c6 = kept_scopes c1"
    by (metis append_butlast_last_id)
  obtain c7 where c7: "popScope False c6 = Some c7" "tin_ok c7"
      "c7 = c6\<lparr>tx_scopes := tx_scopes c1, var_heap := delete_all (sc_variables z) (var_heap c6)\<rparr>"
    by (rule scope_popped [OF file_ok [OF p1] inner_ok [OF q7] z(4,1,2,3)])
  have "declared_post 1 c1 c7" using q7 c7(2,3) by (simp add: declared_post_def inner_post_def pushScope_def)
  then have p7: "declared_post 1 ctx c7" using file_trans [OF p1] by fastforce
  obtain c8 where c8: "genExpression env t 0 (out ''return '' (indent c7)) = Some c8" "writes c7 c8"
    using expression_line [OF assms(1) c7(2)] by blast
  let ?e = "out ('';'' @ newline) c8"
  have r: "inner_post 0 c7 ?e" by (rule writes_inner [OF writes_trans [OF c8(2) writes_out] c7(2)])
  have "inner_post (- 1) c7 (out (''}'' @ newline) (indent_by (- 1) ?e))"
    using inner_writes [OF inner_trans [OF r indent_inner [OF inner_ok [OF r], of "- 1"]] writes_out] by simp
  then have "declared_post 0 ctx (out (''}'' @ newline) (indent_by (- 1) ?e))"
    using file_trans [OF p7 inner_file [OF _ tin_ok_scopes [OF c7(2)]]] by fastforce
  then show ?thesis using c1(1) c2(1) c3(1) c4(1,2) c6(1) c7(1) c8(1) by (simp add: gen_function_def Let_def)
qed

lemma repeat_gen_total:
  assumes "\<And>c. tin_ok c \<Longrightarrow> indent_level c = 0 \<Longrightarrow> \<exists>c'. g c = Some c' \<and> declared_post 0 c c'"
  shows "tin_ok ctx \<Longrightarrow> indent_level ctx = 0 \<Longrightarrow> \<exists>ctx'. repeat_gen g n ctx = Some ctx' \<and> declared_post 0 ctx ctx'"
proof (induction n arbitrary: ctx)
  case 0
  then show ?case using inner_file [OF writes_inner [OF writes_refl] tin_ok_scopes] by simp
next
  case (Suc n)
  obtain c where c: "g ctx = Some c" "declared_post 0 ctx c" using assms [OF Suc.prems] by blast
  then have "indent_level c = 0" using Suc.prems(2) by (simp add: declared_post_def)
  then obtain c' where "repeat_gen g n c = Some c'" "declared_post 0 c c'" using Suc.IH [OF file_ok [OF c(2)]] by blast
  then show ?case using c(1) file_trans [OF c(2)] by fastforce
qed

lemma genProgram_rest:
  assumes env: "random_ok env" and cfg: "config_ok cfg"
    and prims: "gen_primitives ctx = Some c1" and ok: "tin_ok c1" and lv: "indent_level c1 = 0"
  shows "\<exists>ctx'. genProgram env cfg True ctx = Some ctx' \<and> declared_post 0 c1 ctx'"
proof -
  have post: "declared_post 0 a b" if "writes a b" "tin_ok a" for a b
    using inner_file [OF writes_inner tin_ok_scopes] that by blast
  obtain n c2 where c2: "frequency env (struct_frequency cfg) c1 = Some (n, c2)" "writes c1 c2"
    by (rule frequency_total [OF env config_ranges [OF cfg, of "struct_frequency cfg"]]) auto
  note p2 = post [OF c2(2) ok]
  have l2: "indent_level c2 = 0" using p2 lv by (simp add: declared_post_def)
  obtain c3 where c3: "repeat_gen (gen_struct env cfg) (nat n) c2 = Some c3" "declared_post 0 c2 c3"
    using repeat_gen_total [of "gen_struct env cfg" c2] gen_struct_total [OF env cfg] file_ok [OF p2] l2 by blast
  have p3: "declared_post 0 c1 c3" using file_trans [OF p2 c3(2)] by simp
  obtain m c4 where c4: "frequency env (function_frequency cfg) c3 = Some (m, c4)" "writes c3 c4"
    by (rule frequency_total [OF env config_ranges [OF cfg, of "function_frequency cfg"]]) auto
  have p4: "declared_post 0 c1 c4" using file_trans [OF p3 post [OF c4(2) file_ok [OF p3]]] by simp
  have l4: "indent_level c4 = 0" using p4 lv by (simp add: declared_post_def)
  obtain c5 where c5: "repeat_gen (gen_function env cfg) (nat m) c4 = Some c5" "declared_post 0 c4 c5"
    using repeat_gen_total [of "gen_function env cfg" c4] gen_function_total [OF env cfg] file_ok [OF p4] l4 by blast
  have "declared_post 0 c1 c5" using file_trans [OF p4 c5(2)] by simp
  then show ?thesis using prims c2(1) c3(1) c4(1) c5(1) by (simp add: genProgram_def)
qed

text \<open>Between two files there is no scope, and nothing that a kept scope lists is deleted.\<close>

definition idle :: "TinContext \<Rightarrow> bool" where
  "idle ctx \<longleftrightarrow> tx_scopes ctx = [] \<and> (\<forall>s\<in>set (kept_scopes ctx). scope_alive ctx s)
    \<and> distinct (concat (map sc_variables (kept_scopes ctx))) \<and> indent_level ctx = 0"

lemma primitives_ok:
  assumes "idle (ctx\<lparr>tx_scopes := []\<rparr>)" and "tx_scopes ctx = [\<lparr>sc_types = [], sc_functions = [], sc_variables = [], sc_shared = sh\<rparr>]"
    and "set sh \<subseteq> {..<length (kept_scopes ctx)}"
  shows "\<exists>c. gen_primitives ctx = Some c \<and> tin_ok c \<and> indent_level c = 0 \<and> kept_scopes c = kept_scopes ctx
    \<and> length (tx_scopes c) = 1 \<and> tx_output c = tx_output ctx"
proof -
  let ?n = "length (type_heap ctx)" and ?ty = "\<lambda>nm. Some \<lparr>ty_name = nm, ty_members = []\<rparr>"
  let ?T = "type_heap ctx @ [?ty ''int'', ?ty ''float'', ?ty ''char'', ?ty ''bool'']"
  let ?s = "\<lparr>sc_types = [?n, Suc ?n, Suc (Suc ?n), Suc (Suc (Suc ?n))], sc_functions = [], sc_variables = [], sc_shared = sh\<rparr>"
  let ?c = "ctx\<lparr>type_heap := ?T, tx_scopes := [?s], type_int := Some ?n, type_float := Some (Suc ?n),
      type_char := Some (Suc (Suc ?n)), type_bool := Some (Suc (Suc (Suc ?n)))\<rparr>"
  have g: "gen_primitives ctx = Some ?c"
    using assms(2) by (simp add: gen_primitives_def new_primitive_def newType_def addType_def upd_back_def Let_def)
  have new: "deref ?T ?n \<noteq> None" "deref ?T (Suc ?n) \<noteq> None" "deref ?T (Suc (Suc ?n)) \<noteq> None" "deref ?T (Suc (Suc (Suc ?n))) \<noteq> None"
    by (simp_all add: deref_def nth_append)
  have old: "scope_alive ?c s" if al: "scope_alive ctx s" for s
    using al deref_append [of "type_heap ctx"] unfolding scope_alive_def by simp
  have k: "\<forall>s\<in>set (kept_scopes ctx). scope_alive ctx s" "distinct (concat (map sc_variables (kept_scopes ctx)))" "indent_level ctx = 0"
    using assms(1) by (simp_all add: idle_def scope_alive_def)
  have "scope_alive ?c ?s" using new by (simp add: scope_alive_def)
  then have "all_alive ?c" using old k(1) assms(3) by (simp add: all_alive_def)
  moreover have "prims_alive ?c" using new by (simp add: prims_alive_def)
  moreover have "distinct (scope_vars ?c)" using k(2) by (simp add: scope_vars_def)
  ultimately show ?thesis using g k(3) by (simp add: tin_ok_def)
qed

lemma gen_imports_total:
  "random_ok env \<Longrightarrow> tx_scopes ctx = [s] \<Longrightarrow> m \<le> n \<Longrightarrow>
   \<exists>js sh d. gen_imports env n m ctx = Some (ctx\<lparr>tx_output := tx_output ctx @ concat (map import_line js),
       tx_scopes := [s\<lparr>sc_shared := sc_shared s @ sh\<rparr>], draws := d\<rparr>)
     \<and> sorted_wrt (<) js \<and> set js \<subseteq> {n - m..<n} \<and> set sh \<subseteq> {..<m}"
proof (induction env n m ctx arbitrary: s rule: gen_imports.induct)
  case (1 env n ctx)
  then show ?case by (intro exI [of _ "[]"] exI [of _ "draws ctx"]) simp
next
  case (2 env n m ctx)
  let ?j = "n - Suc m"
  obtain c d1 where c: "RandomInt env 0 1 ctx = Some (c, ctx\<lparr>draws := d1\<rparr>)"
    by (simp add: RandomInt_def)
  let ?d = "ctx\<lparr>draws := d1\<rparr>"
  have m: "m \<le> n" "?j < n" "n - 1 - ?j = m" using "2.prems"(3) by auto
  have range: "{n - m..<n} = {Suc ?j..<n}" "{?j..<n} = insert ?j {Suc ?j..<n}" using "2.prems"(3) by auto
  show ?case
  proof (cases "c = 0")
    case True
    let ?s = "s\<lparr>sc_shared := sc_shared s @ [m]\<rparr>"
    let ?e = "out (import_line ?j) (?d\<lparr>tx_scopes := [?s]\<rparr>)"
    have u: "upd_back (\<lambda>s. s\<lparr>sc_shared := sc_shared s @ [n - 1 - ?j]\<rparr>) ?d = Some (?d\<lparr>tx_scopes := [?s]\<rparr>)"
      using "2.prems"(2) m(3) by (simp add: upd_back_def)
    have "tx_scopes ?e = [?s]" by (simp add: out_def)
    from "2.IH"(1) [OF refl c refl True u "2.prems"(1) this m(1)]
    obtain js sh d where r: "gen_imports env n m ?e = Some (?e\<lparr>tx_output := tx_output ?e @ concat (map import_line js),
           tx_scopes := [?s\<lparr>sc_shared := sc_shared ?s @ sh\<rparr>], draws := d\<rparr>)"
        "sorted_wrt (<) js" "set js \<subseteq> {n - m..<n}" "set sh \<subseteq> {..<m}"
      by blast
    have "gen_imports env n (Suc m) ctx = Some (ctx\<lparr>tx_output := tx_output ctx @ concat (map import_line (?j # js)),
           tx_scopes := [s\<lparr>sc_shared := sc_shared s @ (m # sh)\<rparr>], draws := d\<rparr>)"
      using c True u r(1) by (simp add: Let_def) (simp add: out_def)
    moreover have "sorted_wrt (<) (?j # js)" "set (?j # js) \<subseteq> {?j..<n}" "set (m # sh) \<subseteq> {..<Suc m}"
      using r(2-4) range m(2) by (auto simp: subset_iff)
    ultimately show ?thesis by blast
  next
    case False
    have "tx_scopes ?d = [s]" using "2.prems"(2) by simp
    from "2.IH"(2) [OF refl c refl False "2.prems"(1) this m(1)]
    obtain js sh d where r: "gen_imports env n m ?d = Some (?d\<lparr>tx_output := tx_output ?d @ concat (map import_line js),
           tx_scopes := [s\<lparr>sc_shared := sc_shared s @ sh\<rparr>], draws := d\<rparr>)"
        "sorted_wrt (<) js" "set js \<subseteq> {n - m..<n}" "set sh \<subseteq> {..<m}"
      by blast
    have "gen_imports env n (Suc m) ctx = Some (ctx\<lparr>tx_output := tx_output ctx @ concat (map import_line js),
           tx_scopes := [s\<lparr>sc_shared := sc_shared s @ sh\<rparr>], draws := d\<rparr>)"
      using c False r(1) by (simp add: Let_def)
    moreover have "set js \<subseteq> {?j..<n}" "set sh \<subseteq> {..<Suc m}" using r(3,4) range by auto
    ultimately show ?thesis using r(2) by blast
  qed
qed

text \<open>The imports a file may have: the next file, and some of those after it.\<close>

definition imports_of :: "nat \<Rightarrow> nat \<Rightarrow> nat list \<Rightarrow> bool" where
  "imports_of n i js \<longleftrightarrow> sorted_wrt (<) js \<and> set js \<subseteq> {i<..<n} \<and> (Suc i < n \<longrightarrow> Suc i \<in> set js)"

lemma gen_file_total:
  assumes env: "random_ok env" and cfg: "config_ok cfg" and i: "i < n"
    and ctx: "idle ctx" "length (kept_scopes ctx) = n - Suc i"
  shows "\<exists>ctx' js w. gen_file env cfg n i ctx = Some ctx' \<and> idle ctx' \<and> length (kept_scopes ctx') = n - i
    \<and> imports_of n i js \<and> tx_output ctx' = concat (map import_line js) @ w"
proof -
  let ?e = "\<lparr>sc_types = [], sc_functions = [], sc_variables = [], sc_shared = []\<rparr>"
  let ?start = "pushScope (ctx\<lparr>tx_output := []\<rparr>)"
  let ?first = "if Suc i < n then [Suc i] else []"
  let ?c1 = "if i + 1 < n then out (import_line (i + 1)) ?start else ?start"
  have s1: "tx_scopes ?c1 = [?e]" "tx_output ?c1 = concat (map import_line ?first)" "kept_scopes ?c1 = kept_scopes ctx"
    "?c1\<lparr>tx_scopes := []\<rparr> = ctx\<lparr>tx_output := tx_output ?c1\<rparr>"
    using ctx(1) by (simp_all add: pushScope_def out_def idle_def)
  obtain js sh d where im: "gen_imports env n (n - (i + 2)) ?c1 = Some (?c1\<lparr>tx_output := tx_output ?c1 @ concat (map import_line js),
         tx_scopes := [?e\<lparr>sc_shared := sc_shared ?e @ sh\<rparr>], draws := d\<rparr>)"
      "sorted_wrt (<) js" "set js \<subseteq> {n - (n - (i + 2))..<n}" "set sh \<subseteq> {..<n - (i + 2)}"
    using gen_imports_total [OF env s1(1), of "n - (i + 2)" n] by auto
  let ?c2 = "?c1\<lparr>tx_output := tx_output ?c1 @ concat (map import_line js),
         tx_scopes := [?e\<lparr>sc_shared := sc_shared ?e @ sh\<rparr>], draws := d\<rparr>"
  have "idle (?c2\<lparr>tx_scopes := []\<rparr>)"
    using ctx(1) by (simp add: idle_def pushScope_def out_def scope_alive_def)
  moreover have "tx_scopes ?c2 = [\<lparr>sc_types = [], sc_functions = [], sc_variables = [], sc_shared = sh\<rparr>]" by simp
  moreover have "set sh \<subseteq> {..<length (kept_scopes ?c2)}" using im(4) ctx(2) s1(3) by auto
  ultimately obtain c3 where c3: "gen_primitives ?c2 = Some c3" "tin_ok c3" "indent_level c3 = 0"
      "kept_scopes c3 = kept_scopes ?c2" "length (tx_scopes c3) = 1" "tx_output c3 = tx_output ?c2"
    using primitives_ok by blast
  obtain c4 where c4: "genProgram env cfg True ?c2 = Some c4" "declared_post 0 c3 c4"
    using genProgram_rest [OF env cfg c3(1-3)] by blast
  have p: "tin_ok c4" "kept_scopes c4 = kept_scopes ctx" "indent_level c4 = 0" "length (tx_scopes c4) = 1"
    "\<exists>w. tx_output c4 = tx_output ?c2 @ w"
    using c4(2) c3(3-6) s1(3) by (simp_all add: declared_post_def)
  then obtain s where s: "tx_scopes c4 = [s]" by (cases "tx_scopes c4") auto
  let ?d = "c4\<lparr>tx_scopes := [], kept_scopes := kept_scopes c4 @ [s]\<rparr>"
  have pop: "popScope True c4 = Some ?d" using s by (simp add: popScope_def Let_def)
  have "idle ?d" using p(1,3) s
    by (auto simp: idle_def tin_ok_def all_alive_def scope_alive_def scope_vars_def)
  moreover have "length (kept_scopes ?d) = n - i" using p(2) ctx(2) i by simp
  moreover have "imports_of n i (?first @ js)"
    using im(2,3) by (auto simp: imports_of_def sorted_wrt_append subset_iff)
  moreover obtain w where "tx_output ?d = concat (map import_line (?first @ js)) @ w"
    using p(5) s1(2) by auto
  moreover have "gen_file env cfg n i ctx = Some ?d"
    using im(1) c4(1) pop by (simp add: gen_file_def Let_def)
  ultimately show ?thesis by blast
qed

lemma gen_files_total:
  assumes env: "random_ok env" and cfg: "config_ok cfg" and op: "\<forall>p. is_open p"
  shows "i \<le> n \<Longrightarrow> idle ctx \<Longrightarrow> length (kept_scopes ctx) = n - i \<Longrightarrow>
    \<exists>texts ctx'. gen_files env is_open cfg n i ctx = Some (map (\<lambda>j. (file_path j, texts j)) (rev [0..<i]), ctx')
      \<and> (\<forall>j<i. \<exists>js w. imports_of n j js \<and> texts j = concat (map import_line js) @ w)"
proof (induction i arbitrary: ctx)
  case 0
  then show ?case by simp
next
  case (Suc i)
  obtain c js w where c: "gen_file env cfg n i ctx = Some c" "idle c" "length (kept_scopes c) = n - i"
      "imports_of n i js" "tx_output c = concat (map import_line js) @ w"
    using gen_file_total [OF env cfg _ Suc.prems(2,3)] Suc.prems(1) by auto
  obtain texts c' where t: "gen_files env is_open cfg n i c = Some (map (\<lambda>j. (file_path j, texts j)) (rev [0..<i]), c')"
      "\<forall>j<i. \<exists>js w. imports_of n j js \<and> texts j = concat (map import_line js) @ w"
    using Suc.IH [OF _ c(2,3)] Suc.prems(1) by auto
  let ?t = "texts(i := tx_output c)"
  have "gen_files env is_open cfg n (Suc i) ctx = Some (map (\<lambda>j. (file_path j, ?t j)) (rev [0..<Suc i]), c')"
    using c(1) t(1) op by simp
  moreover have "\<forall>j<Suc i. \<exists>js w. imports_of n j js \<and> ?t j = concat (map import_line js) @ w"
    using t(2) c(4,5) by (auto simp: less_Suc_eq)
  ultimately show ?case by blast
qed

section \<open>Properties\<close>


text \<open>Two files, with the smallest number in every draw.\<close>

definition least_env :: random_env where
  "least_env = \<lparr>random_int = (\<lambda>n lo hi. lo), random_float = (\<lambda>n. 0), float_text = (\<lambda>x. ''0.5'')\<rparr>"

definition small_config :: TinConfig where
  "small_config =
    (let r = \<lparr>range_min = 1, range_max = 2\<rparr> in
     \<lparr>struct_frequency = r, member_frequency = r, function_frequency = r, argument_frequency = r,
      statement_frequency = r, file_count = \<lparr>range_min = 2, range_max = 2\<rparr>\<rparr>)"


end
