(* ===== verification/CommandLine.thy ===== *)
theory CommandLine
  imports LinkedCode TinGeneratorFiles VirtualMachine "HOL-Library.Multiset"
begin

text \<open>
  src/main.cpp, and \<^verbatim>\<open>CompileFile\<close> of src/Compiler.cpp with any number of threads: the options of
  the command line, what is generated, compiled and executed for them, and the benchmark.  The
  order in which the threads of a compilation take their steps is a list of thread numbers; the
  time a compilation takes is given.  What is printed and the check for lost memory are left out.
\<close>

section \<open>Options\<close>

record CompilerOptions =
  initial_file :: string
  run_program :: bool
  thread_count :: int
  silent :: bool

definition default_options :: CompilerOptions where
  "default_options = \<lparr>initial_file = [], run_program = False, thread_count = 16, silent = False\<rparr>"

text \<open>The variables of \<^verbatim>\<open>main\<close>.\<close>

record Arguments =
  options :: CompilerOptions
  dev_mode :: bool
  gen_code :: bool
  measure_mode :: bool

definition no_arguments :: Arguments where
  "no_arguments = \<lparr>options = default_options, dev_mode = False, gen_code = False, measure_mode = False\<rparr>"

definition upd_options :: "(CompilerOptions \<Rightarrow> CompilerOptions) \<Rightarrow> Arguments \<Rightarrow> Arguments" where
  "upd_options f a = a\<lparr>options := f (options a)\<rparr>"

text \<open>\<^verbatim>\<open>atoi\<close> of any text: spaces, a sign, digits; other numbers than those of an \<^verbatim>\<open>int\<close> are undefined.\<close>

definition is_space :: "char \<Rightarrow> bool" where
  "is_space c \<longleftrightarrow> c = CHR '' '' \<or> 9 \<le> (of_char c :: nat) \<and> (of_char c :: nat) \<le> 13"

definition atoi_text :: "lex_env \<Rightarrow> string \<Rightarrow> int" where
  "atoi_text env s =
    (let t = dropWhile is_space s;
         neg = (take 1 t = ''-'');
         digits = (if take 1 t \<in> {''-'', ''+''} then drop 1 t else t);
         v = (if neg then - int (digits_value digits) else int (digits_value digits))
     in if - (2 ^ 31) \<le> v \<and> v < 2 ^ 31 then v else sint (env_atoi_range env s))"

text \<open>Why \<^verbatim>\<open>main\<close> returns before it has read all arguments.\<close>

datatype MainStop = HelpShown | CountMissing string | UnexpectedOption string | FileMissing

fun parse_args :: "lex_env \<Rightarrow> string list \<Rightarrow> Arguments \<Rightarrow> MainStop + Arguments" where
  "parse_args env [] a = Inr a"
| "parse_args env (arg # rest) a =
    (if arg = ''-help'' \<or> arg = ''--help'' then Inl HelpShown
     else if arg = ''-dev'' then parse_args env rest (a\<lparr>dev_mode := True\<rparr>)
     else if arg = ''-run'' \<or> arg = ''-r'' then
       parse_args env rest (upd_options (\<lambda>p. p\<lparr>run_program := True\<rparr>) a)
     else if arg = ''-silent'' then parse_args env rest (upd_options (\<lambda>p. p\<lparr>silent := True\<rparr>) a)
     else if arg = ''-gen-code'' \<or> arg = ''-gc'' then parse_args env rest (a\<lparr>gen_code := True\<rparr>)
     else if arg = ''-measure'' then parse_args env rest (a\<lparr>measure_mode := True\<rparr>)
     else if arg = ''-t'' \<or> arg = ''-threads'' then
       (case rest of
          [] \<Rightarrow> Inl (CountMissing arg)
        | n # rest' \<Rightarrow>
            parse_args env rest' (upd_options (\<lambda>p. p\<lparr>thread_count := atoi_text env n\<rparr>) a))
     else if initial_file (options a) = [] then
       parse_args env rest (upd_options (\<lambda>p. p\<lparr>initial_file := arg\<rparr>) a)
     else Inl (UnexpectedOption arg))"

primrec exit_code_of :: "MainStop \<Rightarrow> int" where
  "exit_code_of HelpShown = 0"
| "exit_code_of (CountMissing a) = 0"
| "exit_code_of (UnexpectedOption a) = 1"
| "exit_code_of FileMissing = 1"

section \<open>A compilation by several threads\<close>

text \<open>
  The threads take their steps in the order of the list; a thread that cannot go on, and a step
  without a defined result, end the run with \<open>None\<close>.
\<close>

fun run_schedule ::
  "comp_env \<Rightarrow> nat list \<Rightarrow> Compiler \<times> Thread list \<Rightarrow> (Compiler \<times> Thread list) option" where
  "run_schedule env [] s = Some s"
| "run_schedule env (i # is) (c, ths) =
     (if i < length ths \<and> enabled c (ths ! i) then
        do {
          (c', th) \<leftarrow> thread_step env c (ths ! i);
          run_schedule env is (c', ths[i := th])
        }
      else None)"

definition has_exited :: "Thread \<Rightarrow> bool" where
  "has_exited th = (case th of Exited b \<Rightarrow> True | _ \<Rightarrow> False)"

text \<open>The thread that calls \<^verbatim>\<open>CompileFile\<close> works too, whatever the number.\<close>

definition start_threads :: "int \<Rightarrow> Thread list" where
  "start_threads n = replicate (nat (n - 1) + 1) Starting"

definition compile_threads ::
  "comp_env \<Rightarrow> nat list \<Rightarrow> CompilerOptions \<Rightarrow> (Bytecode \<times> AST) option option" where
  "compile_threads env is o1 =
    (if initial_file o1 = [] then Some None
     else do {
       c \<leftarrow> compile_init (initial_file o1);
       (c', ths) \<leftarrow> run_schedule env is (c, start_threads (thread_count o1));
       if list_all has_exited ths
       then Some (if comp_errors c' \<noteq> 0 then None else Some (comp_bytecode c', comp_ast c'))
       else None
     })"

section \<open>The program\<close>

text \<open>
  What \<^verbatim>\<open>main\<close> works with: the parameters of its parts, the order of the steps and the time of
  each compilation, a number of type \<open>'d\<close>, by the number of the compilation.
\<close>

record 'd main_env =
  me_compile :: comp_env
  me_random :: random_env
  me_open :: "string \<Rightarrow> bool"
  me_vm :: vm_env
  me_vm_files :: "(u8 list \<times> u8 list) list"
  me_junk :: "i64 \<Rightarrow> u8"
  me_schedule :: "nat \<Rightarrow> nat list"
  me_time :: "nat \<Rightarrow> 'd"

text \<open>Generated files replace those of the disk.\<close>

definition write_files :: "(string \<times> string) list \<Rightarrow> comp_env \<Rightarrow> comp_env" where
  "write_files fs env =
    env\<lparr>ce_files := (\<lambda>p. case map_of (rev fs) p of Some t \<Rightarrow> Some t | None \<Rightarrow> ce_files env p)\<rparr>"

definition run_bytecode :: "'d main_env \<Rightarrow> Bytecode \<times> AST \<Rightarrow> (vm_stop \<times> VM) option option" where
  "run_bytecode me r =
    execute (me_vm me) (\<lambda>f. piece_code_index (ast_functions (snd r) ! f)) (fst r) (me_vm_files me) (me_junk me)"

text \<open>
  \<^verbatim>\<open>CompileFile\<close>: whether it succeeds, the bytecode it hands over when it is asked for, and what
  it executed itself.  After that it returns a null pointer, which is \<open>False\<close>.
\<close>

record Compiled =
  success :: bool
  out_bytecode :: "(Bytecode \<times> AST) option"
  executed_there :: "(vm_stop \<times> VM) option option"

definition compile_options :: "'d main_env \<Rightarrow> comp_env \<Rightarrow> nat \<Rightarrow> bool \<Rightarrow> CompilerOptions \<Rightarrow> Compiled option" where
  "compile_options me env j hand_over o1 =
    do {
      r \<leftarrow> compile_threads env (me_schedule me j) o1;
      (case r of
         None \<Rightarrow> Some \<lparr>success = False, out_bytecode = None, executed_there = None\<rparr>
       | Some b \<Rightarrow>
           if run_program o1 \<and> \<not> hand_over then do {
             x \<leftarrow> run_bytecode me b;
             Some \<lparr>success = False, out_bytecode = None, executed_there = Some x\<rparr>
           }
           else Some \<lparr>success = True, out_bytecode = (if hand_over then Some b else None), executed_there = None\<rparr>)
    }"

text \<open>The settings of the generated programs.\<close>

definition main_config :: TinConfig where
  "main_config =
    \<lparr>struct_frequency = \<lparr>range_min = 2, range_max = 4\<rparr>, member_frequency = \<lparr>range_min = 5, range_max = 10\<rparr>,
     function_frequency = \<lparr>range_min = 6, range_max = 8\<rparr>, argument_frequency = \<lparr>range_min = 3, range_max = 5\<rparr>,
     statement_frequency = \<lparr>range_min = 15, range_max = 20\<rparr>, file_count = \<lparr>range_min = 80, range_max = 90\<rparr>\<rparr>"

subsection \<open>The benchmark\<close>

text \<open>The loops over the times of the runs, position by position.\<close>

definition swap_step :: "nat \<Rightarrow> 'a::linorder list \<Rightarrow> 'a list" where
  "swap_step j ts =
    (if ts ! j > ts ! (j + 1) then ts[j := ts ! (j + 1), j + 1 := ts ! j] else ts)"

definition swap_pass :: "'a::linorder list \<Rightarrow> 'a list" where
  "swap_pass ts = fold swap_step [0..<length ts - 1] ts"

definition sort_times :: "'a::linorder list \<Rightarrow> 'a list" where
  "sort_times ts = (swap_pass ^^ length ts) ts"

definition median_time :: "'a::linorder list \<Rightarrow> 'a" where
  "median_time ts = sort_times ts ! (length ts div 2)"

definition run_count :: nat where "run_count = 5"

record 'd MeasureData =
  data_threads :: int
  data_time :: 'd

definition Measure :: "'d::linorder main_env \<Rightarrow> CompilerOptions \<Rightarrow> 'd MeasureData option" where
  "Measure me user =
    (let o1 = default_options\<lparr>initial_file := ''generated/main.tin'', silent := silent user,
                thread_count := thread_count user\<rparr> in
     do {
       rs \<leftarrow> those (map (\<lambda>j. compile_options me (me_compile me) j False o1) [0..<run_count]);
       Some \<lparr>data_threads = thread_count o1,
             data_time = median_time (map (me_time me) [0..<length rs])\<rparr>
     })"

subsection \<open>The main function\<close>

record 'd MainResult =
  exit_code :: int
  written_files :: "(string \<times> string) list"
  compiled :: "Compiled option"
  executed :: "(vm_stop \<times> VM) option option"
  measured :: "'d MeasureData option"

definition main_stop :: "MainStop \<Rightarrow> 'd MainResult" where
  "main_stop s = \<lparr>exit_code = exit_code_of s, written_files = [], compiled = None, executed = None, measured = None\<rparr>"

definition main_compile :: "'d main_env \<Rightarrow> Arguments \<Rightarrow> 'd MainResult option" where
  "main_compile me a =
    (if initial_file (options a) = [] then Some (main_stop FileMissing)
     else do {
       fs \<leftarrow> (if gen_code a then GenerateTin (me_random me) (me_open me) main_config else Some []);
       r \<leftarrow> compile_options me (write_files fs (me_compile me)) 0 True (options a);
       x \<leftarrow> (case out_bytecode r of
               Some b \<Rightarrow> if success r \<and> run_program (options a) then map_option Some (run_bytecode me b) else Some None
             | None \<Rightarrow> Some None);
       Some \<lparr>exit_code = 0, written_files = fs, compiled = Some r, executed = x, measured = None\<rparr>
     })"

definition main_dev :: "'d main_env \<Rightarrow> Arguments \<Rightarrow> 'd MainResult option" where
  "main_dev me a =
    do {
      fs \<leftarrow> GenerateTin (me_random me) (me_open me) main_config;
      let o1 = (options a)\<lparr>initial_file := ''generated/main.tin''\<rparr>;
      let o2 = (if thread_count o1 = 0 then o1\<lparr>thread_count := 1\<rparr> else o1);
      r \<leftarrow> compile_options me (write_files fs (me_compile me)) 0 False o2;
      Some \<lparr>exit_code = 0, written_files = fs, compiled = Some r, executed = executed_there r, measured = None\<rparr>
    }"

text \<open>The arguments are those after the name of the program.\<close>

definition tin_main :: "'d::linorder main_env \<Rightarrow> string list \<Rightarrow> 'd MainResult option" where
  "tin_main me args =
    (if args = [] then Some (main_stop HelpShown)
     else
       (case parse_args (ce_lex (me_compile me)) args no_arguments of
          Inl s \<Rightarrow> Some (main_stop s)
        | Inr a \<Rightarrow>
            if measure_mode a then do {
              d \<leftarrow> Measure me (options a);
              Some \<lparr>exit_code = 0, written_files = [], compiled = None, executed = None, measured = Some d\<rparr>
            }
            else if \<not> dev_mode a then main_compile me a
            else main_dev me a))"

section \<open>Sorting the times\<close>

text \<open>The last \<open>k\<close> positions hold their final elements.\<close>

definition settled :: "nat \<Rightarrow> 'a::linorder list \<Rightarrow> bool" where
  "settled k ts \<longleftrightarrow> (\<forall>i j. i < j \<longrightarrow> j < length ts \<longrightarrow> length ts - k \<le> j \<longrightarrow> ts ! i \<le> ts ! j)"

lemma length_swap_step [simp]: "length (swap_step j ts) = length ts"
  by (simp add: swap_step_def)

lemma mset_swap_step: "j + 1 < length ts \<Longrightarrow> mset (swap_step j ts) = mset ts"
  using mset_swap [of "j + 1" ts j] by (simp add: swap_step_def)

lemma swap_step_keeps:
  assumes "settled k ts" "length ts - k \<le> j + 1" "j + 1 < length ts"
  shows "swap_step j ts = ts"
  using assms unfolding swap_step_def settled_def by (metis less_add_one linorder_not_le)

lemma swap_step_nth:
  assumes "j + 1 < length ts"
  shows "swap_step j ts ! j = min (ts ! j) (ts ! (j + 1))"
    and "swap_step j ts ! (j + 1) = max (ts ! j) (ts ! (j + 1))"
    and "i \<noteq> j \<Longrightarrow> i \<noteq> j + 1 \<Longrightarrow> swap_step j ts ! i = ts ! i"
  using assms by (auto simp: swap_step_def)

lemma settled_swap_step:
  assumes s: "settled k ts" and j: "j + 1 < length ts"
  shows "settled k (swap_step j ts)"
proof (cases "length ts - k \<le> j + 1")
  case True
  then show ?thesis using swap_step_keeps [OF s True j] s by simp
next
  case False
  show ?thesis unfolding settled_def
  proof (intro allI impI)
    fix a b assume ab: "a < b" "b < length (swap_step j ts)" "length (swap_step j ts) - k \<le> b"
    then have b: "swap_step j ts ! b = ts ! b" using False swap_step_nth(3) [OF j] by simp
    have le: "ts ! i \<le> ts ! b" if "i < b" for i using s ab that by (simp add: settled_def)
    have "j + 1 < b" using False ab by simp
    then have "ts ! j \<le> ts ! b" "ts ! (j + 1) \<le> ts ! b" using le by simp_all
    then show "swap_step j ts ! a \<le> swap_step j ts ! b"
      unfolding b using le [OF ab(1)] swap_step_nth [OF j] by (cases "a = j"; cases "a = j + 1") (auto simp: min_def)
  qed
qed

text \<open>The largest of the elements that are not settled moves on to the right.\<close>

lemma swap_pass_prefix:
  assumes "settled k ts" "m \<le> length ts - 1"
  shows "let u = fold swap_step [0..<m] ts; p = min m (length ts - k - 1) in
    length u = length ts \<and> mset u = mset ts \<and> settled k u \<and> (\<forall>i<p. u ! i \<le> u ! p)"
  using assms(2)
proof (induction m)
  case 0
  then show ?case using assms(1) by simp
next
  case (Suc m)
  let ?u = "fold swap_step [0..<m] ts" and ?p = "min m (length ts - k - 1)"
  have IH: "length ?u = length ts" "mset ?u = mset ts" "settled k ?u" "\<forall>i<?p. ?u ! i \<le> ?u ! ?p"
    using Suc.IH Suc.prems by (simp_all add: Let_def)
  have m: "m + 1 < length ?u" using Suc.prems IH(1) by simp
  have fold: "fold swap_step [0..<Suc m] ts = swap_step m ?u" by simp
  have keep: "length (swap_step m ?u) = length ts" "mset (swap_step m ?u) = mset ts" "settled k (swap_step m ?u)"
    using IH m mset_swap_step [OF m] settled_swap_step [OF IH(3) m] by simp_all
  have "\<forall>i<min (Suc m) (length ts - k - 1). swap_step m ?u ! i \<le> swap_step m ?u ! min (Suc m) (length ts - k - 1)"
  proof (cases "m < length ts - k - 1")
    case True
    then have p: "?p = m" "min (Suc m) (length ts - k - 1) = m + 1" by simp_all
    have le: "?u ! i \<le> ?u ! m" if "i < m" for i using IH(4) that unfolding p by blast
    show ?thesis unfolding p
    proof (intro allI impI)
      fix i assume "i < m + 1"
      then show "swap_step m ?u ! i \<le> swap_step m ?u ! (m + 1)"
        using swap_step_nth [OF m] le [of i] by (cases "i = m") (auto intro: max.coboundedI1)
    qed
  next
    case False
    then have "length ?u - k \<le> m + 1" using IH(1) by simp
    from swap_step_keeps [OF IH(3) this m] IH(4) False show ?thesis by simp
  qed
  then show ?case using keep unfolding fold Let_def by simp
qed

lemma swap_pass_settles:
  assumes "settled k ts"
  shows "mset (swap_pass ts) = mset ts" "settled (Suc k) (swap_pass ts)"
proof -
  let ?u = "swap_pass ts" and ?p = "length ts - k - 1"
  have u: "length ?u = length ts" "mset ?u = mset ts" "settled k ?u" "\<forall>i<?p. ?u ! i \<le> ?u ! ?p"
    using swap_pass_prefix [OF assms, of "length ts - 1"] by (simp_all add: Let_def swap_pass_def)
  show "mset ?u = mset ts" by (rule u(2))
  show "settled (Suc k) ?u" unfolding settled_def
  proof (intro allI impI)
    fix i j assume ij: "i < j" "j < length ?u" "length ?u - Suc k \<le> j"
    show "?u ! i \<le> ?u ! j"
    proof (cases "length ts - k \<le> j")
      case True then show ?thesis using u(1,3) ij by (simp add: settled_def)
    next
      case False
      then have "j = ?p" using ij u(1) by simp
      then show ?thesis using u(4) ij by blast
    qed
  qed
qed

lemma swap_passes: "mset ((swap_pass ^^ k) ts) = mset ts \<and> settled k ((swap_pass ^^ k) ts)"
  by (induction k) (simp add: settled_def, auto simp: swap_pass_settles)

lemma sort_times_eq: "sort_times ts = sort ts"
proof -
  have p: "mset (sort_times ts) = mset ts" "settled (length ts) (sort_times ts)"
    using swap_passes [of "length ts" ts] by (simp_all add: sort_times_def)
  then have "length (sort_times ts) = length ts" by (metis size_mset)
  then have "sorted (sort_times ts)" using p(2) by (simp add: settled_def sorted_iff_nth_mono_less)
  then show ?thesis using p(1) properties_for_sort by metis
qed

section \<open>One thread\<close>

lemma run_one_thread:
  "run_schedule env is (c, [th]) = Some (c', ths) \<Longrightarrow> list_all has_exited ths \<Longrightarrow>
   processTasks env c th = Some c'"
proof (induction "is" arbitrary: c th)
  case Nil
  then show ?case by (cases th) (auto simp: has_exited_def processTasks.simps [of env c'])
next
  case (Cons i "is")
  from Cons.prems(1) obtain d th' where d: "i = 0" "enabled c th" "thread_step env c th = Some (d, th')"
      "run_schedule env is (d, [th']) = Some (c', ths)"
    by (auto split: if_splits Option.bind_splits)
  from Cons.IH [OF d(4) Cons.prems(2)] d(2,3) show ?case
    by (cases th) (simp_all add: processTasks.simps [of env c] enabled_def)
qed

lemma one_thread_runs:
  "processTasks env c th = Some c' \<Longrightarrow>
   \<exists>is ths. run_schedule env is (c, [th]) = Some (c', ths) \<and> list_all has_exited ths"
proof (induction rule: processTasks.raw_induct [rotated, consumes 1, case_names step])
  case (step f env c th c')
  show ?case
  proof (cases "has_exited th")
    case True
    then have "run_schedule env [] (c, [th]) = Some (c', [th]) \<and> list_all has_exited [th]"
      using step.hyps by (auto simp: has_exited_def split: Thread.splits)
    then show ?thesis by blast
  next
    case False
    then obtain d th' where d: "enabled c th" "thread_step env c th = Some (d, th')" "f env d th' = Some c'"
      using step.hyps by (auto simp: has_exited_def split: Thread.splits if_splits Option.bind_splits)
    then obtain "is" ths where "run_schedule env is (d, [th']) = Some (c', ths)" "list_all has_exited ths"
      using step.IH by blast
    then have "run_schedule env (0 # is) (c, [th]) = Some (c', ths) \<and> list_all has_exited ths"
      using d by simp
    then show ?thesis by blast
  qed
qed

text \<open>Every order of steps is a compilation in the sense of the scheduler's properties.\<close>

lemma run_schedule_reachable:
  "run_schedule env is s = Some s' \<Longrightarrow> reachable env s \<Longrightarrow> reachable env s'"
proof (induction env "is" s rule: run_schedule.induct)
  case (2 env i "is" c ths)
  then obtain d th where d: "i < length ths" "enabled c (ths ! i)" "thread_step env c (ths ! i) = Some (d, th)"
      "run_schedule env is (d, ths[i := th]) = Some s'"
    by (auto split: if_splits Option.bind_splits)
  have "reachable env (d, ths[i := th])" using 2(3) step_thread [OF d(1-3)] by (rule reach_step)
  with 2(1) d show ?case by fastforce
qed simp

lemma compile_threads_links:
  assumes "compile_threads env is o1 = Some (Some (bc, a))"
  shows "pieces_ok bc \<and> wf_data bc \<and> (\<exists>linked. apply_relocations pci bc = Some linked
    \<and> list_all wf_piece (pieces linked))"
proof -
  obtain c c' ths where c: "compile_init (initial_file o1) = Some c"
      "run_schedule env is (c, start_threads (thread_count o1)) = Some (c', ths)" "bc = comp_bytecode c'"
    using assms by (auto simp: compile_threads_def split: if_splits Option.bind_splits)
  have "reachable env (c, start_threads (thread_count o1))"
    unfolding start_threads_def by (rule reach_init [OF c(1)]) simp
  from run_schedule_reachable [OF c(2) this] have "code_inv c'" using reachable_code_inv by force
  then show ?thesis using linked_ok [of bc pci] c(3)
    by (auto simp: code_inv_def list_all_iff)
qed

section \<open>Reading the arguments\<close>

lemma digits_of_nat:
  "list_all is_digit (nat_digits n) \<and> foldl (\<lambda>v c. 10 * v + (of_char c - 48)) 0 (nat_digits n) = n
   \<and> nat_digits n \<noteq> []"
proof (induction n rule: nat_digits.induct)
  case (1 n)
  have d: "is_digit (char_of (k + 48))" "(of_char (char_of (k + 48) :: char) :: nat) = k + 48" if "k < 10" for k :: nat
    using that by (simp_all add: is_digit_def)
  show ?case
  proof (cases "n < 10")
    case True then show ?thesis using d [of n] by (simp add: nat_digits.simps [of n])
  next
    case False
    then show ?thesis using 1 d [of "n mod 10"] by (simp add: nat_digits.simps [of n])
  qed
qed

lemma digits_value_of_nat: "digits_value (nat_digits n) = n"
proof -
  have "takeWhile is_digit (nat_digits n) = nat_digits n"
    using digits_of_nat [of n] by (simp add: list_all_iff takeWhile_eq_all_conv)
  from this show ?thesis unfolding digits_value_def using digits_of_nat [of n] by presburger
qed

lemma atoi_int_to_string:
  assumes "- (2 ^ 31) \<le> n" "n < 2 ^ 31"
  shows "atoi_text env (int_to_string n) = n"
proof -
  obtain c cs where c: "nat_digits (nat \<bar>n\<bar>) = c # cs" "is_digit c"
    using digits_of_nat [of "nat \<bar>n\<bar>"] by (cases "nat_digits (nat \<bar>n\<bar>)") auto
  have v: "digits_value (c # cs) = nat \<bar>n\<bar>" using digits_value_of_nat [of "nat \<bar>n\<bar>"] c(1) by simp
  have ne: "\<not> is_space c" "c \<noteq> CHR ''-''" "c \<noteq> CHR ''+''"
    using c(2) by (auto simp: is_space_def is_digit_def)
  show ?thesis
  proof (cases "n < 0")
    case True
    then have s: "int_to_string n = CHR ''-'' # c # cs" using c(1) by (simp add: int_to_string_def)
    have "\<not> is_space CHR ''-''" by (simp add: is_space_def)
    then show ?thesis using assms True v by (simp add: atoi_text_def s Let_def)
  next
    case False
    then have s: "int_to_string n = c # cs" using c(1) by (simp add: int_to_string_def)
    show ?thesis using assms False v ne by (simp add: atoi_text_def s Let_def)
  qed
qed

text \<open>The options as they are written, and what each of them sets.\<close>

datatype Setting = SetDev | SetRun | SetSilent | SetGen | SetMeasure | SetThreads int | SetFile string

primrec words_of :: "Setting \<Rightarrow> string list" where
  "words_of SetDev = [''-dev'']"
| "words_of SetRun = [''-run'']"
| "words_of SetSilent = [''-silent'']"
| "words_of SetGen = [''-gen-code'']"
| "words_of SetMeasure = [''-measure'']"
| "words_of (SetThreads n) = [''-threads'', int_to_string n]"
| "words_of (SetFile f) = [f]"

primrec effect :: "Setting \<Rightarrow> Arguments \<Rightarrow> Arguments" where
  "effect SetDev a = a\<lparr>dev_mode := True\<rparr>"
| "effect SetRun a = upd_options (\<lambda>p. p\<lparr>run_program := True\<rparr>) a"
| "effect SetSilent a = upd_options (\<lambda>p. p\<lparr>silent := True\<rparr>) a"
| "effect SetGen a = a\<lparr>gen_code := True\<rparr>"
| "effect SetMeasure a = a\<lparr>measure_mode := True\<rparr>"
| "effect (SetThreads n) a = upd_options (\<lambda>p. p\<lparr>thread_count := n\<rparr>) a"
| "effect (SetFile f) a = upd_options (\<lambda>p. p\<lparr>initial_file := f\<rparr>) a"

definition option_words :: "string list" where
  "option_words = [''-help'', ''--help'', ''-dev'', ''-run'', ''-r'', ''-silent'', ''-gen-code'', ''-gc'',
     ''-measure'', ''-t'', ''-threads'']"

primrec writable :: "Setting \<Rightarrow> bool" where
  "writable SetDev = True" | "writable SetRun = True" | "writable SetSilent = True"
| "writable SetGen = True" | "writable SetMeasure = True"
| "writable (SetThreads n) = (- (2 ^ 31) \<le> n \<and> n < 2 ^ 31)"
| "writable (SetFile f) = (f \<noteq> [] \<and> f \<notin> set option_words)"

primrec is_file :: "Setting \<Rightarrow> bool" where
  "is_file SetDev = False" | "is_file SetRun = False" | "is_file SetSilent = False"
| "is_file SetGen = False" | "is_file SetMeasure = False"
| "is_file (SetThreads n) = False" | "is_file (SetFile f) = True"

lemma parse_setting:
  assumes "writable x" "is_file x \<Longrightarrow> initial_file (options a) = []"
  shows "parse_args env (words_of x @ rest) a = parse_args env rest (effect x a)"
proof (cases x)
  case (SetThreads n)
  then show ?thesis using assms(1) atoi_int_to_string [of n env] by simp
next
  case (SetFile f)
  then show ?thesis using assms by (simp add: option_words_def)
qed simp_all

lemma file_of_effect:
  "\<not> is_file x \<Longrightarrow> initial_file (options (effect x a)) = initial_file (options a)"
  by (cases x) (simp_all add: upd_options_def)

lemma parse_settings:
  "list_all writable xs \<Longrightarrow> length (filter is_file xs) \<le> 1 \<Longrightarrow>
   (filter is_file xs \<noteq> [] \<Longrightarrow> initial_file (options a) = []) \<Longrightarrow>
   parse_args env (concat (map words_of xs)) a = Inr (fold effect xs a)"
proof (induction xs arbitrary: a)
  case (Cons x xs)
  have "parse_args env (concat (map words_of xs)) (effect x a) = Inr (fold effect xs (effect x a))"
    by (rule Cons.IH) (use Cons.prems file_of_effect [of x a] in \<open>auto split: if_splits\<close>)
  then show ?case using parse_setting [of x a] Cons.prems by (auto split: if_splits)
qed simp

lemma fold_effect:
  "dev_mode (fold effect xs a) = (dev_mode a \<or> SetDev \<in> set xs)"
  "gen_code (fold effect xs a) = (gen_code a \<or> SetGen \<in> set xs)"
  "measure_mode (fold effect xs a) = (measure_mode a \<or> SetMeasure \<in> set xs)"
  "run_program (options (fold effect xs a)) = (run_program (options a) \<or> SetRun \<in> set xs)"
  "silent (options (fold effect xs a)) = (silent (options a) \<or> SetSilent \<in> set xs)"
proof (induction xs arbitrary: a)
  case (Cons x xs)
  { case 1 show ?case using Cons(1) by (cases x) (auto simp: upd_options_def) }
  { case 2 show ?case using Cons(2) by (cases x) (auto simp: upd_options_def) }
  { case 3 show ?case using Cons(3) by (cases x) (auto simp: upd_options_def) }
  { case 4 show ?case using Cons(4) by (cases x) (auto simp: upd_options_def) }
  { case 5 show ?case using Cons(5) by (cases x) (auto simp: upd_options_def) }
qed simp_all

text \<open>Of several numbers of threads the last one counts, and there is at most one file.\<close>

lemma fold_effect_threads:
  "thread_count (options (fold effect xs a)) =
    last (thread_count (options a) # [n. SetThreads n \<leftarrow> xs])"
proof (induction xs arbitrary: a)
  case (Cons x xs)
  then show ?case by (cases x) (auto simp: upd_options_def)
qed simp

lemma fold_effect_file:
  "initial_file (options (fold effect xs a)) = last (initial_file (options a) # [f. SetFile f \<leftarrow> xs])"
proof (induction xs arbitrary: a)
  case (Cons x xs)
  then show ?case by (cases x) (auto simp: upd_options_def)
qed simp

section \<open>Properties\<close>



text \<open>
  C39. The options may stand in any order: when the command line is made of options, of at most
  one file that is no option word, and of thread counts that fit an \<^verbatim>\<open>int\<close>, all of it is
  accepted, each switch is on exactly when its option is there, the file is the one given, and of
  the thread counts the last one holds.
\<close>

theorem arguments_any_order:
  assumes "list_all writable xs" and "length (filter is_file xs) \<le> 1"
  shows "\<exists>a. parse_args env (concat (map words_of xs)) no_arguments = Inr a
    \<and> dev_mode a = (SetDev \<in> set xs) \<and> gen_code a = (SetGen \<in> set xs)
    \<and> measure_mode a = (SetMeasure \<in> set xs) \<and> run_program (options a) = (SetRun \<in> set xs)
    \<and> silent (options a) = (SetSilent \<in> set xs)
    \<and> initial_file (options a) = last ([] # [f. SetFile f \<leftarrow> xs])
    \<and> thread_count (options a) = last (16 # [n. SetThreads n \<leftarrow> xs])"
  using parse_settings [OF assms, of no_arguments]
  by (simp add: fold_effect fold_effect_file fold_effect_threads no_arguments_def default_options_def)

theorem arguments_any_order_witness:
  "\<exists>a. parse_args plain_env [''-run'', ''-threads'', ''4'', ''a.tin'', ''-silent''] no_arguments = Inr a
    \<and> run_program (options a) \<and> \<not> dev_mode a \<and> initial_file (options a) = ''a.tin'' \<and> thread_count (options a) = 4"
proof -
  let ?xs = "[SetRun, SetThreads 4, SetFile ''a.tin'', SetSilent]"
  have w: "concat (map words_of ?xs) = [''-run'', ''-threads'', ''4'', ''a.tin'', ''-silent'']"
    by code_simp
  show ?thesis
    using arguments_any_order [of ?xs plain_env] unfolding w
    by (auto simp: option_words_def simp del: parse_args.simps)
qed

lemma sorted_around:
  assumes "sorted s" "m < length s"
  shows "length (filter (\<lambda>t. t < s ! m) s) \<le> m" "length (filter (\<lambda>t. s ! m < t) s) \<le> length s - Suc m"
proof -
  have "filter (\<lambda>t. t < s ! m) (drop m s) = []"
    using assms by (auto simp: filter_empty_conv in_set_conv_nth sorted_iff_nth_mono not_less)
  then have "filter (\<lambda>t. t < s ! m) s = filter (\<lambda>t. t < s ! m) (take m s)"
    using filter_append [of "\<lambda>t. t < s ! m" "take m s" "drop m s"] by simp
  then show "length (filter (\<lambda>t. t < s ! m) s) \<le> m"
    using length_filter_le [of "\<lambda>t. t < s ! m" "take m s"] assms(2) by simp
  have "filter (\<lambda>t. s ! m < t) (take (Suc m) s) = []"
    using assms by (auto simp: filter_empty_conv in_set_conv_nth sorted_iff_nth_mono not_less)
  then have "filter (\<lambda>t. s ! m < t) s = filter (\<lambda>t. s ! m < t) (drop (Suc m) s)"
    using filter_append [of "\<lambda>t. s ! m < t" "take (Suc m) s" "drop (Suc m) s"] by simp
  then show "length (filter (\<lambda>t. s ! m < t) s) \<le> length s - Suc m"
    using length_filter_le [of "\<lambda>t. s ! m < t" "drop (Suc m) s"] by simp
qed

lemma filter_sort_length: "length (filter P (sort ts)) = card {j. j < length ts \<and> P (ts ! j)}"
  by (metis length_filter_conv_card mset_filter mset_sort size_mset)

text \<open>
  C40. The benchmark reports the median: its loops sort the times, whatever they are, and the
  time it takes from the middle is that of one of the five runs, with at most two runs that are
  faster and at most two that are slower.
\<close>

theorem measured_median:
  "sort_times ts = sort ts
   \<and> (let m = median_time (map time [0..<run_count]) in
        m \<in> time ` {..<run_count} \<and> card {j. j < run_count \<and> time j < m} \<le> 2
        \<and> card {j. j < run_count \<and> m < time j} \<le> 2)"
proof -
  let ?ts = "map time [0..<run_count]"
  have m: "median_time ?ts = sort ?ts ! 2" by (simp add: median_time_def sort_times_eq run_count_def)
  have l: "2 < length (sort ?ts)" by (simp add: run_count_def)
  have c: "card {j. j < run_count \<and> P (time j)} = length (filter P (sort ?ts))" for P
    unfolding filter_sort_length by (rule arg_cong [of _ _ card]) auto
  have "sort ?ts ! 2 \<in> time ` {..<run_count}" using nth_mem [OF l] by (auto simp: atLeast0LessThan)
  then show ?thesis
    using sorted_around [OF sorted_sort l] c [of "\<lambda>t. t < sort ?ts ! 2"] c [of "\<lambda>t. sort ?ts ! 2 < t"]
    unfolding Let_def m by (simp add: sort_times_eq run_count_def)
qed

text \<open>Whether the compilation succeeded does not show in the exit code.\<close>

lemma exit_code_of_compilation: "main_compile me a = Some r \<Longrightarrow> compiled r \<noteq> None \<Longrightarrow> exit_code r = 0"
  by (auto simp: main_compile_def main_stop_def split: if_splits Option.bind_splits)

end
