(* ===== verification/ParserTables.thy ===== *)
theory ParserTables
  imports ParserTotal GeneratorTypes
begin

text \<open>
  What parsing does to the tables, whatever the tokens are and whether or not it ends in a
  report: expressions and statements change nothing but the position and the errors
  (\<^verbatim>\<open>leaves\<close>), bodies append empty scopes (\<^verbatim>\<open>tables_grow\<close>), and a file appends its functions and
  structures, with their numbers in its own scope and list (\<^verbatim>\<open>declares\<close>).
\<close>

section \<open>What parsing leaves alone\<close>

definition same_tables :: "ParseContext \<Rightarrow> ParseContext \<Rightarrow> bool" where
  "same_tables c c' \<longleftrightarrow> ast c' = ast c \<and> current_scopeId c' = current_scopeId c"

lemma same_tables_simps [simp]:
  "same_tables c c" "same_tables c (advance k c') = same_tables c c'" "same_tables c (report c') = same_tables c c'"
  "same_tables c (c'\<lparr>head := h\<rparr>) = same_tables c c'"
  by (simp_all add: same_tables_def advance_def report_def)

lemma same_tables_trans: "same_tables a b \<Longrightarrow> same_tables b c \<Longrightarrow> same_tables a c"
  by (simp add: same_tables_def)

definition leaves :: "ParseContext \<Rightarrow> ('a \<times> ParseContext) option \<Rightarrow> bool" where
  "leaves c r \<longleftrightarrow> (\<forall>x c'. r = Some (x, c') \<longrightarrow> same_tables c c')"

lemma leaves_None: "leaves c None"
  by (simp add: leaves_def)

lemma leaves_Some: "same_tables c c' \<Longrightarrow> leaves c (Some (x, c'))"
  by (simp add: leaves_def)

lemma leaves_bind: "(\<And>y. leaves c (k y)) \<Longrightarrow> leaves c (m \<bind> k)"
  by (cases m) (simp_all add: leaves_None)

lemma leaves_pair:
  "leaves c m \<Longrightarrow> (\<And>x c1. same_tables c c1 \<Longrightarrow> leaves c (k x c1)) \<Longrightarrow> leaves c (m \<bind> (\<lambda>(x, c1). k x c1))"
  by (cases m) (auto simp: leaves_def)

lemma leaves_cases:
  "leaves c r1 \<Longrightarrow> leaves c r2 \<Longrightarrow> leaves c (if b then r1 else r2)"
  "leaves c r1 \<Longrightarrow> (\<And>y. leaves c (f y)) \<Longrightarrow> leaves c (case opt of None \<Rightarrow> r1 | Some y \<Rightarrow> f y)"
  "leaves c r1 \<Longrightarrow> (\<And>y ys. leaves c (g y ys)) \<Longrightarrow> leaves c (case xs of [] \<Rightarrow> r1 | y # ys \<Rightarrow> g y ys)"
  "(\<And>x y. leaves c (h x y)) \<Longrightarrow> leaves c (case p of (x, y) \<Rightarrow> h x y)"
  by (cases b, simp_all) (cases opt, simp_all, cases xs, simp_all, cases p, simp)

lemma leaves_sub: "leaves c1 r \<Longrightarrow> same_tables c c1 \<Longrightarrow> leaves c r"
  unfolding leaves_def using same_tables_trans by blast

lemma parseType_leaves: "leaves c (parseType ts c)"
  unfolding parseType_def Let_def by (auto simp: leaves_def split: Option.bind_splits prod.splits)

lemma expression_leaves:
  "leaves c (expr_loop n junk ts st c) \<and> leaves c (args_loop n junk ts es c)"
proof (induction n arbitrary: st es c)
  case (Suc n)
  have e: "leaves c (expr_loop n junk ts st c1)" if "same_tables c c1" for st c c1
    using Suc leaves_sub that by blast
  have a: "leaves c (args_loop n junk ts es c1)" if "same_tables c c1" for es c c1
    using Suc leaves_sub that by blast
  have t: "leaves c (parseType ts c1)" if "same_tables c c1" for c c1
    using parseType_leaves leaves_sub that by blast
  have "leaves c (expr_loop (Suc n) junk ts st c)"
    unfolding expr_loop.simps(2) Let_def
    by (rule leaves_pair leaves_bind leaves_cases leaves_None leaves_Some e a t | simp)+
  moreover have "leaves c (args_loop (Suc n) junk ts es c)"
    unfolding args_loop.simps(2) Let_def
    by (rule leaves_pair leaves_bind leaves_cases leaves_None leaves_Some e a t | simp)+
  ultimately show ?case by simp
qed (simp add: leaves_None)

lemma parseExpression_leaves: "leaves c (parseExpression n junk ts c)"
  using expression_leaves by (simp add: parseExpression_def)

lemma parseDeclaration_leaves: "leaves c (parseDeclaration n junk ts g k c)"
proof -
  have e: "leaves c (parseExpression n junk ts c1)" if "same_tables c c1" for c c1
    using parseExpression_leaves leaves_sub that by blast
  have t: "leaves c (parseType ts c1)" if "same_tables c c1" for c c1
    using parseType_leaves leaves_sub that by blast
  show ?thesis unfolding parseDeclaration_def Let_def
    by (rule leaves_pair leaves_bind leaves_cases leaves_None leaves_Some e t | simp)+
qed

lemma semicolon_leaves: "same_tables c (snd r) \<Longrightarrow> leaves c (semicolon ts r)"
  by (cases r) (auto simp: semicolon_def leaves_def split: option.splits if_splits)

lemma declaration_leaves:
  assumes "same_tables c c1"
  shows "leaves c (do { r \<leftarrow> parseDeclaration n junk ts g k c1; semicolon ts r })"
proof (cases "parseDeclaration n junk ts g k c1")
  case (Some r)
  then have "same_tables c1 (snd r)" using parseDeclaration_leaves [of c1 n junk ts g k] by (cases r) (simp add: leaves_def)
  then show ?thesis using Some semicolon_leaves same_tables_trans [OF assms] by simp
qed (simp add: leaves_None)

lemma parse_simple_leaves: "leaves c (parse_simple n junk ts c)"
proof -
  have e: "leaves c (parseExpression n junk ts c1)" if "same_tables c c1" for c c1
    using parseExpression_leaves leaves_sub that by blast
  have s: "leaves c (semicolon ts (st, c1))" if "same_tables c c1" for c c1 st
    using semicolon_leaves [of c "(st, c1)" ts] that by simp
  have d: "leaves c (do { r \<leftarrow> parseDeclaration n junk ts g k c1; (st, c2) \<leftarrow> semicolon ts r; Some (f st, c2) })"
    if "same_tables c c1" for c c1 g k f
  proof -
    have "leaves c (do { (st, c2) \<leftarrow> do { r \<leftarrow> parseDeclaration n junk ts g k c1; semicolon ts r }; Some (f st, c2) })"
      by (rule leaves_pair [OF declaration_leaves [OF that]]) (rule leaves_Some)
    then show ?thesis by (simp add: bind_assoc)
  qed
  show ?thesis unfolding parse_simple_def Let_def
    by (rule d leaves_pair leaves_cases leaves_None leaves_Some e s | simp)+
qed

lemma param_loop_leaves: "leaves c (param_loop ts ps c)"
proof (induction ts ps c rule: param_loop.induct)
  case (1 ts ps c)
  have t: "leaves c (parseType ts c1)" if "same_tables c c1" for c c1
    using parseType_leaves leaves_sub that by blast
  show ?case
    using 1 t [of c "advance 2 c"]
    by (subst param_loop.simps) (auto simp: leaves_def split: option.splits prod.splits, (metis same_tables_trans same_tables_simps(2))+)
qed

lemma member_loop_leaves: "leaves c (member_loop ts ms c)"
proof (induction ts ms c rule: member_loop.induct)
  case (1 ts ms c)
  have t: "leaves c (parseType ts c1)" if "same_tables c c1" for c c1
    using parseType_leaves leaves_sub that by blast
  show ?case
    using 1 t [of c "advance 2 c"]
    by (subst member_loop.simps) (auto simp: leaves_def Let_def split: option.splits prod.splits, (metis same_tables_trans same_tables_simps(2))+)
qed

section \<open>What a body adds\<close>

text \<open>New scopes without names and functions.\<close>

definition fresh_scope :: "ScopeInfo \<Rightarrow> bool" where
  "fresh_scope sc \<longleftrightarrow> identifiers sc = Map.empty \<and> type_map sc = Map.empty \<and> scope_functions sc = []"

definition tables_grow :: "ParseContext \<Rightarrow> ParseContext \<Rightarrow> bool" where
  "tables_grow c c' \<longleftrightarrow> current_scopeId c' = current_scopeId c
    \<and> (\<exists>news. scopes (ast c') = scopes (ast c) @ news \<and> list_all fresh_scope news)
    \<and> typeInfos (ast c') = typeInfos (ast c) \<and> ast_functions (ast c') = ast_functions (ast c)
    \<and> ast_structures (ast c') = ast_structures (ast c) \<and> (wf_ctx c \<longrightarrow> wf_ctx c')"

lemma tables_grow_same: "same_tables c c' \<Longrightarrow> tables_grow c c'"
  by (simp add: tables_grow_def same_tables_def wf_ctx_def)

lemma tables_grow_trans: "tables_grow a b \<Longrightarrow> tables_grow b c \<Longrightarrow> tables_grow a c"
  unfolding tables_grow_def by (elim conjE exE) simp

lemma tables_grow_count: "tables_grow c c' \<Longrightarrow> scope_count c \<le> scope_count c'"
  by (auto simp: tables_grow_def scope_count_def)

lemma tables_grow_wf: "tables_grow c c' \<Longrightarrow> wf_ctx c \<Longrightarrow> wf_ctx c'"
  by (simp add: tables_grow_def)

text \<open>The result is right for all scope tables from the one at the end on.\<close>

definition grown :: "(nat \<Rightarrow> 'a \<Rightarrow> bool) \<Rightarrow> ParseContext \<Rightarrow> ('a option \<times> ParseContext) option \<Rightarrow> bool" where
  "grown fits c r \<longleftrightarrow> (\<forall>x c'. r = Some (x, c') \<longrightarrow> tables_grow c c'
    \<and> (\<forall>y n. x = Some y \<and> wf_ctx c \<and> scope_count c' \<le> n \<longrightarrow> fits n y))"

lemma grown_none: "grown fits c None" "tables_grow c c' \<Longrightarrow> grown fits c (Some (None, c'))"
  by (simp_all add: grown_def)

lemma grown_some:
  "tables_grow c c' \<Longrightarrow> (\<And>n. wf_ctx c \<Longrightarrow> scope_count c' \<le> n \<Longrightarrow> fits n y) \<Longrightarrow> grown fits c (Some (Some y, c'))"
  by (simp add: grown_def)

lemma grown_leaves: "leaves c r \<Longrightarrow> (\<And>n y. fits n y) \<Longrightarrow> grown fits c r"
  by (simp add: leaves_def grown_def tables_grow_same)

lemma grown_sub:
  assumes "grown fits c1 r" and "tables_grow c c1"
  shows "grown fits c r"
  unfolding grown_def
proof (intro allI impI)
  fix x c' assume r: "r = Some (x, c')"
  then have "tables_grow c1 c'" using assms(1) by (simp add: grown_def)
  with assms(2) have g: "tables_grow c c'" by (rule tables_grow_trans)
  have "fits n y" if "x = Some y" "wf_ctx c" "scope_count c' \<le> n" for y n
    using that r assms tables_grow_wf [OF assms(2)] by (simp add: grown_def)
  with g show "tables_grow c c' \<and> (\<forall>y n. x = Some y \<and> wf_ctx c \<and> scope_count c' \<le> n \<longrightarrow> fits n y)" by blast
qed

lemma grown_then:
  assumes "grown fits c1 m" and "tables_grow c c1"
    and "\<And>c2. tables_grow c c2 \<Longrightarrow> tables_grow c1 c2 \<Longrightarrow> grown fits' c (k None c2)"
    and "\<And>y c2. tables_grow c c2 \<Longrightarrow> tables_grow c1 c2 \<Longrightarrow> (\<And>n. wf_ctx c \<Longrightarrow> scope_count c2 \<le> n \<Longrightarrow> fits n y) \<Longrightarrow>
           grown fits' c (k (Some y) c2)"
  shows "grown fits' c (m \<bind> (\<lambda>(x, c2). k x c2))"
proof (cases m)
  case (Some r)
  obtain x c2 where x: "m = Some (x, c2)" using Some by (cases r) simp
  have g: "tables_grow c1 c2" "tables_grow c c2" using assms(1) x tables_grow_trans [OF assms(2)] by (simp_all add: grown_def)
  show ?thesis
  proof (cases x)
    case None
    then show ?thesis using assms(3) g x by simp
  next
    case y: (Some y)
    have "fits n y" if "wf_ctx c" "scope_count c2 \<le> n" for n
      using assms(1) x y that tables_grow_wf [OF assms(2)] by (simp add: grown_def)
    then show ?thesis using assms(4) g x y by simp
  qed
qed (simp add: grown_none)

lemma body_within_mono:
  "body_within n b \<Longrightarrow> n \<le> m \<Longrightarrow> body_within m b" "statement_within n s \<Longrightarrow> n \<le> m \<Longrightarrow> statement_within m s"
  by (induction n b and n s rule: body_within_statement_within.induct) auto

lemma set_location_within [simp]: "statement_within n (set_location l s) = statement_within n s"
  by (cases s) simp_all

definition statements_within :: "nat \<Rightarrow> ASTStatement list \<Rightarrow> bool" where
  "statements_within n ss \<longleftrightarrow> (\<forall>s\<in>set ss. statement_within n s)"

text \<open>A statement without bodies is within every table.\<close>

definition leaf :: "(ASTStatement option \<times> ParseContext) option \<Rightarrow> bool" where
  "leaf r \<longleftrightarrow> (\<forall>s c'. r = Some (Some s, c') \<longrightarrow> (\<forall>n. statement_within n s))"

lemma leaf_rules:
  "leaf None" "leaf (Some (None, c))" "(\<And>n. statement_within n s) \<Longrightarrow> leaf (Some (Some s, c))"
  "leaf r1 \<Longrightarrow> leaf r2 \<Longrightarrow> leaf (if b then r1 else r2)"
  "leaf r1 \<Longrightarrow> (\<And>y. leaf (f y)) \<Longrightarrow> leaf (case opt of None \<Rightarrow> r1 | Some y \<Rightarrow> f y)"
  "(\<And>x y. leaf (h x y)) \<Longrightarrow> leaf (case p of (x, y) \<Rightarrow> h x y)"
  "(\<And>y. leaf (k y)) \<Longrightarrow> leaf (m \<bind> k)"
  by (simp_all add: leaf_def split: option.split prod.split)
    (cases m; simp)

lemma semicolon_leaf: "(\<And>n. statement_within n s) \<Longrightarrow> leaf (semicolon ts (Some s, c))"
  by (simp add: semicolon_def leaf_def)

lemma declaration_leaf: "leaf (parseDeclaration n junk ts g k c)"
  unfolding parseDeclaration_def Let_def
  by (rule leaf_rules | simp add: make_declaration_def)+

lemma located_leaf:
  "leaf (do { r \<leftarrow> parseDeclaration n junk ts g k c; (s, c1) \<leftarrow> semicolon ts r; Some (map_option (set_location l) s, c1) })"
proof (cases "parseDeclaration n junk ts g k c")
  case (Some r)
  then show ?thesis using declaration_leaf [of n junk ts g k c]
    by (cases r) (auto simp: leaf_def semicolon_def split: option.splits if_splits)
qed (simp add: leaf_rules)

lemma parse_simple_grown: "grown statement_within c (parse_simple n junk ts c)"
proof -
  have "leaf (parse_simple n junk ts c)"
    unfolding parse_simple_def Let_def
    by (rule located_leaf semicolon_leaf leaf_rules | simp)+
  then show ?thesis
    using parse_simple_leaves [of c n junk ts] by (auto simp: grown_def leaves_def leaf_def intro: tables_grow_same)
qed

lemma tables_grow_body:
  assumes "createScope (current_scopeId c) (ast c) = Some (sid, a)"
    and "tables_grow (c\<lparr>ast := a, current_scopeId := sid\<rparr>) c2"
  shows "tables_grow c (c2\<lparr>current_scopeId := current_scopeId c\<rparr>)" "sid < scope_count c2"
proof -
  let ?c1 = "c\<lparr>ast := a, current_scopeId := sid\<rparr>"
  have s: "\<exists>sc. scopes a = scopes (ast c) @ [sc] \<and> fresh_scope sc" "sid = scope_count c"
    "typeInfos a = typeInfos (ast c)" "ast_functions a = ast_functions (ast c)" "ast_structures a = ast_structures (ast c)"
    using assms(1) by (auto simp: createScope_def Let_def fresh_scope_def scope_count_def split: if_splits)
  obtain news where news: "scopes (ast c2) = scopes a @ news" "list_all fresh_scope news"
    using assms(2) by (auto simp: tables_grow_def)
  then show "sid < scope_count c2" using s(1,2) by (auto simp: scope_count_def)
  have "wf_ctx (c2\<lparr>current_scopeId := current_scopeId c\<rparr>)" if "wf_ctx c"
  proof -
    have "wf_ctx c2" using wf_body_scope(5) [OF assms(1) that] assms(2) by (simp add: tables_grow_def)
    moreover have "current_scopeId c < length (scopes (ast c2))" using that s(1) news(1) by (auto simp: wf_ctx_def)
    ultimately show ?thesis by (simp add: wf_ctx_def)
  qed
  then show "tables_grow c (c2\<lparr>current_scopeId := current_scopeId c\<rparr>)"
    using assms(2) s news by (auto simp: tables_grow_def)
qed

text \<open>An expression before the rest.\<close>

lemma grown_expression:
  assumes "same_tables c c1"
    and "\<And>c2. tables_grow c c2 \<Longrightarrow> grown fits c (k None c2)" "\<And>e c2. tables_grow c c2 \<Longrightarrow> grown fits c (k (Some e) c2)"
  shows "grown fits c (parseExpression n junk ts c1 \<bind> (\<lambda>(x, c2). k x c2))"
  by (rule grown_then [where fits = "\<lambda>_ _. True" and ?c1.0 = c1])
    (use assms grown_leaves [OF parseExpression_leaves] tables_grow_same in auto)

lemma bodies_grow:
  "tables_grow d c \<Longrightarrow> (\<And>s m. s \<in> set ss \<Longrightarrow> wf_ctx d \<Longrightarrow> scope_count c \<le> m \<Longrightarrow> statement_within m s) \<Longrightarrow>
   grown statements_within d (body_loop n junk ts ss c)"
  "grown body_within c (parseBody n junk ts c)"
  "grown statement_within c (parseIf n junk ts c)"
  "grown statement_within c (parseWhile n junk ts c)"
proof (induction n arbitrary: d c ss)
  case (Suc n)
  {
    case 1
    note same = tables_grow_trans [OF "1"(1) tables_grow_same]
    show ?case
    proof (cases "kind_at ts c 0 = TOKEN_EOF \<or> kind_at ts c 0 = TOKEN_CHR CHR ''}''")
      case True
      then show ?thesis using "1"(2)
        by (auto simp: Let_def statements_within_def scope_count_def advance_def intro!: grown_none grown_some same)
    next
      case False
      let ?m = "if kind_at ts c 0 = TOKEN_IF then parseIf n junk ts c
           else if kind_at ts c 0 = TOKEN_WHILE then parseWhile n junk ts c else parse_simple n junk ts c"
      have m: "grown statement_within c ?m" using Suc(3,4) parse_simple_grown by simp
      have "grown statements_within d (do { (s, c1) \<leftarrow> ?m; (case s of None \<Rightarrow> Some (None, c1)
         | Some s' \<Rightarrow> body_loop n junk ts
               (ss @ [if kind_at ts c 0 = TOKEN_IF \<or> kind_at ts c 0 = TOKEN_WHILE then set_location (head c) s' else s']) c1) })"
      proof (rule grown_then [OF m "1"(1)])
        fix c2 assume "tables_grow d c2"
        then show "grown statements_within d (case None of None \<Rightarrow> Some (None, c2) | Some s' \<Rightarrow> body_loop n junk ts
               (ss @ [if kind_at ts c 0 = TOKEN_IF \<or> kind_at ts c 0 = TOKEN_WHILE then set_location (head c) s' else s']) c2)"
          by (simp add: grown_none)
      next
        fix y c2
        assume c2: "tables_grow d c2" "tables_grow c c2" and y: "\<And>n. wf_ctx d \<Longrightarrow> scope_count c2 \<le> n \<Longrightarrow> statement_within n y"
        have "scope_count c \<le> scope_count c2" by (rule tables_grow_count [OF c2(2)])
        then show "grown statements_within d (case Some y of None \<Rightarrow> Some (None, c2) | Some s' \<Rightarrow> body_loop n junk ts
               (ss @ [if kind_at ts c 0 = TOKEN_IF \<or> kind_at ts c 0 = TOKEN_WHILE then set_location (head c) s' else s']) c2)"
          unfolding option.case by (intro Suc(1) [OF c2(1)]) (use "1"(2) y in \<open>auto split: if_splits\<close>)
      qed
      then show ?thesis using False by (simp add: Let_def)
    qed
  next
    case (2 c)
    show ?case
    proof (cases "createScope (current_scopeId c) (ast c)")
      case (Some r)
      obtain sid a where s: "createScope (current_scopeId c) (ast c) = Some (sid, a)" using Some by (cases r) simp
      let ?c1 = "c\<lparr>ast := a, current_scopeId := sid\<rparr>"
      let ?m = "if kind_at ts ?c1 0 \<noteq> TOKEN_CHR CHR ''{'' then Some (None, report ?c1) else body_loop n junk ts [] (advance 1 ?c1)"
      have m: "grown statements_within ?c1 ?m"
        using Suc(1) [of ?c1 "advance 1 ?c1" "[]"] tables_grow_same [of ?c1 "advance 1 ?c1"]
        by (auto intro!: grown_none tables_grow_same)
      have "grown body_within c (do { (ss, c2) \<leftarrow> ?m; Some (map_option (ASTBody sid) ss, c2\<lparr>current_scopeId := current_scopeId c\<rparr>) })"
      proof (cases ?m)
        case (Some q)
        obtain x c2 where q: "?m = Some (x, c2)" using Some by (cases q) simp
        have g: "tables_grow ?c1 c2" "x = Some ss \<Longrightarrow> wf_ctx ?c1 \<Longrightarrow> scope_count c2 \<le> k \<Longrightarrow> statements_within k ss" for ss k
          using m unfolding q by (auto simp: grown_def)
        show ?thesis
          unfolding q using tables_grow_body [OF s g(1)] g(2) wf_body_scope(5) [OF s]
          by (auto simp: grown_def statements_within_def scope_count_def)
      qed (simp add: grown_none)
      then show ?thesis using s by (simp add: Let_def)
    qed (simp add: grown_none)
  next
    case (3 c)
    show ?case
      unfolding parseIf.simps(2)
    proof (rule grown_expression)
      show "same_tables c (advance 1 c)" by simp
    next
      fix e c2 assume c2: "tables_grow c c2"
      show "grown statement_within c (case Some e of None \<Rightarrow> Some (None, c2) | Some e' \<Rightarrow>
          do { (b, c3) \<leftarrow> parseBody n junk ts c2; (case b of None \<Rightarrow> Some (None, c3)
             | Some b' \<Rightarrow>
                 if kind_at ts c3 0 \<noteq> TOKEN_ELSE then Some (Some (SIf 0 e' b' None), c3)
                 else if kind_at ts c3 1 = TOKEN_IF then do {
                     (s, ctx3) \<leftarrow> parseIf n junk ts (advance 1 c3);
                     (case s of None \<Rightarrow> Some (None, ctx3)
                      | Some s' \<Rightarrow> Some (Some (SIf 0 e' b' (Some (ASTBody (current_scopeId ctx3) [s']))), ctx3)) }
                 else do { (b2, ctx3) \<leftarrow> parseBody n junk ts (advance 1 c3); Some (Some (SIf 0 e' b' b2), ctx3) }) })"
        unfolding option.case
      proof (rule grown_then [OF Suc(2) c2])
        fix c3 assume "tables_grow c c3"
        then show "grown statement_within c (case None of None \<Rightarrow> Some (None, c3)
             | Some b' \<Rightarrow>
                 if kind_at ts c3 0 \<noteq> TOKEN_ELSE then Some (Some (SIf 0 e b' None), c3)
                 else if kind_at ts c3 1 = TOKEN_IF then do {
                     (s, ctx3) \<leftarrow> parseIf n junk ts (advance 1 c3);
                     (case s of None \<Rightarrow> Some (None, ctx3)
                      | Some s' \<Rightarrow> Some (Some (SIf 0 e b' (Some (ASTBody (current_scopeId ctx3) [s']))), ctx3)) }
                 else do { (b2, ctx3) \<leftarrow> parseBody n junk ts (advance 1 c3); Some (Some (SIf 0 e b' b2), ctx3) })"
          by (simp add: grown_none)
      next
        fix b c3
        assume c3: "tables_grow c c3" and b: "\<And>n. wf_ctx c \<Longrightarrow> scope_count c3 \<le> n \<Longrightarrow> body_within n b"
        have a: "tables_grow c (advance 1 c3)" using tables_grow_trans [OF c3 tables_grow_same] by simp
        have count: "scope_count c3 \<le> scope_count c4" if "tables_grow (advance 1 c3) c4" for c4
          using tables_grow_count [OF that] by (simp add: scope_count_def advance_def)
        have elif: "grown statement_within c (do { (s, ctx3) \<leftarrow> parseIf n junk ts (advance 1 c3);
             (case s of None \<Rightarrow> Some (None, ctx3)
              | Some s' \<Rightarrow> Some (Some (SIf 0 e b (Some (ASTBody (current_scopeId ctx3) [s']))), ctx3)) })"
        proof (rule grown_then [OF Suc(3) a])
          fix y c4
          assume c4: "tables_grow c c4" "tables_grow (advance 1 c3) c4" and y: "\<And>n. wf_ctx c \<Longrightarrow> scope_count c4 \<le> n \<Longrightarrow> statement_within n y"
          have "current_scopeId c4 < scope_count c4" if "wf_ctx c"
            using tables_grow_wf [OF c4(1) that] by (simp add: wf_ctx_def scope_count_def)
          then show "grown statement_within c (case Some y of None \<Rightarrow> Some (None, c4)
              | Some s' \<Rightarrow> Some (Some (SIf 0 e b (Some (ASTBody (current_scopeId c4) [s']))), c4))"
            using b y count [OF c4(2)] c4(1) by (force intro!: grown_some)
        qed (simp add: grown_none)
        have els: "grown statement_within c (do { (b2, ctx3) \<leftarrow> parseBody n junk ts (advance 1 c3); Some (Some (SIf 0 e b b2), ctx3) })"
        proof (rule grown_then [OF Suc(2) a])
          fix c4 assume "tables_grow c c4" "tables_grow (advance 1 c3) c4"
          then show "grown statement_within c (Some (Some (SIf 0 e b None), c4))" using b count by (force intro!: grown_some)
        next
          fix y c4
          assume "tables_grow c c4" "tables_grow (advance 1 c3) c4" "\<And>n. wf_ctx c \<Longrightarrow> scope_count c4 \<le> n \<Longrightarrow> body_within n y"
          then show "grown statement_within c (Some (Some (SIf 0 e b (Some y)), c4))" using b count by (force intro!: grown_some)
        qed
        have none: "grown statement_within c (Some (Some (SIf 0 e b None), c3))" using b c3 by (auto intro!: grown_some)
        show "grown statement_within c (case Some b of None \<Rightarrow> Some (None, c3)
             | Some b' \<Rightarrow>
                 if kind_at ts c3 0 \<noteq> TOKEN_ELSE then Some (Some (SIf 0 e b' None), c3)
                 else if kind_at ts c3 1 = TOKEN_IF then do {
                     (s, ctx3) \<leftarrow> parseIf n junk ts (advance 1 c3);
                     (case s of None \<Rightarrow> Some (None, ctx3)
                      | Some s' \<Rightarrow> Some (Some (SIf 0 e b' (Some (ASTBody (current_scopeId ctx3) [s']))), ctx3)) }
                 else do { (b2, ctx3) \<leftarrow> parseBody n junk ts (advance 1 c3); Some (Some (SIf 0 e b' b2), ctx3) })"
          using elif els none by simp
      qed
    qed (simp add: grown_none)
  next
    case (4 c)
    show ?case
    proof (cases "kind_at ts c 0 = TOKEN_WHILE")
      case True
      have "grown statement_within c (do { (e, c1) \<leftarrow> parseExpression n junk ts (advance 1 c);
        (case e of None \<Rightarrow> Some (None, c1)
         | Some e' \<Rightarrow> do { (b, c2) \<leftarrow> parseBody n junk ts c1; Some (map_option (SWhile 0 e') b, c2) }) })"
      proof (rule grown_expression)
        fix e c2 assume c2: "tables_grow c c2"
        show "grown statement_within c (case Some e of None \<Rightarrow> Some (None, c2)
           | Some e' \<Rightarrow> do { (b, c3) \<leftarrow> parseBody n junk ts c2; Some (map_option (SWhile 0 e') b, c3) })"
          unfolding option.case
          by (rule grown_then [OF Suc(2) c2]) (auto intro!: grown_some grown_none)
      qed (simp_all add: grown_none)
      then show ?thesis using True by simp
    qed (auto intro!: grown_none tables_grow_same)
  }
qed (simp_all add: grown_none)

definition function_within :: "nat \<Rightarrow> ASTFunction \<Rightarrow> bool" where
  "function_within n fn \<longleftrightarrow> (\<forall>b. fn_body fn = Some b \<longrightarrow> body_within n b)"

lemma param_loop_void:
  "param_loop ts ps c = Some (Some ps', c') \<Longrightarrow> \<forall>p\<in>set ps. param_typeId p = void_type \<Longrightarrow>
   \<forall>p\<in>set ps'. param_typeId p = void_type"
proof (induction ts ps c rule: param_loop.induct)
  case (1 ts ps c)
  show ?case using 1 by (subst (asm) (3) param_loop.simps)
      (auto simp: native_param_def split: option.splits prod.splits if_splits)
qed

lemma member_loop_void:
  "member_loop ts ms c = Some (Some ms', c') \<Longrightarrow> \<forall>m\<in>set ms. mem_typeId m = void_type \<Longrightarrow>
   \<forall>m\<in>set ms'. mem_typeId m = void_type"
proof (induction ts ms c rule: member_loop.induct)
  case (1 ts ms c)
  show ?case using 1 by (subst (asm) (3) member_loop.simps)
      (auto simp: Let_def split: option.splits prod.splits if_splits)
qed

text \<open>A new function has no types yet, and its body is within the scopes.\<close>

definition new_function_ok :: "nat \<Rightarrow> ASTFunction \<Rightarrow> bool" where
  "new_function_ok n fn \<longleftrightarrow> return_type fn = void_type \<and> function_within n fn
    \<and> (\<forall>p\<in>set (fn_parameters fn). param_typeId p = void_type)"

lemma parseFunction_grown: "grown new_function_ok c (parseFunction n junk ts c)"
proof (cases "kind_at ts c 0 = TOKEN_FUNCTION \<and> kind_at ts c 1 = TOKEN_ID \<and> kind_at ts c 2 = TOKEN_CHR CHR ''(''")
  case False
  then show ?thesis by (auto simp: parseFunction_def intro!: grown_none tables_grow_same)
next
  case True
  define ret where "ret = (\<lambda>c1. if kind_at ts c1 0 = TOKEN_CHR CHR '':'' then
       do { (ty, c2) \<leftarrow> parseType ts (advance 1 c1); Some (if ty = [] then (None, report c2) else (Some ty, c2)) }
     else Some (Some [], c1))"
  have ret: "leaves c1 (ret c1)" for c1
    unfolding ret_def
    by (auto simp: leaves_def split: Option.bind_splits if_splits)
      (use parseType_leaves [of "advance 1 c1" ts] in \<open>auto simp: leaves_def same_tables_def advance_def\<close>)
  define make where "make = (\<lambda>nm params ty body. new_function\<lparr>fn_name := nm, fn_location := head c + 1,
      fn_parameters := params, return_typeString := ty, fn_body := Some body\<rparr>)"
  have eq: "parseFunction n junk ts c = do {
      nm \<leftarrow> get_str ts (head c + 1);
      (ps, c1) \<leftarrow> param_loop ts [] (advance 3 c);
      (case ps of None \<Rightarrow> Some (None, c1)
       | Some params \<Rightarrow> do {
           (r, c2) \<leftarrow> ret c1;
           (case r of None \<Rightarrow> Some (None, c2)
            | Some ty \<Rightarrow> do { (b, c3) \<leftarrow> parseBody n junk ts c2; Some (map_option (make nm params ty) b, c3) }) }) }"
    using True unfolding ret_def make_def by (simp add: parseFunction_def)
  have body: "grown new_function_ok c (do { (b, c3) \<leftarrow> parseBody n junk ts c2; Some (map_option (make nm params ty) b, c3) })"
    if "tables_grow c c2" "\<forall>p\<in>set params. param_typeId p = void_type" for nm params ty c2
    by (rule grown_then [OF bodies_grow(2) that(1)])
      (auto simp: make_def new_function_ok_def function_within_def new_function_def that(2) intro!: grown_none grown_some)
  show ?thesis
  proof (cases "get_str ts (Suc (head c))")
    case (Some nm)
    show ?thesis
    proof (cases "param_loop ts [] (advance 3 c)")
      case p: (Some r)
      obtain ps c1 where ps: "param_loop ts [] (advance 3 c) = Some (ps, c1)" using p by (cases r) simp
      have c1: "tables_grow c c1" using param_loop_leaves [of "advance 3 c" ts "[]"] ps
        by (auto simp: leaves_def same_tables_def advance_def intro!: tables_grow_same)
      show ?thesis
      proof (cases ps)
        case (Some params)
        have void: "\<forall>p\<in>set params. param_typeId p = void_type" using param_loop_void [of ts "[]"] ps Some by simp
        show ?thesis
        proof (cases "ret c1")
          case q: (Some q)
          obtain x c2 where x: "ret c1 = Some (x, c2)" using q by (cases q) simp
          have "tables_grow c c2" using ret [of c1] x c1 by (auto simp: leaves_def intro: tables_grow_trans tables_grow_same)
          then show ?thesis
            using body [OF _ void] by (cases x) (simp_all add: eq \<open>get_str _ _ = _\<close> ps x Some grown_none)
        qed (simp add: eq \<open>get_str _ _ = _\<close> ps Some grown_none)
      qed (simp add: eq \<open>get_str _ _ = _\<close> ps grown_none c1)
    qed (simp add: eq \<open>get_str _ _ = _\<close> grown_none)
  qed (simp add: eq grown_none)
qed

text \<open>A new structure has no type and its members have none.\<close>

definition new_struct_ok :: "ASTStructure \<Rightarrow> bool" where
  "new_struct_ok st \<longleftrightarrow> typeInfo st = None \<and> (\<forall>m\<in>set (members st). mem_typeId m = void_type)"

lemma parseStruct_leaves:
  "leaves c (parseStruct ts c)" "parseStruct ts c = Some (Some st, c') \<Longrightarrow> new_struct_ok st"
proof -
  have m: "leaves c (member_loop ts [] c1)" if "same_tables c c1" for c1
    using member_loop_leaves leaves_sub that by blast
  show "leaves c (parseStruct ts c)"
    unfolding parseStruct_def by (rule m leaves_pair leaves_bind leaves_cases leaves_None leaves_Some | simp)+
  show "new_struct_ok st" if "parseStruct ts c = Some (Some st, c')"
    using that by (auto simp: parseStruct_def new_struct_ok_def new_structure_def dest!: member_loop_void
        split: if_splits Option.bind_splits)
qed

section \<open>What a file adds\<close>

lemma new_function_ok_mono: "new_function_ok n fn \<Longrightarrow> n \<le> m \<Longrightarrow> new_function_ok m fn"
  using body_within_mono(1) by (auto simp: new_function_ok_def function_within_def)

text \<open>
  Functions and structures are appended to the tables, their numbers to the scope of the file and
  to the file; other scopes that were there before stay as they are, and new ones are empty.
\<close>

definition adds_functions :: "nat \<Rightarrow> nat \<Rightarrow> ScopeInfo \<Rightarrow> ScopeInfo" where
  "adds_functions n k sc = sc\<lparr>scope_functions := scope_functions sc @ [n..<n + k]\<rparr>"

definition declares :: "ParseContext \<times> Import \<Rightarrow> ParseContext \<times> Import \<Rightarrow> bool" where
  "declares x y \<longleftrightarrow> (case (x, y) of ((c, imp), (c', imp')) \<Rightarrow>
    wf_ctx c \<longrightarrow> wf_ctx c' \<and> current_scopeId c' = current_scopeId c \<and> typeInfos (ast c') = typeInfos (ast c)
    \<and> imp_body imp' = imp_body imp
    \<and> (\<exists>news fns sts. list_all fresh_scope news
        \<and> scopes (ast c') = (scopes (ast c))[current_scopeId c :=
             adds_functions (length (ast_functions (ast c))) (length fns) (scopes (ast c) ! current_scopeId c)] @ news
        \<and> ast_functions (ast c') = ast_functions (ast c) @ fns
        \<and> list_all (new_function_ok (length (scopes (ast c')))) fns
        \<and> ast_structures (ast c') = ast_structures (ast c) @ sts \<and> list_all new_struct_ok sts
        \<and> imp_structures imp' = imp_structures imp
            @ [length (ast_structures (ast c))..<length (ast_structures (ast c)) + length sts]))"

lemma declares_grows:
  assumes "tables_grow c c'" and "imp_body imp' = imp_body imp" and "imp_structures imp' = imp_structures imp"
  shows "declares (c, imp) (c', imp')"
proof -
  obtain news where "scopes (ast c') = scopes (ast c) @ news" "list_all fresh_scope news"
    using assms(1) by (auto simp: tables_grow_def)
  then show ?thesis unfolding declares_def using assms
    by (auto simp: tables_grow_def adds_functions_def intro!: exI [of _ news] exI [of _ "[]"])
qed

lemma declares_trans:
  assumes "declares x y" and "declares y z"
  shows "declares x z"
proof -
  obtain c imp c1 imp1 c2 imp2 where e: "x = (c, imp)" "y = (c1, imp1)" "z = (c2, imp2)"
    by (cases x; cases y; cases z) auto
  have "declares (c, imp) (c2, imp2)" if wf: "wf_ctx c"
  proof -
    let ?s = "current_scopeId c" and ?n = "length (ast_functions (ast c))" and ?m = "length (ast_structures (ast c))"
    obtain news fns sts where a: "wf_ctx c1" "current_scopeId c1 = ?s" "typeInfos (ast c1) = typeInfos (ast c)"
        "imp_body imp1 = imp_body imp" "list_all fresh_scope news"
        "scopes (ast c1) = (scopes (ast c))[?s := adds_functions ?n (length fns) (scopes (ast c) ! ?s)] @ news"
        "ast_functions (ast c1) = ast_functions (ast c) @ fns" "list_all (new_function_ok (length (scopes (ast c1)))) fns"
        "ast_structures (ast c1) = ast_structures (ast c) @ sts" "list_all new_struct_ok sts"
        "imp_structures imp1 = imp_structures imp @ [?m..<?m + length sts]"
      using assms(1) wf unfolding e declares_def by auto
    obtain news2 fns2 sts2 where b: "wf_ctx c2" "current_scopeId c2 = ?s" "typeInfos (ast c2) = typeInfos (ast c1)"
        "imp_body imp2 = imp_body imp1" "list_all fresh_scope news2"
        "scopes (ast c2) = (scopes (ast c1))[?s := adds_functions (?n + length fns) (length fns2) (scopes (ast c1) ! ?s)] @ news2"
        "ast_functions (ast c2) = ast_functions (ast c1) @ fns2" "list_all (new_function_ok (length (scopes (ast c2)))) fns2"
        "ast_structures (ast c2) = ast_structures (ast c1) @ sts2" "list_all new_struct_ok sts2"
        "imp_structures imp2 = imp_structures imp1 @ [?m + length sts..<?m + length sts + length sts2]"
      using assms(2) a(1,2,7,9) unfolding e declares_def by auto
    have s: "?s < length (scopes (ast c))" using wf by (simp add: wf_ctx_def)
    have up: "[i..<i + j] @ [i + j..<i + j + k] = [i..<i + (j + k)]" for i j k :: nat
      using upt_add_eq_append [of i "i + j" k] by (simp add: add.assoc)
    have "list_all (new_function_ok (length (scopes (ast c2)))) fns"
      using a(8) b(6) new_function_ok_mono by (fastforce simp: list_all_iff)
    moreover have "scopes (ast c2) = (scopes (ast c))[?s := adds_functions ?n (length fns + length fns2) (scopes (ast c) ! ?s)]
        @ (news @ news2)"
      using s unfolding b(6) a(6) by (simp add: list_update_append nth_append adds_functions_def up)
    ultimately show ?thesis
      unfolding declares_def using a b up
      by (auto intro!: exI [of _ "news @ news2"] exI [of _ "fns @ fns2"] exI [of _ "sts @ sts2"])
  qed
  then show ?thesis unfolding e by (simp add: declares_def)
qed

lemma wf_ctx_add:
  assumes "wf_ctx c"
  shows "wf_ctx (c\<lparr>ast := add_function fn (current_scopeId c) (ast c)\<rparr>)"
    and "wf_ctx (c\<lparr>ast := snd (add_structure st (ast c))\<rparr>)"
  using assms by (auto simp: wf_ctx_def wf_scopes_def add_function_def upd_scope_nth add_structure_def)

lemma declares_function:
  assumes "new_function_ok (scope_count c) fn"
  shows "declares (c, imp) (c\<lparr>ast := add_function fn (current_scopeId c) (ast c)\<rparr>, imp)"
  unfolding declares_def using wf_ctx_add(1) assms
  by (auto simp: add_function_def upd_scope_def adds_functions_def scope_count_def
      intro!: exI [of _ "[]"] exI [of _ "[fn]"])

lemma declares_structure:
  assumes "new_struct_ok st" and "add_structure st (ast c) = (i, a)"
  shows "declares (c, imp) (c\<lparr>ast := a\<rparr>, imp\<lparr>imp_structures := imp_structures imp @ [i]\<rparr>)"
  unfolding declares_def using wf_ctx_add(2) [of c st] assms
  by (auto simp: add_structure_def adds_functions_def intro!: exI [of _ "[]"] exI [of _ "[st]"])

lemma declares_same: "same_tables c c' \<Longrightarrow> imp_body imp' = imp_body imp \<Longrightarrow> imp_structures imp' = imp_structures imp \<Longrightarrow>
   declares (c, imp) (c', imp')"
  by (blast intro: declares_grows tables_grow_same)

lemma leaves_then: "leaves c0 (Some (x, c1)) \<Longrightarrow> same_tables c c0 \<Longrightarrow> same_tables c c1"
  using same_tables_trans by (auto simp: leaves_def)

lemma top_loop_declares:
  "top_loop n junk ts imp ctx = Some (ok, imp', ctx') \<Longrightarrow> declares (ctx, imp) (ctx', imp')"
proof (induction n arbitrary: imp ctx)
  case (Suc n)
  let ?t = "kind_at ts ctx 0"
  let ?P = "top_loop (Suc n) junk ts imp ctx = Some (ok, imp', ctx')"
  have then_loop: "declares (ctx, imp) (ctx', imp')"
    if "declares (ctx, imp) (c1, i1)" "top_loop n junk ts i1 c1 = Some (ok, imp', ctx')" for c1 i1
    using declares_trans [OF that(1) Suc.IH [OF that(2)]] .
  consider "?t = TOKEN_EOF" | "?t = TOKEN_STRUCT" | "?t = TOKEN_FUNCTION"
    | "?t = TOKEN_GLOBAL \<or> ?t = TOKEN_CONST" | "?t = TOKEN_IMPORT"
    | "?t \<notin> {TOKEN_EOF, TOKEN_STRUCT, TOKEN_FUNCTION, TOKEN_GLOBAL, TOKEN_CONST, TOKEN_IMPORT}"
    by auto
  then show ?case
  proof cases
    case 2
    then have P: "?P = (do { (s, ctx1) \<leftarrow> parseStruct ts ctx;
        (case s of None \<Rightarrow> Some (True, imp, ctx1)
         | Some st \<Rightarrow> let (i, a) = add_structure st (ast ctx1) in
             top_loop n junk ts (imp\<lparr>imp_structures := imp_structures imp @ [i]\<rparr>) (ctx1\<lparr>ast := a\<rparr>)) }
      = Some (ok, imp', ctx'))" by (simp add: Let_def)
    obtain s c1 where s: "parseStruct ts ctx = Some (s, c1)" using Suc.prems P by (cases "parseStruct ts ctx") auto
    have g: "same_tables ctx c1" using parseStruct_leaves(1) [of ctx ts] s by (simp add: leaves_def)
    show ?thesis
    proof (cases s)
      case (Some st)
      obtain i a where a: "add_structure st (ast c1) = (i, a)" by (cases "add_structure st (ast c1)")
      have "declares (c1, imp) (c1\<lparr>ast := a\<rparr>, imp\<lparr>imp_structures := imp_structures imp @ [i]\<rparr>)"
        using declares_structure [OF parseStruct_leaves(2) a] s Some by blast
      then show ?thesis
        using then_loop [OF declares_trans [OF declares_same [OF g refl refl]]] Suc.prems P s Some a by simp
    qed (use Suc.prems P s declares_same [OF g] in simp)
  next
    case 3
    then have P: "?P = (do { (f, ctx1) \<leftarrow> parseFunction n junk ts ctx;
        (case f of None \<Rightarrow> Some (True, imp, ctx1)
         | Some fn \<Rightarrow> top_loop n junk ts imp
                 (ctx1\<lparr>ast := add_function fn (current_scopeId ctx1) (ast ctx1)\<rparr>)) }
      = Some (ok, imp', ctx'))" by (simp add: Let_def)
    obtain f c1 where f: "parseFunction n junk ts ctx = Some (f, c1)"
      using Suc.prems P by (cases "parseFunction n junk ts ctx") auto
    have g: "tables_grow ctx c1" using parseFunction_grown [of ctx n junk ts] f by (simp add: grown_def)
    show ?thesis
    proof (cases f)
      case (Some fn)
      have "new_function_ok (scope_count c1) fn" if "wf_ctx ctx"
        using parseFunction_grown [of ctx n junk ts] f Some that by (simp add: grown_def)
      then have "declares (ctx, imp) (c1\<lparr>ast := add_function fn (current_scopeId c1) (ast c1)\<rparr>, imp)" if "wf_ctx ctx"
        using that declares_trans [OF declares_grows [OF g refl refl] declares_function] by blast
      then have "declares (ctx, imp) (c1\<lparr>ast := add_function fn (current_scopeId c1) (ast c1)\<rparr>, imp)"
        by (auto simp: declares_def)
      then show ?thesis using then_loop Suc.prems P f Some by simp
    qed (use Suc.prems P f declares_grows [OF g] in simp)
  next
    case 4
    define d where "d = do {
          r \<leftarrow> parseDeclaration n junk ts (?t = TOKEN_GLOBAL) (?t = TOKEN_CONST) (advance 1 ctx);
          semicolon ts r }"
    have P: "?P = (do { (s, ctx1) \<leftarrow> d; (case s of
             None \<Rightarrow> Some (False, imp, ctx1)
           | Some st \<Rightarrow> top_loop n junk ts (imp\<lparr>imp_statements := imp_statements imp @ [st]\<rparr>) ctx1) }
      = Some (ok, imp', ctx'))"
      using 4 by (auto simp: Let_def d_def)
    obtain s c1 where s: "d = Some (s, c1)" using Suc.prems P by (cases d) auto
    have "leaves ctx d" unfolding d_def by (rule declaration_leaves) simp
    then have g: "same_tables ctx c1" using s by (simp add: leaves_def)
    have d: "declares (ctx, imp) (c1, i1)" if "imp_body i1 = imp_body imp" "imp_structures i1 = imp_structures imp" for i1
      using declares_same [OF g that] .
    show ?thesis
    proof (cases s)
      case None
      then show ?thesis using Suc.prems P s d by simp
    next
      case (Some st)
      then have "top_loop n junk ts (imp\<lparr>imp_statements := imp_statements imp @ [st]\<rparr>) c1 = Some (ok, imp', ctx')"
        using Suc.prems P s by simp
      then show ?thesis by (rule then_loop [rotated]) (rule d; simp)
    qed
  next
    case 5
    then have P: "?P = ((if kind_at ts ctx 1 \<noteq> TOKEN_LITERAL_STRING
         then Some (False, imp, report (advance 1 ctx))
         else do {
           p \<leftarrow> get_str ts (head ctx + 1);
           top_loop n junk ts
             (if p \<in> set (dependencies imp) then imp
              else imp\<lparr>dependencies := dependencies imp @ [p]\<rparr>) (advance 2 ctx)
         }) = Some (ok, imp', ctx'))" by (simp add: Let_def)
    show ?thesis
    proof (cases "kind_at ts ctx 1 \<noteq> TOKEN_LITERAL_STRING")
      case True
      then have "imp' = imp" "ctx' = report (advance 1 ctx)" using Suc.prems P by simp_all
      then show ?thesis using declares_same by simp
    next
      case False
      then obtain p where p: "get_str ts (head ctx + 1) = Some p"
        using Suc.prems P by (cases "get_str ts (head ctx + 1)") simp_all
      let ?i = "if p \<in> set (dependencies imp) then imp else imp\<lparr>dependencies := dependencies imp @ [p]\<rparr>"
      have "top_loop n junk ts ?i (advance 2 ctx) = Some (ok, imp', ctx')" using Suc.prems P False p by simp
      then show ?thesis by (rule then_loop [rotated]) (rule declares_same; simp)
    qed
  next
    case 1
    then have "imp' = imp" "ctx' = ctx" using Suc.prems by simp_all
    then show ?thesis using declares_same by simp
  next
    case 6
    then have "imp' = imp" "ctx' = report ctx" using Suc.prems by (simp_all add: Let_def)
    then show ?thesis using declares_same by simp
  qed
qed simp

text \<open>A file: one more scope for its body, and what is declared in it.\<close>

lemma ParseTokenStream_declares:
  assumes "ParseTokenStream n junk ts imp a errs = Some (ok, imp', ctx)" and "wf_scopes a" and "0 < length (scopes a)"
  defines "imp0 \<equiv> (case imp of None \<Rightarrow> new_import (path ts) | Some i \<Rightarrow> i)"
  obtains sc news fns sts where "imp_body imp' = Some (length (scopes a))"
    and "imp_structures imp' = imp_structures imp0 @ [length (ast_structures a)..<length (ast_structures a) + length sts]"
    and "wf_scopes (ast ctx)" and "typeInfos (ast ctx) = typeInfos a"
    and "scopes (ast ctx) = scopes a
      @ adds_functions (length (ast_functions a)) (length fns) sc # news"
    and "fresh_scope sc" and "list_all fresh_scope news"
    and "ast_functions (ast ctx) = ast_functions a @ fns" and "list_all (new_function_ok (length (scopes (ast ctx)))) fns"
    and "ast_structures (ast ctx) = ast_structures a @ sts" and "list_all new_struct_ok sts"
proof -
  obtain sid a1 where c: "createScope 0 a = Some (sid, a1)"
    using assms(1) by (auto simp: ParseTokenStream_def split: Option.bind_splits)
  let ?ctx = "\<lparr>head = 0, ast = a1, errors = errs, current_scopeId = sid\<rparr>"
  have t: "top_loop n junk ts (imp0\<lparr>imp_body := Some sid, imp_stream := Some ts\<rparr>) ?ctx = Some (ok, imp', ctx)"
    using assms(1) c unfolding imp0_def by (simp add: ParseTokenStream_def Let_def)
  obtain sc where sc: "scopes a1 = scopes a @ [sc]" "fresh_scope sc" "sid = length (scopes a)"
      "typeInfos a1 = typeInfos a" "ast_functions a1 = ast_functions a" "ast_structures a1 = ast_structures a"
    using c by (auto simp: createScope_def Let_def fresh_scope_def split: if_splits)
  have w: "wf_ctx ?ctx" using wf_scopes_createScope [OF assms(2) _ c] assms(3) sc by (simp add: wf_ctx_def)
  show thesis
    using top_loop_declares [OF t] w sc that [where sc = sc]
    unfolding declares_def by (auto simp: wf_ctx_def list_update_append)
qed

end
