(* ===== verification/ReachableTables.thy ===== *)
theory ReachableTables
  imports ParserTables SchedulerSafety "HOL-Library.Multiset"
begin

text \<open>
  The tables of the AST in every state the threads of a compilation can reach: the invariant
  \<^verbatim>\<open>tables_inv\<close> joins that types, scopes and structures are in their tables (\<^verbatim>\<open>tables_within\<close>)
  with that every function and structure has one owner (\<^verbatim>\<open>objects_owned\<close>), and is kept by the
  parser, the generator and the linking of imports.
\<close>

section \<open>What parsing a file keeps\<close>

lemma in_table_void: "types_ok a \<Longrightarrow> typeInfos b = typeInfos a @ ts \<Longrightarrow> in_table b void_type"
  using in_table_basic(2) [of a] by (auto simp: in_table_def)

lemma types_ok_declared:
  assumes ok: "types_ok a" and wf: "wf_scopes b" and ty: "typeInfos b = typeInfos a"
    and sc: "scopes b = scopes a @ adds_functions (length (ast_functions a)) (length fns) sc # news"
      "fresh_scope sc" "list_all fresh_scope news"
    and fn: "ast_functions b = ast_functions a @ fns" "list_all (new_function_ok n) fns"
    and st: "ast_structures b = ast_structures a @ sts" "list_all new_struct_ok sts"
  shows "types_ok b"
proof -
  have t: "in_table b = in_table a" by (simp add: in_table_def ty fun_eq_iff)
  have v: "in_table a void_type" using in_table_basic(2) [OF ok] .
  have empty: "type_map (scopes b ! k) = Map.empty" if "k < length (scopes b)" "\<not> k < length (scopes a)" for k
  proof -
    have "scopes b ! k \<in> set (adds_functions (length (ast_functions a)) (length fns) sc # news)"
      using that nth_mem [of "k - length (scopes a)" "adds_functions (length (ast_functions a)) (length fns) sc # news"]
      by (simp add: sc(1) nth_append)
    then show ?thesis using sc(2,3) by (auto simp: fresh_scope_def adds_functions_def list_all_iff)
  qed
  have "wf_types b"
    unfolding wf_types_def
  proof (intro conjI allI impI)
    show "length (typeInfos b) \<le> types_max" using ok by (simp add: types_ok_def wf_types_def ty)
    fix k nm i assume k: "k < length (scopes b)" "type_map (scopes b ! k) nm = Some i"
    then have "k < length (scopes a)" "type_map (scopes a ! k) nm = Some i"
      using empty [of k] by (auto simp: sc(1) nth_append split: if_splits)
    then show "i < length (typeInfos b)" "type_name (typeInfos b ! i) = nm" "typeId (typeInfos b ! i) = make_type i 0"
      using ok by (auto simp: types_ok_def wf_types_def ty)
  qed
  moreover have "\<forall>x\<in>set (scopes b). scope_types_ok b x"
  proof -
    have "scope_types_ok b x" if "x \<in> set (scopes a)" for x
      using ok that by (fastforce simp: types_ok_def scope_types_ok_def t fn(1))
    moreover have "scope_types_ok b x" if "x \<in> set news" for x
      using sc(3) that by (auto simp: list_all_iff fresh_scope_def scope_types_ok_def)
    moreover have "scope_types_ok b (adds_functions (length (ast_functions a)) (length fns) sc)"
      using sc(2) by (auto simp: fresh_scope_def scope_types_ok_def adds_functions_def fn(1))
    ultimately show ?thesis by (auto simp: sc(1))
  qed
  moreover have "\<forall>f\<in>set (ast_functions b). function_types_ok b f"
    using ok fn(2) v by (auto simp: types_ok_def function_types_ok_def t fn(1) list_all_iff new_function_ok_def)
  moreover have "\<forall>x\<in>set (ast_structures b). struct_types_ok b x"
    using ok st(2) v by (auto simp: types_ok_def struct_types_ok_def t ty st(1) list_all_iff new_struct_ok_def)
  moreover have "\<forall>info\<in>set (typeInfos b). \<forall>i. ast_struct info = Some i \<longrightarrow> i < length (ast_structures b)"
    using ok by (fastforce simp: types_ok_def ty st(1))
  ultimately show ?thesis using ok wf by (simp add: types_ok_def ty)
qed

section \<open>Every object has one owner\<close>

text \<open>
  The functions are listed in the scopes one after the other, and a scope that lists some is the
  body of an import; every structure is listed by one import; no two imports share a body.
\<close>

definition bodies_apart :: "Import list \<Rightarrow> bool" where
  "bodies_apart is \<longleftrightarrow> distinct (filter (\<lambda>b. b \<noteq> None) (map imp_body is))"

definition objects_owned :: "AST \<Rightarrow> Import list \<Rightarrow> bool" where
  "objects_owned a is \<longleftrightarrow>
    concat (map scope_functions (scopes a)) = [0..<length (ast_functions a)]
    \<and> (\<forall>s<length (scopes a). scope_functions (scopes a ! s) \<noteq> [] \<longrightarrow> Some s \<in> imp_body ` set is)
    \<and> mset (concat (map imp_structures is)) = mset [0..<length (ast_structures a)]
    \<and> bodies_apart is"

definition tables_within :: "AST \<Rightarrow> Import list \<Rightarrow> bool" where
  "tables_within a is \<longleftrightarrow> types_ok a \<and> 0 < length (scopes a)
    \<and> (\<forall>fn\<in>set (ast_functions a). function_within (length (scopes a)) fn)
    \<and> (\<forall>imp\<in>set is. import_within a imp \<and> (imp_body imp = None \<longrightarrow> imp_structures imp = []))"

definition tables_inv :: "AST \<Rightarrow> Import list \<Rightarrow> bool" where
  "tables_inv a is \<longleftrightarrow> tables_within a is \<and> objects_owned a is"

text \<open>What the imports are asked for.\<close>

lemma tables_inv_imports:
  assumes "map imp_body is' = map imp_body is" and "map imp_structures is' = map imp_structures is"
  shows "tables_inv a is' = tables_inv a is"
proof -
  have n: "length is' = length is" using assms(1) by (rule map_eq_imp_length_eq)
  have nth: "imp_body (is' ! k) = imp_body (is ! k)" "imp_structures (is' ! k) = imp_structures (is ! k)" if "k < length is" for k
    using that n arg_cong [OF assms(1), of "\<lambda>xs. xs ! k"] arg_cong [OF assms(2), of "\<lambda>xs. xs ! k"] by simp_all
  have "imp_body ` set is' = imp_body ` set is" using assms(1) by (metis set_map)
  moreover have "(\<forall>imp\<in>set is'. import_within a imp \<and> (imp_body imp = None \<longrightarrow> imp_structures imp = []))
      = (\<forall>imp\<in>set is. import_within a imp \<and> (imp_body imp = None \<longrightarrow> imp_structures imp = []))"
    unfolding all_set_conv_all_nth n by (intro all_cong) (simp add: import_within_def nth)
  ultimately show ?thesis
    unfolding tables_inv_def tables_within_def objects_owned_def bodies_apart_def assms by simp
qed

text \<open>What stays when objects do.\<close>

lemma same_objects_sizes:
  assumes "same_objects a b"
  shows "length (scopes b) = length (scopes a)" "length (ast_functions b) = length (ast_functions a)"
    "length (ast_structures b) = length (ast_structures a)"
    "s < length (scopes a) \<Longrightarrow> scope_functions (scopes b ! s) = scope_functions (scopes a ! s)"
proof -
  have m: "map scope_functions (scopes b) = map scope_functions (scopes a)" "map fn_body (ast_functions b) = map fn_body (ast_functions a)"
    "length (ast_structures b) = length (ast_structures a)"
    using assms by (simp_all add: same_objects_def)
  show l: "length (scopes b) = length (scopes a)" using m(1) by (rule map_eq_imp_length_eq)
  show "length (ast_functions b) = length (ast_functions a)" using m(2) by (rule map_eq_imp_length_eq)
  show "length (ast_structures b) = length (ast_structures a)" by (rule m(3))
  show "s < length (scopes a) \<Longrightarrow> scope_functions (scopes b ! s) = scope_functions (scopes a ! s)"
    using arg_cong [OF m(1), of "\<lambda>xs. xs ! s"] l by simp
qed

lemma tables_inv_same:
  assumes "same_objects a b" and "types_ok b" and "tables_inv a is"
  shows "tables_inv b is"
proof -
  note l = same_objects_sizes [OF assms(1)]
  have "function_within (length (scopes a)) fn" if "fn \<in> set (ast_functions b)" for fn
  proof -
    have "map fn_body (ast_functions b) = map fn_body (ast_functions a)" using assms(1) by (simp add: same_objects_def)
    from arg_cong [OF this, of set] have "fn_body ` set (ast_functions b) = fn_body ` set (ast_functions a)" by simp
    then have "fn_body fn \<in> fn_body ` set (ast_functions a)" using that by blast
    then obtain fn' where fn': "fn' \<in> set (ast_functions a)" "fn_body fn = fn_body fn'" by blast
    then have "function_within (length (scopes a)) fn'" using assms(3) by (simp add: tables_inv_def tables_within_def)
    then show ?thesis using fn'(2) by (simp add: function_within_def)
  qed
  then have "tables_within b is"
    using assms(2,3) unfolding tables_inv_def tables_within_def import_within_def l(1-3) by blast
  moreover have "objects_owned b is"
    using assms(1,3) l(4) unfolding tables_inv_def objects_owned_def same_objects_def l(1-3) by simp
  ultimately show ?thesis by (simp add: tables_inv_def)
qed

text \<open>The tasks of the generator.\<close>

lemma tables_inv_generator:
  assumes "generator_step a b" and "tables_inv a is"
  shows "tables_inv b is"
  using assms generator_step_types generator_step_objects
  by (intro tables_inv_same [OF _ _ assms(2)]) (auto simp: tables_inv_def tables_within_def)

lemma tables_inv_share:
  assumes "tables_inv a is" and "t < length (scopes a)"
  shows "tables_inv (share_scope s t a) is"
proof (rule tables_inv_same [OF _ _ assms(1)])
  have a: "types_ok a" using assms(1) by (simp add: tables_inv_def tables_within_def)
  show "same_objects a (share_scope s t a)" unfolding share_scope_def by (rule objects_upd_scope) simp
  show "types_ok (share_scope s t a)"
    using wf_scopes_share [of a t s] a assms(2) unfolding share_scope_def
    by (intro types_ok_upd_scope [OF a]) (auto simp: types_ok_def scope_types_ok_def)
qed

lemma tables_inv_create: "tables_inv a is \<Longrightarrow> tables_inv a (is @ [new_import nm])"
  by (auto simp: tables_inv_def tables_within_def objects_owned_def bodies_apart_def import_within_def new_import_def)

text \<open>Parsing a file: its import had no body and no structures.\<close>

lemma list_at:
  assumes "k < length xs"
  obtains ys zs where "xs = ys @ xs ! k # zs" and "\<And>x. xs[k := x] = ys @ x # zs"
  using assms that [of "take k xs" "drop (Suc k) xs"] by (simp add: upd_conv_take_nth_drop flip: id_take_nth_drop)

lemma concat_fresh: "list_all fresh_scope news \<Longrightarrow> concat (map scope_functions news) = []"
  by (induction news) (auto simp: fresh_scope_def)

lemma tables_inv_parse:
  assumes inv: "tables_inv a is" and k: "k < length is" and none: "imp_body (is ! k) = None"
    and p: "ParseTokenStream n junk ts (Some (is ! k)) a errs = Some (ok, imp', ctx)"
  shows "tables_inv (ast ctx) (is[k := imp'])"
proof -
  have a: "types_ok a" "0 < length (scopes a)" "wf_scopes a"
    using inv by (simp_all add: tables_inv_def tables_within_def types_ok_def)
  have st0: "imp_structures (is ! k) = []" using inv none k by (simp add: tables_inv_def tables_within_def)
  obtain sc news fns sts where d: "imp_body imp' = Some (length (scopes a))"
      "imp_structures imp' = [length (ast_structures a)..<length (ast_structures a) + length sts]"
      "wf_scopes (ast ctx)" "typeInfos (ast ctx) = typeInfos a"
      "scopes (ast ctx) = scopes a @ adds_functions (length (ast_functions a)) (length fns) sc # news"
      "fresh_scope sc" "list_all fresh_scope news"
      "ast_functions (ast ctx) = ast_functions a @ fns" "list_all (new_function_ok (length (scopes (ast ctx)))) fns"
      "ast_structures (ast ctx) = ast_structures a @ sts" "list_all new_struct_ok sts"
    by (rule ParseTokenStream_declares [OF p a(3,2), unfolded option.case st0 append_Nil])
  let ?b = "ast ctx" and ?sc = "adds_functions (length (ast_functions a)) (length fns) sc"
  have sf: "scope_functions ?sc = [length (ast_functions a)..<length (ast_functions a) + length fns]"
    using d(6) by (simp add: adds_functions_def fresh_scope_def)
  obtain ys zs where l: "is = ys @ is ! k # zs" "\<And>x. is[k := x] = ys @ x # zs" using list_at [OF k] by blast
  have old: "import_within a i" if "i \<in> set is" for i
    using inv that by (auto simp: tables_inv_def tables_within_def)
  have "types_ok ?b" by (rule types_ok_declared [OF a(1) d(3,4,5,6,7,8,9,10,11)])
  moreover have "function_within (length (scopes ?b)) fn" if "fn \<in> set (ast_functions ?b)" for fn
  proof (cases "fn \<in> set fns")
    case True
    then show ?thesis using d(9) by (auto simp: list_all_iff new_function_ok_def)
  next
    case False
    then have "function_within (length (scopes a)) fn"
      using that inv by (auto simp: d(8) tables_inv_def tables_within_def)
    then show ?thesis using body_within_mono(1) by (fastforce simp: function_within_def d(5))
  qed
  moreover have "import_within ?b i \<and> (imp_body i = None \<longrightarrow> imp_structures i = [])" if "i \<in> set (is[k := imp'])" for i
  proof (cases "i = imp'")
    case False
    then have "i \<in> set is" using that set_update_subset_insert [of "is" k imp'] by auto
    then have "import_within a i \<and> (imp_body i = None \<longrightarrow> imp_structures i = [])"
      using inv by (simp add: tables_inv_def tables_within_def)
    then show ?thesis by (fastforce simp: import_within_def d(5,10))
  qed (auto simp: import_within_def d(1,2,5,10))
  ultimately have "tables_within ?b (is[k := imp'])" by (simp add: tables_within_def d(5))
  moreover have "objects_owned ?b (is[k := imp'])"
    unfolding objects_owned_def
  proof (intro conjI allI impI)
    have o: "concat (map scope_functions (scopes a)) = [0..<length (ast_functions a)]"
        "mset (concat (map imp_structures is)) = mset [0..<length (ast_structures a)]" "bodies_apart is"
      using inv by (simp_all add: tables_inv_def objects_owned_def)
    show "concat (map scope_functions (scopes ?b)) = [0..<length (ast_functions ?b)]"
      using upt_add_eq_append [of 0 "length (ast_functions a)" "length fns"]
      by (simp add: d(5,8) sf o(1) concat_fresh [OF d(7)])
    have "mset (concat (map imp_structures is)) = mset (concat (map imp_structures ys)) + mset (concat (map imp_structures zs))"
      by (subst l(1)) (simp add: st0)
    then have "mset (concat (map imp_structures (is[k := imp']))) = mset [0..<length (ast_structures a)] + mset (imp_structures imp')"
      using o(2) by (simp add: l(2))
    then show "mset (concat (map imp_structures (is[k := imp']))) = mset [0..<length (ast_structures ?b)]"
      using upt_add_eq_append [of 0 "length (ast_structures a)" "length sts"] by (simp only: d(2,10) length_append) simp
    have "Some (length (scopes a)) \<notin> imp_body ` set is" using old by (force simp: import_within_def)
    then have "Some (length (scopes a)) \<notin> imp_body ` set ys" "Some (length (scopes a)) \<notin> imp_body ` set zs"
      using arg_cong [OF l(1), of set] by auto
    moreover have "distinct (filter (\<lambda>b. b \<noteq> None) (map imp_body ys @ None # map imp_body zs))"
      using o(3) none l(1) by (metis bodies_apart_def list.simps(9) map_append)
    ultimately show "bodies_apart (is[k := imp'])"
      unfolding bodies_apart_def l(2) by (auto simp: d(1))
    fix s assume s: "s < length (scopes ?b)" "scope_functions (scopes ?b ! s) \<noteq> []"
    show "Some s \<in> imp_body ` set (is[k := imp'])"
    proof (cases "s < length (scopes a)")
      case True
      then have "Some s \<in> imp_body ` set is"
        using s inv by (simp add: d(5) nth_append tables_inv_def objects_owned_def)
      then have "Some s \<in> imp_body ` set ys \<or> Some s \<in> imp_body ` set zs"
        using none arg_cong [OF l(1), of set] by auto
      then show ?thesis by (auto simp: l(2))
    next
      case False
      have "s = length (scopes a)"
      proof (rule ccontr)
        assume "s \<noteq> length (scopes a)"
        then have "scopes ?b ! s \<in> set news" using False s(1) by (auto simp: d(5) nth_append nth_Cons')
        then show False using d(7) s(2) by (auto simp: list_all_iff fresh_scope_def)
      qed
      then show ?thesis using d(1) by (auto simp: l(2))
    qed
  qed
  ultimately show ?thesis by (simp add: tables_inv_def)
qed

section \<open>The steps of the threads\<close>

definition comp_inv :: "Compiler \<Rightarrow> bool" where
  "comp_inv c \<longleftrightarrow> tables_inv (comp_ast c) (import_list c)"

lemma comp_inv_cong:
  "comp_ast c' = comp_ast c \<Longrightarrow> import_list c' = import_list c \<Longrightarrow> comp_inv c' = comp_inv c"
  by (simp add: comp_inv_def)

lemma comp_inv_generator:
  assumes "comp_inv c" and "generator_step (comp_ast c) (comp_ast c')" and "import_list c' = import_list c"
  shows "comp_inv c'"
  using assms tables_inv_generator by (simp add: comp_inv_def)

lemma comp_inv_import: "comp_inv c \<Longrightarrow> i < length (import_list c) \<Longrightarrow> import_within (comp_ast c) (import_list c ! i)"
  by (simp add: comp_inv_def tables_inv_def tables_within_def)

lemma comp_inv_body: "comp_inv c \<Longrightarrow> i < length (import_list c) \<Longrightarrow> imp_body (import_list c ! i) = Some s \<Longrightarrow>
   s < length (scopes (comp_ast c))"
  using comp_inv_import [of c i] by (simp add: import_within_def)

text \<open>The later tasks.\<close>

lemma do_structs_comp_inv:
  assumes "do_structs t c = Some (c', th)" and "comp_inv c" and "task_in (length (import_list c)) t"
  shows "comp_inv c'"
proof -
  obtain i ok ch a errs where i: "task_imp t = Some i"
      and g: "CheckStructs (comp_ast c) (import_list c ! i) (comp_errors c) True = Some (ok, ch, a, errs)"
    using assms(1) by (auto simp: do_structs_def split: Option.bind_splits)
  let ?c1 = "c\<lparr>comp_ast := a, comp_errors := errs\<rparr>"
  have l: "i < length (import_list c)" using assms(3) i by (simp add: task_in_def)
  have c1: "comp_inv ?c1"
    using comp_inv_generator [OF assms(2), of ?c1] generator_step.structs [OF g comp_inv_import [OF assms(2) l]] by simp
  show ?thesis
  proof (cases "\<not> ok \<and> \<not> ch \<and> no_change t")
    case True
    then obtain ok2 ch2 a2 errs2 where g2: "CheckStructs a (import_list c ! i) errs False = Some (ok2, ch2, a2, errs2)"
        "c' = ?c1\<lparr>comp_ast := a2, comp_errors := errs2\<rparr>"
      using assms(1) i g by (auto simp: do_structs_def Let_def split: Option.bind_splits)
    have "import_within a (import_list c ! i)" using comp_inv_import [OF c1, of i] l by simp
    then have "generator_step (comp_ast ?c1) (comp_ast c')" using generator_step.structs [OF g2(1)] g2(2) by simp
    then show ?thesis using comp_inv_generator [OF c1] g2(2) by simp
  next
    case False
    then have "comp_ast c' = a" "import_list c' = import_list c"
      using assms(1) i g by (auto simp: do_structs_def Let_def split: if_splits)
    then show ?thesis using c1 by (simp add: comp_inv_def)
  qed
qed

lemma check_functions_comp_inv:
  "check_functions imp fs c = Some c' \<Longrightarrow> comp_inv c \<Longrightarrow> imp \<in> set (import_list c) \<Longrightarrow> comp_inv c'"
proof (induction imp fs c rule: check_functions.induct)
  case (2 imp f fs c)
  obtain a errs where h: "CheckFunction (comp_ast c) imp f (comp_errors c) = Some (a, errs)"
    using "2.prems"(1) by (auto split: Option.bind_splits)
  let ?c1 = "c\<lparr>comp_ast := a, comp_errors := errs\<rparr>"
  obtain i where "i < length (import_list c)" "imp = import_list c ! i" using "2.prems"(3) by (auto simp: in_set_conv_nth)
  then have "generator_step (comp_ast c) (comp_ast ?c1)"
    using generator_step.header [OF h] comp_inv_import [OF "2.prems"(2)] by simp
  then have "comp_inv ?c1" using comp_inv_generator [OF "2.prems"(2)] by simp
  then show ?case using "2.IH" [OF h refl] "2.prems" h by simp
qed simp

lemma body_functions_within:
  assumes "body_functions i c = Some fs" and "comp_inv c"
  shows "set fs \<subseteq> {..<length (ast_functions (comp_ast c))}"
proof -
  obtain s sc where "imp_body (import_list c ! i) = Some s" "getScope (comp_ast c) s = Some sc" "fs = scope_functions sc"
    using assms(1) by (auto simp: body_functions_def split: Option.bind_splits)
  moreover have "sc \<in> set (scopes (comp_ast c))"
    using calculation(2) by (auto simp: getScope_def nth_opt_def split: if_splits)
  ultimately show ?thesis
    using assms(2) by (auto simp: comp_inv_def tables_inv_def tables_within_def types_ok_def scope_types_ok_def)
qed

lemma do_functions_comp_inv:
  assumes "do_functions t c = Some (c', th)" and "comp_inv c" and "task_in (length (import_list c)) t"
  shows "comp_inv c'"
proof -
  obtain i fs c1 ok a bc errs where i: "task_imp t = Some i"
      and c1: "check_functions (import_list c ! i) fs c = Some c1"
      and g: "CheckGlobals (comp_ast c1) (import_list c1 ! i) (comp_bytecode c1) (comp_errors c1) = Some (ok, a, bc, errs)"
      and c': "c' = c1\<lparr>comp_ast := a, comp_bytecode := bc, comp_errors := errs\<rparr>"
    using assms(1) by (auto simp: do_functions_def Let_def split: Option.bind_splits)
  have l: "i < length (import_list c)" using assms(3) i by (simp add: task_in_def)
  have s: "import_list c1 = import_list c" using check_functions_tables [OF c1] by (simp add: tables_only_sel)
  have inv: "comp_inv c1" using check_functions_comp_inv [OF c1 assms(2)] l by simp
  then have "generator_step (comp_ast c1) (comp_ast c')"
    using generator_step.globals [OF g comp_inv_import [OF inv]] l s c' by simp
  then show ?thesis using comp_inv_generator [OF inv] c' by simp
qed

lemma generate_functions_comp_inv:
  "generate_functions env i fs c = Some c' \<Longrightarrow> comp_inv c \<Longrightarrow>
   set fs \<subseteq> {..<length (ast_functions (comp_ast c))} \<Longrightarrow> comp_inv c'"
proof (induction env i fs c rule: generate_functions.induct)
  case (2 env i f fs c)
  obtain a bc errs where g: "GenerateFunction (ce_lex env) (comp_ast c) (import_list c) (imp_stream (import_list c ! i))
        f (comp_bytecode c) (comp_errors c) = Some (a, bc, errs)"
    using "2.prems"(1) by (auto split: Option.bind_splits)
  let ?c1 = "c\<lparr>comp_ast := a, comp_bytecode := bc, comp_errors := errs\<rparr>"
  have "function_within (length (scopes (comp_ast c))) (ast_functions (comp_ast c) ! f)"
    using "2.prems"(2,3) by (simp add: comp_inv_def tables_inv_def tables_within_def)
  then have s: "generator_step (comp_ast c) (comp_ast ?c1)"
    using generator_step.body [OF g] by (simp add: function_within_def)
  have "types_ok (comp_ast c)" using "2.prems"(2) by (simp add: comp_inv_def tables_inv_def tables_within_def)
  then have "length (ast_functions a) = length (ast_functions (comp_ast c))"
    using same_objects_sizes(2) generator_step_objects [OF s] by simp
  then show ?case
    using "2.IH" [OF g refl refl] comp_inv_generator [OF "2.prems"(2) s] "2.prems"(1,3) g by simp
qed simp

lemma later_task_comp_inv:
  assumes "do_task env t c = Some (c', th)" and "task_type t \<noteq> TASK_LEX_FILE" and "comp_inv c"
    and "task_in (length (import_list c)) t"
  shows "comp_inv c'"
proof (cases "task_type t")
  case TASK_GEN_FUNCTIONS
  then show ?thesis using assms(1,3) generate_functions_comp_inv body_functions_within
    by (auto simp: do_task_def do_generate_def split: Option.bind_splits)
qed (use assms do_structs_comp_inv do_functions_comp_inv in \<open>auto simp: do_task_def\<close>)

text \<open>Parsing.\<close>

lemma do_lex_comp_inv:
  assumes "do_lex env t c = Some (c', th)" and inv: "comp_inv c"
    and idle: "\<And>k. task_imp t = Some k \<Longrightarrow> k < length (import_list c) \<and> imp_body (import_list c ! k) = None"
  shows "comp_inv c'"
proof (cases "lex_file (ce_lex env) (task_name t) (ce_files env (task_name t))")
  case None
  then show ?thesis using assms(1) inv by (auto simp: do_lex_def comp_inv_def)
next
  case (Some ts)
  let ?c1 = "c\<lparr>comp_streams := comp_streams c @ [ts], stream_map := (stream_map c)(task_name t \<mapsto> ts)\<rparr>"
  let ?imp = "map_option (\<lambda>i. import_list c ! i) (task_imp t)" and ?is = "import_list c"
  obtain imp ctx k where p: "ParseTokenStream (parse_fuel ts) (ce_junk env) ts ?imp (comp_ast c) (comp_errors c)
        = Some (True, imp, ctx)"
      and r: "store_import (task_imp t) imp (?c1\<lparr>comp_ast := ast ctx, comp_errors := errors ctx\<rparr>) = (k, c')"
    using assms(1) Some by (auto simp: do_lex_def Let_def split: Option.bind_splits prod.splits if_splits)
  show ?thesis
  proof (cases "task_imp t")
    case (Some k')
    then have "import_list c' = ?is[k' := imp]" "comp_ast c' = ast ctx" using r by (auto simp: store_import_def upd_import_def)
    then show ?thesis
      using tables_inv_parse [of "comp_ast c" ?is k'] idle [OF Some] p inv Some by (simp add: comp_inv_def)
  next
    case None
    let ?new = "new_import (path ts)"
    have c': "import_list c' = (?is @ [?new])[length ?is := imp]" "comp_ast c' = ast ctx"
      using r None by (auto simp: store_import_def createImport_def upd_import_def)
    have "ParseTokenStream (parse_fuel ts) (ce_junk env) ts (Some ((?is @ [?new]) ! length ?is)) (comp_ast c) (comp_errors c)
        = Some (True, imp, ctx)"
      using p None by (simp add: ParseTokenStream_def)
    moreover have "tables_inv (comp_ast c) (?is @ [?new])" using inv tables_inv_create by (simp add: comp_inv_def)
    ultimately show ?thesis
      using tables_inv_parse [of "comp_ast c" "?is @ [?new]" "length ?is"] c'
      by (simp add: comp_inv_def new_import_def)
  qed
qed

text \<open>Imports.\<close>

lemma map_same_upd_import:
  "(\<And>i. g (f i) = g i) \<Longrightarrow> map g (import_list (upd_import k f c)) = map g (import_list c)"
  by (simp add: map_same_update)

lemma comp_inv_upd_import:
  assumes "\<And>i. imp_body (f i) = imp_body i" and "\<And>i. imp_structures (f i) = imp_structures i"
  shows "comp_inv (upd_import k f c) = comp_inv c"
proof -
  have "comp_ast (upd_import k f c) = comp_ast c" by (simp add: upd_import_def)
  then show ?thesis
    using tables_inv_imports [OF map_same_upd_import [of imp_body f k c, OF assms(1)]
        map_same_upd_import [of imp_structures f k c, OF assms(2)]] by (simp only: comp_inv_def)
qed

lemma comp_inv_share:
  assumes "comp_inv c" and "t < length (scopes (comp_ast c))"
  shows "comp_inv (c\<lparr>comp_ast := share_scope s t (comp_ast c)\<rparr>)"
  using assms tables_inv_share by (simp add: comp_inv_def)

lemma fix_imports_comp_inv:
  "fix_imports k fs c = Some c' \<Longrightarrow> comp_inv c \<Longrightarrow> k < length (import_list c) \<Longrightarrow>
   comp_inv c' \<and> length (import_list c') = length (import_list c)"
proof (induction k fs c rule: fix_imports.induct)
  case (2 k f fs c)
  obtain s s' c1 where s: "imp_body (import_list c ! k) = Some s'"
      and c1: "c1 = upd_import f (\<lambda>i. i\<lparr>deps_now := deps_now i + 1\<rparr>) (c\<lparr>comp_ast := share_scope s s' (comp_ast c)\<rparr>)"
      and e: "fix_import k f c = Some c1" "fix_imports k fs c1 = Some c'"
    using "2.prems"(1) by (auto simp: fix_import_def split: Option.bind_splits)
  have "comp_inv c1" unfolding c1
    using comp_inv_share [OF "2.prems"(2) comp_inv_body [OF "2.prems"(2,3) s]] by (simp add: comp_inv_upd_import)
  moreover have "length (import_list c1) = length (import_list c)" by (simp add: c1)
  ultimately show ?case using "2.IH" [OF e(1,2)] "2.prems"(3) by simp
qed simp

lemma do_fixups_comp_inv:
  assumes "do_fixups k c = Some c'" and "comp_inv c" and "k < length (import_list c)"
  shows "comp_inv c'"
proof -
  obtain c1 where "fix_imports k (fixups (import_list c ! k)) c = Some c1"
      and "c' = upd_import k (\<lambda>i. i\<lparr>fixups := [], deps_now := 0, deps_count := 0\<rparr>) c1"
    using assms(1) by (auto simp: do_fixups_def split: Option.bind_splits)
  then show ?thesis using fix_imports_comp_inv assms(2,3) by (simp add: comp_inv_upd_import)
qed

lemma link_import_comp_inv:
  assumes "link_import k nm found c = Some c'" and "comp_inv c" and "\<And>j. found = Some j \<Longrightarrow> j < length (import_list c)"
  shows "comp_inv c'"
proof (cases found)
  case None
  have "comp_inv (snd (createImport nm c))"
    using assms(2) tables_inv_create by (simp add: createImport_def comp_inv_def)
  then have "comp_inv (wait_for k (length (import_list c)) (snd (createImport nm c)))"
    by (simp add: wait_for_def comp_inv_upd_import)
  moreover have "comp_inv (push_task t x) = comp_inv x" for t x by (simp add: push_task_def comp_inv_def)
  ultimately show ?thesis using assms(1) None by (auto simp: link_import_def createImport_def)
next
  case (Some j)
  show ?thesis
  proof (cases "imp_body (import_list c ! j)")
    case None
    then show ?thesis using assms(1,2) Some by (auto simp: link_import_def wait_for_def comp_inv_upd_import)
  next
    case b: (Some s')
    then show ?thesis using assms Some comp_inv_share [OF assms(2) comp_inv_body [OF assms(2)]]
      by (auto simp: link_import_def split: Option.bind_splits)
  qed
qed

section \<open>Reachable states\<close>

lemma lexing_import:
  assumes "dep_inv False c ths" and "i < length ths" and "ths ! i = Busy t" and "task_type t = TASK_LEX_FILE"
    and "task_imp t = Some k"
  shows "k < length (import_list c) \<and> imp_body (import_list c ! k) = None"
proof -
  have "thread_in (length (import_list c)) (ths ! i)"
    using assms(1) nth_mem [OF assms(2)] by (simp add: dep_inv_def indices_in_def)
  then have k: "k < length (import_list c)" using assms(3,5) by (simp add: thread_in_def task_in_def)
  have "lex_of (ths ! i) = Some k" using assms(3-5) by (simp add: lex_token_def)
  then have "Some k \<in> set (map lex_of ths)" using nth_mem [OF assms(2)] by force
  then have "count_list (map lex_of ths) (Some k) \<noteq> 0" by (simp only: count_list_0_iff) blast
  then have "lexers (comp_tasks c) ths k \<noteq> 0" by (simp add: lexers_def)
  moreover have "import_ok False c ths k" using assms(1) k by (simp add: dep_inv_def)
  ultimately show ?thesis using k by (simp add: import_ok_def split: if_splits)
qed

lemma comp_inv_step:
  assumes dep: "dep_inv False c ths" and inv: "comp_inv c" and step: "sys_step env (c, ths) (c', ths')"
  shows "comp_inv c'"
  using step
proof (cases rule: sys_step.cases)
  case (step_thread i th)
  note st = step_thread
  have tin: "thread_in (length (import_list c)) (ths ! i)"
    using dep nth_mem [OF st(2)] by (simp add: dep_inv_def indices_in_def)
  have same: "comp_ast c' = comp_ast c \<Longrightarrow> import_list c' = import_list c \<Longrightarrow> ?thesis"
    using comp_inv_cong [of c' c] inv by simp
  show ?thesis
  proof (cases "ths ! i")
    case Entered
    have "comp_ast (signal x) = comp_ast x" for x by (simp add: signal_def)
    then show ?thesis using st Entered
      by (intro same) (auto simp: thread_step_def take_task_def count_exit_def Let_def split: option.splits if_splits)
  next
    case (Busy t)
    then have d: "do_task env t c = Some (c', th)" using st by (simp add: thread_step_def)
    show ?thesis
    proof (cases "task_type t = TASK_LEX_FILE")
      case True
      then show ?thesis
        using do_lex_comp_inv [OF _ inv] lexing_import [OF dep st(2) Busy True] d by (simp add: do_task_def)
    next
      case False
      then show ?thesis using later_task_comp_inv [OF d _ inv] tin by (simp add: Busy thread_in_def)
    qed
  next
    case (Parsed t k)
    then obtain nms where "do_fixups k c = Some c'" "th = Linking t k nms"
      using st by (auto simp: thread_step_def split: Option.bind_splits)
    then show ?thesis using do_fixups_comp_inv [OF _ inv] tin by (simp add: Parsed thread_in_def)
  next
    case (Linking t k nms)
    then show ?thesis using st by (intro same; cases nms) (auto simp: thread_step_def)
  next
    case (Found t k nm found nms)
    then have "link_import k nm found c = Some c'" using st by (auto simp: thread_step_def split: Option.bind_splits)
    then show ?thesis using link_import_comp_inv [OF _ inv] tin by (simp add: Found thread_in_def)
  next
    case (Finishing t q)
    have "comp_ast (signal x) = comp_ast x" for x by (simp add: signal_def)
    then show ?thesis using st Finishing
      by (intro same) (auto simp: thread_step_def finish_task_def push_task_def Let_def)
  qed (use st inv in \<open>auto simp: thread_step_def comp_inv_def\<close>)
qed

lemma initial_tables: "tables_inv initial_ast [(new_import ''preload'')\<lparr>imp_body := Some 0\<rparr>]"
proof -
  have "\<forall>fn\<in>set native_functions. fn_body fn = None"
    by (simp add: native_functions_def native_function_def new_function_def)
  then have "tables_within initial_ast [(new_import ''preload'')\<lparr>imp_body := Some 0\<rparr>]"
    using initial_ast_types by (simp add: tables_within_def function_within_def import_within_def new_import_def initial_scope)
  moreover have "objects_owned initial_ast [(new_import ''preload'')\<lparr>imp_body := Some 0\<rparr>]"
    by (simp add: objects_owned_def bodies_apart_def initial_ast_def init_scope_def new_import_def length_native_functions)
  ultimately show ?thesis by (simp add: tables_inv_def)
qed

interpretation tables: thread_invariant env "\<lambda>c ths. dep_inv False c ths \<and> comp_inv c" for env
proof
  fix nm c n assume "compile_init nm = Some c"
  then show "dep_inv False c (replicate n Starting) \<and> comp_inv c"
    using compile_init_eq initial_tables dependency.holds_at_start [of _ _ False] by (simp add: comp_inv_def)
next
  fix c ths c' ths' assume "dep_inv False c ths \<and> comp_inv c" "sys_step env (c, ths) (c', ths')"
  then show "dep_inv False c' ths' \<and> comp_inv c'" using dep_step comp_inv_step by blast
qed

lemma reachable_comp_inv: "reachable env s \<Longrightarrow> comp_inv (fst s)"
  using tables.holds_when_reachable by blast

section \<open>Properties\<close>

text \<open>
  C7. The tables are right at every moment of a compilation by any number of threads: the types of
  all variables, parameters, results and members are in the table of types, the scope and the
  structures of every file and the scopes of all bodies are in their tables, and the functions
  are listed in the scopes one after the other.
\<close>

theorem tables_always_right:
  assumes "reachable env (c, ths)"
  shows "types_ok (comp_ast c) \<and> (\<forall>imp\<in>set (import_list c). import_within (comp_ast c) imp)
    \<and> (\<forall>fn\<in>set (ast_functions (comp_ast c)). function_within (length (scopes (comp_ast c))) fn)
    \<and> concat (map scope_functions (scopes (comp_ast c))) = [0..<length (ast_functions (comp_ast c))]"
  using reachable_comp_inv [OF assms]
  by (simp add: comp_inv_def tables_inv_def tables_within_def objects_owned_def)

theorem tables_always_right_witness:
  "types_ok (comp_ast (fst two_threads))
    \<and> concat (map scope_functions (scopes (comp_ast (fst two_threads)))) = [0..<length (ast_functions (comp_ast (fst two_threads)))]"
  using tables_always_right [of empty_files "fst two_threads" "snd two_threads"] two_threads_reachable [of empty_files]
  by simp

end
