(* ===== verification/AstCleanup.thy ===== *)
theory AstCleanup
  imports ReachableTables
begin

text \<open>
  \<^verbatim>\<open>AST::cleanup\<close> of include/AST.h and the \<^verbatim>\<open>destroy\<close> functions of src/AST.cpp: what they free, as
  a list in the order in which they free it, and that nothing is freed twice whatever the
  threads of the compilation have done.
\<close>

section \<open>Freeing the tree\<close>

text \<open>What is freed, in the order in which it is.\<close>

datatype Freed =
    FreedExpression ExprKind
  | FreedStatement
  | FreedBlock nat
  | FreedFunction nat
  | FreedStructure nat
  | FreedBody nat
  | FreedImport nat
  | FreedTypes
  | FreedScope nat

fun destroyExpression :: "ASTExpression \<Rightarrow> Freed list" where
  "destroyExpression (ECall l n args) = concat (map destroyExpression args) @ [FreedExpression FUNCTION_CALL]"
| "destroyExpression (EBinary k l a b) = destroyExpression a @ destroyExpression b @ [FreedExpression k]"
| "destroyExpression (EUnary k l a) = destroyExpression a @ [FreedExpression k]"
| "destroyExpression (EIndex l a b) =
    destroyExpression a @ (case b of None \<Rightarrow> [] | Some b' \<Rightarrow> destroyExpression b') @ [FreedExpression INDEX]"
| "destroyExpression (EMember l a n) = destroyExpression a @ [FreedExpression MEMBER]"
| "destroyExpression (ECast l a n) = destroyExpression a @ [FreedExpression CAST]"
| "destroyExpression e = [FreedExpression (expr_kind e)]"

definition destroy_value :: "ASTExpression option \<Rightarrow> Freed list" where
  "destroy_value e = (case e of None \<Rightarrow> [] | Some e' \<Rightarrow> destroyExpression e')"

text \<open>The body of a block or of a function has no functions and structures of its own.\<close>

fun destroyStatement :: "ASTStatement \<Rightarrow> Freed list"
  and destroyBody :: "ASTBody \<Rightarrow> Freed list" where
  "destroyStatement (SVarDecl l n t e) = destroy_value e @ [FreedStatement]"
| "destroyStatement (SGlobalDecl l n t) = [FreedStatement]"
| "destroyStatement (SConstDecl l n t e) = destroy_value e @ [FreedStatement]"
| "destroyStatement (SExpression l e) = destroyExpression e @ [FreedStatement]"
| "destroyStatement (SIf l e b b2) =
    destroyExpression e @ destroyBody b @ (case b2 of None \<Rightarrow> [] | Some b' \<Rightarrow> destroyBody b') @ [FreedStatement]"
| "destroyStatement (SWhile l e b) = destroyExpression e @ destroyBody b @ [FreedStatement]"
| "destroyStatement (SBreak l) = [FreedStatement]"
| "destroyStatement (SContinue l) = [FreedStatement]"
| "destroyStatement (SReturn l e) = destroy_value e @ [FreedStatement]"
| "destroyBody (ASTBody s ss) = concat (map destroyStatement ss) @ [FreedBlock s]"

definition destroyFunction :: "AST \<Rightarrow> nat \<Rightarrow> Freed list" where
  "destroyFunction a f =
    (case fn_body (ast_functions a ! f) of None \<Rightarrow> [] | Some b \<Rightarrow> destroyBody b) @ [FreedFunction f]"

definition destroyStructure :: "nat \<Rightarrow> Freed list" where
  "destroyStructure i = [FreedStructure i]"

text \<open>The body of a file: its statements, functions and structures.\<close>

definition destroy_file_body :: "AST \<Rightarrow> nat \<Rightarrow> ASTStatement list \<Rightarrow> nat list \<Rightarrow> Freed list" where
  "destroy_file_body a s ss sts =
    concat (map destroyStatement ss) @ concat (map (destroyFunction a) (scope_functions (scopes a ! s)))
    @ concat (map destroyStructure sts) @ [FreedBody s]"

text \<open>The body of an import is followed without a test.\<close>

definition destroy_import :: "AST \<Rightarrow> Import list \<Rightarrow> nat \<Rightarrow> Freed list option" where
  "destroy_import a is k =
    do {
      s \<leftarrow> imp_body (is ! k);
      Some (destroy_file_body a s (imp_statements (is ! k)) (imp_structures (is ! k)) @ [FreedImport k])
    }"

text \<open>The global body is that of scope 0; it is not freed again when an import had it.\<close>

definition ast_cleanup :: "AST \<Rightarrow> Import list \<Rightarrow> Freed list option" where
  "ast_cleanup a is =
    do {
      imports \<leftarrow> those (map (destroy_import a is) [0..<length is]);
      Some (concat imports
        @ (if Some 0 \<in> set (map imp_body is) then [] else destroy_file_body a 0 [] [])
        @ [FreedTypes] @ map FreedScope [0..<length (scopes a)])
    }"

section \<open>What a tree frees\<close>

definition inner :: "Freed \<Rightarrow> bool" where
  "inner x \<longleftrightarrow> (\<exists>k s. x = FreedExpression k \<or> x = FreedStatement \<or> x = FreedBlock s)"

lemma inner_simps [simp]:
  "inner (FreedExpression k)" "inner FreedStatement" "inner (FreedBlock s)" "\<not> inner (FreedFunction f)"
  "\<not> inner (FreedStructure i)" "\<not> inner (FreedBody s)"
  by (simp_all add: inner_def)

lemma expression_inner: "\<forall>x\<in>set (destroyExpression e). inner x"
  by (induction e rule: destroyExpression.induct) (auto split: option.splits)

lemma value_inner: "\<forall>x\<in>set (destroy_value e). inner x"
  using expression_inner by (auto simp: destroy_value_def split: option.splits)

lemma body_inner: "\<forall>x\<in>set (destroyStatement s). inner x" "\<forall>x\<in>set (destroyBody b). inner x"
  by (induction s and b rule: destroyStatement_destroyBody.induct)
    (auto simp: expression_inner value_inner split: option.splits)

lemma count_list_concat: "count_list (concat xss) x = sum_list (map (\<lambda>xs. count_list xs x) xss)"
  by (induction xss) simp_all

lemma count_inner: "\<forall>y\<in>set ys. inner y \<Longrightarrow> \<not> inner x \<Longrightarrow> count_list ys x = 0"
  by (auto simp: count_list_0_iff)

lemma count_function: "count_list (destroyFunction a f) x = (if x = FreedFunction f then 1 else 0)" if "\<not> inner x"
  using count_inner [OF body_inner(2) that] by (auto simp: destroyFunction_def split: option.splits)

lemma count_file_body:
  assumes "\<not> inner x"
  shows "count_list (destroy_file_body a s ss sts) x =
    count_list (map FreedFunction (scope_functions (scopes a ! s))) x + count_list (map FreedStructure sts) x
    + (if x = FreedBody s then 1 else 0)"
proof -
  have "count_list (concat (map destroyStatement ss)) x = 0"
    using body_inner(1) assms by (intro count_inner) auto
  moreover have "count_list (concat (map (destroyFunction a) fs)) x = count_list (map FreedFunction fs) x" for fs
    by (induction fs) (simp_all add: count_function [OF assms])
  moreover have "concat (map destroyStructure sts) = map FreedStructure sts"
    by (induction sts) (simp_all add: destroyStructure_def)
  ultimately show ?thesis by (simp add: destroy_file_body_def)
qed

text \<open>Over all imports.\<close>

lemma those_map_Some: "\<forall>x\<in>set xs. f x = Some (g x) \<Longrightarrow> those (map f xs) = Some (map g xs)"
  by (induction xs) auto

lemma those_None: "those (map f xs) = None \<longleftrightarrow> (\<exists>x\<in>set xs. f x = None)"
  by (induction xs) (auto split: option.split)

lemma ast_cleanup_None: "ast_cleanup a is = None \<longleftrightarrow> (\<exists>imp\<in>set is. imp_body imp = None)"
proof -
  have d: "destroy_import a is k = None \<longleftrightarrow> imp_body (is ! k) = None" for k
    by (cases "imp_body (is ! k)") (simp_all add: destroy_import_def)
  have "ast_cleanup a is = None \<longleftrightarrow> those (map (destroy_import a is) [0..<length is]) = None"
    by (cases "those (map (destroy_import a is) [0..<length is])") (simp_all add: ast_cleanup_def)
  also have "\<dots> \<longleftrightarrow> (\<exists>k<length is. imp_body (is ! k) = None)" unfolding those_None d by auto
  finally show ?thesis by (metis in_set_conv_nth)
qed

definition file_scope :: "Import \<Rightarrow> nat" where
  "file_scope imp = the (imp_body imp)"

lemma ast_cleanup_log:
  assumes "\<forall>imp\<in>set is. imp_body imp \<noteq> None"
  shows "ast_cleanup a is = Some
    (concat (map (\<lambda>k. destroy_file_body a (file_scope (is ! k)) (imp_statements (is ! k)) (imp_structures (is ! k)) @ [FreedImport k])
       [0..<length is])
     @ (if Some 0 \<in> set (map imp_body is) then [] else destroy_file_body a 0 [] [])
     @ [FreedTypes] @ map FreedScope [0..<length (scopes a)])"
proof -
  have "\<forall>k\<in>set [0..<length is]. destroy_import a is k
      = Some (destroy_file_body a (file_scope (is ! k)) (imp_statements (is ! k)) (imp_structures (is ! k)) @ [FreedImport k])"
  proof
    fix k assume "k \<in> set [0..<length is]"
    then have "imp_body (is ! k) \<noteq> None" using assms by simp
    then show "destroy_import a is k
      = Some (destroy_file_body a (file_scope (is ! k)) (imp_statements (is ! k)) (imp_structures (is ! k)) @ [FreedImport k])"
      by (auto simp: destroy_import_def file_scope_def)
  qed
  from those_map_Some [OF this] show ?thesis by (simp add: ast_cleanup_def)
qed

text \<open>Sums over the files are sums over the scopes.\<close>

lemma sum_files:
  assumes "distinct bs" and "set bs \<subseteq> {..<n}" and "\<And>s. s < n \<Longrightarrow> s \<notin> set bs \<Longrightarrow> g s = (0 :: nat)"
  shows "(\<Sum>b\<leftarrow>bs. g b) = (\<Sum>s\<leftarrow>[0..<n]. g s)"
proof -
  have "(\<Sum>b\<leftarrow>bs. g b) = sum g (set bs)" using assms(1) by (rule sum_list_distinct_conv_sum_set)
  also have "\<dots> = sum g {..<n}" using assms(2,3) by (intro sum.mono_neutral_left) auto
  also have "\<dots> = (\<Sum>s\<leftarrow>[0..<n]. g s)" by (simp add: interv_sum_list_conv_sum_set_nat atLeast0LessThan)
  finally show ?thesis .
qed

lemma bodies_distinct:
  assumes "bodies_apart is" and "\<forall>imp\<in>set is. imp_body imp \<noteq> None"
  shows "distinct (map file_scope is)"
  using assms by (induction "is") (force simp: bodies_apart_def file_scope_def)+

lemma count_upt: "count_list [0..<n] i = (if i < n then 1 else 0)"
  by (induction n) auto

lemma count_map_inj: "inj g \<Longrightarrow> count_list (map g xs) (g y) = count_list xs y"
  by (induction xs) (auto dest: injD)

text \<open>How often an object is freed, when every file has a body.\<close>

lemma count_freed:
  assumes inv: "tables_inv a is" and parsed: "\<forall>imp\<in>set is. imp_body imp \<noteq> None"
    and log: "ast_cleanup a is = Some log" and x: "\<not> inner x" "\<And>k. x \<noteq> FreedImport k" "x \<noteq> FreedTypes" "\<And>s. x \<noteq> FreedScope s"
  shows "count_list log x =
    count_list (map FreedFunction [0..<length (ast_functions a)]) x
    + count_list (map FreedStructure [0..<length (ast_structures a)]) x
    + (if \<exists>s. x = FreedBody s \<and> (s = 0 \<or> Some s \<in> set (map imp_body is)) then 1 else 0)"
proof -
  have owned: "concat (map scope_functions (scopes a)) = [0..<length (ast_functions a)]"
      "\<And>s. s < length (scopes a) \<Longrightarrow> scope_functions (scopes a ! s) \<noteq> [] \<Longrightarrow> Some s \<in> imp_body ` set is"
      "mset (concat (map imp_structures is)) = mset [0..<length (ast_structures a)]" "bodies_apart is"
      "0 < length (scopes a)"
    using inv by (auto simp: tables_inv_def objects_owned_def tables_within_def)
  let ?bs = "map file_scope is" and ?n = "length (scopes a)"
  let ?g = "\<lambda>s. count_list (map FreedFunction (scope_functions (scopes a ! s))) x"
  let ?one = "\<lambda>s. if x = FreedBody s then 1 else (0 :: nat)"
  have bs: "Some s \<in> imp_body ` set is \<longleftrightarrow> s \<in> set ?bs" for s
    using parsed by (force simp: file_scope_def image_iff)
  have d: "distinct ?bs" by (rule bodies_distinct [OF owned(4) parsed])
  have range: "set ?bs \<subseteq> {..<?n}"
    using inv parsed by (force simp: tables_inv_def tables_within_def import_within_def file_scope_def)
  have none: "?g s = 0" if "s < ?n" "s \<notin> set ?bs" for s
    using owned(2) that bs by (cases "scope_functions (scopes a ! s)") auto
  have z: "(Some 0 \<in> set (map imp_body is)) = (0 \<in> set ?bs)" using bs [of 0] by simp
  have tail: "count_list ([FreedTypes] @ map FreedScope [0..<?n]) x = 0" using x(3,4) by (auto simp: count_list_0_iff)
  have part: "count_list (destroy_file_body a s ss sts @ [FreedImport k]) x
      = ?g s + count_list (map FreedStructure sts) x + ?one s" for s ss sts k
    using x(2) [symmetric] by (simp add: count_file_body [OF x(1)])
  have global_part: "count_list (if 0 \<in> set ?bs then [] else destroy_file_body a 0 [] []) x = (if 0 \<in> set ?bs then 0 else ?g 0 + ?one 0)"
    by (simp add: count_file_body [OF x(1)])
  let ?part = "\<lambda>k. destroy_file_body a (file_scope (is ! k)) (imp_statements (is ! k)) (imp_structures (is ! k)) @ [FreedImport k]"
  have l: "log = concat (map ?part [0..<length is]) @ (if 0 \<in> set ?bs then [] else destroy_file_body a 0 [] [])
      @ [FreedTypes] @ map FreedScope [0..<?n]"
    using log unfolding ast_cleanup_log [OF parsed] z option.inject by (rule sym)
  have "count_list log x =
      (\<Sum>k\<leftarrow>[0..<length is]. ?g (file_scope (is ! k)) + count_list (map FreedStructure (imp_structures (is ! k))) x + ?one (file_scope (is ! k)))
      + (if 0 \<in> set ?bs then 0 else ?g 0 + ?one 0)"
    unfolding l count_list_append [of "concat (map ?part [0..<length is])"]
      count_list_append [of "if 0 \<in> set ?bs then [] else destroy_file_body a 0 [] []"] global_part tail
    by (simp only: count_list_concat map_map comp_def part add_0_right)
  also have "(\<Sum>k\<leftarrow>[0..<length is]. ?g (file_scope (is ! k)) + count_list (map FreedStructure (imp_structures (is ! k))) x + ?one (file_scope (is ! k)))
      = (\<Sum>i\<leftarrow>is. ?g (file_scope i) + count_list (map FreedStructure (imp_structures i)) x + ?one (file_scope i))"
    by (subst map_nth [of "is", symmetric], subst map_map) (simp add: comp_def)
  also have "\<dots> = (\<Sum>s\<leftarrow>?bs. ?g s) + count_list (map FreedStructure (concat (map imp_structures is))) x + (\<Sum>s\<leftarrow>?bs. ?one s)"
    by (simp add: sum_list_addf comp_def map_concat count_list_concat)
  also have "(\<Sum>s\<leftarrow>?bs. ?g s) = count_list (map FreedFunction [0..<length (ast_functions a)]) x"
  proof -
    have "(\<Sum>s\<leftarrow>?bs. ?g s) = (\<Sum>s\<leftarrow>[0..<?n]. ?g s)" by (rule sum_files [OF d range none])
    also have "\<dots> = (\<Sum>sc\<leftarrow>scopes a. count_list (map FreedFunction (scope_functions sc)) x)"
      by (subst (2) map_nth [of "scopes a", symmetric], subst map_map) (simp add: comp_def)
    also have "\<dots> = count_list (map FreedFunction (concat (map scope_functions (scopes a)))) x"
      by (simp add: map_concat count_list_concat comp_def)
    finally show ?thesis by (simp add: owned(1))
  qed
  also have "count_list (map FreedStructure (concat (map imp_structures is))) x
      = count_list (map FreedStructure [0..<length (ast_structures a)]) x"
  proof -
    have "mset (map FreedStructure (concat (map imp_structures is))) = mset (map FreedStructure [0..<length (ast_structures a)])"
      by (simp only: mset_map owned(3))
    from arg_cong [OF this, of "\<lambda>m. count m x"] show ?thesis by (simp only: count_mset)
  qed
  also have "(\<Sum>s\<leftarrow>?bs. ?one s) = (if \<exists>s. x = FreedBody s \<and> s \<in> set ?bs then 1 else 0)"
  proof -
    have "(\<Sum>s\<leftarrow>?bs. ?one s) = (\<Sum>s\<in>set ?bs. ?one s)" using d by (rule sum_list_distinct_conv_sum_set)
    then show ?thesis by (cases "\<exists>s. x = FreedBody s") (auto simp: sum.delta)
  qed
  finally show ?thesis using none [of 0] owned(5) bs by (auto simp: image_iff)
qed

section \<open>Properties\<close>

text \<open>
  C22. The clean-up of the tree at the end of a compilation, whatever the threads have done: it
  follows a null pointer exactly when some file has not been parsed, and otherwise it frees every
  function and every structure exactly once, also those of the natives and of files that were
  imported several times, and no body of a file twice.
\<close>

theorem cleanup_frees_once:
  assumes "reachable env (c, ths)"
  shows "(ast_cleanup (comp_ast c) (import_list c) = None \<longleftrightarrow> (\<exists>imp\<in>set (import_list c). imp_body imp = None))
    \<and> (\<forall>log. ast_cleanup (comp_ast c) (import_list c) = Some log \<longrightarrow>
        (\<forall>f. count_list log (FreedFunction f) = (if f < length (ast_functions (comp_ast c)) then 1 else 0))
        \<and> (\<forall>i. count_list log (FreedStructure i) = (if i < length (ast_structures (comp_ast c)) then 1 else 0))
        \<and> (\<forall>s. count_list log (FreedBody s) \<le> 1))"
proof (intro conjI allI impI)
  show "ast_cleanup (comp_ast c) (import_list c) = None \<longleftrightarrow> (\<exists>imp\<in>set (import_list c). imp_body imp = None)"
    by (rule ast_cleanup_None)
  fix log assume log: "ast_cleanup (comp_ast c) (import_list c) = Some log"
  then have "\<forall>imp\<in>set (import_list c). imp_body imp \<noteq> None"
    using ast_cleanup_None [of "comp_ast c" "import_list c"] by simp
  note count = count_freed [OF reachable_comp_inv [OF assms, unfolded comp_inv_def fst_conv] this log]
  have other: "count_list (map g xs) y = 0" if "\<And>z. g z \<noteq> y" for g :: "nat \<Rightarrow> Freed" and xs y
    using that by (auto simp: count_list_0_iff)
  show "count_list log (FreedFunction f) = (if f < length (ast_functions (comp_ast c)) then 1 else 0)" for f
    by (simp add: count other count_map_inj inj_def count_upt)
  show "count_list log (FreedStructure i) = (if i < length (ast_structures (comp_ast c)) then 1 else 0)" for i
    by (simp add: count other count_map_inj inj_def count_upt)
  show "count_list log (FreedBody s) \<le> 1" for s
    by (simp add: count other)
qed

theorem cleanup_frees_once_witness:
  "\<exists>log. ast_cleanup (comp_ast (fst two_threads)) (import_list (fst two_threads)) = Some log
    \<and> count_list log (FreedFunction 0) = 1 \<and> count_list log (FreedStructure 0) = 0"
proof -
  have c: "compile_init ''a'' = Some (fst two_threads)"
    by (simp add: two_threads_def compile_init_def ast_init_eq Let_def split_beta)
  have r: "reachable empty_files (fst two_threads, snd two_threads)" using two_threads_reachable by simp
  note f = cleanup_frees_once [OF r]
  have "ast_cleanup (comp_ast (fst two_threads)) (import_list (fst two_threads)) \<noteq> None"
    using f compile_init_eq [OF c] by simp
  then obtain log where log: "ast_cleanup (comp_ast (fst two_threads)) (import_list (fst two_threads)) = Some log" by blast
  moreover have "comp_ast (fst two_threads) = initial_ast" using compile_init_eq [OF c] by simp
  ultimately show ?thesis using f by (auto simp: initial_ast_def length_native_functions)
qed

text \<open>
  C23. An imported file that cannot be read or lexed makes the end of the compilation follow a null
  pointer.  Its task is reported and not put back, the import stays in the list without a body,
  and the clean-up of the tree has no defined result.
\<close>

theorem missing_import_crashes:
  assumes "task_type t = TASK_LEX_FILE" and "task_imp t = Some k"
    and "k < length (import_list c)" and "imp_body (import_list c ! k) = None"
    and "lex_file (ce_lex env) (task_name t) (ce_files env (task_name t)) = None"
  shows "\<exists>c' c''. thread_step env c (Busy t) = Some (c', Finishing t False) \<and> comp_errors c' = comp_errors c + 1
    \<and> thread_step env c' (Finishing t False) = Some (c'', Waiting)
    \<and> comp_tasks c'' = comp_tasks c \<and> ast_cleanup (comp_ast c'') (import_list c'') = None"
proof (intro exI conjI)
  let ?c = "c\<lparr>comp_errors := comp_errors c + 1\<rparr>"
  show "thread_step env c (Busy t) = Some (?c, Finishing t False)"
    using assms by (simp add: thread_step_def do_task_def do_lex_def)
  show "thread_step env ?c (Finishing t False) = Some (finish_task t False ?c, Waiting)"
    by (simp add: thread_step_def)
  show "comp_tasks (finish_task t False ?c) = comp_tasks c" by (simp add: finish_task_def Let_def)
  have "import_list (finish_task t False ?c) = import_list c" by (simp add: finish_task_def Let_def)
  then show "ast_cleanup (comp_ast (finish_task t False ?c)) (import_list (finish_task t False ?c)) = None"
    using assms(3,4) nth_mem unfolding ast_cleanup_None by metis
qed simp

definition no_files :: comp_env where
  "no_files = empty_files\<lparr>ce_files := (\<lambda>nm. None)\<rparr>"

theorem missing_import_crashes_witness:
  "\<exists>c' c''. thread_step no_files (snd (createImport ''b'' (fst two_threads)))
      (Busy \<lparr>task_type = TASK_LEX_FILE, task_name = ''b'', task_imp = Some 1, no_change = False\<rparr>)
      = Some (c', Finishing \<lparr>task_type = TASK_LEX_FILE, task_name = ''b'', task_imp = Some 1, no_change = False\<rparr> False)
    \<and> thread_step no_files c' (Finishing \<lparr>task_type = TASK_LEX_FILE, task_name = ''b'', task_imp = Some 1, no_change = False\<rparr> False)
      = Some (c'', Waiting)
    \<and> ast_cleanup (comp_ast c'') (import_list c'') = None"
proof -
  let ?t = "\<lparr>task_type = TASK_LEX_FILE, task_name = ''b'', task_imp = Some 1, no_change = False\<rparr>"
  have c: "compile_init ''a'' = Some (fst two_threads)"
    by (simp add: two_threads_def compile_init_def ast_init_eq Let_def split_beta)
  have i: "import_list (snd (createImport ''b'' (fst two_threads)))
      = [(new_import ''preload'')\<lparr>imp_body := Some 0\<rparr>, new_import ''b'']"
    using compile_init_eq [OF c] by (simp add: createImport_def)
  have "\<exists>c' c''. thread_step no_files (snd (createImport ''b'' (fst two_threads))) (Busy ?t) = Some (c', Finishing ?t False)
    \<and> comp_errors c' = comp_errors (snd (createImport ''b'' (fst two_threads))) + 1
    \<and> thread_step no_files c' (Finishing ?t False) = Some (c'', Waiting)
    \<and> comp_tasks c'' = comp_tasks (snd (createImport ''b'' (fst two_threads)))
    \<and> ast_cleanup (comp_ast c'') (import_list c'') = None"
    by (rule missing_import_crashes) (simp_all add: i, simp_all add: new_import_def no_files_def lex_file_def)
  then show ?thesis by blast
qed

end
