(* ===== verification/Listing.thy ===== *)
theory Listing
  imports VirtualMachine Parser
begin

text \<open>
  What the compiler prints about its data: the listing of bytecode (\<^verbatim>\<open>BytecodePiece::print\<close>, which
  the machine also uses when it refuses an access), the tokens and the tree.  The functions give
  the text; the colours of the console are left out.
\<close>

section \<open>The listing of a piece\<close>

definition opcode_names :: "string list" where
  "opcode_names =
    [''halt'', ''nop'', ''cast'', ''mov_rr'', ''mov_mr'', ''mov_rm'', ''push'', ''pop'', ''incr'',
     ''add'', ''sub'', ''mul'', ''div'', ''and'', ''or'', ''not'',
     ''equal'', ''not_equal'', ''less'', ''greater'', ''less_equal'', ''greater_equal'',
     ''ret'', ''memzero'', ''li'', ''jmp'', ''jz'', ''call'', ''mov_mr_disp'', ''mov_rm_disp'', ''dataptr'']"

definition register_names :: "string list" where
  "register_names =
    [''invalid'', ''a'', ''b'', ''c'', ''d'', ''e'', ''f'', ''sp'', ''bp'', ''pc'', ''t0'', ''t1'']"

definition register_name :: "u8 \<Rightarrow> string option" where
  "register_name r = nth_opt register_names (unat r)"

text \<open>\<^verbatim>\<open>%3d\<close> of a number that is not negative.\<close>

definition padded :: "nat \<Rightarrow> string" where
  "padded n = replicate (3 - length (nat_digits n)) (CHR '' '') @ nat_digits n"

text \<open>The line of the source when it is another one than that of the last instruction.\<close>

definition print_debug_line :: "BytecodePiece \<Rightarrow> nat \<Rightarrow> int \<times> int \<Rightarrow> (string \<times> int \<times> int) option" where
  "print_debug_line p pc seen =
    (case nth_opt (line_of_instruction p) pc of
       None \<Rightarrow> Some ([], seen)
     | Some line_index \<Rightarrow>
         if line_index \<noteq> - 1 \<and> seen \<noteq> (piece_index p, line_index) then
           (if line_index < 0 then None
            else do {
              (n, txt) \<leftarrow> nth_opt (lines p) (nat line_index);
              Some ('' '' @ int_to_string n @ '': '' @ txt @ [chr_nl], (piece_index p, line_index))
            })
         else Some ([], seen))"

definition size_word :: "u8 \<Rightarrow> string" where
  "size_word sz =
    (if sz = 1 then '', byte'' else if sz = 2 then '', word'' else if sz = 4 then '', dword''
     else if sz = 8 then '', qword'' else [])"

definition is_move :: "Instruction \<Rightarrow> bool" where
  "is_move i \<longleftrightarrow> opcode i \<in> opcode_byte ` {INST_MOV_MR, INST_MOV_RM, INST_MOV_MR_DISP, INST_MOV_RM_DISP}"

definition print_operands :: "Instruction \<Rightarrow> string option" where
  "print_operands i =
    (if opcode i = opcode_byte INST_INCR then do {
       r \<leftarrow> register_name (op0 i);
       Some ('' '' @ r @ '', '' @ int_to_string (incr_imm (op1 i) (op2 i)))
     }
     else do {
       r0 \<leftarrow> (if op0 i = 0 then Some [] else map_option (\<lambda>r. '' '' @ r) (register_name (op0 i)));
       r1 \<leftarrow> (if op1 i = 0 then Some [] else map_option (\<lambda>r. '', '' @ r) (register_name (op1 i)));
       Some (r0 @ r1 @ (if is_move i then size_word (op2 i) else []))
     })"

text \<open>\<^verbatim>\<open>NAME_OF_NATIVE\<close> and the name of a piece.\<close>

definition native_name_at :: "int \<Rightarrow> string option" where
  "native_name_at k = map_option native_names (native_of k)"

definition piece_name_at :: "Bytecode \<Rightarrow> int \<Rightarrow> string option" where
  "piece_name_at b k = map_option piece_name (getPiece k b)"

text \<open>A call that is not linked yet is looked up in the relocations.\<close>

fun unlinked_name :: "(nat \<Rightarrow> int) \<Rightarrow> Bytecode \<Rightarrow> nat \<Rightarrow> Relocation list \<Rightarrow> string option" where
  "unlinked_name pci b i [] = Some ''unresolved''"
| "unlinked_name pci b i (r # rs) =
     (if index_of_immediate r = i then do {
        f \<leftarrow> rel_function r;
        (if pci f = 0 then unlinked_name pci b i rs
         else if pci f < 0 then native_name_at (pci f + NATIVE_MAX)
         else piece_name_at b (pci f - 1))
      }
      else unlinked_name pci b i rs)"

definition called_name :: "(nat \<Rightarrow> int) \<Rightarrow> Bytecode \<Rightarrow> BytecodePiece \<Rightarrow> nat \<Rightarrow> int \<Rightarrow> string option" where
  "called_name pci b p i imm =
    (if imm = 0 then unlinked_name pci b i (relocations p)
     else if imm < 0 then native_name_at (imm + NATIVE_MAX)
     else piece_name_at b (imm - 1))"

text \<open>The immediate is in cell \<open>i\<close>.\<close>

definition print_immediate ::
  "(nat \<Rightarrow> int) \<Rightarrow> Bytecode option \<Rightarrow> BytecodePiece \<Rightarrow> Instruction \<Rightarrow> nat \<Rightarrow> string option" where
  "print_immediate pci b p x i =
    do {
      c \<leftarrow> nth_opt (instructions p) i;
      let imm = sint (cell_of_inst c);
      (if b \<noteq> None \<and> opcode x = opcode_byte INST_CALL then
         map_option (\<lambda>nm. '' '' @ nm) (called_name pci (the b) p i imm)
       else if opcode x \<in> {opcode_byte INST_JMP, opcode_byte INST_JZ} then
         Some ('', '' @ int_to_string (imm + int i) @ '':'')
       else Some ('', '' @ int_to_string imm))
    }"

text \<open>
  The instructions from \<open>i\<close> to the end of the range, each with its position; a pointer to no
  bytecode is \<open>None\<close>.
\<close>

function print_loop ::
  "(nat \<Rightarrow> int) \<Rightarrow> Bytecode option \<Rightarrow> BytecodePiece \<Rightarrow> bool \<Rightarrow> bool \<Rightarrow> nat \<Rightarrow> nat \<Rightarrow> int \<times> int \<Rightarrow> (nat \<times> string) list option" where
  "print_loop pci b p with_debug_info newline high i seen =
    (if i < high then do {
       x \<leftarrow> nth_opt (instructions p) i;
       (line, seen') \<leftarrow> (if with_debug_info then print_debug_line p i seen else Some ([], seen));
       name \<leftarrow> nth_opt opcode_names (unat (opcode x));
       ops \<leftarrow> print_operands x;
       let has_imm = opcode x \<in> opcode_byte `
         {INST_LI, INST_JMP, INST_JZ, INST_CALL, INST_MOV_MR_DISP, INST_MOV_RM_DISP, INST_DATAPTR};
       imm \<leftarrow> (if has_imm then print_immediate pci b p x (i + 1) else Some []);
       rest \<leftarrow> print_loop pci b p with_debug_info newline high (if has_imm then i + 2 else i + 1) seen';
       Some ((i, line @ '' '' @ padded i @ '':'' @ '' '' @ name @ ops @ imm @ (if newline then [chr_nl] else [])) # rest)
     }
     else Some [])"
  by pat_completeness auto
termination
  by (relation "measure (\<lambda>(pci, b, p, d, nl, high, i, seen). high - i)") auto

declare print_loop.simps [simp del]

definition print_piece ::
  "(nat \<Rightarrow> int) \<Rightarrow> Bytecode option \<Rightarrow> bool \<Rightarrow> nat \<Rightarrow> int \<Rightarrow> BytecodePiece \<Rightarrow> (nat \<times> string) list option" where
  "print_piece pci b with_debug_info low_index high_index p =
    (let n = length (instructions p);
         high1 = (if high_index = - 1 \<or> high_index > int n then n else nat high_index)
     in print_loop pci b p with_debug_info (1 < int high1 - int low_index) high1 low_index (- 1, - 1))"

definition listing_text :: "(nat \<times> string) list \<Rightarrow> string" where
  "listing_text entries = concat (map snd entries)"

definition print_bytecode :: "(nat \<Rightarrow> int) \<Rightarrow> Bytecode \<Rightarrow> string option" where
  "print_bytecode pci b =
    do {
      texts \<leftarrow> those (map (\<lambda>p. do {
        es \<leftarrow> print_piece pci (Some b) True 0 (- 1) p;
        Some (piece_name p @ ''['' @ nat_digits (length (instructions p)) @ '']:'' @ [chr_nl] @ listing_text es)
      }) (pieces b));
      Some (''Printing Bytecode:'' @ [chr_nl]
        @ (if pieces b = [] then '' No pieces (generated functions)'' @ [chr_nl] else []) @ concat texts)
    }"

section \<open>The tokens\<close>

definition print_token :: "lex_env \<Rightarrow> TokenStream \<Rightarrow> Token \<Rightarrow> string option" where
  "print_token env ts t =
    (case tok_type t of
       TOKEN_CHR c \<Rightarrow> Some [c, CHR '' '']
     | TOKEN_ID \<Rightarrow> map_option (\<lambda>s. s @ '' (id) '') (nth_opt (strings ts) (data_index t))
     | TOKEN_LITERAL_STRING \<Rightarrow> map_option (\<lambda>s. s @ '' (str) '') (nth_opt (strings ts) (data_index t))
     | TOKEN_LITERAL_CHAR \<Rightarrow> map_option (\<lambda>s. s @ '' (char) '') (nth_opt (strings ts) (data_index t))
     | TOKEN_LITERAL_INTEGER \<Rightarrow>
         map_option (\<lambda>v. int_to_string (sint v) @ '' (int) '') (nth_opt (integers ts) (data_index t))
     | TOKEN_LITERAL_DECIMAL \<Rightarrow>
         map_option (\<lambda>v. env_to_string env v @ '' (float) '') (nth_opt (floats ts) (data_index t))
     | k \<Rightarrow> Some (token_names k @ '' ''))"

definition print_tokens :: "lex_env \<Rightarrow> TokenStream \<Rightarrow> string option" where
  "print_tokens env ts =
    map_option (\<lambda>texts. concat texts @ [chr_nl]) (those (map (print_token env ts) (tokens ts)))"

section \<open>The tree\<close>

primrec expr_type_table :: "ExprKind \<Rightarrow> string" where
  "expr_type_table INVALID = ''invalid''"
| "expr_type_table IDENTIFIER = ''id''"
| "expr_type_table FUNCTION_CALL = ''call''"
| "expr_type_table ADD = ''add''"
| "expr_type_table SUB = ''sub''"
| "expr_type_table DIV = ''div''"
| "expr_type_table MUL = ''mul''"
| "expr_type_table AND' = ''and''"
| "expr_type_table OR' = ''or''"
| "expr_type_table NOT' = ''not''"
| "expr_type_table EQUAL = ''equal''"
| "expr_type_table NOT_EQUAL = ''not_equal''"
| "expr_type_table LESS = ''less''"
| "expr_type_table GREATER = ''greater''"
| "expr_type_table LESS_EQUAL = ''less_equal''"
| "expr_type_table GREATER_EQUAL = ''greater_equal''"
| "expr_type_table REFER = ''refer''"
| "expr_type_table DEREF = ''deref''"
| "expr_type_table INDEX = ''index''"
| "expr_type_table MEMBER = ''member''"
| "expr_type_table CAST = ''cast''"
| "expr_type_table ASSIGN = ''assign''"
| "expr_type_table PRE_INCREMENT = ''pre_increment''"
| "expr_type_table POST_INCREMENT = ''post_increment''"
| "expr_type_table PRE_DECREMENT = ''pre_decrement''"
| "expr_type_table POST_DECREMENT = ''post_decrement''"
| "expr_type_table SIZEOF = ''sizeof''"
| "expr_type_table LITERAL_INT = ''lit_int''"
| "expr_type_table LITERAL_FLOAT = ''lit_float''"
| "expr_type_table LITERAL_STR = ''lit_str''"
| "expr_type_table LITERAL_CHAR = ''lit_char''"
| "expr_type_table LITERAL_NULL = ''null''"
| "expr_type_table LITERAL_TRUE = ''true''"
| "expr_type_table LITERAL_FALSE = ''false''"

definition spaces :: "nat \<Rightarrow> string" where
  "spaces n = replicate n (CHR '' '')"

definition text_line :: "nat \<Rightarrow> string \<Rightarrow> string" where
  "text_line depth s = spaces depth @ s @ [chr_nl]"

fun print_expression :: "lex_env \<Rightarrow> nat \<Rightarrow> ASTExpression \<Rightarrow> string" where
  "print_expression env d (ECall l n args) = text_line d (n @ ''()'') @ concat (map (print_expression env (d + 1)) args)"
| "print_expression env d (EIdentifier l n) = text_line d n"
| "print_expression env d (ELitInt l v) = text_line d (int_to_string (sint v))"
| "print_expression env d (ELitFloat l v) = text_line d (env_to_string env v)"
| "print_expression env d (ELitStr l v) = text_line d ([CHR 0x22] @ v @ [CHR 0x22])"
| "print_expression env d (ELitChar l v) = text_line d ([CHR 0x27] @ v @ [CHR 0x27])"
| "print_expression env d (ESizeof l n) = text_line d (''sizeof '' @ n)"
| "print_expression env d (EBinary k l a b) =
    text_line d (expr_type_table k) @ print_expression env (d + 1) a @ print_expression env (d + 1) b"
| "print_expression env d (EUnary k l a) = text_line d (expr_type_table k) @ print_expression env (d + 1) a"
| "print_expression env d (EIndex l a b) =
    text_line d (expr_type_table INDEX) @ print_expression env (d + 1) a
    @ (case b of None \<Rightarrow> [] | Some b' \<Rightarrow> print_expression env (d + 1) b')"
| "print_expression env d (EMember l a n) = text_line d (expr_type_table MEMBER) @ print_expression env (d + 1) a"
| "print_expression env d (ECast l a n) = text_line d (expr_type_table CAST) @ print_expression env (d + 1) a"
| "print_expression env d e = text_line d (expr_type_table (expr_kind e))"

definition print_value :: "lex_env \<Rightarrow> nat \<Rightarrow> ASTExpression option \<Rightarrow> string" where
  "print_value env d e = (case e of None \<Rightarrow> [] | Some e' \<Rightarrow> print_expression env d e')"

text \<open>A returned value is followed without a test.\<close>

fun print_stmt :: "lex_env \<Rightarrow> nat \<Rightarrow> ASTStatement \<Rightarrow> string option"
  and print_block :: "lex_env \<Rightarrow> nat \<Rightarrow> ASTBody \<Rightarrow> string option" where
  "print_stmt env d (SExpression l e) = Some (print_expression env d e)"
| "print_stmt env d (SBreak l) = Some (text_line d ''break'')"
| "print_stmt env d (SContinue l) = Some (text_line d ''continue'')"
| "print_stmt env d (SReturn l e) =
    map_option (\<lambda>v. text_line d ''return'' @ print_expression env (d + 1) v) e"
| "print_stmt env d (SIf l e b b2) =
    do {
      t \<leftarrow> print_block env (d + 1) b;
      t2 \<leftarrow> (case b2 of None \<Rightarrow> Some [] | Some b' \<Rightarrow> map_option (\<lambda>t. text_line 0 ''else'' @ t) (print_block env (d + 1) b'));
      Some (text_line d ''if'' @ print_expression env (d + 1) e @ t @ t2)
    }"
| "print_stmt env d (SWhile l e b) =
    map_option (\<lambda>t. text_line d ''while'' @ print_expression env (d + 1) e @ t) (print_block env (d + 1) b)"
| "print_stmt env d (SVarDecl l n t e) =
    Some (text_line d (''var_decl '' @ n @ '': '' @ t) @ print_value env (d + 1) e)"
| "print_stmt env d (SGlobalDecl l n t) = Some (text_line d (''global '' @ n @ '': '' @ t))"
| "print_stmt env d (SConstDecl l n t e) =
    Some (text_line d (''const '' @ n @ '': '' @ t) @ print_value env (d + 1) e)"
| "print_block env d (ASTBody s ss) = map_option concat (those (map (print_stmt env d) ss))"

definition print_structure :: "ASTStructure \<Rightarrow> string" where
  "print_structure st =
    text_line 0 (st_name st @ '' {'')
    @ concat (map (\<lambda>m. text_line 1 (mem_name m @ '': '' @ mem_typeString m @ '','')) (members st))
    @ text_line 0 ''}''"

definition print_function :: "lex_env \<Rightarrow> ASTFunction \<Rightarrow> string option" where
  "print_function env fn =
    do {
      t \<leftarrow> (case fn_body fn of None \<Rightarrow> Some [] | Some b \<Rightarrow> print_block env 1 b);
      Some (fn_name fn @ ''(''
        @ concat (map (\<lambda>p. param_name p @ '': '' @ param_typeString p @ '', '') (fn_parameters fn))
        @ '')'' @ (if return_typeString fn = [] then [] else '': '' @ return_typeString fn) @ [chr_nl] @ t)
    }"

text \<open>The body of a file with its statements and structures, and the whole tree.\<close>

definition print_file_body :: "lex_env \<Rightarrow> AST \<Rightarrow> nat \<Rightarrow> ASTStatement list \<Rightarrow> nat list \<Rightarrow> string option" where
  "print_file_body env a s ss sts =
    do {
      fs \<leftarrow> those (map (\<lambda>f. print_function env (ast_functions a ! f)) (scope_functions (scopes a ! s)));
      ts \<leftarrow> those (map (print_stmt env 0) ss);
      Some (concat (map (\<lambda>i. print_structure (ast_structures a ! i)) sts) @ concat fs @ concat ts)
    }"

definition print_ast :: "lex_env \<Rightarrow> AST \<Rightarrow> Import list \<Rightarrow> string option" where
  "print_ast env a is =
    do {
      g \<leftarrow> print_file_body env a 0 [] [];
      ts \<leftarrow> those (map (\<lambda>imp. do {
        s \<leftarrow> imp_body imp;
        print_file_body env a s (imp_statements imp) (imp_structures imp)
      }) is);
      Some (''Printing AST:'' @ [chr_nl] @ g @ concat ts)
    }"

section \<open>A built piece can be listed\<close>

definition printable_inst :: "Instruction \<Rightarrow> bool" where
  "printable_inst x \<longleftrightarrow> unat (opcode x) < 31 \<and> unat (op0 x) < REG_COUNT
    \<and> (opcode x = opcode_byte INST_INCR \<or> unat (op1 x) < REG_COUNT)"

definition line_ok :: "BytecodePiece \<Rightarrow> nat \<Rightarrow> bool" where
  "line_ok p k \<longleftrightarrow> k < length (line_of_instruction p) \<and> - 1 \<le> line_of_instruction p ! k
    \<and> line_of_instruction p ! k < int (length (lines p))"

definition printable :: "BytecodePiece \<Rightarrow> bool" where
  "printable p \<longleftrightarrow> wf_piece p
    \<and> (\<forall>k\<in>set (index_of_non_immediates p). printable_inst (instructions p ! k) \<and> line_ok p k)"

lemma opcode_byte_less: "unat (opcode_byte c) < 31"
  by (cases c) (simp_all add: opcode_byte_def)

lemma opcode_of_number: "unat b < 31 \<Longrightarrow> \<exists>c. b = opcode_byte c"
proof
  assume b: "unat b < 31"
  have len: "length all_opcodes = 31" by (simp add: all_opcodes_def)
  have "map opcode_num all_opcodes = [0..<31]" by code_simp
  from arg_cong [OF this, of "\<lambda>xs. xs ! unat b"] have "opcode_num (all_opcodes ! unat b) = unat b"
    using b by (simp add: len)
  then show "b = opcode_byte (all_opcodes ! unat b)" by (simp add: opcode_byte_def)
qed

lemma printable_inst_regs [simp]:
  "printable_inst (inst c (reg_byte r) (reg_byte r') d)" "printable_inst (inst c 0 0 d)"
  "printable_inst (inst c (reg_byte r) 0 d)" "printable_inst (inst INST_INCR (reg_byte r) x y)"
  "printable_inst (inst c (reg_byte r) (cast_byte t) d)"
  by (cases t; use reg_num_less in \<open>simp add: printable_inst_def opcode_byte_less REG_COUNT_def\<close>)+

lemma printable_wf: "printable p \<Longrightarrow> wf_piece p"
  by (simp add: printable_def)

lemma printable_range: "printable p \<Longrightarrow> k \<in> set (index_of_non_immediates p) \<Longrightarrow> k < length (instructions p)"
  using inst_layout_range by (fastforce simp: printable_def wf_piece_def)

lemma emitted_ok:
  assumes "printable p" and "printable_inst x"
  shows "\<forall>k\<in>set (index_of_non_immediates (emit x p)). printable_inst (instructions (emit x p) ! k) \<and> line_ok (emit x p) k"
proof
  fix k assume k: "k \<in> set (index_of_non_immediates (emit x p))"
  let ?n = "length (instructions p)"
  show "printable_inst (instructions (emit x p) ! k) \<and> line_ok (emit x p) k"
  proof (cases "k = ?n")
    case True
    then show ?thesis using assms(2) by (simp add: piece_simps line_ok_def emit_def Let_def length_vec_resize)
  next
    case False
    then have old: "k \<in> set (index_of_non_immediates p)" using k by (simp add: piece_simps)
    then have "k < ?n" using printable_range [OF assms(1)] by simp
    then show ?thesis using assms(1) old
      by (auto simp: printable_def piece_simps line_ok_def emit_def Let_def length_vec_resize nth_vec_resize nth_append)
  qed
qed

lemma printable_emit: "printable p \<Longrightarrow> printable_inst x \<Longrightarrow> \<not> has_immediate x \<Longrightarrow> printable (emit x p)"
  using emitted_ok wf_piece_emit unfolding printable_def by blast

lemma printable_emit_imm:
  assumes "printable p" and "printable_inst x" and "has_immediate x"
  shows "printable (emit_imm v (emit x p))"
proof -
  have "k < length (instructions (emit x p))" if "k \<in> set (index_of_non_immediates (emit x p))" for k
    using that printable_range [OF assms(1)] by (auto simp: piece_simps intro: less_SucI)
  moreover have "line_ok (emit_imm v q) k = line_ok q k" for q k by (simp add: line_ok_def emit_imm_def)
  ultimately show ?thesis
    using wf_piece_emit_imm [of p x v] emitted_ok [OF assms(1,2)] assms
    by (simp add: printable_def piece_simps(7-12) nth_append)
qed

lemma printable_vsp [simp]: "printable (p\<lparr>virtual_sp := v\<rparr>) = printable p"
  by (simp add: printable_def line_ok_def)

lemma printable_pop: "printable p \<Longrightarrow> printable (pop_last_inst p)"
proof (cases "index_of_non_immediates p = []")
  case False
  assume p: "printable p"
  have s: "sorted_wrt (<) (index_of_non_immediates p)"
    using p inst_layout_sorted by (auto simp: printable_def wf_piece_def)
  have "k < last (index_of_non_immediates p)" if "k \<in> set (butlast (index_of_non_immediates p))" for k
    using s that False by (metis append_butlast_last_id last_in_set list.set_intros(1) sorted_wrt_append)
  moreover have "line_ok (pop_last_inst p) k = line_ok p k" for k using False by (simp add: line_ok_def pop_last_inst_def)
  ultimately show ?thesis
    using p wf_piece_pop_last [of p] False by (auto simp: printable_def pop_last_inst_def dest: in_set_butlastD)
qed (simp add: pop_last_inst_def)

text \<open>The cell of an immediate is no instruction.\<close>

lemma inst_layout_imm_not: "inst_layout i xs l \<Longrightarrow> i + j \<in> set l \<Longrightarrow> has_immediate (xs ! j) \<Longrightarrow> Suc (i + j) \<notin> set l"
proof (induction arbitrary: j rule: inst_layout.induct)
  case (layout_plain x i xs l)
  show ?case
  proof (cases j)
    case 0
    then show ?thesis using layout_plain by simp
  next
    case (Suc j')
    have "Suc i + j' \<in> set l" using layout_plain.prems(1) Suc by auto
    then show ?thesis using layout_plain.IH [of j'] layout_plain.prems(2) Suc by auto
  qed
next
  case (layout_imm x i xs l c)
  show ?case
  proof (cases j)
    case 0
    then show ?thesis using inst_layout_range [OF layout_imm.hyps(2)] by fastforce
  next
    case (Suc j')
    then have "i + j \<in> set l" using layout_imm.prems(1) by auto
    then have "Suc (Suc i) \<le> i + j" using inst_layout_range [OF layout_imm.hyps(2)] by blast
    then obtain m where "j = Suc (Suc m)" using Suc by (cases j') auto
    then show ?thesis using layout_imm.IH [of m] layout_imm.prems by auto
  qed
qed simp

lemma printable_fix:
  assumes "printable p" and "imm_cell i p" and "fix_jump_here i p = Some q"
  shows "printable q"
proof -
  obtain code where q: "q = p\<lparr>instructions := code\<rparr>" "set_cell i (int (get_pc p) - int i) (instructions p) = Some code"
    using assms(3) by (auto simp: fix_jump_here_def split: Option.bind_splits)
  obtain j where j: "i = Suc j" using assms(2) by (cases i) (auto simp: imm_cell_def)
  have "i \<notin> set (index_of_non_immediates p)"
    using inst_layout_imm_not [of 0 "instructions p" "index_of_non_immediates p" j] assms(1,2) j
    by (auto simp: printable_def wf_piece_def imm_cell_def)
  moreover have "wf_piece q" using wf_piece_fix [OF printable_wf [OF assms(1)] assms(2,3)] .
  ultimately show ?thesis
    using assms(1) q by (auto simp: printable_def line_ok_def set_cell_def nth_list_update split: if_splits)
qed

lemma emission_printable: "emission p q \<Longrightarrow> printable p \<Longrightarrow> printable q"
proof (induction rule: emission.induct)
  case (em_pop p r)
  then show ?case by (auto simp: emit_pop_def Let_def intro!: printable_emit printable_pop)
next
  case (em_fix i p q)
  then show ?case by (blast intro: printable_fix)
next
  case (em_reloc p f i)
  then show ?case by (simp add: addRelocation_def printable_def wf_piece_def line_ok_def)
next
  case (em_line p ln t)
  then show ?case by (fastforce simp: push_line_def printable_def wf_piece_def line_ok_def)
qed (auto simp: emit_ops_defs Let_def less_le_not_le intro!: printable_emit printable_emit_imm)

lemma built_printable: "built p \<Longrightarrow> printable p"
proof (induction rule: built.induct)
  case (built_new n nm)
  then show ?case by (simp add: printable_def wf_piece_def new_piece_def)
next
  case (built_step p q)
  then show ?case by (blast intro: emission_printable)
qed

text \<open>The loop goes from instruction to instruction.\<close>

lemma immediate_opcodes:
  assumes "unat (opcode x) < 31"
  shows "opcode x \<in> opcode_byte ` {INST_LI, INST_JMP, INST_JZ, INST_CALL, INST_MOV_MR_DISP, INST_MOV_RM_DISP, INST_DATAPTR}
    \<longleftrightarrow> has_immediate x"
proof -
  obtain c where c: "opcode x = opcode_byte c" using opcode_of_number [OF assms] by blast
  have "has_immediate x \<longleftrightarrow> INST_LI \<le> c"
    by (simp add: has_immediate_def c opcode_byte_def less_eq_Opcode_def) (cases c; simp)
  then show ?thesis unfolding c by (cases c) (auto simp: less_eq_Opcode_def)
qed

lemma print_debug_line_total: "line_ok p k \<Longrightarrow> print_debug_line p k seen \<noteq> None"
  by (auto simp: line_ok_def print_debug_line_def split: prod.splits)

lemma print_operands_total: "printable_inst x \<Longrightarrow> print_operands x \<noteq> None"
  by (auto simp: printable_inst_def print_operands_def register_name_def register_names_def REG_COUNT_def)

lemma opcode_name_total: "unat b < 31 \<Longrightarrow> nth_opt opcode_names (unat b) \<noteq> None"
  by (simp add: opcode_names_def)

lemma print_loop_layout:
  "inst_layout i xs l \<Longrightarrow> xs = drop i (instructions p) \<Longrightarrow> i \<le> length (instructions p) \<Longrightarrow>
   \<forall>k\<in>set l. printable_inst (instructions p ! k) \<and> line_ok p k \<Longrightarrow>
   \<exists>es. print_loop pci None p dbg nl (length (instructions p)) i seen = Some es \<and> map fst es = l"
proof (induction arbitrary: seen rule: inst_layout.induct)
  case (layout_nil i)
  then show ?case by (subst print_loop.simps) simp
next
  case (layout_plain x i xs l)
  have i: "i < length (instructions p)" "instructions p ! i = x" "xs = drop (Suc i) (instructions p)"
    using layout_plain.prems(1) by (metis drop_eq_Nil list.distinct(1) not_le, metis nth_via_drop, metis drop_Suc list.sel(3) tl_drop)
  have x: "printable_inst x" "line_ok p i" using layout_plain.prems(3) i(2) by auto
  obtain line seen' where line: "(if dbg then print_debug_line p i seen else Some ([], seen)) = Some (line, seen')"
    using print_debug_line_total [OF x(2), of seen] by (cases dbg) auto
  obtain name ops where "nth_opt opcode_names (unat (opcode x)) = Some name" "print_operands x = Some ops"
    using opcode_name_total [of "opcode x"] print_operands_total [OF x(1)] x(1) unfolding printable_inst_def by blast
  moreover obtain es where "print_loop pci None p dbg nl (length (instructions p)) (Suc i) seen' = Some es" "map fst es = l"
    using layout_plain.IH [of seen'] i layout_plain.prems by auto
  moreover have "opcode x \<notin> opcode_byte ` {INST_LI, INST_JMP, INST_JZ, INST_CALL, INST_MOV_MR_DISP, INST_MOV_RM_DISP, INST_DATAPTR}"
    using immediate_opcodes [of x] x(1) layout_plain.hyps(1) unfolding printable_inst_def by blast
  ultimately show ?case using i line by (subst print_loop.simps) (simp add: Let_def del: image_insert insert_iff)
next
  case (layout_imm x i xs l c)
  have i: "i < length (instructions p)" "instructions p ! i = x" "c # xs = drop (Suc i) (instructions p)"
    using layout_imm.prems(1) by (metis drop_eq_Nil list.distinct(1) not_le, metis nth_via_drop, metis drop_Suc list.sel(3) tl_drop)
  then have j: "Suc i < length (instructions p)" "xs = drop (Suc (Suc i)) (instructions p)"
    by (metis drop_eq_Nil list.distinct(1) not_le, metis drop_Suc list.sel(3) tl_drop)
  have x: "printable_inst x" "line_ok p i" using layout_imm.prems(3) i(2) by auto
  obtain line seen' where line: "(if dbg then print_debug_line p i seen else Some ([], seen)) = Some (line, seen')"
    using print_debug_line_total [OF x(2), of seen] by (cases dbg) auto
  obtain name ops where "nth_opt opcode_names (unat (opcode x)) = Some name" "print_operands x = Some ops"
    using opcode_name_total [of "opcode x"] print_operands_total [OF x(1)] x(1) unfolding printable_inst_def by blast
  moreover obtain imm where "print_immediate pci None p x (Suc i) = Some imm"
    using j(1) by (cases "print_immediate pci None p x (Suc i)"; simp add: print_immediate_def Let_def split: if_splits)
  moreover obtain es where "print_loop pci None p dbg nl (length (instructions p)) (Suc (Suc i)) seen' = Some es" "map fst es = l"
    using layout_imm.IH [of seen'] j layout_imm.prems by auto
  moreover have "opcode x \<in> opcode_byte ` {INST_LI, INST_JMP, INST_JZ, INST_CALL, INST_MOV_MR_DISP, INST_MOV_RM_DISP, INST_DATAPTR}"
    using immediate_opcodes [of x] x(1) layout_imm.hyps(1) unfolding printable_inst_def by blast
  ultimately show ?case using i line by (subst print_loop.simps) (simp add: Let_def del: image_insert insert_iff)
qed

section \<open>Properties\<close>



text \<open>
  A call that is not linked yet is shown with the name of the piece before the one it calls, and
  a call of the first piece as unresolved: the index of a function counts from 0 before linking.
\<close>

lemma unlinked_call_name:
  assumes "index_of_immediate r = i" and "rel_function r = Some f" and "0 < pci f" and "pci f \<le> int (length (pieces b))"
  shows "unlinked_name pci b i (r # rs) = Some (piece_name (pieces b ! nat (pci f - 1)))"
  using assms by (simp add: piece_name_at_def getPiece_def)

end
